(* ===== verification/Prelude.thy ===== *)
theory Prelude
  imports
    Main
    "HOL-Library.AList"
    "HOL-Library.Word"
    "HOL-Library.List_Lexorder"
    "HOL-Library.Char_ord"
    "HOL-Library.Product_Lexorder"
    "HOL-Library.Option_ord"
    "HOL-Library.Multiset"
    "HOL-Library.Sublist"
begin

unbundle bit_operations_syntax

text \<open>
  Shared vocabulary of the development.  Machine integers keep their width where the code
  relies on it (\<open>u8\<close>, \<open>u16\<close>, \<open>u32\<close>); log sequence numbers are naturals.  A Rust
  \<open>String\<close> is its UTF-8 byte string, an Isabelle \<^typ>\<open>string\<close>.  A \<open>HashMap\<close> is an
  association list with distinct keys, whose order stands for the unspecified iteration
  order; a \<open>BTreeMap\<close> is an association list kept sorted by key.  Instants are integers
  (nanoseconds), and an operation receives the clock reading it uses as an argument.
\<close>

named_theorems hm_simps "rules about hash maps"
named_theorems kernel_defs "definitions of the kernel that component proofs unfold"
named_theorems store_defs "definitions of the store operations"

type_synonym byte = "8 word"
type_synonym u8 = "8 word"
type_synonym u16 = "16 word"
type_synonym u32 = "32 word"
type_synonym instant = int

section \<open>Hash maps\<close>

type_synonym ('k, 'v) hmap = "('k \<times> 'v) list"

definition hm_get :: "('k, 'v) hmap \<Rightarrow> 'k \<Rightarrow> 'v option" where
  "hm_get m k = map_of m k"

definition hm_insert :: "'k \<Rightarrow> 'v \<Rightarrow> ('k, 'v) hmap \<Rightarrow> ('k, 'v) hmap" where
  "hm_insert k v m = AList.update k v m"

definition hm_remove :: "'k \<Rightarrow> ('k, 'v) hmap \<Rightarrow> ('k, 'v) hmap" where
  "hm_remove k m = AList.delete k m"

definition hm_values :: "('k, 'v) hmap \<Rightarrow> 'v list" where
  "hm_values m = map snd m"

definition hm_keys :: "('k, 'v) hmap \<Rightarrow> 'k list" where
  "hm_keys m = map fst m"

definition hm_contains :: "('k, 'v) hmap \<Rightarrow> 'k \<Rightarrow> bool" where
  "hm_contains m k = (hm_get m k \<noteq> None)"

definition hm_ok :: "('k, 'v) hmap \<Rightarrow> bool" where
  "hm_ok m = distinct (map fst m)"

text \<open>\<open>map.entry(k).or_default().push(v)\<close> on a map of vectors.\<close>

definition hm_push :: "'k \<Rightarrow> 'v \<Rightarrow> ('k, 'v list) hmap \<Rightarrow> ('k, 'v list) hmap" where
  "hm_push k v m = hm_insert k ((case hm_get m k of None \<Rightarrow> [] | Some h \<Rightarrow> h) @ [v]) m"

text \<open>The contract of a map: what a lookup returns after an insertion or a removal.\<close>

locale map_interface =
  fixes get :: "'m \<Rightarrow> 'k \<Rightarrow> 'v option"
    and ins :: "'k \<Rightarrow> 'v \<Rightarrow> 'm \<Rightarrow> 'm"
    and del :: "'k \<Rightarrow> 'm \<Rightarrow> 'm"
    and inv :: "'m \<Rightarrow> bool"
  assumes get_ins: "inv m \<Longrightarrow> get (ins k v m) k' = (if k' = k then Some v else get m k')"
    and get_del: "inv m \<Longrightarrow> get (del k m) k' = (if k' = k then None else get m k')"
    and inv_ins: "inv m \<Longrightarrow> inv (ins k v m)"
    and inv_del: "inv m \<Longrightarrow> inv (del k m)"
begin

lemma get_fold_ins_other:
  "inv m \<Longrightarrow> k \<notin> fst ` set kvs \<Longrightarrow> get (fold (\<lambda>(k, v). ins k v) kvs m) k = get m k"
  by (induction kvs arbitrary: m) (auto simp: get_ins inv_ins)

lemma inv_fold_ins: "inv m \<Longrightarrow> inv (fold (\<lambda>(k, v). ins k v) kvs m)"
  by (induction kvs arbitrary: m) (auto simp: inv_ins)

lemma get_fold_ins:
  "inv m \<Longrightarrow> distinct (map fst kvs) \<Longrightarrow> (k, v) \<in> set kvs \<Longrightarrow>
     get (fold (\<lambda>(k, v). ins k v) kvs m) k = Some v"
  by (induction kvs arbitrary: m)
    (auto simp: get_ins inv_ins get_fold_ins_other image_iff)

end

lemma hm_get_empty [simp]: "hm_get [] k = None"
  by (simp add: hm_get_def)

lemma hm_ok_empty [simp]: "hm_ok []"
  by (simp add: hm_ok_def)

lemma hm_get_insert [simp]:
  "hm_get (hm_insert k v m) k' = (if k' = k then Some v else hm_get m k')"
  by (simp add: hm_get_def hm_insert_def update_conv)

lemma hm_ok_insert [simp]: "hm_ok m \<Longrightarrow> hm_ok (hm_insert k v m)"
  by (simp add: hm_ok_def hm_insert_def distinct_update)

lemma hm_get_remove [simp]:
  "hm_ok m \<Longrightarrow> hm_get (hm_remove k m) k' = (if k' = k then None else hm_get m k')"
  by (simp add: hm_get_def hm_remove_def delete_conv)

lemma hm_ok_remove [simp]: "hm_ok m \<Longrightarrow> hm_ok (hm_remove k m)"
  by (simp add: hm_ok_def hm_remove_def distinct_delete)

interpretation hm: map_interface hm_get hm_insert hm_remove hm_ok
  by unfold_locales auto

lemma hm_get_push [simp]:
  "hm_get (hm_push k v m) k' =
     (if k' = k then Some ((case hm_get m k of None \<Rightarrow> [] | Some h \<Rightarrow> h) @ [v]) else hm_get m k')"
  by (simp add: hm_push_def)

lemma hm_ok_push [simp]: "hm_ok m \<Longrightarrow> hm_ok (hm_push k v m)"
  by (simp add: hm_push_def)

lemma hm_contains_insert [simp]:
  "hm_contains (hm_insert k v m) k' = (k' = k \<or> hm_contains m k')"
  by (simp add: hm_contains_def)

lemma hm_contains_push [simp]: "hm_contains (hm_push k v m) k' = (k' = k \<or> hm_contains m k')"
  by (simp add: hm_contains_def)

lemma hm_contains_empty [simp]: "\<not> hm_contains [] k"
  by (simp add: hm_contains_def)

text \<open>The history stored under a key, empty where there is none.\<close>

definition hist_of :: "('k, 'v list) hmap \<Rightarrow> 'k \<Rightarrow> 'v list" where
  "hist_of m k = (case hm_get m k of None \<Rightarrow> [] | Some h \<Rightarrow> h)"

lemma hist_of_empty [simp]: "hist_of [] k = []"
  by (simp add: hist_of_def)

lemma hist_of_push [simp]:
  "hist_of (hm_push k v m) k' = (if k' = k then hist_of m k @ [v] else hist_of m k')"
  by (simp add: hist_of_def)

lemma hist_of_insert [simp]:
  "hist_of (hm_insert k h m) k' = (if k' = k then h else hist_of m k')"
  by (simp add: hist_of_def)

lemma hist_of_remove [simp]:
  "hm_ok m \<Longrightarrow> hist_of (hm_remove k m) k' = (if k' = k then [] else hist_of m k')"
  by (simp add: hist_of_def)

lemma hm_values_iff: "hm_ok m \<Longrightarrow> v \<in> set (hm_values m) \<longleftrightarrow> (\<exists>k. hm_get m k = Some v)"
  by (force simp: hm_ok_def hm_values_def hm_get_def)

lemma hm_keys_iff: "k \<in> set (hm_keys m) \<longleftrightarrow> hm_contains m k"
  by (simp add: hm_keys_def hm_contains_def hm_get_def map_of_eq_None_iff)

lemma hm_get_mem: "hm_get m k = Some v \<Longrightarrow> (k, v) \<in> set m"
  by (simp add: hm_get_def map_of_SomeD)

lemma hm_mem_get: "hm_ok m \<Longrightarrow> (k, v) \<in> set m \<Longrightarrow> hm_get m k = Some v"
  by (simp add: hm_ok_def hm_get_def)

section \<open>Ordered maps\<close>

text \<open>\<open>BTreeMap\<close>: the entry for a key is replaced in place or inserted at its rank.\<close>

fun bt_insert :: "'k::linorder \<Rightarrow> 'v \<Rightarrow> ('k \<times> 'v) list \<Rightarrow> ('k \<times> 'v) list" where
  "bt_insert k v [] = [(k, v)]"
| "bt_insert k v ((a, b) # m) =
     (if k < a then (k, v) # (a, b) # m
      else if k = a then (k, v) # m
      else (a, b) # bt_insert k v m)"

definition bt_ok :: "('k::linorder \<times> 'v) list \<Rightarrow> bool" where
  "bt_ok m = sorted_wrt (<) (map fst m)"

lemma bt_get_insert [simp]: "map_of (bt_insert k v m) k' = (if k' = k then Some v else map_of m k')"
  by (induction k v m rule: bt_insert.induct) auto

lemma bt_keys_insert: "fst ` set (bt_insert k v m) = insert k (fst ` set m)"
  by (induction k v m rule: bt_insert.induct) auto

lemma bt_ok_insert [simp]: "bt_ok m \<Longrightarrow> bt_ok (bt_insert k v m)"
  by (induction k v m rule: bt_insert.induct) (auto simp: bt_ok_def bt_keys_insert image_iff)

lemma bt_ok_empty [simp]: "bt_ok []"
  by (simp add: bt_ok_def)

lemma bt_ok_distinct: "bt_ok m \<Longrightarrow> distinct (map fst m)"
  unfolding bt_ok_def by (simp add: strict_sorted_iff)

text \<open>\<open>entry(k).or_default().extend(s)\<close> on a map of sets.\<close>

definition bt_extend :: "'k::linorder \<Rightarrow> 'a set \<Rightarrow> ('k \<times> 'a set) list \<Rightarrow> ('k \<times> 'a set) list" where
  "bt_extend k s m = bt_insert k ((case map_of m k of None \<Rightarrow> {} | Some t \<Rightarrow> t) \<union> s) m"

text \<open>The set held under a key, empty where there is none.\<close>

definition bt_set :: "('k \<times> 'a set) list \<Rightarrow> 'k \<Rightarrow> 'a set" where
  "bt_set m k = (case map_of m k of None \<Rightarrow> {} | Some t \<Rightarrow> t)"

lemma bt_set_extend [simp]:
  "bt_set (bt_extend k s m) k' = (if k' = k then bt_set m k \<union> s else bt_set m k')"
  by (simp add: bt_set_def bt_extend_def)

lemma bt_set_empty [simp]: "bt_set [] k = {}"
  by (simp add: bt_set_def)

lemma bt_ok_extend [simp]: "bt_ok m \<Longrightarrow> bt_ok (bt_extend k s m)"
  by (simp add: bt_extend_def)

section \<open>Lists\<close>

text \<open>The last element of a vector, \<open>Vec::last\<close>.\<close>

definition last_opt :: "'a list \<Rightarrow> 'a option" where
  "last_opt xs = (if xs = [] then None else Some (last xs))"

lemma last_opt_simps [simp]:
  "last_opt [] = None" "last_opt [x] = Some x" "last_opt (xs @ [x]) = Some x"
  by (simp_all add: last_opt_def)

lemma last_opt_in: "last_opt xs = Some x \<Longrightarrow> x \<in> set xs"
  by (auto simp: last_opt_def split: if_splits)

text \<open>The first element that a \<open>HashSet::insert\<close> loop finds already present.\<close>

fun first_repeat :: "'a list \<Rightarrow> 'a list \<Rightarrow> 'a option" where
  "first_repeat seen [] = None"
| "first_repeat seen (x # xs) = (if x \<in> set seen then Some x else first_repeat (x # seen) xs)"

lemma first_repeat_None:
  "first_repeat seen xs = None \<longleftrightarrow> distinct xs \<and> set xs \<inter> set seen = {}"
  by (induction xs arbitrary: seen) auto

lemma first_repeat_Some:
  "first_repeat seen xs = Some x \<Longrightarrow> x \<in> set xs \<and> (x \<in> set seen \<or> 2 \<le> count_list xs x)"
proof (induction xs arbitrary: seen)
  case Nil
  then show ?case by simp
next
  case (Cons y ys)
  show ?case
  proof (cases "y \<in> set seen")
    case True
    with Cons.prems show ?thesis by simp
  next
    case False
    with Cons.prems have r: "first_repeat (y # seen) ys = Some x" by simp
    then have "x \<in> set ys" and "x \<in> set (y # seen) \<or> 2 \<le> count_list ys x"
      using Cons.IH by blast+
    moreover from this(1) have "1 \<le> count_list ys x"
      by (metis count_list_0_iff less_one not_less)
    ultimately show ?thesis by auto
  qed
qed

lemma sorted_wrt_less_append:
  "sorted_wrt (<) (xs @ ys) \<longleftrightarrow>
     sorted_wrt (<) xs \<and> sorted_wrt (<) ys \<and> (\<forall>x\<in>set xs. \<forall>y\<in>set ys. x < y)"
  by (simp add: sorted_wrt_append)

lemma list_all_filter_id: "(\<And>x. x \<in> set xs \<Longrightarrow> P x) \<Longrightarrow> filter P xs = xs"
  by (simp add: filter_id_conv)

lemma filter_same_length: "length (filter P xs) = length xs \<Longrightarrow> filter P xs = xs"
proof (induction xs)
  case (Cons x xs)
  have "length (filter P xs) \<noteq> Suc (length xs)" using length_filter_le [of P xs] by linarith
  with Cons show ?case by (auto split: if_splits)
qed simp

lemma map_filter_member: "x \<in> set (List.map_filter g xs) \<longleftrightarrow> (\<exists>i\<in>set xs. g i = Some x)"
  by (induction xs) (auto simp: map_filter_simps split: option.splits)

lemma map_filter_cong_list:
  "(\<And>x. x \<in> set xs \<Longrightarrow> f x = g x) \<Longrightarrow> List.map_filter f xs = List.map_filter g xs"
  by (induction xs) (auto simp: map_filter_simps split: option.split)

lemma find_key_iff:
  "distinct (map f xs) \<Longrightarrow> find (\<lambda>x. f x = k) xs = Some x \<longleftrightarrow> x \<in> set xs \<and> f x = k"
  by (induction xs) auto

text \<open>Collecting rows into a hash map by a key.\<close>

lemma hm_collect:
  "inj_on f (set rows) \<Longrightarrow>
     hm_get (fold (\<lambda>m. hm_insert (f m) m) rows acc) k =
       (case find (\<lambda>m. f m = k) rows of Some m \<Rightarrow> Some m | None \<Rightarrow> hm_get acc k)"
proof (induction rows arbitrary: acc)
  case (Cons a rows)
  then have "inj_on f (set rows)" by (auto simp: inj_on_def)
  moreover have "find (\<lambda>m. f m = f a) rows = Some m \<Longrightarrow> m = a" for m
    using Cons.prems by (auto simp: find_Some_iff inj_on_def)
  ultimately show ?case using Cons.IH by (auto split: option.splits)
qed simp

section \<open>Results\<close>

text \<open>The \<open>?\<close> operator on a \<open>Result\<close>.\<close>

definition and_then :: "'e + 'a \<Rightarrow> ('a \<Rightarrow> 'e + 'b) \<Rightarrow> 'e + 'b" where
  "and_then r f = (case r of Inl e \<Rightarrow> Inl e | Inr x \<Rightarrow> f x)"

lemma and_then_simps [simp]:
  "and_then (Inl e) f = Inl e" "and_then (Inr x) f = f x"
  by (simp_all add: and_then_def)

lemma and_then_Inr: "and_then r f = Inr y \<longleftrightarrow> (\<exists>x. r = Inr x \<and> f x = Inr y)"
  by (cases r) auto

text \<open>\<open>ok_or\<close>.\<close>

definition ok_or :: "'a option \<Rightarrow> 'e \<Rightarrow> 'e + 'a" where
  "ok_or v e = (case v of None \<Rightarrow> Inl e | Some x \<Rightarrow> Inr x)"

lemma ok_or_simps [simp]: "ok_or None e = Inl e" "ok_or (Some x) e = Inr x"
  by (simp_all add: ok_or_def)

section \<open>Strings\<close>

text \<open>Decimal \<open>Display\<close> of an unsigned integer.\<close>

fun show_nat :: "nat \<Rightarrow> string" where
  "show_nat n = (if n < 10 then [char_of (n + 48)] else show_nat (n div 10) @ [char_of (n mod 10 + 48)])"

declare show_nat.simps [simp del]

lemma show_nat_inj: "show_nat m = show_nat n \<Longrightarrow> m = n"
proof (induction m arbitrary: n rule: show_nat.induct)
  case (1 m)
  have digit: "(char_of (a + 48) :: char) = char_of (b + 48) \<Longrightarrow> a = b" if "a < 10" "b < 10" for a b :: nat
  proof -
    assume "(char_of (a + 48) :: char) = char_of (b + 48)"
    then have "(of_char (char_of (a + 48) :: char) :: nat) = of_char (char_of (b + 48) :: char)" by simp
    with that show "a = b" by simp
  qed
  have ne: "show_nat k \<noteq> []" "[] \<noteq> show_nat k" for k by (subst show_nat.simps, simp)+
  show ?case
  proof (cases "m < 10")
    case True
    with "1.prems" ne show ?thesis
      by (subst (asm) (1 2) show_nat.simps) (auto split: if_splits dest: digit)
  next
    case False
    with "1.prems" ne have n: "\<not> n < 10" "show_nat (m div 10) = show_nat (n div 10)"
        "(char_of (m mod 10 + 48) :: char) = char_of (n mod 10 + 48)"
      by (subst (asm) (1 2) show_nat.simps; auto split: if_splits)+
    then have "m div 10 = n div 10" "m mod 10 = n mod 10"
      using "1.IH" [OF False] digit [of "m mod 10" "n mod 10"] by auto
    then show ?thesis by (metis div_mult_mod_eq)
  qed
qed

text \<open>The UTF-8 encodings of the code points with the \<open>White_Space\<close> property.\<close>

definition bytes_str :: "nat list \<Rightarrow> string" where
  "bytes_str ns = map char_of ns"

definition white_space :: "string list" where
  "white_space = map bytes_str
     ([[9], [10], [11], [12], [13], [32], [0xC2, 0x85], [0xC2, 0xA0], [0xE1, 0x9A, 0x80]]
      @ map (\<lambda>b. [0xE2, 0x80, b]) [0x80, 0x81, 0x82, 0x83, 0x84, 0x85, 0x86, 0x87, 0x88, 0x89, 0x8A, 0xA8, 0xA9, 0xAF]
      @ [[0xE2, 0x81, 0x9F], [0xE3, 0x80, 0x80]])"

text \<open>Drop leading code points of a set given by their encodings.\<close>

function strip_front :: "string list \<Rightarrow> string \<Rightarrow> string" where
  "strip_front ws s =
     (case find (\<lambda>w. w \<noteq> [] \<and> prefix w s) ws of
        None \<Rightarrow> s
      | Some w \<Rightarrow> strip_front ws (drop (length w) s))"
  by pat_completeness auto
termination
proof (relation "measure (\<lambda>(ws, s). length s)")
  fix ws and s w :: string
  assume "find (\<lambda>w. w \<noteq> [] \<and> prefix w s) ws = Some w"
  then have "w \<noteq> []" "prefix w s" by (auto simp: find_Some_iff)
  then show "((ws, drop (length w) s), (ws, s)) \<in> measure (\<lambda>(ws, s). length s)"
    by (cases s) (auto simp: diff_less_Suc)
qed simp

declare strip_front.simps [simp del]

text \<open>\<open>str::trim\<close>.\<close>

definition trim_str :: "string \<Rightarrow> string" where
  "trim_str s = rev (strip_front (map rev white_space) (rev (strip_front white_space s)))"

end
