(* ===== verification/Draft_Components.thy ===== *)
theory Draft_Components
  imports Prelude
begin

text \<open>
  The union-find structure of \<open>crates/exocortex-adapter-sdk/src/split.rs\<close> (\<open>split_unit\<close>): a map
  from keys to parents, the walk to the root, path compression, and the union of two classes. The
  loops are partial functions, so that an endless walk and an index panic are the value None; on a
  forest every walk returns, and the classes are the connected components of the edges joined.
\<close>

section \<open>The structure\<close>

type_synonym 'k parents = "('k \<times> 'k) list"

partial_function (option) walk_root :: "('k \<times> 'k) list \<Rightarrow> 'k \<Rightarrow> 'k option" where
  "walk_root parent cur =
     (case map_of parent cur of
        None \<Rightarrow> None
      | Some p \<Rightarrow> if p = cur then Some cur else walk_root parent p)"

partial_function (option) compress_path :: "('k::linorder \<times> 'k) list \<Rightarrow> 'k \<Rightarrow> 'k \<Rightarrow> ('k \<times> 'k) list option" where
  "compress_path parent walk root =
     (if walk = root then Some parent
      else (case map_of parent walk of
              None \<Rightarrow> None
            | Some p \<Rightarrow> compress_path (bt_insert walk root parent) p root))"

definition find_root :: "'k::linorder \<Rightarrow> 'k parents \<Rightarrow> ('k \<times> 'k parents) option" where
  "find_root k parent =
     (case walk_root parent k of
        None \<Rightarrow> None
      | Some root \<Rightarrow> map_option (Pair root) (compress_path parent k root))"

definition join_roots :: "'k::linorder \<Rightarrow> 'k \<Rightarrow> 'k parents \<Rightarrow> 'k parents option" where
  "join_roots x y parent =
     (case find_root x parent of
        None \<Rightarrow> None
      | Some (a, parent1) \<Rightarrow>
          (case find_root y parent1 of
             None \<Rightarrow> None
           | Some (b, parent2) \<Rightarrow> Some (if a \<noteq> b then bt_insert a b parent2 else parent2)))"

fun join_all :: "('k::linorder \<times> 'k) list \<Rightarrow> 'k parents \<Rightarrow> 'k parents option" where
  "join_all [] parent = Some parent"
| "join_all ((x, y) # es) parent =
     (case join_roots x y parent of None \<Rightarrow> None | Some parent1 \<Rightarrow> join_all es parent1)"

definition singletons :: "'k::linorder list \<Rightarrow> 'k parents" where
  "singletons ks = fold (\<lambda>k. bt_insert k k) ks []"

section \<open>Representatives\<close>

inductive rep :: "('k \<times> 'k) list \<Rightarrow> 'k \<Rightarrow> 'k \<Rightarrow> bool" for parent where
  rep_root: "map_of parent k = Some k \<Longrightarrow> rep parent k k"
| rep_step: "map_of parent k = Some p \<Longrightarrow> p \<noteq> k \<Longrightarrow> rep parent p r \<Longrightarrow> rep parent k r"

text \<open>Ranks that grow along the parents, and parents that are keys: a forest.\<close>

definition ranked :: "('k \<Rightarrow> nat) \<Rightarrow> ('k \<times> 'k) list \<Rightarrow> bool" where
  "ranked rank parent \<longleftrightarrow>
     (\<forall>k p. map_of parent k = Some p \<longrightarrow> map_of parent p \<noteq> None \<and> (p = k \<or> rank k < rank p))"

definition forest :: "('k \<times> 'k) list \<Rightarrow> bool" where
  "forest parent \<longleftrightarrow> (\<exists>rank. ranked rank parent)"

lemma rep_is_root: "rep parent k r \<Longrightarrow> map_of parent r = Some r"
  by (induction rule: rep.induct) auto

lemma rep_key: "rep parent k r \<Longrightarrow> map_of parent k \<noteq> None"
  by (cases rule: rep.cases) auto

lemma rep_of_root: "map_of parent k = Some k \<Longrightarrow> rep parent k r \<longleftrightarrow> r = k"
  by (auto intro: rep_root elim: rep.cases)

lemma rep_fun: "rep parent k r \<Longrightarrow> rep parent k s \<Longrightarrow> r = s"
proof (induction rule: rep.induct)
  case (rep_step k p r)
  from rep_step.prems show ?case using rep_step by (cases rule: rep.cases) auto
qed (auto simp: rep_of_root)

lemma rep_rank: "rep parent k r \<Longrightarrow> ranked rank parent \<Longrightarrow> k = r \<or> rank k < rank r"
  by (induction rule: rep.induct) (force simp: ranked_def)+

lemma rank_bound: "\<exists>m. \<forall>k. map_of parent k \<noteq> None \<longrightarrow> (rank k :: nat) \<le> m"
proof -
  have "finite (rank ` dom (map_of parent))" by (simp add: finite_dom_map_of)
  then show ?thesis by (intro exI [of _ "Max (rank ` dom (map_of parent))"]) (auto intro: Max_ge)
qed

lemma rep_total:
  assumes "ranked rank parent" "map_of parent k \<noteq> None" shows "\<exists>r. rep parent k r"
proof -
  obtain m where m: "\<And>k. map_of parent k \<noteq> None \<Longrightarrow> rank k \<le> m" using rank_bound by metis
  from assms(2) show ?thesis
  proof (induction "m - rank k" arbitrary: k rule: less_induct)
    case less
    then obtain p where p: "map_of parent k = Some p" by auto
    show ?case
    proof (cases "p = k")
      case True
      with p show ?thesis using rep_root by metis
    next
      case False
      with assms(1) p have "map_of parent p \<noteq> None" "rank k < rank p" by (auto simp: ranked_def)
      then have "\<exists>r. rep parent p r" using less.hyps m [of p] by (metis diff_less_mono2 less_le_trans)
      with p False show ?thesis using rep_step by metis
    qed
  qed
qed

lemma walk_root_rep: "rep parent k r \<Longrightarrow> walk_root parent k = Some r"
  by (induction rule: rep.induct) (auto simp: walk_root.simps)

section \<open>Compression\<close>

lemma relink:
  fixes parent :: "('k::linorder \<times> 'k) list"
  assumes r: "ranked rank parent" and k: "rep parent k root"
  shows "ranked rank (bt_insert k root parent)" "rep (bt_insert k root parent) x y \<longleftrightarrow> rep parent x y"
proof -
  let ?new = "bt_insert k root parent"
  note root = rep_is_root [OF k]
  show rk: "ranked rank ?new" using r root rep_rank [OF k r] rep_key [OF k] by (auto simp: ranked_def)
  have new_root: "rep ?new root root" using root by (auto intro: rep.rep_root)
  have fwd: "rep ?new x y" if "rep parent x y" for x y
    using that
  proof (induction rule: rep.induct)
    case (rep_root x)
    show ?case
    proof (cases "x = k")
      case True
      with rep_root k have "root = k" by (simp add: rep_of_root)
      with True new_root show ?thesis by simp
    qed (use rep_root in \<open>auto intro: rep.rep_root\<close>)
  next
    case (rep_step x p y)
    show ?case
    proof (cases "x = k")
      case True
      with rep_step k have "y = root" using rep.rep_step rep_fun by metis
      then show ?thesis using True new_root rep.rep_step [of ?new k root root] by (cases "root = k") auto
    next
      case False
      with rep_step show ?thesis by (auto intro: rep.rep_step)
    qed
  qed
  show "rep ?new x y \<longleftrightarrow> rep parent x y"
  proof
    assume new: "rep ?new x y"
    have "map_of parent x \<noteq> None" using rep_key [OF new] rep_key [OF k] by (auto split: if_splits)
    with rep_total [OF r] obtain z where "rep parent x z" by blast
    with fwd new rep_fun show "rep parent x y" by metis
  qed (rule fwd)
qed

lemma compress_ok:
  fixes parent :: "('k::linorder \<times> 'k) list"
  assumes "ranked rank parent" "rep parent k root"
  shows "\<exists>parent'. compress_path parent k root = Some parent' \<and> ranked rank parent' \<and>
    dom (map_of parent') = dom (map_of parent) \<and> (\<forall>x y. rep parent' x y \<longleftrightarrow> rep parent x y)"
proof -
  have "\<exists>parent'. compress_path parent k root = Some parent' \<and> ranked rank parent' \<and>
      dom (map_of parent') = dom (map_of parent) \<and> (\<forall>x y. rep parent' x y \<longleftrightarrow> rep parent x y)"
    if "rank root - rank k = d" for d
    using assms that
  proof (induction d arbitrary: parent k rule: less_induct)
    case (less d)
    show ?case
    proof (cases "k = root")
      case True
      with less.prems show ?thesis by (auto simp: compress_path.simps)
    next
      case False
      from less.prems(2) obtain p where p: "map_of parent k = Some p" "p \<noteq> k" "rep parent p root"
        by (cases rule: rep.cases) (use False in auto)
      let ?new = "bt_insert k root parent"
      note new = relink [OF less.prems(1,2)]
      have rank: "rank k < rank p" "rank p \<le> rank root"
        using less.prems(1) p rep_rank [OF p(3) less.prems(1)] by (auto simp: ranked_def)
      have lt: "rank root - rank p < d" using rank less.prems(3) by auto
      have "rep ?new p root" using p(3) new(2) by blast
      from less.IH [OF lt new(1) this refl] obtain parent' where
        "compress_path ?new p root = Some parent'" "ranked rank parent'" "dom (map_of parent') = dom (map_of ?new)"
        "\<And>x y. rep parent' x y \<longleftrightarrow> rep ?new x y" by blast
      moreover have "dom (map_of ?new) = dom (map_of parent)" using p(1) by (auto split: if_splits)
      ultimately show ?thesis using False p(1) new(2) by (auto simp: compress_path.simps)
    qed
  qed
  then show ?thesis by blast
qed

lemma find_root_ok:
  fixes parent :: "('k::linorder \<times> 'k) list"
  assumes "forest parent" "map_of parent k \<noteq> None"
  obtains root parent' where "find_root k parent = Some (root, parent')" "rep parent k root" "forest parent'"
    "dom (map_of parent') = dom (map_of parent)" "\<And>x y. rep parent' x y \<longleftrightarrow> rep parent x y"
proof -
  from assms(1) obtain rank where r: "ranked rank parent" by (auto simp: forest_def)
  from rep_total [OF r assms(2)] obtain root where root: "rep parent k root" by blast
  from compress_ok [OF r root] obtain parent' where
    "compress_path parent k root = Some parent'" "ranked rank parent'" "dom (map_of parent') = dom (map_of parent)"
    "\<forall>x y. rep parent' x y \<longleftrightarrow> rep parent x y" by blast
  with root walk_root_rep [OF root] that [of root parent'] show thesis by (auto simp: find_root_def forest_def)
qed


section \<open>Union\<close>

lemma union_roots:
  fixes parent :: "('k::linorder \<times> 'k) list"
  assumes f: "forest parent" and a: "map_of parent a = Some a" and b: "map_of parent b = Some b" and ab: "a \<noteq> b"
  shows "forest (bt_insert a b parent)"
    "rep (bt_insert a b parent) x y \<longleftrightarrow> (if rep parent x a then y = b else rep parent x y)"
proof -
  let ?new = "bt_insert a b parent"
  from f obtain rank where r: "ranked rank parent" by (auto simp: forest_def)
  obtain m where m: "\<And>k. map_of parent k \<noteq> None \<Longrightarrow> rank k \<le> m" using rank_bound by metis
  define rank' where "rank' x = (if rep parent x b then rank x + Suc m else rank x)" for x
  have step: "rep parent p z \<longleftrightarrow> rep parent k z" if "map_of parent k = Some p" for k p z
    using that by (metis option.inject rep.cases rep_of_root rep_step)
  have "ranked rank' ?new" unfolding ranked_def
  proof (intro allI impI)
    fix k p
    assume kp: "map_of ?new k = Some p"
    show "map_of ?new p \<noteq> None \<and> (p = k \<or> rank' k < rank' p)"
    proof (cases "k = a")
      case True
      have "\<not> rep parent a b" using a ab by (simp add: rep_of_root)
      with True kp m [of a] a b show ?thesis by (auto simp: rank'_def rep_of_root)
    next
      case False
      with kp have "map_of parent k = Some p" by simp
      with r step [OF this, of b] show ?thesis by (auto simp: ranked_def rank'_def)
    qed
  qed
  then show fn: "forest ?new" by (auto simp: forest_def)
  have new_b: "rep ?new b b" using b ab by (auto intro: rep_root)
  have fwd: "rep ?new x (if y = a then b else y)" if "rep parent x y" for x y
    using that
  proof (induction rule: rep.induct)
    case (rep_root x)
    show ?case using rep_root new_b ab rep.rep_step [of ?new a b b] by (auto intro: rep.rep_root)
  next
    case (rep_step x p y)
    then have "x \<noteq> a" using a by auto
    with rep_step show ?case by (auto intro: rep.rep_step)
  qed
  show "rep ?new x y \<longleftrightarrow> (if rep parent x a then y = b else rep parent x y)"
  proof -
    have "\<exists>z. rep parent x z" if "rep ?new x y" for y
    proof -
      have "map_of parent x \<noteq> None" using rep_key [OF that] a by (auto split: if_splits)
      then show ?thesis using rep_total [OF r] by blast
    qed
    then show ?thesis using fwd [of x] rep_fun [of ?new x] rep_fun [of parent x] by (metis (full_types))
  qed
qed

text \<open>The classes of the structure, and joining two of them.\<close>

definition same_class :: "('k \<times> 'k) list \<Rightarrow> 'k \<Rightarrow> 'k \<Rightarrow> bool" where
  "same_class parent x y \<longleftrightarrow> (\<exists>r. rep parent x r \<and> rep parent y r)"

lemma join_roots_ok:
  fixes parent :: "('k::linorder \<times> 'k) list"
  assumes f: "forest parent" and x: "map_of parent x \<noteq> None" and y: "map_of parent y \<noteq> None"
  obtains parent' where "join_roots x y parent = Some parent'" "forest parent'" "dom (map_of parent') = dom (map_of parent)"
    "\<And>u v. same_class parent' u v \<longleftrightarrow> same_class parent u v \<or>
       (same_class parent u x \<and> same_class parent y v) \<or> (same_class parent u y \<and> same_class parent x v)"
proof -
  from find_root_ok [OF f x] obtain a p1 where p1: "find_root x parent = Some (a, p1)" "rep parent x a" "forest p1"
    "dom (map_of p1) = dom (map_of parent)" "\<And>u v. rep p1 u v \<longleftrightarrow> rep parent u v" by blast
  have "map_of p1 y \<noteq> None" using y p1(4) by auto
  from find_root_ok [OF p1(3) this] obtain b p2 where p2: "find_root y p1 = Some (b, p2)" "rep p1 y b" "forest p2"
    "dom (map_of p2) = dom (map_of p1)" "\<And>u v. rep p2 u v \<longleftrightarrow> rep p1 u v" by blast
  have roots: "map_of p2 a = Some a" "map_of p2 b = Some b" using p1 p2 rep_is_root by metis+
  have reps: "\<And>u v. rep p2 u v \<longleftrightarrow> rep parent u v" "rep parent x a" "rep parent y b" using p1 p2 by auto
  show thesis
  proof (cases "a = b")
    case True
    with p1(1,4) p2(1,3,4) show thesis
      using reps by (intro that [of p2]) (auto simp: join_roots_def same_class_def dest: rep_fun)
  next
    case False
    let ?new = "bt_insert a b p2"
    note new = union_roots [OF p2(3) roots False]
    have "dom (map_of ?new) = dom (map_of p2)" using roots by (auto split: if_splits)
    with p1(4) p2(4) have "dom (map_of ?new) = dom (map_of parent)" by simp
    moreover have "same_class ?new u v \<longleftrightarrow> same_class parent u v \<or>
        (same_class parent u x \<and> same_class parent y v) \<or> (same_class parent u y \<and> same_class parent x v)" for u v
    proof -
      have "same_class parent w x \<longleftrightarrow> rep parent w a" "same_class parent x w \<longleftrightarrow> rep parent w a"
        "same_class parent w y \<longleftrightarrow> rep parent w b" "same_class parent y w \<longleftrightarrow> rep parent w b" for w
        using reps(2,3) by (auto simp: same_class_def dest: rep_fun)
      moreover have "same_class ?new u v \<longleftrightarrow> (\<exists>r. (if rep parent u a then r = b else rep parent u r) \<and>
          (if rep parent v a then r = b else rep parent v r))"
        by (simp add: same_class_def new(2) reps(1))
      ultimately show ?thesis using False by (auto simp: same_class_def dest: rep_fun)
    qed
    ultimately show thesis using p1(1) p2(1) False new(1)
      by (intro that [of ?new]) (simp_all add: join_roots_def)
  qed
qed


section \<open>Classes are connected components\<close>

definition joined :: "('k \<times> 'k) list \<Rightarrow> 'k \<Rightarrow> 'k \<Rightarrow> bool" where
  "joined es = equivclp (\<lambda>x y. (x, y) \<in> set es)"

lemma joined_refl [simp]: "joined es x x"
  by (simp add: joined_def)

lemma joined_sym: "joined es x y \<Longrightarrow> joined es y x"
  unfolding joined_def by (rule equivclp_sym)

lemma joined_trans: "joined es x y \<Longrightarrow> joined es y z \<Longrightarrow> joined es x z"
  unfolding joined_def by (rule equivclp_trans)

lemma joined_snoc:
  "joined (es @ [(x, y)]) u v \<longleftrightarrow>
     joined es u v \<or> (joined es u x \<and> joined es y v) \<or> (joined es u y \<and> joined es x v)" (is "?L \<longleftrightarrow> ?R v")
proof
  have one: "joined (es @ [(x, y)]) x y" unfolding joined_def by (rule r_into_equivclp) simp
  have mono: "joined es a b \<Longrightarrow> joined (es @ [(x, y)]) a b" for a b
    unfolding joined_def by (induction rule: equivclp_induct) (auto intro: equivclp_trans r_into_equivclp equivclp_sym)
  show "?R v \<Longrightarrow> ?L"
  proof (elim disjE conjE)
    assume "joined es u x" "joined es y v"
    then show ?L using mono one by (blast intro: joined_trans)
  next
    assume "joined es u y" "joined es x v"
    then show ?L using mono joined_sym [OF one] by (blast intro: joined_trans)
  qed (rule mono)
  show "?L \<Longrightarrow> ?R v" unfolding joined_def [of "es @ [(x, y)]"]
  proof (induction rule: equivclp_induct)
    case (step b c)
    then consider "joined es b c" | "b = x" "c = y" | "b = y" "c = x"
      by (auto simp: joined_def intro: r_into_equivclp equivclp_sym)
    then show ?case
    proof cases
      case 1
      with step.IH show ?thesis by (blast intro: joined_trans)
    qed (use step.IH in \<open>auto intro: joined_sym\<close>)
  qed simp
qed

lemma join_all_ok:
  fixes parent :: "('k::linorder \<times> 'k) list"
  assumes "forest parent" "\<forall>(x, y)\<in>set es. map_of parent x \<noteq> None \<and> map_of parent y \<noteq> None"
    and "\<And>u v. map_of parent u \<noteq> None \<Longrightarrow> map_of parent v \<noteq> None \<Longrightarrow> same_class parent u v \<longleftrightarrow> joined es0 u v"
  shows "\<exists>parent'. join_all es parent = Some parent' \<and> forest parent' \<and> dom (map_of parent') = dom (map_of parent) \<and>
    (\<forall>u v. map_of parent u \<noteq> None \<longrightarrow> map_of parent v \<noteq> None \<longrightarrow> (same_class parent' u v \<longleftrightarrow> joined (es0 @ es) u v))"
  using assms
proof (induction es arbitrary: parent es0)
  case (Cons e es)
  obtain x y where e: "e = (x, y)" by (cases e)
  with Cons.prems(2) have xy: "map_of parent x \<noteq> None" "map_of parent y \<noteq> None" by auto
  from join_roots_ok [OF Cons.prems(1) xy] obtain p1 where
    p1: "join_roots x y parent = Some p1" "forest p1" "dom (map_of p1) = dom (map_of parent)"
      "\<And>u v. same_class p1 u v \<longleftrightarrow> same_class parent u v \<or>
         (same_class parent u x \<and> same_class parent y v) \<or> (same_class parent u y \<and> same_class parent x v)" by blast
  have keys: "map_of p1 u \<noteq> None \<longleftrightarrow> map_of parent u \<noteq> None" for u using p1(3) by (metis domIff)
  have "same_class p1 u v \<longleftrightarrow> joined (es0 @ [(x, y)]) u v" if "map_of p1 u \<noteq> None" "map_of p1 v \<noteq> None" for u v
  proof -
    have u: "map_of parent u \<noteq> None" and v: "map_of parent v \<noteq> None" using that keys by blast+
    show ?thesis unfolding p1(4) joined_snoc Cons.prems(3) [OF u v] Cons.prems(3) [OF u xy(1)] Cons.prems(3) [OF xy(2) v]
      Cons.prems(3) [OF u xy(2)] Cons.prems(3) [OF xy(1) v] ..
  qed
  moreover have "\<forall>(x, y)\<in>set es. map_of p1 x \<noteq> None \<and> map_of p1 y \<noteq> None" using Cons.prems(2) keys by auto
  ultimately obtain p2 where "join_all es p1 = Some p2" "forest p2" "dom (map_of p2) = dom (map_of p1)"
    "\<forall>u v. map_of p1 u \<noteq> None \<longrightarrow> map_of p1 v \<noteq> None \<longrightarrow> (same_class p2 u v \<longleftrightarrow> joined ((es0 @ [(x, y)]) @ es) u v)"
    using Cons.IH [OF p1(2), of "es0 @ [(x, y)]"] by blast
  with p1(1,3) e keys show ?case by auto
qed auto

lemma singletons_get: "map_of (singletons ks) k = (if k \<in> set ks then Some k else None)"
proof -
  have "map_of (fold (\<lambda>k. bt_insert k k) ks m) k = (if k \<in> set ks then Some k else map_of m k)" for m
    by (induction ks arbitrary: m) auto
  then show ?thesis by (simp add: singletons_def)
qed

lemma joined_edge: "(x, y) \<in> set es \<Longrightarrow> joined es x y"
  unfolding joined_def by (rule r_into_equivclp)

lemma join_all_singletons:
  fixes ks :: "'k::linorder list"
  assumes "\<forall>(x, y)\<in>set es. map_of (singletons ks) x \<noteq> None \<and> map_of (singletons ks) y \<noteq> None"
  shows "\<exists>parent. join_all es (singletons ks) = Some parent \<and> forest parent \<and>
    dom (map_of parent) = dom (map_of (singletons ks)) \<and>
    (\<forall>u\<in>set ks. \<forall>v\<in>set ks. same_class parent u v \<longleftrightarrow> joined es u v)"
proof -
  have f: "forest (singletons ks)" by (auto simp: forest_def ranked_def singletons_get intro: exI [of _ "\<lambda>_. 0"])
  have none: "joined [] u v \<longleftrightarrow> u = v" for u v :: 'k
    by (auto simp: joined_def elim: equivclp_induct)
  have "same_class (singletons ks) u v \<longleftrightarrow> joined [] u v"
    if "map_of (singletons ks) u \<noteq> None" "map_of (singletons ks) v \<noteq> None" for u v
  proof -
    have "map_of (singletons ks) u = Some u" "map_of (singletons ks) v = Some v" using that by (auto simp: singletons_get split: if_splits)
    then show ?thesis by (auto simp: none same_class_def rep_of_root)
  qed
  from join_all_ok [OF f assms this] show ?thesis by (auto simp: singletons_get)
qed

text \<open>
  C36: The structure finds the connected components. Starting from singletons, joining any edges over
  the keys returns, and two keys then have the same root exactly when a chain of edges, walked in
  either direction, connects them; looking up a root returns, gives that root, and changes no
  class.\<close>

theorem components_connected:
  fixes ks :: "'k::linorder list"
  assumes "\<forall>(x, y)\<in>set es. x \<in> set ks \<and> y \<in> set ks"
  shows "\<exists>parent. join_all es (singletons ks) = Some parent \<and>
    (\<forall>u\<in>set ks. \<exists>r parent'. find_root u parent = Some (r, parent') \<and> rep parent u r \<and> (\<forall>x y. rep parent' x y \<longleftrightarrow> rep parent x y)) \<and>
    (\<forall>u\<in>set ks. \<forall>v\<in>set ks. same_class parent u v \<longleftrightarrow> joined es u v)"
proof -
  have "\<forall>(x, y)\<in>set es. map_of (singletons ks) x \<noteq> None \<and> map_of (singletons ks) y \<noteq> None"
    using assms by (auto simp: singletons_get)
  from join_all_singletons [OF this] obtain parent where p: "join_all es (singletons ks) = Some parent" "forest parent"
    "dom (map_of parent) = dom (map_of (singletons ks))" "\<forall>u\<in>set ks. \<forall>v\<in>set ks. same_class parent u v \<longleftrightarrow> joined es u v" by blast
  have "\<exists>r parent'. find_root u parent = Some (r, parent') \<and> rep parent u r \<and> (\<forall>x y. rep parent' x y \<longleftrightarrow> rep parent x y)"
    if "u \<in> set ks" for u
  proof -
    have "u \<in> dom (map_of parent)" unfolding p(3) using that by (simp add: domIff singletons_get)
    then have "map_of parent u \<noteq> None" by (simp add: domIff)
    from find_root_ok [OF p(2) this] show ?thesis by metis
  qed
  with p show ?thesis by blast
qed

theorem components_connected_witness:
  "\<exists>parent. join_all [(1, 2), (2, 3 :: nat)] (singletons [1, 2, 3, 4]) = Some parent \<and>
     same_class parent 1 3 \<and> \<not> same_class parent 1 4"
proof -
  have "\<forall>(x, y)\<in>set [(1, 2), (2, 3 :: nat)]. x \<in> set [1, 2, 3, 4] \<and> y \<in> set [1, 2, 3, 4]" by simp
  from components_connected [OF this] obtain parent where
    p: "join_all [(1, 2), (2, 3 :: nat)] (singletons [1, 2, 3, 4]) = Some parent"
      "\<forall>u\<in>set [1, 2, 3, 4]. \<forall>v\<in>set [1, 2, 3, 4]. same_class parent u v \<longleftrightarrow> joined [(1, 2), (2, 3)] u v" by blast
  have "joined [(1, 2), (2, 3)] (1 :: nat) 3"
    using joined_snoc [of "[(1 :: nat, 2)]" 2 3 1 3] joined_snoc [of "[]" "1 :: nat" 2 1 2] by simp
  moreover have "\<not> joined [(1, 2), (2, 3)] (1 :: nat) 4"
  proof -
    have "u = 4 \<longleftrightarrow> v = 4" if "joined [(1, 2), (2, 3)] u v" for u v :: nat
      using that unfolding joined_def by (induction rule: equivclp_induct) auto
    from this [of 1 4] show ?thesis by auto
  qed
  ultimately show ?thesis using p by auto
qed

end
