(* ===== verification/Codec.thy ===== *)
theory Codec
  imports Prelude
begin

text \<open>
  Byte encodings that feed the hash functions of the kernel: little-endian integers,
  strings, length-prefixed sections.  An encoding is a prefix code when the bytes that
  follow it never change what is read: the contract \<open>prefix_code\<close> below is what every
  field of a hash preimage must satisfy for the preimage to be unambiguous.
\<close>

section \<open>Integers and strings as bytes\<close>

text \<open>\<open>to_le_bytes\<close> of an integer held in \<open>n\<close> bytes; a cast that narrows
  (\<open>len() as u32\<close>) drops the high bytes.\<close>

fun le_bytes :: "nat \<Rightarrow> nat \<Rightarrow> byte list" where
  "le_bytes 0 v = []"
| "le_bytes (Suc n) v = word_of_nat (v mod 256) # le_bytes n (v div 256)"

text \<open>\<open>str::as_bytes\<close>.\<close>

definition str_bytes :: "string \<Rightarrow> byte list" where
  "str_bytes s = map of_char s"

lemma length_le_bytes [simp]: "length (le_bytes n v) = n"
  by (induction n v rule: le_bytes.induct) auto

lemma unat_byte_of_nat: "n < 256 \<Longrightarrow> unat (word_of_nat n :: byte) = n"
  by (simp add: unsigned_of_nat take_bit_nat_eq_self)

lemma byte_of_nat_inj: "word_of_nat (a mod 256) = (word_of_nat (b mod 256) :: byte) \<Longrightarrow> a mod 256 = b mod 256"
  by (metis unat_byte_of_nat mod_less_divisor zero_less_numeral)

lemma le_bytes_inj:
  "v < 256 ^ n \<Longrightarrow> w < 256 ^ n \<Longrightarrow> le_bytes n v = le_bytes n w \<Longrightarrow> v = w"
proof (induction n v arbitrary: w rule: le_bytes.induct)
  case (1 v)
  then show ?case by simp
next
  case (2 n v)
  from "2.prems" have m: "v mod 256 = w mod 256" and "le_bytes n (v div 256) = le_bytes n (w div 256)"
    by (auto dest: byte_of_nat_inj)
  with 2 have "v div 256 = w div 256"
    by (simp add: less_mult_imp_div_less mult.commute)
  with m show ?case by (metis div_mult_mod_eq)
qed

lemma of_char_inj: "(of_char c :: byte) = of_char d \<longleftrightarrow> c = d"
proof
  assume eq: "(of_char c :: byte) = of_char d"
  have c: "unat (of_char e :: byte) = of_char e" for e :: char
  proof -
    have "(of_char e :: byte) = word_of_nat (of_char e)" by (rule of_nat_of_char [symmetric])
    moreover have "(of_char e :: nat) < 256" using of_char_mod_256 [of e, where 'a = nat]
      by (metis mod_less_divisor zero_less_numeral)
    ultimately show ?thesis by (simp only: unat_byte_of_nat)
  qed
  have "(of_char c :: nat) = of_char d" using eq c by metis
  then show "c = d" by simp
qed simp

lemma length_str_bytes [simp]: "length (str_bytes s) = length s"
  by (simp add: str_bytes_def)

lemma str_bytes_inj [simp]: "str_bytes s = str_bytes t \<longleftrightarrow> s = t"
  by (auto simp: str_bytes_def inj_map_eq_map inj_def of_char_inj)

section \<open>The prefix-code contract\<close>

locale prefix_code =
  fixes enc :: "'a \<Rightarrow> byte list"
    and valid :: "'a \<Rightarrow> bool"
  assumes cancel: "valid x \<Longrightarrow> valid y \<Longrightarrow> enc x @ r = enc y @ s \<Longrightarrow> x = y \<and> r = s"
begin

lemma injective: "valid x \<Longrightarrow> valid y \<Longrightarrow> enc x = enc y \<Longrightarrow> x = y"
  using cancel [of x y "[]" "[]"] by simp

lemma concat_cancel:
  "list_all valid xs \<Longrightarrow> list_all valid ys \<Longrightarrow> length xs = length ys \<Longrightarrow>
     concat (map enc xs) @ r = concat (map enc ys) @ s \<Longrightarrow> xs = ys \<and> r = s"
proof (induction xs arbitrary: ys)
  case Nil
  then show ?case by simp
next
  case (Cons x xs)
  from Cons.prems(3) obtain y ys' where ys: "ys = y # ys'" by (cases ys) auto
  with Cons.prems have "enc x @ (concat (map enc xs) @ r) = enc y @ (concat (map enc ys') @ s)"
    by simp
  with Cons.prems ys have "x = y" "concat (map enc xs) @ r = concat (map enc ys') @ s"
    using cancel [of x y "concat (map enc xs) @ r" "concat (map enc ys') @ s"] by auto
  with Cons.IH [of ys'] Cons.prems ys show ?case by auto
qed

end

text \<open>Fixed-width integers.\<close>

lemma le_bytes_cancel:
  assumes "v < 256 ^ n" "w < 256 ^ n" "le_bytes n v @ r = le_bytes n w @ s"
  shows "v = w \<and> r = s"
proof -
  from assms(3) have "le_bytes n v = le_bytes n w" "r = s" by (auto simp: append_eq_append_conv)
  with assms(1,2) show ?thesis using le_bytes_inj by blast
qed

abbreviation fits32 :: "nat \<Rightarrow> bool" where
  "fits32 n \<equiv> n < 2 ^ 32"

abbreviation fits64 :: "nat \<Rightarrow> bool" where
  "fits64 n \<equiv> n < 2 ^ 64"

interpretation le32: prefix_code "le_bytes 4" "\<lambda>n. fits32 n"
  by unfold_locales (rule le_bytes_cancel [of _ 4]; simp)

interpretation le64: prefix_code "le_bytes 8" "\<lambda>n. fits64 n"
  by unfold_locales (rule le_bytes_cancel [of _ 8]; simp)

text \<open>Words of a fixed width, and single bytes.\<close>

definition enc_u32 :: "u32 \<Rightarrow> byte list" where
  "enc_u32 w = le_bytes 4 (unat w)"

definition enc_u16 :: "u16 \<Rightarrow> byte list" where
  "enc_u16 w = le_bytes 2 (unat w)"

definition enc_u8 :: "u8 \<Rightarrow> byte list" where
  "enc_u8 w = [w]"

definition enc_bool :: "bool \<Rightarrow> byte list" where
  "enc_bool b = [if b then 1 else 0]"

lemma unat_u32_bound: "unat (w :: u32) < 256 ^ 4"
  using unsigned_less [of w] by simp

lemma unat_u16_bound: "unat (w :: u16) < 256 ^ 2"
  using unsigned_less [of w] by simp

interpretation u32c: prefix_code enc_u32 "\<lambda>_. True"
proof
  fix x y :: u32 and r s :: "byte list"
  assume "enc_u32 x @ r = enc_u32 y @ s"
  then show "x = y \<and> r = s"
    using le_bytes_cancel [OF unat_u32_bound unat_u32_bound, of x r y s] by (simp add: enc_u32_def word_unat_eq_iff)
qed

interpretation u16c: prefix_code enc_u16 "\<lambda>_. True"
proof
  fix x y :: u16 and r s :: "byte list"
  assume "enc_u16 x @ r = enc_u16 y @ s"
  then show "x = y \<and> r = s"
    using le_bytes_cancel [OF unat_u16_bound unat_u16_bound, of x r y s] by (simp add: enc_u16_def word_unat_eq_iff)
qed

interpretation u8c: prefix_code enc_u8 "\<lambda>_. True"
  by unfold_locales (simp add: enc_u8_def)

interpretation boolc: prefix_code enc_bool "\<lambda>_. True"
  by unfold_locales (auto simp: enc_bool_def split: if_splits)

text \<open>A byte string behind its length, in four or eight bytes.\<close>

definition framed32 :: "byte list \<Rightarrow> byte list" where
  "framed32 v = le_bytes 4 (length v) @ v"

definition framed64 :: "byte list \<Rightarrow> byte list" where
  "framed64 v = le_bytes 8 (length v) @ v"

lemma framed32_cancel:
  assumes "fits32 (length v)" "fits32 (length w)" "framed32 v @ r = framed32 w @ s"
  shows "v = w \<and> r = s"
proof -
  from assms(3) have "le_bytes 4 (length v) @ (v @ r) = le_bytes 4 (length w) @ (w @ s)"
    unfolding framed32_def by (simp only: append_assoc)
  from le32.cancel [OF assms(1,2) this] have "length v = length w" "v @ r = w @ s" by blast+
  then show ?thesis using append_eq_append_conv [of v w r s] by blast
qed

lemma framed64_cancel:
  assumes "fits64 (length v)" "fits64 (length w)" "framed64 v @ r = framed64 w @ s"
  shows "v = w \<and> r = s"
proof -
  from assms(3) have "le_bytes 8 (length v) @ (v @ r) = le_bytes 8 (length w) @ (w @ s)"
    unfolding framed64_def by (simp only: append_assoc)
  from le64.cancel [OF assms(1,2) this] have "length v = length w" "v @ r = w @ s" by blast+
  then show ?thesis using append_eq_append_conv [of v w r s] by blast
qed

interpretation frame32: prefix_code framed32 "\<lambda>v. fits32 (length v)"
  by unfold_locales (rule framed32_cancel)

interpretation frame64: prefix_code framed64 "\<lambda>v. fits64 (length v)"
  by unfold_locales (rule framed64_cancel)

definition enc_string :: "string \<Rightarrow> byte list" where
  "enc_string s = framed32 (str_bytes s)"

interpretation strc: prefix_code enc_string "\<lambda>s. fits32 (length s)"
proof
  fix x y :: string and r s :: "byte list"
  assume "fits32 (length x)" "fits32 (length y)" "enc_string x @ r = enc_string y @ s"
  then show "x = y \<and> r = s"
    using frame32.cancel [of "str_bytes x" "str_bytes y" r s] by (simp add: enc_string_def)
qed

text \<open>A section: the number of elements in four bytes, then the elements.\<close>

definition section_of :: "('a \<Rightarrow> byte list) \<Rightarrow> 'a list \<Rightarrow> byte list" where
  "section_of enc xs = le_bytes 4 (length xs) @ concat (map enc xs)"

context prefix_code
begin

lemma section_code: "prefix_code (section_of enc) (\<lambda>xs. fits32 (length xs) \<and> list_all valid xs)"
proof
  fix xs ys r s
  assume "fits32 (length xs) \<and> list_all valid xs" "fits32 (length ys) \<and> list_all valid ys"
    and eq: "section_of enc xs @ r = section_of enc ys @ s"
  moreover have "le_bytes 4 (length xs) @ (concat (map enc xs) @ r) =
      le_bytes 4 (length ys) @ (concat (map enc ys) @ s)"
    using eq unfolding section_of_def by (simp only: append_assoc)
  ultimately have "length xs = length ys" "concat (map enc xs) @ r = concat (map enc ys) @ s"
    using le32.cancel by blast+
  moreover note \<open>fits32 (length xs) \<and> list_all valid xs\<close> \<open>fits32 (length ys) \<and> list_all valid ys\<close>
  ultimately show "xs = ys \<and> r = s" using concat_cancel [of xs ys r s] by blast
qed

lemma option_code:
  "prefix_code (\<lambda>v. case v of None \<Rightarrow> [0] | Some x \<Rightarrow> 1 # enc x) (\<lambda>v. pred_option valid v)"
proof
  fix v w r s
  assume "pred_option valid v" "pred_option valid w"
    "(case v of None \<Rightarrow> [0] | Some x \<Rightarrow> 1 # enc x) @ r = (case w of None \<Rightarrow> [0] | Some x \<Rightarrow> 1 # enc x) @ s"
  then show "v = w \<and> r = s" by (cases v; cases w) (auto dest: cancel)
qed

end

interpretation strsc: prefix_code "section_of enc_string"
  "\<lambda>xs. fits32 (length xs) \<and> list_all (\<lambda>s. fits32 (length s)) xs"
  by (rule strc.section_code)

end
