(* ===== verification/Kernel_Ids.thy ===== *)
theory Kernel_Ids
  imports Codec
begin

text \<open>
  Deterministic identities (\<open>exocortex-kernel/src/ids.rs\<close>).  An id is the first sixteen
  bytes of a BLAKE3 digest; BLAKE3 is a third-party function and therefore a parameter
  \<open>blake3\<close> of the definitions.  The bytes fed to the hasher are the preimage, modelled
  exactly, so that \<open>two inputs have the same preimage\<close> is a statement about this code.
\<close>

section \<open>Identity types\<close>

datatype memory_id = MemoryId (mid_bytes: "byte list")
datatype relationship_id = RelationshipId (rid_bytes: "byte list")
datatype entity_id = EntityId (eid_bytes: "byte list")
datatype pack_id = PackId u16
datatype rel_kind_id = RelKindId (kind_code: u32)

datatype lsn_space = LocalSpace | BackendSpace

record lsn =
  lsn_space :: lsn_space
  lsn_value :: nat

definition new_local :: "nat \<Rightarrow> lsn" where
  "new_local v = \<lparr>lsn_space = LocalSpace, lsn_value = v\<rparr>"

definition new_backend :: "nat \<Rightarrow> lsn" where
  "new_backend v = \<lparr>lsn_space = BackendSpace, lsn_value = v\<rparr>"

lemma lsn_value_new [simp]: "lsn_value (new_backend v) = v" "lsn_value (new_local v) = v"
  by (simp_all add: new_backend_def new_local_def)

text \<open>Ids are ordered bytewise, as the derived \<open>Ord\<close> is.\<close>

instantiation memory_id :: linorder
begin

definition less_eq_memory_id :: "memory_id \<Rightarrow> memory_id \<Rightarrow> bool" where
  "less_eq_memory_id a b = (mid_bytes a \<le> mid_bytes b)"

definition less_memory_id :: "memory_id \<Rightarrow> memory_id \<Rightarrow> bool" where
  "less_memory_id a b = (mid_bytes a < mid_bytes b)"

instance
  by standard (auto simp: less_eq_memory_id_def less_memory_id_def intro: memory_id.expand)

end

instantiation relationship_id :: linorder
begin

definition less_eq_relationship_id :: "relationship_id \<Rightarrow> relationship_id \<Rightarrow> bool" where
  "less_eq_relationship_id a b = (rid_bytes a \<le> rid_bytes b)"

definition less_relationship_id :: "relationship_id \<Rightarrow> relationship_id \<Rightarrow> bool" where
  "less_relationship_id a b = (rid_bytes a < rid_bytes b)"

instance
  by standard
    (auto simp: less_eq_relationship_id_def less_relationship_id_def intro: relationship_id.expand)

end

instantiation rel_kind_id :: linorder
begin

definition less_eq_rel_kind_id :: "rel_kind_id \<Rightarrow> rel_kind_id \<Rightarrow> bool" where
  "less_eq_rel_kind_id a b = (kind_code a \<le> kind_code b)"

definition less_rel_kind_id :: "rel_kind_id \<Rightarrow> rel_kind_id \<Rightarrow> bool" where
  "less_rel_kind_id a b = (kind_code a < kind_code b)"

instance
  by standard (auto simp: less_eq_rel_kind_id_def less_rel_kind_id_def intro: rel_kind_id.expand)

end

section \<open>Preimages\<close>

definition truncate16 :: "byte list \<Rightarrow> byte list" where
  "truncate16 digest = take 16 digest"

definition update_framed :: "byte list \<Rightarrow> byte list" where
  "update_framed value = framed64 value"

definition external_preimage ::
    "string \<Rightarrow> string \<Rightarrow> byte list \<Rightarrow> byte list \<Rightarrow> u32 \<Rightarrow> byte list" where
  "external_preimage org_id source_uri table_uuid logical_pk mapping_version =
     str_bytes ''exocortex-external-id-v2''
     @ update_framed (str_bytes org_id)
     @ update_framed (str_bytes source_uri)
     @ update_framed table_uuid
     @ update_framed logical_pk
     @ enc_u32 mapping_version"

definition from_external ::
    "(byte list \<Rightarrow> byte list) \<Rightarrow> string \<Rightarrow> string \<Rightarrow> byte list \<Rightarrow> byte list \<Rightarrow> u32 \<Rightarrow> memory_id" where
  "from_external blake3 org_id source_uri table_uuid logical_pk mapping_version =
     MemoryId (truncate16 (blake3
       (external_preimage org_id source_uri table_uuid logical_pk mapping_version)))"

definition content_hash_preimage :: "string \<Rightarrow> string \<Rightarrow> byte list" where
  "content_hash_preimage org_id content =
     str_bytes ''content-hash-v1'' @ [0x1E] @ str_bytes org_id @ [0x1E] @ str_bytes content"

definition from_content_hash ::
    "(byte list \<Rightarrow> byte list) \<Rightarrow> string \<Rightarrow> string \<Rightarrow> memory_id" where
  "from_content_hash blake3 org_id content =
     MemoryId (truncate16 (blake3 (content_hash_preimage org_id content)))"

definition derive_preimage ::
    "memory_id \<Rightarrow> rel_kind_id \<Rightarrow> memory_id \<Rightarrow> string option \<Rightarrow> byte list" where
  "derive_preimage f kind t snapshot =
     mid_bytes f @ enc_u32 (kind_code kind) @ mid_bytes t
     @ str_bytes (case snapshot of None \<Rightarrow> '''' | Some s \<Rightarrow> s)"

definition derive ::
    "(byte list \<Rightarrow> byte list) \<Rightarrow> memory_id \<Rightarrow> rel_kind_id \<Rightarrow> memory_id \<Rightarrow> string option \<Rightarrow> relationship_id"
  where
  "derive blake3 f kind t snapshot =
     RelationshipId (truncate16 (blake3 (derive_preimage f kind t snapshot)))"

definition entity_preimage :: "string \<Rightarrow> u8 \<Rightarrow> string \<Rightarrow> byte list" where
  "entity_preimage org_id entity_type canonical_name =
     str_bytes ''entity-v1'' @ [0x1E] @ str_bytes org_id @ [0x1E] @ [entity_type] @ [0x1E]
     @ str_bytes canonical_name"

definition from_parts ::
    "(byte list \<Rightarrow> byte list) \<Rightarrow> string \<Rightarrow> u8 \<Rightarrow> string \<Rightarrow> entity_id" where
  "from_parts blake3 org_id entity_type canonical_name =
     EntityId (truncate16 (blake3 (entity_preimage org_id entity_type canonical_name)))"

definition entity_external_preimage :: "string \<Rightarrow> byte list \<Rightarrow> byte list \<Rightarrow> byte list" where
  "entity_external_preimage org_id table_uuid logical_pk =
     str_bytes ''entity-ext-v1'' @ [0x1E] @ str_bytes org_id @ [0x1E]
     @ framed32 table_uuid @ framed32 logical_pk"

definition entity_from_external ::
    "(byte list \<Rightarrow> byte list) \<Rightarrow> string \<Rightarrow> byte list \<Rightarrow> byte list \<Rightarrow> entity_id" where
  "entity_from_external blake3 org_id table_uuid logical_pk =
     EntityId (truncate16 (blake3 (entity_external_preimage org_id table_uuid logical_pk)))"

section \<open>The hexadecimal form\<close>

definition is_ascii_hexdigit :: "char \<Rightarrow> bool" where
  "is_ascii_hexdigit c =
     (let n = of_char c :: nat in
      48 \<le> n \<and> n \<le> 57 \<or> 65 \<le> n \<and> n \<le> 70 \<or> 97 \<le> n \<and> n \<le> 102)"

text \<open>\<open>char::to_digit(16)\<close>.\<close>

definition to_digit16 :: "char \<Rightarrow> nat option" where
  "to_digit16 c =
     (let n = of_char c :: nat in
      if 48 \<le> n \<and> n \<le> 57 then Some (n - 48)
      else if 65 \<le> n \<and> n \<le> 70 then Some (n - 55)
      else if 97 \<le> n \<and> n \<le> 102 then Some (n - 87)
      else None)"

text \<open>The digits of \<open>{:x}\<close>.\<close>

definition hex_digit :: "nat \<Rightarrow> char" where
  "hex_digit d = (if d < 10 then char_of (d + 48) else char_of (d + 87))"

definition hex_byte :: "byte \<Rightarrow> string" where
  "hex_byte b = [hex_digit (unat b div 16), hex_digit (unat b mod 16)]"

text \<open>\<open>{byte:02x}\<close> over a byte string.\<close>

definition hex :: "byte list \<Rightarrow> string" where
  "hex bytes = concat (map hex_byte bytes)"

fun unhex :: "string \<Rightarrow> byte list option" where
  "unhex [] = Some []"
| "unhex [c] = None"
| "unhex (c # d # s) =
     (case to_digit16 c of None \<Rightarrow> None | Some hi \<Rightarrow>
      (case to_digit16 d of None \<Rightarrow> None | Some lo \<Rightarrow>
       map_option ((#) (word_of_nat (16 * hi + lo))) (unhex s)))"

definition parse_hex :: "string \<Rightarrow> memory_id option" where
  "parse_hex s =
     (if length s \<noteq> 32 \<or> \<not> list_all is_ascii_hexdigit s then None
      else map_option MemoryId (unhex s))"

definition to_hex :: "memory_id \<Rightarrow> string" where
  "to_hex i = hex (mid_bytes i)"

definition ascii_lower :: "char \<Rightarrow> char" where
  "ascii_lower c =
     (let n = of_char c :: nat in if 65 \<le> n \<and> n \<le> 90 then char_of (n + 32) else c)"

section \<open>Lemmas on the hexadecimal form\<close>

lemma length_hex_byte [simp]: "length (hex_byte b) = 2"
  by (simp add: hex_byte_def)

lemma length_hex [simp]: "length (hex bs) = 2 * length bs"
  by (induction bs) (simp_all add: hex_def)

lemma hex_Cons: "hex (b # bs) = hex_digit (unat b div 16) # hex_digit (unat b mod 16) # hex bs"
  by (simp add: hex_def hex_byte_def)

lemma of_char_hex_digit:
  "d < 16 \<Longrightarrow> (of_char (hex_digit d) :: nat) = (if d < 10 then d + 48 else d + 87)"
  by (simp add: hex_digit_def)

lemma to_digit16_hex_digit: "d < 16 \<Longrightarrow> to_digit16 (hex_digit d) = Some d"
  by (auto simp: to_digit16_def of_char_hex_digit Let_def)

lemma hexdigit_hex_digit: "d < 16 \<Longrightarrow> is_ascii_hexdigit (hex_digit d)"
  by (auto simp: is_ascii_hexdigit_def of_char_hex_digit Let_def)

lemma unat_byte_less: "unat (b :: byte) < 256"
  using unsigned_less [of b] by simp

lemma nibble_bounds: "unat (b :: byte) div 16 < 16" "unat (b :: byte) mod 16 < 16"
  using unat_byte_less [of b] by (auto simp: less_mult_imp_div_less)

lemma unhex_hex: "unhex (hex bs) = Some bs"
proof (induction bs)
  case Nil
  then show ?case by (simp add: hex_def)
next
  case (Cons b bs)
  have "16 * (unat b div 16) + unat b mod 16 = unat b" by simp
  with Cons show ?case
    by (simp add: hex_Cons to_digit16_hex_digit nibble_bounds)
qed

lemma hexdigits_hex: "list_all is_ascii_hexdigit (hex bs)"
  by (induction bs) (auto simp: hex_Cons hexdigit_hex_digit nibble_bounds, simp add: hex_def)

lemma hex_inj [simp]: "hex a = hex b \<longleftrightarrow> a = b"
  by (metis unhex_hex option.inject)

lemma hexdigit_digit: "is_ascii_hexdigit c \<Longrightarrow> \<exists>d < 16. to_digit16 c = Some d \<and> hex_digit d = ascii_lower c"
proof -
  assume "is_ascii_hexdigit c"
  then have *: "48 \<le> (of_char c :: nat) \<and> (of_char c :: nat) \<le> 57 \<or>
      65 \<le> (of_char c :: nat) \<and> (of_char c :: nat) \<le> 70 \<or>
      97 \<le> (of_char c :: nat) \<and> (of_char c :: nat) \<le> 102"
    by (simp add: is_ascii_hexdigit_def Let_def)
  have c: "char_of (of_char c :: nat) = c" by simp
  from * show ?thesis
    by (elim disjE) (auto simp: to_digit16_def hex_digit_def ascii_lower_def Let_def)
qed

lemma unhex_total:
  "list_all is_ascii_hexdigit s \<Longrightarrow> even (length s) \<Longrightarrow>
     \<exists>bs. unhex s = Some bs \<and> length s = 2 * length bs \<and> hex bs = map ascii_lower s"
proof (induction s rule: unhex.induct)
  case (3 c d s)
  then obtain hi lo where d: "hi < 16" "lo < 16" "to_digit16 c = Some hi" "to_digit16 d = Some lo"
      "hex_digit hi = ascii_lower c" "hex_digit lo = ascii_lower d"
    using hexdigit_digit [of c] hexdigit_digit [of d] by auto
  with "3.IH" [OF d(3,4)] "3.prems"
  obtain bs where bs: "unhex s = Some bs" "length s = 2 * length bs" "hex bs = map ascii_lower s"
    by auto
  have "unat (word_of_nat (16 * hi + lo) :: byte) = 16 * hi + lo"
    using d by (intro unat_byte_of_nat) simp
  with bs d show ?case by (simp add: hex_Cons)
qed (auto simp: hex_def)

section \<open>Properties\<close>

lemmas string_frame_cancel =
  frame64.cancel [of "str_bytes x" "str_bytes y" for x y, unfolded length_str_bytes str_bytes_inj]

text \<open>
  the preimage of an external identity is unambiguous.  Two rows whose coordinates are
  fed to the hasher as the same bytes have the same organisation, source, table, primary key
  and mapping version, whatever bytes these contain.
\<close>

theorem external_preimage_injective:
  assumes "fits64 (length org)" "fits64 (length uri)" "fits64 (length tbl)" "fits64 (length pk)"
    and "fits64 (length org')" "fits64 (length uri')" "fits64 (length tbl')" "fits64 (length pk')"
  shows "external_preimage org uri tbl pk ver = external_preimage org' uri' tbl' pk' ver' \<longleftrightarrow>
    org = org' \<and> uri = uri' \<and> tbl = tbl' \<and> pk = pk' \<and> ver = ver'"
proof
  assume "external_preimage org uri tbl pk ver = external_preimage org' uri' tbl' pk' ver'"
  then have e1: "framed64 (str_bytes org) @ (framed64 (str_bytes uri) @ framed64 tbl @ framed64 pk @ enc_u32 ver) =
      framed64 (str_bytes org') @ (framed64 (str_bytes uri') @ framed64 tbl' @ framed64 pk' @ enc_u32 ver')"
    unfolding external_preimage_def update_framed_def by (simp only: same_append_eq)
  from string_frame_cancel [OF assms(1,5) e1] have "org = org'" and
    e2: "framed64 (str_bytes uri) @ (framed64 tbl @ framed64 pk @ enc_u32 ver) =
      framed64 (str_bytes uri') @ (framed64 tbl' @ framed64 pk' @ enc_u32 ver')" by blast+
  from string_frame_cancel [OF assms(2,6) e2] have "uri = uri'" and
    e3: "framed64 tbl @ (framed64 pk @ enc_u32 ver) = framed64 tbl' @ (framed64 pk' @ enc_u32 ver')"
    by blast+
  from frame64.cancel [OF assms(3,7) e3] have "tbl = tbl'" and
    e4: "framed64 pk @ enc_u32 ver = framed64 pk' @ enc_u32 ver'" by blast+
  from frame64.cancel [OF assms(4,8) e4] have "pk = pk'" "ver = ver'"
    using u32c.injective by blast+
  with \<open>org = org'\<close> \<open>uri = uri'\<close> \<open>tbl = tbl'\<close>
  show "org = org' \<and> uri = uri' \<and> tbl = tbl' \<and> pk = pk' \<and> ver = ver'" by blast
qed simp

theorem external_preimage_injective_witness:
  "external_preimage ''acme'' ''git://x'' [1] [2, 3] 7 \<noteq> external_preimage ''acme'' ''git://x'' [1, 2] [3] 7"
  using external_preimage_injective [of "''acme''" "''git://x''" "[1]" "[2, 3]"
      "''acme''" "''git://x''" "[1, 2]" "[3]" 7 7] by simp

text \<open>
  the canonical hexadecimal form of a sixteen-byte id parses back to it, and whatever
  parses is the sixteen-byte id whose hexadecimal form is the input in lower case.
\<close>

theorem parse_hex_to_hex:
  "(length (mid_bytes i) = 16 \<longrightarrow> parse_hex (to_hex i) = Some i) \<and>
   (parse_hex s = Some j \<longrightarrow> length (mid_bytes j) = 16 \<and> to_hex j = map ascii_lower s)"
proof (intro conjI impI)
  assume "length (mid_bytes i) = 16"
  then show "parse_hex (to_hex i) = Some i"
    by (simp add: parse_hex_def to_hex_def hexdigits_hex unhex_hex)
next
  assume p: "parse_hex s = Some j"
  then have *: "length s = 32" "list_all is_ascii_hexdigit s" "unhex s = Some (mid_bytes j)"
    by (auto simp: parse_hex_def split: if_splits)
  with unhex_total [of s] show "length (mid_bytes j) = 16" "to_hex j = map ascii_lower s"
    by (auto simp: to_hex_def)
qed

theorem parse_hex_to_hex_witness:
  "parse_hex (to_hex (MemoryId (replicate 16 255))) = Some (MemoryId (replicate 16 255)) \<and>
   to_hex (MemoryId (replicate 16 255)) = map ascii_lower (to_hex (MemoryId (replicate 16 255)))"
  using parse_hex_to_hex [of "MemoryId (replicate 16 255)" "to_hex (MemoryId (replicate 16 255))"
      "MemoryId (replicate 16 255)"] by simp

text \<open>
  the fallback identity is not injective.  Its preimage separates the organisation and
  the content by the byte 0x1E, a legal byte of both, so rows of two different
  organisations get the same preimage and therefore the same id under every hash function.
\<close>

theorem content_hash_crosses_orgs:
  "\<exists>org org' content content'. org \<noteq> org' \<and>
     (\<forall>blake3. from_content_hash blake3 org content = from_content_hash blake3 org' content')"
proof (intro exI conjI allI)
  show "''a'' \<noteq> ''a'' @ [CHR 0x1E] @ ''b''" by simp
  fix blake3
  have sep: "(of_char (CHR 0x1E) :: byte) = 0x1E"
    by simp
  show "from_content_hash blake3 ''a'' (''b'' @ [CHR 0x1E] @ ''c'') =
      from_content_hash blake3 (''a'' @ [CHR 0x1E] @ ''b'') ''c''"
    by (simp add: from_content_hash_def content_hash_preimage_def str_bytes_def sep)
qed

text \<open>
  the preimage of a relationship id determines its endpoints, its kind and its snapshot
  (an absent snapshot and an empty one are the same snapshot).
\<close>

theorem derive_preimage_injective:
  assumes "length (mid_bytes f) = 16" "length (mid_bytes t) = 16"
    and "length (mid_bytes f') = 16" "length (mid_bytes t') = 16"
  shows "derive_preimage f k t sn = derive_preimage f' k' t' sn' \<longleftrightarrow>
    f = f' \<and> k = k' \<and> t = t' \<and>
    (case sn of None \<Rightarrow> '''' | Some s \<Rightarrow> s) = (case sn' of None \<Rightarrow> '''' | Some s \<Rightarrow> s)"
proof
  assume eq: "derive_preimage f k t sn = derive_preimage f' k' t' sn'"
  then have "f = f'" and
    e: "enc_u32 (kind_code k) @ (mid_bytes t @ str_bytes (case sn of None \<Rightarrow> '''' | Some s \<Rightarrow> s)) =
      enc_u32 (kind_code k') @ (mid_bytes t' @ str_bytes (case sn' of None \<Rightarrow> '''' | Some s \<Rightarrow> s))"
    using assms by (auto simp: derive_preimage_def intro: memory_id.expand)
  from u32c.cancel [OF _ _ e] have "k = k'" "t = t'"
      "str_bytes (case sn of None \<Rightarrow> '''' | Some s \<Rightarrow> s) = str_bytes (case sn' of None \<Rightarrow> '''' | Some s \<Rightarrow> s)"
    using assms by (auto intro: memory_id.expand rel_kind_id.expand)
  with \<open>f = f'\<close> show "f = f' \<and> k = k' \<and> t = t' \<and>
    (case sn of None \<Rightarrow> '''' | Some s \<Rightarrow> s) = (case sn' of None \<Rightarrow> '''' | Some s \<Rightarrow> s)" by simp
next
  assume "f = f' \<and> k = k' \<and> t = t' \<and>
    (case sn of None \<Rightarrow> '''' | Some s \<Rightarrow> s) = (case sn' of None \<Rightarrow> '''' | Some s \<Rightarrow> s)"
  then show "derive_preimage f k t sn = derive_preimage f' k' t' sn'"
    by (simp only: derive_preimage_def)
qed

theorem derive_preimage_injective_witness:
  "derive_preimage (MemoryId (replicate 16 1)) (RelKindId 1) (MemoryId (replicate 16 2)) None \<noteq>
   derive_preimage (MemoryId (replicate 16 2)) (RelKindId 1) (MemoryId (replicate 16 1)) None"
  using derive_preimage_injective [of "MemoryId (replicate 16 1)" "MemoryId (replicate 16 2)"
      "MemoryId (replicate 16 2)" "MemoryId (replicate 16 1)" "RelKindId 1" None "RelKindId 1" None]
  by (simp add: replicate_eq_replicate)

end
