(* ===== verification/Kernel_Types.thy ===== *)
theory Kernel_Types
  imports Kernel_Ids
begin

text \<open>
  The kernel's data model (\<open>exocortex-kernel/src\<close>: \<open>kinds.rs\<close>, \<open>visibility.rs\<close>,
  \<open>provenance.rs\<close>, \<open>relationship.rs\<close>, \<open>memory.rs\<close>, \<open>draft.rs\<close>, \<open>entity.rs\<close>,
  \<open>error.rs\<close>): kind handles and their bit layout, the visibility order, the memory and
  relationship records with every field of the source, scores in the unit interval.

  A Rust \<open>f32\<close> is its IEEE-754 bit pattern, with the comparisons written out, so that
  NaN and the two zeros behave as they do in the code.  A \<open>serde_json::Value\<close> is the text
  it prints to.
\<close>

section \<open>Single-precision floats\<close>

type_synonym f32 = u32

definition f32_magnitude :: "f32 \<Rightarrow> nat" where
  "f32_magnitude v = unat v mod 2 ^ 31"

definition f32_nan :: "f32 \<Rightarrow> bool" where
  "f32_nan v = (0x7F800000 < f32_magnitude v)"

text \<open>Sign and magnitude as an integer: numerical order on floats that are not NaN.\<close>

definition f32_rank :: "f32 \<Rightarrow> int" where
  "f32_rank v = (if unat v < 2 ^ 31 then int (f32_magnitude v) else - int (f32_magnitude v))"

definition f32_eq :: "f32 \<Rightarrow> f32 \<Rightarrow> bool" where
  "f32_eq a b = (\<not> f32_nan a \<and> \<not> f32_nan b \<and> f32_rank a = f32_rank b)"

definition f32_le :: "f32 \<Rightarrow> f32 \<Rightarrow> bool" where
  "f32_le a b = (\<not> f32_nan a \<and> \<not> f32_nan b \<and> f32_rank a \<le> f32_rank b)"

definition f32_zero :: f32 where
  "f32_zero = 0"

definition f32_one :: f32 where
  "f32_one = 0x3F800000"

lemma f32_eq_sym: "f32_eq a b = f32_eq b a"
  by (auto simp: f32_eq_def)

lemma f32_eq_trans: "f32_eq a b \<Longrightarrow> f32_eq b c \<Longrightarrow> f32_eq a c"
  by (simp add: f32_eq_def)

lemma f32_eq_refl: "f32_eq a a \<longleftrightarrow> \<not> f32_nan a"
  by (simp add: f32_eq_def)

section \<open>Relationship kinds\<close>

definition from_kernel :: "u16 \<Rightarrow> rel_kind_id" where
  "from_kernel local = RelKindId (ucast local)"

fun from_pack :: "pack_id \<Rightarrow> u16 \<Rightarrow> rel_kind_id" where
  "from_pack (PackId p) local = RelKindId (0x80000000 OR push_bit 16 (ucast p) OR ucast local)"

definition is_kernel :: "rel_kind_id \<Rightarrow> bool" where
  "is_kernel k = (kind_code k AND 0x80000000 = 0)"

definition local_part :: "rel_kind_id \<Rightarrow> u32" where
  "local_part k = kind_code k AND 0x0000FFFF"

definition SOLVES :: rel_kind_id where "SOLVES = from_kernel 0"
definition FIXES :: rel_kind_id where "FIXES = from_kernel 1"
definition CAUSES :: rel_kind_id where "CAUSES = from_kernel 2"
definition IN_SESSION :: rel_kind_id where "IN_SESSION = from_kernel 3"

datatype rel_bucket =
    Causal | Solution | Context | Learning | Similarity | Workflow | Quality | Integration
  | Extension u16

record rel_meta =
  k_id :: rel_kind_id
  k_display_name :: string
  k_bucket :: rel_bucket
  k_inverse :: "rel_kind_id option"
  k_bidirectional :: bool
  k_default_strength :: f32
  k_computed_only :: bool

section \<open>Visibility\<close>

datatype visibility = Private | Project | Team | Org | Public

fun vis_rank :: "visibility \<Rightarrow> nat" where
  "vis_rank Private = 0"
| "vis_rank Project = 1"
| "vis_rank Team = 2"
| "vis_rank Org = 3"
| "vis_rank Public = 4"

lemma vis_rank_inj: "vis_rank a = vis_rank b \<Longrightarrow> a = b"
  by (cases a; cases b) auto

instantiation visibility :: linorder
begin

definition less_eq_visibility :: "visibility \<Rightarrow> visibility \<Rightarrow> bool" where
  "less_eq_visibility a b = (vis_rank a \<le> vis_rank b)"

definition less_visibility :: "visibility \<Rightarrow> visibility \<Rightarrow> bool" where
  "less_visibility a b = (vis_rank a < vis_rank b)"

instance
  by standard (auto simp: less_eq_visibility_def less_visibility_def intro: vis_rank_inj)

end

definition within :: "visibility \<Rightarrow> visibility \<Rightarrow> bool" where
  "within self ceiling = (vis_rank self \<le> vis_rank ceiling)"

definition relationship_visibility :: "visibility \<Rightarrow> visibility \<Rightarrow> visibility" where
  "relationship_visibility f t = min f t"

fun narrowest_visibility :: "visibility list \<Rightarrow> visibility option" where
  "narrowest_visibility [] = None"
| "narrowest_visibility (v # vs) =
     (case narrowest_visibility vs of None \<Rightarrow> Some v | Some w \<Rightarrow> Some (min v w))"

lemma within_iff: "within a b \<longleftrightarrow> a \<le> b"
  by (simp add: within_def less_eq_visibility_def)

lemma narrowest_visibility_Some:
  "narrowest_visibility vs = Some v \<longleftrightarrow> vs \<noteq> [] \<and> v \<in> set vs \<and> (\<forall>w\<in>set vs. v \<le> w)"
proof (induction vs arbitrary: v)
  case (Cons u us)
  show ?case
  proof (cases "narrowest_visibility us")
    case None
    then have "us = []" by (cases us) (auto split: option.splits)
    then show ?thesis by auto
  next
    case (Some w)
    with Cons.IH [of w] have w: "w \<in> set us" "\<forall>x\<in>set us. w \<le> x" by auto
    have "min u w = v \<longleftrightarrow> v \<in> insert u (set us) \<and> v \<le> u \<and> (\<forall>x\<in>set us. v \<le> x)"
    proof
      assume "min u w = v"
      then show "v \<in> insert u (set us) \<and> v \<le> u \<and> (\<forall>x\<in>set us. v \<le> x)"
        using w by (auto simp: min_def split: if_splits)
    next
      assume "v \<in> insert u (set us) \<and> v \<le> u \<and> (\<forall>x\<in>set us. v \<le> x)"
      then show "min u w = v" using w by (auto simp: min_def intro: antisym)
    qed
    with Some show ?thesis by simp
  qed
qed simp

section \<open>Provenance\<close>

datatype computed_producer =
  SimilarityCosine | SimilarityHnsw | AbstractionProducer | EntityCoOccurrence | SessionCoOccurrence

datatype producer_kind =
  Unspecified | CodingAgent | ResearchAgent | DocsAdapter | AnalyticsAdapter | Custom
  | ExtractedKind | SaaSAdapter

record external_key =
  xk_table_uuid :: string
  xk_logical_pk :: "byte list"
  xk_mapping_version :: u32

record external_snapshot =
  xs_source_uri :: string
  xs_snapshot_id :: string
  xs_schema_hash :: "byte list"
  xs_observed_at :: instant
  xs_external_key :: external_key
  xs_producer_id :: string

datatype provenance =
    Asserted string "producer_kind option"
  | Derived string "relationship_id list"
  | Computed computed_producer f32
  | Extracted string f32
  | Proposed "byte list" f32
  | ExternalSnapshot external_snapshot

section \<open>Errors\<close>

datatype kernel_error =
    DuplicatePack string
  | DuplicateKind rel_kind_id
  | DuplicateKindName string
  | UnboundKernelConstant rel_kind_id
  | UnknownKind rel_kind_id
  | InvalidTypeTriple rel_kind_id u8
  | TitleBounds
  | EmptyContent
  | VisibilityWidening string visibility visibility
  | SummaryBounds
  | MetadataTooLarge
  | ScoreOutOfRange f32
  | DuplicateTypeName string
  | InvalidActionInput string

section \<open>Memories\<close>

datatype f01 = F01 (f01_get: f32)

definition f01_new :: "f32 \<Rightarrow> kernel_error + f01" where
  "f01_new v = (if f32_le f32_zero v \<and> f32_le v f32_one then Inr (F01 v) else Inl (ScoreOutOfRange v))"

record embedding_model =
  em_name :: string
  em_version :: string

record embedding =
  e_model :: embedding_model
  e_vector :: "f32 list"

record rights =
  rt_licence :: "string option"
  rt_consent_basis :: "string option"
  rt_retention_until :: "instant option"
  rt_redacted :: bool

definition egress_permitted :: "rights \<Rightarrow> bool" where
  "egress_permitted r =
     ((case rt_licence r of None \<Rightarrow> False | Some l \<Rightarrow> l \<noteq> [])
      \<and> (case rt_consent_basis r of None \<Rightarrow> False | Some b \<Rightarrow> b \<noteq> []))"

record memory_context =
  c_timestamp :: instant
  c_project_id :: "string option"
  c_project_path :: "string option"
  c_team_id :: "string option"
  c_tenant_id :: "string option"
  c_session_id :: "string option"
  c_user_id :: "string option"
  c_created_by :: "string option"
  c_files_involved :: "string list"
  c_languages :: "string list"
  c_frameworks :: "string list"
  c_technologies :: "string list"
  c_git_commit :: "string option"
  c_git_branch :: "string option"
  c_working_directory :: "string option"
  c_entities :: "entity_id list"
  c_additional_metadata :: string

record memory =
  m_id :: memory_id
  m_memory_type :: u8
  m_title :: string
  m_content :: string
  m_summary :: "string option"
  m_tags :: "string list"
  m_visibility :: visibility
  m_provenance :: provenance
  m_context :: memory_context
  m_importance :: f01
  m_confidence :: f01
  m_effectiveness :: "f01 option"
  m_usage_count :: u32
  m_valid_from :: instant
  m_valid_until :: "instant option"
  m_recorded_at :: instant
  m_invalidated_by :: "memory_id option"
  m_embedding :: "embedding option"
  m_lsn :: lsn
  m_rights :: "rights option"

section \<open>Relationships\<close>

record relationship_properties =
  rp_strength :: f32
  rp_confidence :: f32
  rp_context :: "string option"
  rp_evidence_count :: u32
  rp_success_rate :: "f32 option"
  rp_validation_count :: u32
  rp_counter_evidence_count :: u32
  rp_last_validated :: instant

record relationship =
  r_id :: relationship_id
  r_kind :: rel_kind_id
  r_from :: memory_id
  r_to :: memory_id
  r_visibility :: visibility
  r_provenance :: provenance
  r_properties :: relationship_properties
  r_description :: "string option"
  r_bidirectional :: bool
  r_valid_from :: instant
  r_valid_until :: "instant option"
  r_recorded_at :: instant
  r_invalidated_by :: "relationship_id option"
  r_lsn :: lsn

section \<open>Drafts and entities\<close>

record edge_hint =
  h_kind :: rel_kind_id
  h_to :: memory_id
  h_strength :: "f32 option"
  h_confidence :: "f32 option"

record memory_draft =
  d_memory_type :: u8
  d_title :: string
  d_content :: string
  d_summary :: "string option"
  d_visibility :: visibility
  d_context :: memory_context
  d_edge_hints :: "edge_hint list"
  d_external_key :: "external_key option"

record entity =
  en_id :: entity_id
  en_entity_type :: u8
  en_canonical_name :: string
  en_aliases :: "string list"

text \<open>\<open>str::chars().count()\<close>: the bytes of a UTF-8 string that start a code point.\<close>

definition chars_count :: "string \<Rightarrow> nat" where
  "chars_count s = length (filter (\<lambda>c. \<not> (128 \<le> (of_char c :: nat) \<and> (of_char c :: nat) < 192)) s)"

section \<open>Properties\<close>

lemma high_bit: "bit (0x80000000 :: int) n \<longleftrightarrow> n = 31"
proof -
  have "(0x80000000 :: int) = 2 ^ 31" by simp
  then show ?thesis by (simp only: bit_exp_iff) simp
qed

lemma low_mask: "bit (0x0000FFFF :: int) n \<longleftrightarrow> n < 16"
proof -
  have "(0x0000FFFF :: int) = mask 16" by (simp add: mask_eq_exp_minus_1)
  then show ?thesis by (simp only: bit_mask_iff) simp
qed

lemma bit_u16_less: "bit (w :: u16) n \<Longrightarrow> n < 16"
  using bit_imp_le_length [of w n] by simp

lemma is_kernel_iff: "is_kernel k \<longleftrightarrow> \<not> bit (kind_code k) 31"
proof -
  have "kind_code k AND 0x80000000 = 0 \<longleftrightarrow> (\<forall>n. \<not> bit (kind_code k AND 0x80000000) n)"
    by (metis bit_word_eqI bit_0_eq bot_apply bot_bool_def)
  also have "\<dots> \<longleftrightarrow> \<not> bit (kind_code k) 31"
    by (auto simp: bit_and_iff high_bit dest: spec [of _ 31])
  finally show ?thesis by (simp only: is_kernel_def)
qed

lemma bit_from_pack:
  "bit (kind_code (from_pack (PackId p) b)) n \<longleftrightarrow>
     n = 31 \<or> 16 \<le> n \<and> n < 32 \<and> bit p (n - 16) \<or> n < 16 \<and> bit b n"
  by (auto simp: bit_simps high_bit dest: bit_u16_less)

lemma from_pack_eq_iff:
  "from_pack (PackId p) b = from_pack (PackId q) c \<longleftrightarrow> b = c \<and> take_bit 15 p = take_bit 15 q"
proof
  assume "from_pack (PackId p) b = from_pack (PackId q) c"
  then have e: "bit (kind_code (from_pack (PackId p) b)) n = bit (kind_code (from_pack (PackId q) c)) n" for n
    by simp
  have "bit b n = bit c n" if "n < 16" for n using e [of n] that unfolding bit_from_pack by auto
  then have "b = c" by (intro bit_word_eqI) simp
  moreover have "bit (take_bit 15 p) n = bit (take_bit 15 q) n" for n
    using e [of "n + 16"] unfolding bit_from_pack by (auto simp: bit_take_bit_iff)
  then have "take_bit 15 p = take_bit 15 q" by (simp add: bit_eq_iff)
  ultimately show "b = c \<and> take_bit 15 p = take_bit 15 q" ..
next
  assume a: "b = c \<and> take_bit 15 p = take_bit 15 q"
  then have "bit p n = bit q n" if "n < 15" for n
    using that by (metis bit_take_bit_iff)
  then have "bit (kind_code (from_pack (PackId p) b)) n = bit (kind_code (from_pack (PackId q) c)) n" for n
    unfolding bit_from_pack using a by (cases "n = 31") (auto simp: not_less_eq)
  then show "from_pack (PackId p) b = from_pack (PackId q) c"
    by (auto simp: bit_eq_iff simp del: from_pack.simps intro: rel_kind_id.expand)
qed

text \<open>
  the two kind-id spaces are disjoint, and a pack-space id determines its local index and
  the low fifteen bits of its pack slot; the sixteenth is the space marker.
\<close>

theorem kind_spaces:
  "is_kernel (from_kernel a) \<and> \<not> is_kernel (from_pack (PackId p) b) \<and>
   local_part (from_pack (PackId p) b) = ucast b \<and>
   (from_pack (PackId p) b = from_pack (PackId q) c \<longleftrightarrow> b = c \<and> take_bit 15 p = take_bit 15 q)"
proof (intro conjI)
  show "is_kernel (from_kernel a)"
    by (auto simp: is_kernel_iff from_kernel_def bit_simps dest: bit_u16_less)
  show "\<not> is_kernel (from_pack (PackId p) b)"
    by (simp only: is_kernel_iff bit_from_pack) simp
  have "bit (local_part (from_pack (PackId p) b)) n = bit (ucast b :: u32) n" for n
    by (auto simp: local_part_def bit_and_iff low_mask bit_from_pack bit_ucast_iff
        simp del: from_pack.simps dest: bit_u16_less)
  then show "local_part (from_pack (PackId p) b) = ucast b"
    by (simp add: bit_eq_iff)
qed (rule from_pack_eq_iff)

text \<open>
  a score that the constructor accepts is a number between the floats 0 and 1, so NaN, the
  infinities and negative numbers are refused with the offending value.
\<close>

theorem f01_new_range:
  "f01_new v =
     (if \<not> f32_nan v \<and> 0 \<le> f32_rank v \<and> f32_rank v \<le> f32_rank f32_one then Inr (F01 v)
      else Inl (ScoreOutOfRange v)) \<and>
   (f32_nan v \<longrightarrow> f01_new v = Inl (ScoreOutOfRange v))"
  by (auto simp: f01_new_def f32_le_def f32_zero_def f32_one_def f32_nan_def f32_rank_def
      f32_magnitude_def)

theorem f01_new_range_witness:
  "f01_new 0x3F000000 = Inr (F01 0x3F000000) \<and> f01_new 0x7FC00000 = Inl (ScoreOutOfRange 0x7FC00000)"
  using f01_new_range [of "0x3F000000"] f01_new_range [of "0x7FC00000"]
  by (simp add: f32_nan_def f32_rank_def f32_magnitude_def f32_one_def)

end
