(* ===== verification/Packs.thy ===== *)
theory Packs
  imports Kernel_Types
begin

text \<open>
  Ontology packs and the structured summary of an ontology
  (\<open>exocortex-kernel/src/pack.rs\<close>, \<open>verbs.rs\<close> and the first half of
  \<open>compatibility.rs\<close>): canonicalisation of a pack list, the summary built from it, the
  byte string that the compatibility fingerprint hashes, and the build fingerprint.
  SHA-256 and bincode are third-party code and parameters (\<open>sha256\<close>, \<open>bincode\<close>).
\<close>

section \<open>Packs\<close>

record pack_version =
  pv_major :: u16
  pv_minor :: u16
  pv_patch :: u16

record type_triple =
  t_kind :: rel_kind_id
  t_from_types :: "u8 list option"
  t_to_types :: "u8 list option"

record pack_action_def =
  pa_name :: string
  pa_ceiling :: visibility
  pa_input_type :: string
  pa_output_type :: string

record pack_function_def =
  pf_name :: string
  pf_engine :: string
  pf_input_type :: string
  pf_output_type :: string
  pf_p50_budget_us :: u32
  pf_p99_budget_us :: u32

record guidance_link =
  gl_kind :: string
  gl_outgoing :: bool
  gl_other :: string

record guidance_entry =
  g_key :: string
  g_when :: "string option"
  g_caution :: "string option"
  g_links :: "guidance_link list"

record pack_def =
  pd_name :: string
  pd_version :: pack_version
  pd_kernel_min :: pack_version
  pd_memory_type_names :: "string list"
  pd_entity_type_names :: "string list"
  pd_kinds :: "rel_meta list"
  pd_type_triples :: "type_triple list"
  pd_rule_ids :: "string list"
  pd_actions :: "pack_action_def list"
  pd_functions :: "pack_function_def list"
  pd_guidance :: "guidance_entry list"

definition kernel_const_by_name :: "string \<Rightarrow> rel_kind_id option" where
  "kernel_const_by_name name =
     (if name = ''SOLVES'' then Some SOLVES
      else if name = ''FIXES'' then Some FIXES
      else if name = ''CAUSES'' then Some CAUSES
      else if name = ''IN_SESSION'' then Some IN_SESSION
      else None)"

text \<open>\<open>PackVersion::parse\<close>: the byte loop over the three \<open>u16\<close> fields, with the wrapping
  arithmetic of a release build.\<close>

fun parse_version_loop :: "string \<Rightarrow> nat \<Rightarrow> u16 \<Rightarrow> u16 \<Rightarrow> u16 \<Rightarrow> u16 \<times> u16 \<times> u16" where
  "parse_version_loop [] field a b c = (a, b, c)"
| "parse_version_loop (ch # s) field a b c =
     (let n = of_char ch :: nat in
      if 48 \<le> n \<and> n \<le> 57 then
        (let d = word_of_nat (n - 48) in
         if field = 0 then parse_version_loop s field (a * 10 + d) b c
         else if field = 1 then parse_version_loop s field a (b * 10 + d) c
         else parse_version_loop s field a b (c * 10 + d))
      else if n = 46 \<and> field < 2 then parse_version_loop s (Suc field) a b c
      else parse_version_loop s field a b c)"

definition parse_version :: "string \<Rightarrow> pack_version" where
  "parse_version s =
     (case parse_version_loop s 0 0 0 0 of (a, b, c) \<Rightarrow>
        \<lparr>pv_major = a, pv_minor = b, pv_patch = c\<rparr>)"

section \<open>Canonicalisation\<close>

text \<open>\<open>u8::saturating_add\<close>.\<close>

definition saturating_add8 :: "u8 \<Rightarrow> u8 \<Rightarrow> u8" where
  "saturating_add8 a b = (if unat a + unat b < 256 then a + b else 255)"

definition canon_kind_id :: "u32 \<Rightarrow> rel_kind_id \<Rightarrow> rel_kind_id" where
  "canon_kind_id slot k =
     (if is_kernel k then k else RelKindId (0x80000000 OR slot OR local_part k))"

definition canon_kind :: "u32 \<Rightarrow> rel_meta \<Rightarrow> rel_meta" where
  "canon_kind slot k =
     k\<lparr>k_id := canon_kind_id slot (k_id k), k_inverse := map_option (canon_kind_id slot) (k_inverse k)\<rparr>"

definition canon_side :: "u8 \<Rightarrow> u8 list option \<Rightarrow> u8 list option" where
  "canon_side mt_offset side = map_option (map (saturating_add8 mt_offset)) side"

definition canon_triple :: "u32 \<Rightarrow> u8 \<Rightarrow> type_triple \<Rightarrow> type_triple" where
  "canon_triple slot mt_offset t =
     t\<lparr>t_kind := canon_kind_id slot (t_kind t),
       t_from_types := canon_side mt_offset (t_from_types t),
       t_to_types := canon_side mt_offset (t_to_types t)\<rparr>"

definition canon_pack :: "nat \<Rightarrow> u8 \<Rightarrow> pack_def \<Rightarrow> pack_def" where
  "canon_pack i mt_offset p =
     (let slot = push_bit 16 (word_of_nat i) in
      p\<lparr>pd_kinds := map (canon_kind slot) (pd_kinds p),
        pd_type_triples := map (canon_triple slot mt_offset) (pd_type_triples p)\<rparr>)"

text \<open>The running offset of the memory-type ids, one entry per pack.\<close>

fun mt_offsets :: "u8 \<Rightarrow> pack_def list \<Rightarrow> u8 list" where
  "mt_offsets acc [] = []"
| "mt_offsets acc (p # ps) =
     acc # mt_offsets (saturating_add8 acc (word_of_nat (length (pd_memory_type_names p)))) ps"

definition canonicalized :: "pack_def list \<Rightarrow> pack_def list" where
  "canonicalized packs =
     (let ps = sort_key pd_name packs; offs = mt_offsets 0 ps in
      map (\<lambda>i. canon_pack i (offs ! i) (ps ! i)) [0..<length ps])"

section \<open>The summary\<close>

record kind_summary =
  ks_id :: u32
  ks_name :: string
  ks_bucket :: u8
  ks_bucket_extension :: u16
  ks_inverse :: "u32 option"
  ks_bidirectional :: bool
  ks_default_strength :: f32
  ks_computed_only :: bool

record triple_summary =
  ts_kind :: u32
  ts_from_types :: "u8 list option"
  ts_to_types :: "u8 list option"

record action_verb_summary =
  av_pack :: string
  av_name :: string
  av_ceiling :: u8
  av_input_type :: string
  av_output_type :: string

record function_verb_summary =
  fv_pack :: string
  fv_name :: string
  fv_engine :: string
  fv_input_type :: string
  fv_output_type :: string

record ontology_summary =
  os_memory_types :: "string list"
  os_entity_types :: "string list"
  os_kinds :: "kind_summary list"
  os_type_triples :: "triple_summary list"
  os_rule_ids :: "string list"
  os_actions :: "action_verb_summary list"
  os_functions :: "function_verb_summary list"

fun bucket_parts :: "rel_bucket \<Rightarrow> u8 \<times> u16" where
  "bucket_parts Causal = (0, 0)"
| "bucket_parts Solution = (1, 0)"
| "bucket_parts Context = (2, 0)"
| "bucket_parts Learning = (3, 0)"
| "bucket_parts Similarity = (4, 0)"
| "bucket_parts Workflow = (5, 0)"
| "bucket_parts Quality = (6, 0)"
| "bucket_parts Integration = (7, 0)"
| "bucket_parts (Extension ext) = (8, ext)"

definition summarize_triple :: "type_triple \<Rightarrow> triple_summary" where
  "summarize_triple t =
     \<lparr>ts_kind = kind_code (t_kind t), ts_from_types = t_from_types t, ts_to_types = t_to_types t\<rparr>"

definition summarize_kind :: "rel_meta \<Rightarrow> kind_summary" where
  "summarize_kind k =
     (case bucket_parts (k_bucket k) of (bucket, ext) \<Rightarrow>
      \<lparr>ks_id = kind_code (k_id k), ks_name = k_display_name k, ks_bucket = bucket,
       ks_bucket_extension = ext, ks_inverse = map_option kind_code (k_inverse k),
       ks_bidirectional = k_bidirectional k, ks_default_strength = k_default_strength k,
       ks_computed_only = k_computed_only k\<rparr>)"

definition summarize_action :: "string \<Rightarrow> pack_action_def \<Rightarrow> action_verb_summary" where
  "summarize_action pack a =
     \<lparr>av_pack = pack, av_name = pa_name a, av_ceiling = word_of_nat (vis_rank (pa_ceiling a)),
      av_input_type = pa_input_type a, av_output_type = pa_output_type a\<rparr>"

definition summarize_function :: "string \<Rightarrow> pack_function_def \<Rightarrow> function_verb_summary" where
  "summarize_function pack f =
     \<lparr>fv_pack = pack, fv_name = pf_name f, fv_engine = pf_engine f,
      fv_input_type = pf_input_type f, fv_output_type = pf_output_type f\<rparr>"

text \<open>The keys of the derived orders the summary is sorted by.\<close>

definition triple_key :: "triple_summary \<Rightarrow> u32 \<times> u8 list option \<times> u8 list option" where
  "triple_key t = (ts_kind t, ts_from_types t, ts_to_types t)"

definition action_key :: "action_verb_summary \<Rightarrow> string \<times> string \<times> u8 \<times> string \<times> string" where
  "action_key a = (av_pack a, av_name a, av_ceiling a, av_input_type a, av_output_type a)"

definition function_key :: "function_verb_summary \<Rightarrow> string \<times> string \<times> string \<times> string \<times> string" where
  "function_key f = (fv_pack f, fv_name f, fv_engine f, fv_input_type f, fv_output_type f)"

definition of_canonical_packs :: "pack_def list \<Rightarrow> ontology_summary" where
  "of_canonical_packs packs =
     \<lparr>os_memory_types = concat (map pd_memory_type_names packs),
      os_entity_types = concat (map pd_entity_type_names packs),
      os_kinds = sort_key ks_id (concat (map (\<lambda>p. map summarize_kind (pd_kinds p)) packs)),
      os_type_triples =
        sort_key triple_key (concat (map (\<lambda>p. map summarize_triple (pd_type_triples p)) packs)),
      os_rule_ids = concat (map pd_rule_ids packs),
      os_actions =
        sort_key action_key (concat (map (\<lambda>p. map (summarize_action (pd_name p)) (pd_actions p)) packs)),
      os_functions =
        sort_key function_key
          (concat (map (\<lambda>p. map (summarize_function (pd_name p)) (pd_functions p)) packs))\<rparr>"

section \<open>The fingerprints\<close>

definition enc_inverse :: "u32 option \<Rightarrow> byte list" where
  "enc_inverse i = (case i of None \<Rightarrow> [0] | Some x \<Rightarrow> 1 # enc_u32 x)"

definition enc_kind :: "kind_summary \<Rightarrow> byte list" where
  "enc_kind k =
     enc_u32 (ks_id k) @ enc_string (ks_name k) @ enc_u8 (ks_bucket k)
     @ enc_u16 (ks_bucket_extension k) @ enc_inverse (ks_inverse k)
     @ enc_bool (ks_bidirectional k) @ enc_u32 (ks_default_strength k) @ enc_bool (ks_computed_only k)"

definition enc_side :: "u8 list option \<Rightarrow> byte list" where
  "enc_side side = (case side of None \<Rightarrow> [0] | Some xs \<Rightarrow> 1 # section_of enc_u8 xs)"

definition enc_triple :: "triple_summary \<Rightarrow> byte list" where
  "enc_triple t = enc_u32 (ts_kind t) @ enc_side (ts_from_types t) @ enc_side (ts_to_types t)"

definition enc_action :: "action_verb_summary \<Rightarrow> byte list" where
  "enc_action v =
     enc_string (av_pack v) @ enc_string (av_name v) @ enc_u8 (av_ceiling v)
     @ enc_string (av_input_type v) @ enc_string (av_output_type v)"

definition enc_function :: "function_verb_summary \<Rightarrow> byte list" where
  "enc_function v =
     enc_string (fv_pack v) @ enc_string (fv_name v) @ enc_string (fv_engine v)
     @ enc_string (fv_input_type v) @ enc_string (fv_output_type v)"

definition summary_bytes :: "ontology_summary \<Rightarrow> byte list" where
  "summary_bytes s =
     str_bytes ''exocortex-compat-v2'' @ [0x1E]
     @ section_of enc_string (os_memory_types s)
     @ section_of enc_string (os_entity_types s)
     @ section_of enc_kind (os_kinds s)
     @ section_of enc_triple (os_type_triples s)
     @ section_of enc_string (os_rule_ids s)
     @ section_of enc_action (os_actions s)
     @ section_of enc_function (os_functions s)"

definition compatibility_fingerprint ::
    "(byte list \<Rightarrow> byte list) \<Rightarrow> ontology_summary \<Rightarrow> byte list" where
  "compatibility_fingerprint sha256 s = sha256 (summary_bytes s)"

definition compute_fingerprint :: "(byte list \<Rightarrow> byte list) \<Rightarrow> pack_def list \<Rightarrow> byte list" where
  "compute_fingerprint sha256 packs =
     compatibility_fingerprint sha256 (of_canonical_packs (canonicalized packs))"

definition build_fingerprint ::
    "(byte list \<Rightarrow> byte list) \<Rightarrow> (pack_def \<Rightarrow> byte list) \<Rightarrow> pack_def list \<Rightarrow> byte list" where
  "build_fingerprint sha256 bincode packs =
     sha256 (str_bytes ''exocortex-kernel-v1'' @ [0x1E]
       @ concat (map (\<lambda>p. framed32 (bincode p)) (sort_key pd_name packs)))"

section \<open>The summary encoding is a prefix code\<close>

definition kind_fits :: "kind_summary \<Rightarrow> bool" where
  "kind_fits k = fits32 (length (ks_name k))"

definition side_fits :: "u8 list option \<Rightarrow> bool" where
  "side_fits s = (case s of None \<Rightarrow> True | Some xs \<Rightarrow> fits32 (length xs))"

definition triple_fits :: "triple_summary \<Rightarrow> bool" where
  "triple_fits t = (side_fits (ts_from_types t) \<and> side_fits (ts_to_types t))"

definition action_fits :: "action_verb_summary \<Rightarrow> bool" where
  "action_fits v =
     (fits32 (length (av_pack v)) \<and> fits32 (length (av_name v))
      \<and> fits32 (length (av_input_type v)) \<and> fits32 (length (av_output_type v)))"

definition function_fits :: "function_verb_summary \<Rightarrow> bool" where
  "function_fits v =
     (fits32 (length (fv_pack v)) \<and> fits32 (length (fv_name v)) \<and> fits32 (length (fv_engine v))
      \<and> fits32 (length (fv_input_type v)) \<and> fits32 (length (fv_output_type v)))"

text \<open>Every length in the summary fits its four-byte prefix.\<close>

definition summary_fits :: "ontology_summary \<Rightarrow> bool" where
  "summary_fits s =
     ((fits32 (length (os_memory_types s)) \<and> list_all (\<lambda>n. fits32 (length n)) (os_memory_types s))
      \<and> (fits32 (length (os_entity_types s)) \<and> list_all (\<lambda>n. fits32 (length n)) (os_entity_types s))
      \<and> (fits32 (length (os_kinds s)) \<and> list_all kind_fits (os_kinds s))
      \<and> (fits32 (length (os_type_triples s)) \<and> list_all triple_fits (os_type_triples s))
      \<and> (fits32 (length (os_rule_ids s)) \<and> list_all (\<lambda>n. fits32 (length n)) (os_rule_ids s))
      \<and> (fits32 (length (os_actions s)) \<and> list_all action_fits (os_actions s))
      \<and> (fits32 (length (os_functions s)) \<and> list_all function_fits (os_functions s)))"

interpretation invc: prefix_code enc_inverse "\<lambda>_. True"
  using u32c.option_code by (simp add: enc_inverse_def [abs_def] option.pred_True)

interpretation sidec: prefix_code enc_side side_fits
proof -
  have "prefix_code (\<lambda>v. case v of None \<Rightarrow> [0] | Some x \<Rightarrow> 1 # section_of enc_u8 x)
    (pred_option (\<lambda>xs. fits32 (length xs) \<and> list_all (\<lambda>_. True) xs))"
    by (rule prefix_code.option_code [OF u8c.section_code])
  moreover have "pred_option (\<lambda>xs. fits32 (length xs) \<and> list_all (\<lambda>_. True) xs) = side_fits"
    by (auto simp: side_fits_def fun_eq_iff list.pred_True split: option.splits)
  ultimately show "prefix_code enc_side side_fits"
    by (simp add: enc_side_def [abs_def])
qed

interpretation kindc: prefix_code enc_kind kind_fits
proof
  fix x y :: kind_summary and r s :: "byte list"
  assume "kind_fits x" "kind_fits y" "enc_kind x @ r = enc_kind y @ s"
  then show "x = y \<and> r = s"
    unfolding enc_kind_def kind_fits_def append_assoc
    by (auto dest!: u32c.cancel [OF TrueI TrueI] strc.cancel [rotated 2] u8c.cancel [OF TrueI TrueI]
        u16c.cancel [OF TrueI TrueI] invc.cancel [OF TrueI TrueI] boolc.cancel [OF TrueI TrueI])
qed

interpretation triplec: prefix_code enc_triple triple_fits
proof
  fix x y :: triple_summary and r s :: "byte list"
  assume "triple_fits x" "triple_fits y" "enc_triple x @ r = enc_triple y @ s"
  then show "x = y \<and> r = s"
    unfolding enc_triple_def triple_fits_def append_assoc
    by (auto dest!: u32c.cancel [OF TrueI TrueI] sidec.cancel [rotated 2])
qed

interpretation actionc: prefix_code enc_action action_fits
proof
  fix x y :: action_verb_summary and r s :: "byte list"
  assume "action_fits x" "action_fits y" "enc_action x @ r = enc_action y @ s"
  then show "x = y \<and> r = s"
    unfolding enc_action_def action_fits_def append_assoc
    by (auto dest!: strc.cancel [rotated 2] u8c.cancel [OF TrueI TrueI])
qed

interpretation functionc: prefix_code enc_function function_fits
proof
  fix x y :: function_verb_summary and r s :: "byte list"
  assume "function_fits x" "function_fits y" "enc_function x @ r = enc_function y @ s"
  then show "x = y \<and> r = s"
    unfolding enc_function_def function_fits_def append_assoc
    by (auto dest!: strc.cancel [rotated 2])
qed

lemmas section_cancels =
  strsc.cancel
  prefix_code.cancel [OF kindc.section_code]
  prefix_code.cancel [OF triplec.section_code]
  prefix_code.cancel [OF actionc.section_code]
  prefix_code.cancel [OF functionc.section_code]

section \<open>Properties of the fingerprints\<close>

lemma summary_bytes_inj:
  assumes "summary_fits x" "summary_fits y" "summary_bytes x = summary_bytes y"
  shows "x = y"
proof -
  note fx = assms(1)[unfolded summary_fits_def] and fy = assms(2)[unfolded summary_fits_def]
  from assms(3) have "section_of enc_string (os_memory_types x)
       @ (section_of enc_string (os_entity_types x) @ section_of enc_kind (os_kinds x)
       @ section_of enc_triple (os_type_triples x) @ section_of enc_string (os_rule_ids x)
       @ section_of enc_action (os_actions x) @ section_of enc_function (os_functions x) @ []) =
     section_of enc_string (os_memory_types y)
       @ (section_of enc_string (os_entity_types y) @ section_of enc_kind (os_kinds y)
       @ section_of enc_triple (os_type_triples y) @ section_of enc_string (os_rule_ids y)
       @ section_of enc_action (os_actions y) @ section_of enc_function (os_functions y) @ [])"
    unfolding summary_bytes_def by (simp only: same_append_eq append_Nil2)
  note e1 = section_cancels(1) [OF _ _ this, OF fx[THEN conjunct1] fy[THEN conjunct1]]
  note fx = fx[THEN conjunct2] and fy = fy[THEN conjunct2]
  note e2 = section_cancels(1) [OF fx[THEN conjunct1] fy[THEN conjunct1] e1[THEN conjunct2]]
  note fx = fx[THEN conjunct2] and fy = fy[THEN conjunct2]
  note e3 = section_cancels(2) [OF fx[THEN conjunct1] fy[THEN conjunct1] e2[THEN conjunct2]]
  note fx = fx[THEN conjunct2] and fy = fy[THEN conjunct2]
  note e4 = section_cancels(3) [OF fx[THEN conjunct1] fy[THEN conjunct1] e3[THEN conjunct2]]
  note fx = fx[THEN conjunct2] and fy = fy[THEN conjunct2]
  note e5 = section_cancels(1) [OF fx[THEN conjunct1] fy[THEN conjunct1] e4[THEN conjunct2]]
  note fx = fx[THEN conjunct2] and fy = fy[THEN conjunct2]
  note e6 = section_cancels(4) [OF fx[THEN conjunct1] fy[THEN conjunct1] e5[THEN conjunct2]]
  note e7 = section_cancels(5) [OF fx[THEN conjunct2] fy[THEN conjunct2] e6[THEN conjunct2]]
  from e1 e2 e3 e4 e5 e6 e7 show ?thesis by simp
qed

text \<open>
  no field boundary of the compatibility fingerprint is ambiguous.  Two summaries whose
  hash input is the same byte string are the same summary, so with a hash that does not
  collide on the two inputs, equal fingerprints mean equal ontologies.
\<close>

theorem fingerprint_determines_summary:
  assumes "summary_fits x" "summary_fits y"
    and "\<And>u v. u \<in> {summary_bytes x, summary_bytes y} \<Longrightarrow> v \<in> {summary_bytes x, summary_bytes y} \<Longrightarrow>
           sha256 u = sha256 v \<Longrightarrow> u = v"
  shows "compatibility_fingerprint sha256 x = compatibility_fingerprint sha256 y \<longleftrightarrow> x = y"
  using assms(3) [of "summary_bytes x" "summary_bytes y"] summary_bytes_inj [OF assms(1,2)]
  by (auto simp: compatibility_fingerprint_def)

definition sample_summary :: "string \<Rightarrow> ontology_summary" where
  "sample_summary n =
     \<lparr>os_memory_types = [n], os_entity_types = [], os_kinds = [], os_type_triples = [],
      os_rule_ids = [], os_actions = [], os_functions = []\<rparr>"

theorem fingerprint_determines_summary_witness:
  "compatibility_fingerprint id (sample_summary ''Problem'')
     \<noteq> compatibility_fingerprint id (sample_summary ''Solution'')"
  using fingerprint_determines_summary [of "sample_summary ''Problem''" "sample_summary ''Solution''" id]
  by (simp add: summary_fits_def sample_summary_def)

section \<open>Canonicalisation does not depend on the registration order\<close>

lemma filter_eq_by_count:
  assumes "mset xs = mset ys" "inj_on f (set xs)" "k \<in> set xs"
  shows "filter (\<lambda>x. f k = f x) xs = filter (\<lambda>x. f k = f x) ys"
proof -
  have s: "set xs = set ys" using assms(1) by (rule mset_eq_setD)
  have "filter (\<lambda>x. f k = f x) xs = filter (\<lambda>x. k = x) xs"
    using assms(2,3) by (auto intro!: filter_cong dest: inj_onD)
  also have "\<dots> = replicate (count (mset xs) k) k"
    by (simp add: count_mset count_list_eq_length_filter replicate_length_filter)
  also have "\<dots> = filter (\<lambda>x. k = x) ys"
    by (simp add: assms(1) count_mset count_list_eq_length_filter replicate_length_filter)
  also have "\<dots> = filter (\<lambda>x. f k = f x) ys"
    using assms(2,3) s by (auto intro!: filter_cong dest: inj_onD)
  finally show ?thesis .
qed

lemma sort_key_perm:
  assumes "mset xs = mset ys" "inj_on f (set xs)"
  shows "sort_key f xs = sort_key f ys"
proof (rule properties_for_sort_key)
  show "mset (sort_key f ys) = mset xs" by (simp add: assms(1))
  show "sorted (map f (sort_key f ys))" by simp
  fix k assume "k \<in> set (sort_key f ys)"
  moreover have "mset ys = mset xs" "set ys = set xs" using assms(1) by (auto dest: mset_eq_setD)
  ultimately show "filter (\<lambda>x. f k = f x) (sort_key f ys) = filter (\<lambda>x. f k = f x) xs"
    using filter_eq_by_count [of "sort_key f ys" xs f k] assms(2) by simp
qed

lemma canonicalized_perm:
  assumes "mset ps = mset qs" "distinct (map pd_name ps)"
  shows "canonicalized ps = canonicalized qs"
  using sort_key_perm [OF assms(1), of pd_name] assms(2)
  by (simp add: canonicalized_def distinct_map)

lemma length_mt_offsets [simp]: "length (mt_offsets acc ps) = length ps"
  by (induction acc ps rule: mt_offsets.induct) auto

lemma length_canonicalized [simp]: "length (canonicalized ps) = length ps"
  by (simp add: canonicalized_def Let_def)

lemma nth_canonicalized:
  "i < length ps \<Longrightarrow>
     canonicalized ps ! i = canon_pack i (mt_offsets 0 (sort_key pd_name ps) ! i) (sort_key pd_name ps ! i)"
  by (simp add: canonicalized_def Let_def)

lemma canon_pack_fields [simp]:
  "pd_name (canon_pack i off p) = pd_name p"
  "pd_memory_type_names (canon_pack i off p) = pd_memory_type_names p"
  "pd_entity_type_names (canon_pack i off p) = pd_entity_type_names p"
  by (simp_all add: canon_pack_def Let_def)

lemma map_canonicalized:
  assumes "\<And>i off p. g (canon_pack i off p) = g p"
  shows "map g (canonicalized ps) = map g (sort_key pd_name ps)"
  by (rule nth_equalityI) (auto simp: nth_canonicalized assms)

text \<open>While the types fit a byte, the offset of a pack is the number of types before it.\<close>

lemma unat_saturating_add8:
  "unat a + unat b < 256 \<Longrightarrow> unat (saturating_add8 a b) = unat a + unat b"
  by (simp add: saturating_add8_def unat_word_ariths)

lemma mt_offsets_count:
  "i < length ps \<Longrightarrow> n + length (concat (map pd_memory_type_names ps)) \<le> 256 \<Longrightarrow>
   n + length (concat (map pd_memory_type_names (take i ps))) < 256 \<Longrightarrow>
   unat (mt_offsets (word_of_nat n) ps ! i) = n + length (concat (map pd_memory_type_names (take i ps)))"
proof (induction ps arbitrary: i n)
  case Nil
  then show ?case by simp
next
  case (Cons p ps)
  have n: "n < 256" using Cons.prems(3) by simp
  show ?case
  proof (cases i)
    case 0
    with n show ?thesis by (simp add: unat_byte_of_nat)
  next
    case (Suc j)
    let ?l = "length (pd_memory_type_names p)"
    have l: "n + ?l < 256" using Cons.prems(3) Suc by simp
    then have "saturating_add8 (word_of_nat n) (word_of_nat ?l) = word_of_nat (n + ?l)"
      by (simp add: saturating_add8_def unat_byte_of_nat)
    moreover have "unat (mt_offsets (word_of_nat (n + ?l)) ps ! j) =
        (n + ?l) + length (concat (map pd_memory_type_names (take j ps)))"
      using Cons.prems Suc by (intro Cons.IH) (auto simp: add.assoc)
    ultimately show ?thesis using Suc by (simp add: add.assoc)
  qed
qed

end
