(* ===== verification/Ontology.thy ===== *)
theory Ontology
  imports Packs
begin

text \<open>
  The effective ontology (\<open>exocortex-kernel/src/ontology.rs\<close>) and the inverse companion of
  a relationship (\<open>materialize_inverse\<close> of \<open>relationship.rs\<close>).  \<open>from_packs\<close> returns the
  assembled ontology or the first registration error, in the order of the source's checks.
\<close>

record ontology =
  o_packs :: "pack_def list"
  o_kinds_by_id :: "(rel_kind_id, rel_meta) hmap"
  o_triples_by_kind :: "(rel_kind_id, type_triple list) hmap"
  o_memory_type_by_name :: "(string, u8) hmap"
  o_entity_type_by_name :: "(string, u8) hmap"
  o_memory_type_names :: "string list"
  o_entity_type_names :: "string list"
  o_fingerprint :: "byte list"
  o_build_fingerprint :: "byte list"
  o_summary :: ontology_summary

definition check_type_names :: "string list \<Rightarrow> kernel_error + unit" where
  "check_type_names names =
     (case first_repeat [] names of Some n \<Rightarrow> Inl (DuplicateTypeName n) | None \<Rightarrow> Inr ())"

fun register_kinds ::
    "rel_meta list \<Rightarrow> (rel_kind_id, rel_meta) hmap \<Rightarrow> string list \<Rightarrow>
     kernel_error + (rel_kind_id, rel_meta) hmap" where
  "register_kinds [] m names = Inr m"
| "register_kinds (k # ks) m names =
     (if hm_contains m (k_id k) then Inl (DuplicateKind (k_id k))
      else if k_display_name k \<in> set names then Inl (DuplicateKindName (k_display_name k))
      else register_kinds ks (hm_insert (k_id k) k m) (k_display_name k # names))"

fun require_bound ::
    "rel_kind_id list \<Rightarrow> (rel_kind_id, rel_meta) hmap \<Rightarrow> kernel_error + unit" where
  "require_bound [] m = Inr ()"
| "require_bound (k # ks) m =
     (if hm_contains m k then require_bound ks m else Inl (UnboundKernelConstant k))"

definition index_triples :: "type_triple list \<Rightarrow> (rel_kind_id, type_triple list) hmap" where
  "index_triples ts = fold (\<lambda>t m. hm_push (t_kind t) t m) ts []"

text \<open>A name is bound to the number of names before it, cast to \<open>u8\<close>.\<close>

fun index_names :: "string list \<Rightarrow> nat \<Rightarrow> (string, u8) hmap \<Rightarrow> (string, u8) hmap" where
  "index_names [] i m = m"
| "index_names (n # ns) i m = index_names ns (Suc i) (hm_insert n (word_of_nat i) m)"

definition from_packs ::
    "(byte list \<Rightarrow> byte list) \<Rightarrow> (pack_def \<Rightarrow> byte list) \<Rightarrow> pack_def list \<Rightarrow> kernel_error + ontology"
  where
  "from_packs sha256 bincode packs0 =
     (case first_repeat [] (map pd_name packs0) of
        Some n \<Rightarrow> Inl (DuplicatePack n)
      | None \<Rightarrow>
        (let packs = canonicalized packs0;
             mt = concat (map pd_memory_type_names packs);
             et = concat (map pd_entity_type_names packs) in
         and_then (check_type_names mt) (\<lambda>_.
         and_then (check_type_names et) (\<lambda>_.
         and_then (register_kinds (concat (map pd_kinds packs)) [] []) (\<lambda>kinds.
         and_then (require_bound [SOLVES, FIXES, CAUSES, IN_SESSION] kinds) (\<lambda>_.
           (let summary = of_canonical_packs packs in
            Inr \<lparr>o_packs = packs,
                 o_kinds_by_id = kinds,
                 o_triples_by_kind = index_triples (concat (map pd_type_triples packs)),
                 o_memory_type_by_name = index_names mt 0 [],
                 o_entity_type_by_name = index_names et 0 [],
                 o_memory_type_names = mt,
                 o_entity_type_names = et,
                 o_fingerprint = compatibility_fingerprint sha256 summary,
                 o_build_fingerprint = build_fingerprint sha256 bincode packs,
                 o_summary = summary\<rparr>)))))))"

definition kind_id :: "ontology \<Rightarrow> string \<Rightarrow> rel_kind_id option" where
  "kind_id onto name =
     map_option k_id (find (\<lambda>k. k_display_name k = name) (hm_values (o_kinds_by_id onto)))"

definition memory_type_id :: "ontology \<Rightarrow> string \<Rightarrow> u8 option" where
  "memory_type_id onto name = hm_get (o_memory_type_by_name onto) name"

definition materialize_inverse ::
    "(byte list \<Rightarrow> byte list) \<Rightarrow> ontology \<Rightarrow> relationship \<Rightarrow> relationship option" where
  "materialize_inverse blake3 onto rel =
     (case hm_get (o_kinds_by_id onto) (r_kind rel) of
        None \<Rightarrow> None
      | Some meta \<Rightarrow>
        (case k_inverse meta of
           None \<Rightarrow> None
         | Some inv_kind \<Rightarrow>
           if inv_kind = r_kind rel \<or> k_bidirectional meta then None
           else Some
             \<lparr>r_id = derive blake3 (r_to rel) inv_kind (r_from rel) None,
              r_kind = inv_kind,
              r_from = r_to rel,
              r_to = r_from rel,
              r_visibility = r_visibility rel,
              r_provenance = r_provenance rel,
              r_properties = r_properties rel,
              r_description = r_description rel,
              r_bidirectional = False,
              r_valid_from = r_valid_from rel,
              r_valid_until = r_valid_until rel,
              r_recorded_at = r_recorded_at rel,
              r_invalidated_by = None,
              r_lsn = r_lsn rel\<rparr>))"

section \<open>Lemmas on the assembly\<close>

lemma check_type_names_ok: "check_type_names ns = Inr u \<longleftrightarrow> distinct ns"
  using first_repeat_None [of "[]" ns]
  by (auto simp: check_type_names_def split: option.splits)

lemma register_kinds_ok:
  "register_kinds ks m names = Inr m' \<Longrightarrow> hm_ok m \<Longrightarrow>
     distinct (map k_id ks) \<and> distinct (map k_display_name ks) \<and>
     (\<forall>k\<in>set ks. \<not> hm_contains m (k_id k) \<and> k_display_name k \<notin> set names) \<and> hm_ok m' \<and>
     (\<forall>i. hm_get m' i = (case find (\<lambda>k. k_id k = i) ks of Some k \<Rightarrow> Some k | None \<Rightarrow> hm_get m i))"
proof (induction ks m names rule: register_kinds.induct)
  case (2 k ks m names)
  then have ok: "\<not> hm_contains m (k_id k)" "k_display_name k \<notin> set names"
      and r: "register_kinds ks (hm_insert (k_id k) k m) (k_display_name k # names) = Inr m'"
    by (auto split: if_splits)
  note ih = "2.IH" [OF ok r hm_ok_insert [OF "2.prems"(2)]]
  then have "find (\<lambda>x. k_id x = k_id k) ks = None" by (auto simp: find_None_iff)
  with ih ok show ?case by (auto split: option.splits)
qed simp

lemma require_bound_ok: "require_bound ks m = Inr u \<longleftrightarrow> (\<forall>k\<in>set ks. hm_contains m k)"
  by (induction ks m rule: require_bound.induct) auto

lemma index_triples_fold:
  "hm_get (fold (\<lambda>t m. hm_push (t_kind t) t m) ts m) k =
     (if filter (\<lambda>t. t_kind t = k) ts = [] then hm_get m k
      else Some ((case hm_get m k of None \<Rightarrow> [] | Some h \<Rightarrow> h) @ filter (\<lambda>t. t_kind t = k) ts))"
  by (induction ts arbitrary: m) auto

lemma hm_get_index_triples:
  "hm_get (index_triples ts) k =
     (if filter (\<lambda>t. t_kind t = k) ts = [] then None else Some (filter (\<lambda>t. t_kind t = k) ts))"
  unfolding index_triples_def index_triples_fold by simp

lemma index_names_other: "n \<notin> set ns \<Longrightarrow> hm_get (index_names ns i m) n = hm_get m n"
  by (induction ns i m rule: index_names.induct) auto

lemma index_names_nth:
  "distinct ns \<Longrightarrow> j < length ns \<Longrightarrow> hm_get (index_names ns i m) (ns ! j) = Some (word_of_nat (i + j))"
proof (induction ns i m arbitrary: j rule: index_names.induct)
  case (2 n ns i m)
  then show ?case by (cases j) (auto simp: index_names_other)
qed simp

lemma find_distinct:
  "distinct (map f ks) \<Longrightarrow> k \<in> set ks \<Longrightarrow> find (\<lambda>x. f x = f k) ks = Some k"
  by (induction ks) auto

lemma from_packs_ok:
  assumes "from_packs sha256 bincode ps = Inr onto"
  shows "distinct (map pd_name ps)"
    and "o_packs onto = canonicalized ps"
    and "o_memory_type_names onto = concat (map pd_memory_type_names (canonicalized ps))"
    and "o_entity_type_names onto = concat (map pd_entity_type_names (canonicalized ps))"
    and "distinct (o_memory_type_names onto)" "distinct (o_entity_type_names onto)"
    and "register_kinds (concat (map pd_kinds (canonicalized ps))) [] [] = Inr (o_kinds_by_id onto)"
    and "\<forall>k\<in>{SOLVES, FIXES, CAUSES, IN_SESSION}. hm_contains (o_kinds_by_id onto) k"
    and "o_triples_by_kind onto = index_triples (concat (map pd_type_triples (canonicalized ps)))"
    and "o_memory_type_by_name onto = index_names (o_memory_type_names onto) 0 []"
    and "o_entity_type_by_name onto = index_names (o_entity_type_names onto) 0 []"
    and "o_summary onto = of_canonical_packs (canonicalized ps)"
    and "o_fingerprint onto = compatibility_fingerprint sha256 (o_summary onto)"
  using assms
  by (auto simp: from_packs_def Let_def and_then_Inr check_type_names_ok require_bound_ok
      first_repeat_None simp del: require_bound.simps split: option.splits)

lemma kinds_by_id_iff:
  assumes "from_packs sha256 bincode ps = Inr onto"
  shows "hm_get (o_kinds_by_id onto) i = Some k \<longleftrightarrow>
    k \<in> set (concat (map pd_kinds (canonicalized ps))) \<and> k_id k = i"
proof -
  let ?ks = "concat (map pd_kinds (canonicalized ps))"
  from register_kinds_ok [OF from_packs_ok(7) [OF assms]]
  have d: "distinct (map k_id ?ks)"
    and g: "hm_get (o_kinds_by_id onto) i = find (\<lambda>k. k_id k = i) ?ks"
    by (auto split: option.splits)
  show ?thesis
  proof
    assume "hm_get (o_kinds_by_id onto) i = Some k"
    with g have "find (\<lambda>k. k_id k = i) ?ks = Some k" by simp
    then show "k \<in> set ?ks \<and> k_id k = i" unfolding find_Some_iff by (metis nth_mem)
  next
    assume "k \<in> set ?ks \<and> k_id k = i"
    with find_distinct [OF d, of k] g show "hm_get (o_kinds_by_id onto) i = Some k" by simp
  qed
qed

section \<open>Properties\<close>

text \<open>
  C39: the effective ontology does not depend on the order in which packs are registered: two
  registration orders of the same distinctly named packs assemble the same ontology, with
  the same ids and the same two fingerprints, or fail with the same error.
\<close>

theorem from_packs_order_independent:
  assumes "mset ps = mset qs" "distinct (map pd_name ps)"
  shows "from_packs sha256 bincode ps = from_packs sha256 bincode qs"
proof -
  have "distinct (map pd_name qs)"
    using assms by (metis mset_map mset_eq_imp_distinct_iff)
  then have "first_repeat [] (map pd_name qs) = None" "first_repeat [] (map pd_name ps) = None"
    using assms(2) by (auto simp: first_repeat_None)
  with canonicalized_perm [OF assms] show ?thesis by (simp add: from_packs_def)
qed

definition empty_version :: pack_version where
  "empty_version = \<lparr>pv_major = 1, pv_minor = 0, pv_patch = 0\<rparr>"

definition sample_kind :: "rel_kind_id \<Rightarrow> string \<Rightarrow> rel_kind_id option \<Rightarrow> rel_meta" where
  "sample_kind k n i =
     \<lparr>k_id = k, k_display_name = n, k_bucket = Causal, k_inverse = i, k_bidirectional = False,
      k_default_strength = f32_one, k_computed_only = False\<rparr>"

definition sample_pack :: "string \<Rightarrow> string list \<Rightarrow> rel_meta list \<Rightarrow> type_triple list \<Rightarrow> pack_def" where
  "sample_pack n mts ks ts =
     \<lparr>pd_name = n, pd_version = empty_version, pd_kernel_min = empty_version,
      pd_memory_type_names = mts, pd_entity_type_names = [], pd_kinds = ks, pd_type_triples = ts,
      pd_rule_ids = [], pd_actions = [], pd_functions = [], pd_guidance = []\<rparr>"

definition kernel_pack :: pack_def where
  "kernel_pack = sample_pack ''core'' [''Problem'', ''Solution'']
     [sample_kind SOLVES ''Solves'' None, sample_kind FIXES ''Fixes'' None,
      sample_kind CAUSES ''Causes'' (Some (RelKindId 0x80000000)), sample_kind IN_SESSION ''InSession'' None,
      sample_kind (RelKindId 0x80000000) ''CausedBy'' (Some CAUSES)]
     [\<lparr>t_kind = CAUSES, t_from_types = None, t_to_types = Some [0]\<rparr>]"

definition extra_pack :: pack_def where
  "extra_pack = sample_pack ''extra'' [''Note''] []
     [\<lparr>t_kind = SOLVES, t_from_types = Some [0], t_to_types = None\<rparr>]"

lemmas sample_defs =
  sample_pack_def sample_kind_def empty_version_def kernel_pack_def extra_pack_def

theorem from_packs_order_independent_witness:
  "from_packs id (\<lambda>_. []) [kernel_pack, extra_pack] = from_packs id (\<lambda>_. []) [extra_pack, kernel_pack]"
  by (rule from_packs_order_independent) (simp_all add: sample_defs)

text \<open>
  in an assembled ontology kind resolution is a function both ways.  Every kind of every
  pack is found under its id and under its display name, so the name lookup cannot depend
  on the iteration order of the hash map, and the four kernel constants are bound.
\<close>

theorem kind_resolution:
  assumes "from_packs sha256 bincode ps = Inr onto"
  shows "(\<forall>p\<in>set (o_packs onto). \<forall>k\<in>set (pd_kinds p).
      hm_get (o_kinds_by_id onto) (k_id k) = Some k \<and> kind_id onto (k_display_name k) = Some (k_id k)) \<and>
    (\<forall>k\<in>{SOLVES, FIXES, CAUSES, IN_SESSION}. \<exists>m. hm_get (o_kinds_by_id onto) k = Some m \<and> k_id m = k)"
proof -
  let ?ks = "concat (map pd_kinds (canonicalized ps))"
  note reg = register_kinds_ok [OF from_packs_ok(7) [OF assms], simplified]
  note by_id = kinds_by_id_iff [OF assms]
  have name: "kind_id onto (k_display_name k) = Some (k_id k)" if k: "k \<in> set ?ks" for k
  proof -
    have mem: "x \<in> set (hm_values (o_kinds_by_id onto)) \<longleftrightarrow> x \<in> set ?ks" for x
      using reg by_id by (auto simp: hm_values_iff)
    have uniq: "x = k" if "x \<in> set ?ks" "k_display_name x = k_display_name k" for x
      using reg k that by (auto simp: distinct_map dest: inj_onD)
    have "find (\<lambda>x. k_display_name x = k_display_name k) (hm_values (o_kinds_by_id onto)) \<noteq> None"
      unfolding find_None_iff using mem k by auto
    then obtain x where x: "find (\<lambda>x. k_display_name x = k_display_name k) (hm_values (o_kinds_by_id onto)) = Some x"
      by blast
    then have "x \<in> set (hm_values (o_kinds_by_id onto))" "k_display_name x = k_display_name k"
      by (auto simp: find_Some_iff)
    with mem uniq have "x = k" by blast
    with x show ?thesis by (simp add: kind_id_def)
  qed
  show ?thesis
    using name by_id from_packs_ok(2,8) [OF assms] by (force simp: hm_contains_def)
qed

lemma canonicalized_kernel_pack: "canonicalized [kernel_pack] = [kernel_pack]"
  by (simp add: canonicalized_def canon_pack_def canon_kind_def canon_kind_id_def canon_triple_def
      canon_side_def saturating_add8_def sample_defs is_kernel_def local_part_def from_kernel_def
      SOLVES_def FIXES_def CAUSES_def IN_SESSION_def)

lemma kernel_pack_loads: "\<exists>onto. from_packs sha256 bincode [kernel_pack] = Inr onto"
  unfolding from_packs_def canonicalized_kernel_pack Let_def
  by (simp add: check_type_names_def sample_defs from_kernel_def SOLVES_def FIXES_def CAUSES_def IN_SESSION_def)

theorem kind_resolution_witness:
  "\<exists>onto. from_packs id (\<lambda>_. []) [kernel_pack] = Inr onto \<and>
     (\<exists>m. hm_get (o_kinds_by_id onto) CAUSES = Some m \<and> k_id m = CAUSES)"
  using kernel_pack_loads [of id "\<lambda>_. []"] kind_resolution [of id "\<lambda>_. []" "[kernel_pack]"] by blast

text \<open>
  a memory type is resolved to its position in the pack order, reduced to eight bits.
  With at most 256 types the ids are therefore distinct; from the 257th on they wrap, and the
  name list no longer gives back the name that was looked up.
\<close>

theorem memory_type_ids:
  assumes "from_packs sha256 bincode ps = Inr onto"
    and "i < length (o_memory_type_names onto)" "j < length (o_memory_type_names onto)"
  shows "memory_type_id onto (o_memory_type_names onto ! i) = Some (word_of_nat i) \<and>
    (memory_type_id onto (o_memory_type_names onto ! i) = memory_type_id onto (o_memory_type_names onto ! j)
      \<longleftrightarrow> i mod 256 = j mod 256)"
proof -
  have get: "memory_type_id onto (o_memory_type_names onto ! k) = Some (word_of_nat k)"
    if "k < length (o_memory_type_names onto)" for k
    using that from_packs_ok(5,10) [OF assms(1)] index_names_nth [of "o_memory_type_names onto" k 0 "[]"]
    by (simp add: memory_type_id_def)
  have "(word_of_nat i :: u8) = word_of_nat j \<longleftrightarrow> i mod 256 = j mod 256"
    by (simp add: word_of_nat_eq_iff take_bit_eq_mod)
  with get [OF assms(2)] get [OF assms(3)] show ?thesis by simp
qed

theorem memory_type_ids_witness:
  "\<exists>onto. from_packs id (\<lambda>_. []) [kernel_pack] = Inr onto \<and>
     memory_type_id onto (o_memory_type_names onto ! 1) = Some 1"
proof -
  obtain onto where o: "from_packs id (\<lambda>_. []) [kernel_pack] = Inr onto"
    using kernel_pack_loads by blast
  then have "length (o_memory_type_names onto) = 2"
    using from_packs_ok(3) [OF o, unfolded canonicalized_kernel_pack] by (simp add: sample_defs)
  with memory_type_ids [OF o, of 1 1] o show ?thesis by simp
qed

text \<open>
  with at most 256 memory types in all, the type ids inside a pack's triples are remapped
  to the ids of the same types in the ontology: the canonical id of the pack-local type
  number \<open>x\<close> of the \<open>i\<close>-th pack names, in the global list, the pack's own \<open>x\<close>-th type.
\<close>

theorem triple_sides_follow_their_types:
  assumes "length (concat (map pd_memory_type_names (canonicalized ps))) \<le> 256"
    and "i < length ps" "unat x < length (pd_memory_type_names (canonicalized ps ! i))"
  shows "concat (map pd_memory_type_names (canonicalized ps)) !
      unat (saturating_add8 (mt_offsets 0 (sort_key pd_name ps) ! i) x)
    = pd_memory_type_names (canonicalized ps ! i) ! unat x"
proof -
  let ?s = "sort_key pd_name ps"
  let ?pre = "concat (map pd_memory_type_names (take i ?s))"
  have m: "map pd_memory_type_names (canonicalized ps) = map pd_memory_type_names ?s"
    by (rule map_canonicalized) simp
  have pi: "pd_memory_type_names (canonicalized ps ! i) = pd_memory_type_names (?s ! i)"
    using assms(2) by (simp add: nth_canonicalized)
  have split: "concat (map pd_memory_type_names ?s) =
      ?pre @ pd_memory_type_names (?s ! i) @ concat (map pd_memory_type_names (drop (Suc i) ?s))"
    using assms(2) by (metis id_take_nth_drop length_sort map_append map_append list.simps(9) concat_append concat.simps(2) )
  have len: "length ?pre + unat x < 256"
    using assms(1,3) split by (simp add: m pi)
  then have off: "unat (mt_offsets 0 ?s ! i) = length ?pre"
    using mt_offsets_count [of i ?s 0] assms(1,2) by (simp add: m)
  have "unat (saturating_add8 (mt_offsets 0 ?s ! i) x) = length ?pre + unat x"
    using unat_saturating_add8 off len by simp
  with split assms(3) show ?thesis by (simp add: m pi nth_append)
qed

theorem triple_sides_follow_their_types_witness:
  "concat (map pd_memory_type_names (canonicalized [extra_pack, kernel_pack])) !
      unat (saturating_add8 (mt_offsets 0 (sort_key pd_name [extra_pack, kernel_pack]) ! 1) 0)
    = pd_memory_type_names (canonicalized [extra_pack, kernel_pack] ! 1) ! 0"
proof -
  have "length (concat (map pd_memory_type_names (canonicalized [extra_pack, kernel_pack]))) \<le> 256"
    "unat (0 :: u8) < length (pd_memory_type_names (canonicalized [extra_pack, kernel_pack] ! 1))"
    by (simp_all add: canonicalized_def Let_def sample_defs)
  with triple_sides_follow_their_types [of "[extra_pack, kernel_pack]" 1 0] show ?thesis by simp
qed

text \<open>
  Inverse companions run the other way and are involutive.  Where a kind and its inverse name each
  other and neither is bidirectional, the companion is the edge of the inverse kind with its
  endpoints swapped, and the companion of the companion is the original edge again, each with the
  derived identity and the row-local flags reset.
\<close>

theorem materialize_inverse_involutive:
  assumes "hm_get (o_kinds_by_id onto) (r_kind r) = Some m" "k_inverse m = Some k'" "k' \<noteq> r_kind r"
    and "\<not> k_bidirectional m"
    and "hm_get (o_kinds_by_id onto) k' = Some m'" "k_inverse m' = Some (r_kind r)" "\<not> k_bidirectional m'"
  shows "materialize_inverse h onto r =
      Some (r\<lparr>r_id := derive h (r_to r) k' (r_from r) None, r_kind := k', r_from := r_to r, r_to := r_from r,
              r_bidirectional := False, r_invalidated_by := None\<rparr>) \<and>
    Option.bind (materialize_inverse h onto r) (materialize_inverse h onto) =
    Some (r\<lparr>r_id := derive h (r_from r) (r_kind r) (r_to r) None,
            r_bidirectional := False, r_invalidated_by := None\<rparr>)"
  using assms by (simp add: materialize_inverse_def)

definition sample_edge :: "rel_kind_id \<Rightarrow> memory_id \<Rightarrow> memory_id \<Rightarrow> relationship" where
  "sample_edge k f t =
     \<lparr>r_id = RelationshipId [], r_kind = k, r_from = f, r_to = t, r_visibility = Org,
      r_provenance = Asserted ''u'' None,
      r_properties = \<lparr>rp_strength = f32_one, rp_confidence = f32_one, rp_context = None,
        rp_evidence_count = 1, rp_success_rate = None, rp_validation_count = 0,
        rp_counter_evidence_count = 0, rp_last_validated = 0\<rparr>,
      r_description = None, r_bidirectional = False, r_valid_from = 0, r_valid_until = None,
      r_recorded_at = 0, r_invalidated_by = None, r_lsn = new_local 0\<rparr>"

theorem materialize_inverse_involutive_witness:
  "\<exists>onto m m'. from_packs id (\<lambda>_. []) [kernel_pack] = Inr onto \<and>
     hm_get (o_kinds_by_id onto) CAUSES = Some m \<and>
     hm_get (o_kinds_by_id onto) (RelKindId 0x80000000) = Some m' \<and>
     Option.bind (materialize_inverse id onto (sample_edge CAUSES (MemoryId [1]) (MemoryId [2])))
       (materialize_inverse id onto) =
     Some ((sample_edge CAUSES (MemoryId [1]) (MemoryId [2]))
       \<lparr>r_id := derive id (MemoryId [1]) CAUSES (MemoryId [2]) None\<rparr>)"
proof -
  let ?r = "sample_edge CAUSES (MemoryId [1]) (MemoryId [2])"
  obtain onto where o: "from_packs id (\<lambda>_. []) [kernel_pack] = Inr onto"
    using kernel_pack_loads by blast
  let ?m = "sample_kind CAUSES ''Causes'' (Some (RelKindId 0x80000000))"
  let ?m' = "sample_kind (RelKindId 0x80000000) ''CausedBy'' (Some CAUSES)"
  have m: "hm_get (o_kinds_by_id onto) (r_kind ?r) = Some ?m"
    "hm_get (o_kinds_by_id onto) (RelKindId 0x80000000) = Some ?m'"
    by (simp_all add: kinds_by_id_iff [OF o, unfolded canonicalized_kernel_pack] sample_edge_def sample_defs)
  have "Option.bind (materialize_inverse id onto ?r) (materialize_inverse id onto) =
    Some (?r\<lparr>r_id := derive id (r_from ?r) (r_kind ?r) (r_to ?r) None,
            r_bidirectional := False, r_invalidated_by := None\<rparr>)"
    by (rule materialize_inverse_involutive [OF m(1) _ _ _ m(2), THEN conjunct2])
      (simp_all add: sample_kind_def sample_edge_def CAUSES_def from_kernel_def)
  with o m show ?thesis by (auto simp: sample_edge_def)
qed

end
