(* ===== verification/Validator.thy ===== *)
theory Validator
  imports Ontology
begin

text \<open>
  The draft validator (\<open>exocortex-kernel/src/validator.rs\<close>): field bounds, the no-widening
  rule and the type-triple rules, in the order the source checks them.
\<close>

record source_ceiling =
  sc_source :: string
  sc_ceiling :: visibility

definition matches_triple :: "type_triple \<Rightarrow> u8 \<Rightarrow> u8 option \<Rightarrow> bool" where
  "matches_triple t f to_type =
     ((case t_from_types t of None \<Rightarrow> True | Some xs \<Rightarrow> f \<in> set xs)
      \<and> (case (t_to_types t, to_type) of
           (None, _) \<Rightarrow> True
         | (Some _, None) \<Rightarrow> True
         | (Some xs, Some v) \<Rightarrow> v \<in> set xs))"

fun validate_hints :: "ontology \<Rightarrow> u8 \<Rightarrow> edge_hint list \<Rightarrow> kernel_error + unit" where
  "validate_hints onto mt [] = Inr ()"
| "validate_hints onto mt (h # hs) =
     (case hm_get (o_triples_by_kind onto) (h_kind h) of
        None \<Rightarrow> Inl (UnknownKind (h_kind h))
      | Some triples \<Rightarrow>
        if \<not> list_ex (\<lambda>t. matches_triple t mt None) triples then Inl (InvalidTypeTriple (h_kind h) mt)
        else validate_hints onto mt hs)"

definition validate_draft :: "ontology \<Rightarrow> memory_draft \<Rightarrow> source_ceiling \<Rightarrow> kernel_error + unit" where
  "validate_draft onto draft ceiling =
     (if d_title draft = [] \<or> 200 < chars_count (d_title draft) then Inl TitleBounds
      else if d_content draft = [] then Inl EmptyContent
      else if (case d_summary draft of None \<Rightarrow> False | Some s \<Rightarrow> 500 < chars_count s) then Inl SummaryBounds
      else if 8 * 1024 < length (c_additional_metadata (d_context draft)) then Inl MetadataTooLarge
      else if \<not> within (d_visibility draft) (sc_ceiling ceiling) then
        Inl (VisibilityWidening (sc_source ceiling) (sc_ceiling ceiling) (d_visibility draft))
      else validate_hints onto (d_memory_type draft) (d_edge_hints draft))"

definition validate_triple :: "ontology \<Rightarrow> u8 \<Rightarrow> rel_kind_id \<Rightarrow> u8 \<Rightarrow> kernel_error + unit" where
  "validate_triple onto from_type kind to_type =
     (case hm_get (o_triples_by_kind onto) kind of
        None \<Rightarrow> Inl (UnknownKind kind)
      | Some triples \<Rightarrow>
        if list_ex (\<lambda>t.
             (case t_from_types t of None \<Rightarrow> True | Some xs \<Rightarrow> from_type \<in> set xs)
             \<and> (case t_to_types t of None \<Rightarrow> True | Some xs \<Rightarrow> to_type \<in> set xs)) triples
        then Inr ()
        else Inl (InvalidTypeTriple kind from_type))"

section \<open>Properties\<close>

text \<open>Whether one type-triple rule permits an edge.\<close>

definition permits :: "type_triple \<Rightarrow> u8 \<Rightarrow> u8 \<Rightarrow> bool" where
  "permits t f v = matches_triple t f (Some v)"

lemma validate_hints_ok:
  "validate_hints onto mt hs = Inr () \<longleftrightarrow>
     (\<forall>h\<in>set hs. \<exists>ts. hm_get (o_triples_by_kind onto) (h_kind h) = Some ts \<and>
        (\<exists>t\<in>set ts. matches_triple t mt None))"
  by (induction onto mt hs rule: validate_hints.induct) (auto simp: list_ex_iff split: option.splits)

lemma validate_triple_ok:
  "validate_triple onto f k v = Inr () \<longleftrightarrow>
     (\<exists>ts. hm_get (o_triples_by_kind onto) k = Some ts \<and> (\<exists>t\<in>set ts. permits t f v))"
  by (auto simp: validate_triple_def permits_def matches_triple_def list_ex_iff split: option.splits)

text \<open>In an assembled ontology: some pack declares a rule for the kind that permits the edge.\<close>

lemma validate_triple_packs:
  assumes "from_packs sha256 bincode ps = Inr onto"
  shows "validate_triple onto f k v = Inr () \<longleftrightarrow>
    (\<exists>p\<in>set (o_packs onto). \<exists>t\<in>set (pd_type_triples p). t_kind t = k \<and> permits t f v)"
proof -
  let ?ts = "concat (map pd_type_triples (canonicalized ps))"
  have "validate_triple onto f k v = Inr () \<longleftrightarrow> (\<exists>t\<in>set ?ts. t_kind t = k \<and> permits t f v)"
    unfolding validate_triple_ok from_packs_ok(9) [OF assms] hm_get_index_triples
    by (auto simp: filter_empty_conv)
  then show ?thesis by (auto simp: from_packs_ok(2) [OF assms])
qed

text \<open>
  a draft is accepted exactly when its title has 1 to 200 characters, its content is not
  empty, its summary has at most 500 characters, its metadata at most 8 KiB, its visibility
  does not exceed the ceiling of its source, and every edge hint names a kind with a
  type-triple rule that admits the draft's type as source.
\<close>

theorem validate_draft_accepts:
  "validate_draft onto d c = Inr () \<longleftrightarrow>
     d_title d \<noteq> [] \<and> chars_count (d_title d) \<le> 200 \<and> d_content d \<noteq> [] \<and>
     (\<forall>s. d_summary d = Some s \<longrightarrow> chars_count s \<le> 500) \<and>
     length (c_additional_metadata (d_context d)) \<le> 8192 \<and>
     d_visibility d \<le> sc_ceiling c \<and>
     (\<forall>h\<in>set (d_edge_hints d). \<exists>ts. hm_get (o_triples_by_kind onto) (h_kind h) = Some ts \<and>
        (\<exists>t\<in>set ts. case t_from_types t of None \<Rightarrow> True | Some xs \<Rightarrow> d_memory_type d \<in> set xs))"
proof -
  have m: "matches_triple t f None \<longleftrightarrow> (case t_from_types t of None \<Rightarrow> True | Some xs \<Rightarrow> f \<in> set xs)" for t f
    by (auto simp: matches_triple_def split: option.splits)
  show ?thesis
    unfolding validate_hints_ok [unfolded m, symmetric]
    by (auto simp: validate_draft_def within_iff split: option.splits)
qed

definition sample_context :: memory_context where
  "sample_context =
     \<lparr>c_timestamp = 0, c_project_id = None, c_project_path = None, c_team_id = None,
      c_tenant_id = Some ''acme'', c_session_id = None, c_user_id = Some ''u'', c_created_by = None,
      c_files_involved = [], c_languages = [], c_frameworks = [], c_technologies = [],
      c_git_commit = None, c_git_branch = None, c_working_directory = None, c_entities = [],
      c_additional_metadata = ''null''\<rparr>"

definition sample_draft :: memory_draft where
  "sample_draft =
     \<lparr>d_memory_type = 0, d_title = ''t'', d_content = ''c'', d_summary = None, d_visibility = Team,
      d_context = sample_context, d_edge_hints = [], d_external_key = None\<rparr>"

theorem validate_draft_accepts_witness:
  "\<forall>onto. validate_draft onto sample_draft \<lparr>sc_source = ''session'', sc_ceiling = Org\<rparr> = Inr () \<and>
     validate_draft onto sample_draft \<lparr>sc_source = ''session'', sc_ceiling = Project\<rparr> \<noteq> Inr ()"
  using validate_draft_accepts [of _ sample_draft "\<lparr>sc_source = ''session'', sc_ceiling = Org\<rparr>"]
    validate_draft_accepts [of _ sample_draft "\<lparr>sc_source = ''session'', sc_ceiling = Project\<rparr>"]
  by (simp add: sample_draft_def sample_context_def chars_count_def less_eq_visibility_def)

end
