(* ===== verification/Compatibility.thy ===== *)
theory Compatibility
  imports Validator
begin

text \<open>
  The compatibility policy (\<open>exocortex-kernel/src/compatibility.rs\<close>): the subset relation
  between ontology summaries, its first divergence, the persisted pin of a graph and the
  admission decisions at the node, producer, peer and backup boundaries.  The JSON reader of
  a pin record is third-party code, the parameter \<open>json_pin\<close>; the text of a divergence is
  the value of a datatype with the same cases and the same data.
\<close>

section \<open>Equality and subsets of summaries\<close>

text \<open>The derived \<open>PartialEq\<close>: structural but for the float, which compares as IEEE-754.\<close>

definition kind_eq :: "kind_summary \<Rightarrow> kind_summary \<Rightarrow> bool" where
  "kind_eq a b =
     (ks_id a = ks_id b \<and> ks_name a = ks_name b \<and> ks_bucket a = ks_bucket b
      \<and> ks_bucket_extension a = ks_bucket_extension b \<and> ks_inverse a = ks_inverse b
      \<and> ks_bidirectional a = ks_bidirectional b
      \<and> f32_eq (ks_default_strength a) (ks_default_strength b)
      \<and> ks_computed_only a = ks_computed_only b)"

definition summary_eq :: "ontology_summary \<Rightarrow> ontology_summary \<Rightarrow> bool" where
  "summary_eq a b =
     (os_memory_types a = os_memory_types b \<and> os_entity_types a = os_entity_types b
      \<and> list_all2 kind_eq (os_kinds a) (os_kinds b)
      \<and> os_type_triples a = os_type_triples b \<and> os_rule_ids a = os_rule_ids b
      \<and> os_actions a = os_actions b \<and> os_functions a = os_functions b)"

text \<open>The map from ids to rows that \<open>collect\<close> builds: a later row replaces an earlier one.\<close>

definition kind_row :: "ontology_summary \<Rightarrow> u32 \<Rightarrow> kind_summary option" where
  "kind_row s i = find (\<lambda>k. ks_id k = i) (rev (os_kinds s))"

definition covers :: "u8 list option \<Rightarrow> u8 list option \<Rightarrow> bool" where
  "covers narrow wide =
     (case (narrow, wide) of
        (_, None) \<Rightarrow> True
      | (None, Some _) \<Rightarrow> False
      | (Some a, Some b) \<Rightarrow> list_all (\<lambda>t. t \<in> set b) a)"

definition triple_covered :: "triple_summary \<Rightarrow> ontology_summary \<Rightarrow> bool" where
  "triple_covered pinned superset =
     list_ex (\<lambda>row. ts_kind row = ts_kind pinned
       \<and> covers (ts_from_types pinned) (ts_from_types row)
       \<and> covers (ts_to_types pinned) (ts_to_types row)) (os_type_triples superset)"

definition is_subset_of :: "ontology_summary \<Rightarrow> ontology_summary \<Rightarrow> bool" where
  "is_subset_of self superset =
     (if length (os_memory_types superset) < length (os_memory_types self)
         \<or> length (os_entity_types superset) < length (os_entity_types self) then False
      else if os_memory_types self \<noteq> take (length (os_memory_types self)) (os_memory_types superset)
      then False
      else if os_entity_types self \<noteq> take (length (os_entity_types self)) (os_entity_types superset)
      then False
      else if \<not> list_all (\<lambda>row. case kind_row superset (ks_id row) of
             Some other \<Rightarrow> kind_eq other row | None \<Rightarrow> False) (os_kinds self)
      then False
      else if \<not> list_all (\<lambda>t. t \<in> set (os_type_triples superset) \<or> triple_covered t superset)
             (os_type_triples self)
      then False
      else if \<not> set (os_rule_ids self) \<subseteq> set (os_rule_ids superset) then False
      else if \<not> set (os_actions self) \<subseteq> set (os_actions superset) then False
      else set (os_functions self) \<subseteq> set (os_functions superset))"

datatype divergence =
    MemoryTypeDiffers nat string string
  | MemoryTypeMissing string nat
  | EntityTypeDiffers nat string string
  | EntityTypeMissing string nat
  | KindDiffers u32
  | KindMissing string u32
  | TripleNotCovered u32
  | RuleMissing string
  | ActionDiffers string string
  | FunctionDiffers string string

fun names_divergence ::
    "(nat \<Rightarrow> string \<Rightarrow> string \<Rightarrow> divergence) \<Rightarrow> (string \<Rightarrow> nat \<Rightarrow> divergence) \<Rightarrow> nat \<Rightarrow>
     string list \<Rightarrow> string list \<Rightarrow> divergence option" where
  "names_divergence differs missing i [] other = None"
| "names_divergence differs missing i (n # ns) [] = Some (missing n i)"
| "names_divergence differs missing i (n # ns) (o' # os) =
     (if o' = n then names_divergence differs missing (Suc i) ns os else Some (differs i n o'))"

fun kinds_divergence :: "ontology_summary \<Rightarrow> kind_summary list \<Rightarrow> divergence option" where
  "kinds_divergence superset [] = None"
| "kinds_divergence superset (row # rows) =
     (case kind_row superset (ks_id row) of
        Some other \<Rightarrow>
          if kind_eq other row then kinds_divergence superset rows else Some (KindDiffers (ks_id row))
      | None \<Rightarrow> Some (KindMissing (ks_name row) (ks_id row)))"

definition or_else :: "'a option \<Rightarrow> 'a option \<Rightarrow> 'a option" where
  "or_else a b = (case a of Some x \<Rightarrow> Some x | None \<Rightarrow> b)"

definition first_divergence :: "ontology_summary \<Rightarrow> ontology_summary \<Rightarrow> divergence option" where
  "first_divergence self superset =
     or_else (names_divergence MemoryTypeDiffers MemoryTypeMissing 0 (os_memory_types self) (os_memory_types superset))
     (or_else (names_divergence EntityTypeDiffers EntityTypeMissing 0 (os_entity_types self) (os_entity_types superset))
     (or_else (kinds_divergence superset (os_kinds self))
     (or_else (map_option (\<lambda>t. TripleNotCovered (ts_kind t))
        (find (\<lambda>t. t \<notin> set (os_type_triples superset) \<and> \<not> triple_covered t superset) (os_type_triples self)))
     (or_else (map_option RuleMissing
        (find (\<lambda>r. r \<notin> set (os_rule_ids superset)) (sort (os_rule_ids self))))
     (or_else (map_option (\<lambda>v. ActionDiffers (av_pack v) (av_name v))
        (find (\<lambda>v. v \<notin> set (os_actions superset)) (sort_key action_key (os_actions self))))
     (map_option (\<lambda>v. FunctionDiffers (fv_pack v) (fv_name v))
        (find (\<lambda>v. v \<notin> set (os_functions superset)) (sort_key function_key (os_functions self)))))))))"

section \<open>Pins\<close>

record pinned_ontology =
  pin_scheme :: u32
  pin_compatibility :: string
  pin_build :: string
  pin_summary :: ontology_summary
  pin_accepted :: "string list"

definition MAX_ACCEPTED_FINGERPRINTS :: nat where
  "MAX_ACCEPTED_FINGERPRINTS = 8"

definition describing :: "ontology \<Rightarrow> pinned_ontology" where
  "describing onto =
     \<lparr>pin_scheme = 2, pin_compatibility = hex (o_fingerprint onto),
      pin_build = hex (o_build_fingerprint onto), pin_summary = o_summary onto, pin_accepted = []\<rparr>"

datatype persisted_pin = Absent | LegacyV1 "byte list" | V2 pinned_ontology

datatype compatibility_error =
    LegacyPinMismatch "byte list" "byte list"
  | NotASuperset "divergence option"
  | CorruptRecord string
  | ProducerNotAdmitted "byte list" "byte list"
  | PeerMismatch "byte list" "byte list"

definition parse_pin ::
    "(string \<Rightarrow> string + pinned_ontology) \<Rightarrow> string \<Rightarrow> compatibility_error + persisted_pin" where
  "parse_pin json_pin value =
     (let trimmed = trim_str value in
      if prefix ''{'' trimmed then
        (case json_pin trimmed of
           Inl e \<Rightarrow> Inl (CorruptRecord e)
         | Inr r \<Rightarrow>
           if pin_scheme r \<noteq> 2 then
             Inl (CorruptRecord (''unsupported scheme '' @ show_nat (unat (pin_scheme r)) @ '' (this build reads 2)''))
           else Inr (V2 r))
      else if length trimmed \<noteq> 64 \<or> \<not> list_all is_ascii_hexdigit trimmed then
        Inl (CorruptRecord (''expected 64 hex characters or a scheme-2 record, found ''
          @ show_nat (length trimmed) @ '' bytes''))
      else
        (case unhex trimmed of
           None \<Rightarrow> Inl (CorruptRecord ''bad hexadecimal byte'')
         | Some fp \<Rightarrow> Inr (LegacyV1 fp)))"

fun hash_pair :: "compatibility_error \<Rightarrow> (byte list \<times> byte list) option" where
  "hash_pair (LegacyPinMismatch pinned runtime) = Some (pinned, runtime)"
| "hash_pair (ProducerNotAdmitted offered current) = Some (offered, current)"
| "hash_pair (PeerMismatch offered ours) = Some (offered, ours)"
| "hash_pair (NotASuperset d) = None"
| "hash_pair (CorruptRecord s) = None"

section \<open>Admission\<close>

datatype node_graph_decision = Satisfied | Advance pinned_ontology | Migrate pinned_ontology

fun bounded_accepted_loop :: "string list \<Rightarrow> string list \<Rightarrow> string list" where
  "bounded_accepted_loop [] out = out"
| "bounded_accepted_loop (fp # prior) out =
     (if MAX_ACCEPTED_FINGERPRINTS \<le> length out then out
      else if fp \<notin> set out then bounded_accepted_loop prior (out @ [fp])
      else bounded_accepted_loop prior out)"

definition bounded_accepted :: "string list \<Rightarrow> string \<Rightarrow> string list" where
  "bounded_accepted prior newest = bounded_accepted_loop prior [newest]"

definition admit_node_graph ::
    "(byte list \<Rightarrow> byte list) \<Rightarrow> persisted_pin \<Rightarrow> ontology \<Rightarrow> compatibility_error + node_graph_decision"
  where
  "admit_node_graph sha256 pin ours =
     (case pin of
        Absent \<Rightarrow> Inr Satisfied
      | LegacyV1 pinned \<Rightarrow>
        if pinned = o_build_fingerprint ours
        then Inr (Migrate ((describing ours)\<lparr>pin_accepted := [hex pinned]\<rparr>))
        else Inl (LegacyPinMismatch pinned (o_build_fingerprint ours))
      | V2 r \<Rightarrow>
        (let stated = compatibility_fingerprint sha256 (pin_summary r) in
         if hex stated \<noteq> pin_compatibility r then
           Inl (CorruptRecord (''summary hashes to '' @ hex stated @ '' but the record claims ''
             @ pin_compatibility r))
         else if summary_eq (pin_summary r) (o_summary ours) then
           (if pin_build r = hex (o_build_fingerprint ours) then Inr Satisfied
            else Inr (Advance ((describing ours)\<lparr>pin_accepted := pin_accepted r\<rparr>)))
         else if is_subset_of (pin_summary r) (o_summary ours) then
           Inr (Advance ((describing ours)
             \<lparr>pin_accepted := bounded_accepted (pin_accepted r) (pin_compatibility r)\<rparr>))
         else Inl (NotASuperset (first_divergence (o_summary ours) (pin_summary r)))))"

definition zeros32 :: "byte list" where
  "zeros32 = replicate 32 0"

definition admit_producer_batch ::
    "byte list \<Rightarrow> ontology \<Rightarrow> byte list list \<Rightarrow> compatibility_error + unit" where
  "admit_producer_batch offered ours recognized =
     (if length offered \<noteq> 32 then Inl (ProducerNotAdmitted zeros32 (o_fingerprint ours))
      else if offered = o_fingerprint ours \<or> offered \<in> set recognized then Inr ()
      else Inl (ProducerNotAdmitted offered (o_fingerprint ours)))"

definition admit_peer :: "byte list \<Rightarrow> byte list \<Rightarrow> compatibility_error + unit" where
  "admit_peer offered ours =
     (if length offered \<noteq> 32 then Inl (PeerMismatch zeros32 ours)
      else if offered = ours then Inr ()
      else Inl (PeerMismatch offered ours))"

datatype backup_ontology = Summarized ontology_summary | Legacy string

fun admit_backup :: "backup_ontology \<Rightarrow> ontology \<Rightarrow> compatibility_error + unit" where
  "admit_backup (Summarized summary) ours =
     (if is_subset_of summary (o_summary ours) then Inr ()
      else Inl (NotASuperset (first_divergence (o_summary ours) summary)))"
| "admit_backup (Legacy fingerprint_hex) ours =
     (if fingerprint_hex = hex (o_build_fingerprint ours) then Inr ()
      else Inl (LegacyPinMismatch zeros32 (o_build_fingerprint ours)))"

section \<open>Lemmas on subsets\<close>

definition kinds_within :: "ontology_summary \<Rightarrow> ontology_summary \<Rightarrow> bool" where
  "kinds_within a b =
     (\<forall>row\<in>set (os_kinds a). \<exists>other. kind_row b (ks_id row) = Some other \<and> kind_eq other row)"

lemma is_subset_iff:
  "is_subset_of a b \<longleftrightarrow>
     prefix (os_memory_types a) (os_memory_types b) \<and> prefix (os_entity_types a) (os_entity_types b) \<and>
     kinds_within a b \<and> (\<forall>t\<in>set (os_type_triples a). triple_covered t b \<or> t \<in> set (os_type_triples b)) \<and>
     set (os_rule_ids a) \<subseteq> set (os_rule_ids b) \<and> set (os_actions a) \<subseteq> set (os_actions b) \<and>
     set (os_functions a) \<subseteq> set (os_functions b)"
proof -
  have p: "prefix xs ys \<longleftrightarrow> \<not> length ys < length xs \<and> xs = take (length xs) ys" for xs ys :: "string list"
    by (metis append_eq_conv_conj prefix_def prefix_length_le not_less append_take_drop_id take_is_prefix)
  have k: "kinds_within a b \<longleftrightarrow> list_all (\<lambda>row. case kind_row b (ks_id row) of
      Some other \<Rightarrow> kind_eq other row | None \<Rightarrow> False) (os_kinds a)"
    by (auto simp: kinds_within_def list_all_iff split: option.splits)
  show ?thesis unfolding is_subset_of_def p k list_all_iff by auto
qed

lemma covers_refl: "covers s s"
  by (auto simp: covers_def list_all_iff split: option.splits)

lemma covers_trans: "covers a b \<Longrightarrow> covers b c \<Longrightarrow> covers a c"
  by (auto simp: covers_def list_all_iff split: option.splits)

text \<open>An identical rule is covered by itself, so coverage is the whole condition on triples.\<close>

lemma triple_covered_self: "t \<in> set (os_type_triples b) \<Longrightarrow> triple_covered t b"
  by (auto simp: triple_covered_def list_ex_iff covers_refl)

lemma triple_covered_iff:
  "triple_covered t b \<longleftrightarrow> (\<exists>row\<in>set (os_type_triples b). ts_kind row = ts_kind t \<and>
     covers (ts_from_types t) (ts_from_types row) \<and> covers (ts_to_types t) (ts_to_types row))"
  by (simp add: triple_covered_def list_ex_iff)

lemma kind_eq_trans: "kind_eq a b \<Longrightarrow> kind_eq b c \<Longrightarrow> kind_eq a c"
  by (auto simp: kind_eq_def intro: f32_eq_trans)

lemma kind_row_Some: "kind_row s i = Some k \<Longrightarrow> k \<in> set (os_kinds s) \<and> ks_id k = i"
  unfolding kind_row_def find_Some_iff by (metis nth_mem set_rev)

lemma kind_row_mem:
  "distinct (map ks_id (os_kinds s)) \<Longrightarrow> k \<in> set (os_kinds s) \<Longrightarrow> kind_row s (ks_id k) = Some k"
  unfolding kind_row_def by (rule find_distinct) (simp_all add: rev_map [symmetric])

lemma kinds_within_trans: "kinds_within a b \<Longrightarrow> kinds_within b c \<Longrightarrow> kinds_within a c"
  unfolding kinds_within_def by (metis kind_eq_trans kind_eq_def kind_row_Some)

lemma names_divergence_None: "names_divergence d m i xs ys = None \<longleftrightarrow> prefix xs ys"
  by (induction d m i xs ys rule: names_divergence.induct) auto

lemma kinds_divergence_None:
  "kinds_divergence b rows = None \<longleftrightarrow>
     (\<forall>row\<in>set rows. \<exists>other. kind_row b (ks_id row) = Some other \<and> kind_eq other row)"
  by (induction b rows rule: kinds_divergence.induct) (auto split: option.splits)

lemma or_else_None: "or_else a b = None \<longleftrightarrow> a = None \<and> b = None"
  by (auto simp: or_else_def split: option.splits)

lemma first_divergence_None: "first_divergence a b = None \<longleftrightarrow> is_subset_of a b"
  unfolding first_divergence_def is_subset_iff or_else_None names_divergence_None
    kinds_divergence_None kinds_within_def
  by (auto simp: find_None_iff)

lemma is_subset_trans:
  assumes "is_subset_of a b" "is_subset_of b c"
  shows "is_subset_of a c"
proof -
  have "triple_covered t c" if "t \<in> set (os_type_triples a)" for t
  proof -
    have "triple_covered t b" using assms(1) that by (auto simp: is_subset_iff dest: triple_covered_self)
    then obtain u where u: "u \<in> set (os_type_triples b)" "ts_kind u = ts_kind t"
        "covers (ts_from_types t) (ts_from_types u)" "covers (ts_to_types t) (ts_to_types u)"
      by (auto simp: triple_covered_iff)
    have "triple_covered u c" using assms(2) u(1) by (auto simp: is_subset_iff dest: triple_covered_self)
    with u show ?thesis by (auto simp: triple_covered_iff intro: covers_trans)
  qed
  with assms show ?thesis
    unfolding is_subset_iff by (blast intro: kinds_within_trans prefix_order.trans)
qed

lemma is_subset_refl:
  assumes "distinct (map ks_id (os_kinds s))" "\<forall>k\<in>set (os_kinds s). \<not> f32_nan (ks_default_strength k)"
  shows "is_subset_of s s"
  using assms by (auto simp: is_subset_iff kinds_within_def kind_row_mem kind_eq_def f32_eq_refl)

lemma summary_eq_refl:
  "\<forall>k\<in>set (os_kinds s). \<not> f32_nan (ks_default_strength k) \<Longrightarrow> summary_eq s s"
  by (auto simp: summary_eq_def kind_eq_def f32_eq_refl list_all2_same)

lemma kind_codes_of_packs:
  assumes "from_packs sha256 bincode ps = Inr onto"
  shows "distinct (map ks_id (os_kinds (o_summary onto)))"
proof -
  let ?ks = "concat (map pd_kinds (canonicalized ps))"
  have id: "ks_id (summarize_kind k) = kind_code (k_id k)" for k
    by (simp add: summarize_kind_def split: prod.splits)
  have "distinct (map k_id ?ks)"
    using register_kinds_ok [OF from_packs_ok(7) [OF assms]] by simp
  then have "distinct (map (ks_id \<circ> summarize_kind) ?ks)"
    by (auto simp: distinct_map inj_on_def id rel_kind_id.expand)
  moreover have "concat (map (\<lambda>p. map summarize_kind (pd_kinds p)) (canonicalized ps)) = map summarize_kind ?ks"
    by (simp add: map_concat comp_def)
  ultimately have "distinct (map ks_id (concat (map (\<lambda>p. map summarize_kind (pd_kinds p)) (canonicalized ps))))"
    by simp
  then show ?thesis
    unfolding from_packs_ok(12) [OF assms] of_canonical_packs_def
    by (simp add: distinct_map)
qed

section \<open>Properties\<close>

text \<open>
  the divergence report and the subset test agree.  A summary is a subset of another
  exactly when the report finds no divergence between them, in that order of arguments.
\<close>

theorem subset_iff_no_divergence:
  "is_subset_of a b \<longleftrightarrow> first_divergence a b = None"
  by (simp add: first_divergence_None)

text \<open>
  compatibility is a preorder on assembled ontologies whose default strengths are
  numbers: every ontology accepts its own summary, and acceptance is transitive, so a graph
  may be upgraded through any chain of supersets.
\<close>

theorem compatibility_preorder:
  assumes "from_packs sha256 bincode ps = Inr onto"
    and "\<forall>k\<in>set (os_kinds (o_summary onto)). \<not> f32_nan (ks_default_strength k)"
  shows "is_subset_of (o_summary onto) (o_summary onto) \<and>
    (\<forall>a b. is_subset_of a b \<longrightarrow> is_subset_of b (o_summary onto) \<longrightarrow> is_subset_of a (o_summary onto))"
  using is_subset_refl [OF kind_codes_of_packs [OF assms(1)] assms(2)] is_subset_trans by blast

lemma kernel_pack_strengths:
  "from_packs sha256 bincode [kernel_pack] = Inr onto \<Longrightarrow>
     \<forall>k\<in>set (os_kinds (o_summary onto)). \<not> f32_nan (ks_default_strength k)"
proof -
  assume o: "from_packs sha256 bincode [kernel_pack] = Inr onto"
  have "os_kinds (o_summary onto) = sort_key ks_id (map summarize_kind (pd_kinds kernel_pack))"
    unfolding from_packs_ok(12) [OF o] canonicalized_kernel_pack by (simp add: of_canonical_packs_def)
  then have "set (os_kinds (o_summary onto)) = summarize_kind ` set (pd_kinds kernel_pack)" by simp
  moreover have "ks_default_strength (summarize_kind k) = k_default_strength k" for k
    by (simp add: summarize_kind_def split: prod.splits)
  moreover have "\<forall>k\<in>set (pd_kinds kernel_pack). k_default_strength k = f32_one"
    by (simp add: kernel_pack_def sample_pack_def sample_kind_def)
  moreover have "\<not> f32_nan f32_one" by (simp add: f32_nan_def f32_magnitude_def f32_one_def)
  ultimately show ?thesis by auto
qed

theorem compatibility_preorder_witness:
  "\<exists>onto. from_packs id (\<lambda>_. []) [kernel_pack] = Inr onto \<and>
     is_subset_of (o_summary onto) (o_summary onto)"
  using kernel_pack_loads [of id "\<lambda>_. []"] compatibility_preorder kernel_pack_strengths by blast

lemma permits_covered:
  "permits \<lparr>t_kind = k, t_from_types = a, t_to_types = b\<rparr> f v \<Longrightarrow> covers a c \<Longrightarrow> covers b d \<Longrightarrow>
     permits \<lparr>t_kind = k', t_from_types = c, t_to_types = d\<rparr> f v"
  by (auto simp: permits_def matches_triple_def covers_def list_all_iff split: option.splits)

lemma permits_fields: "permits t f v = permits \<lparr>t_kind = k, t_from_types = t_from_types t, t_to_types = t_to_types t\<rparr> f v"
  by (simp add: permits_def matches_triple_def)

lemma summary_triples:
  assumes "from_packs sha256 bincode ps = Inr onto"
  shows "set (os_type_triples (o_summary onto)) =
    summarize_triple ` (\<Union>p\<in>set (o_packs onto). set (pd_type_triples p))"
  by (auto simp: from_packs_ok(2,12) [OF assms] of_canonical_packs_def)

text \<open>
  C38: A superset runtime preserves the meaning of what is stored.  If the summary of one
  assembled ontology is a subset of that of another, every edge the first one admits the
  second admits too, and every memory type keeps its id.
\<close>

theorem superset_preserves_meaning:
  assumes o1: "from_packs sha256 bincode ps = Inr onto"
    and o2: "from_packs sha256 bincode qs = Inr onto'"
    and sub: "is_subset_of (o_summary onto) (o_summary onto')"
  shows "(validate_triple onto f k v = Inr () \<longrightarrow> validate_triple onto' f k v = Inr ()) \<and>
    (n \<in> set (o_memory_type_names onto) \<longrightarrow> memory_type_id onto' n = memory_type_id onto n)"
proof (intro conjI impI)
  assume "validate_triple onto f k v = Inr ()"
  then obtain p t where t: "p \<in> set (o_packs onto)" "t \<in> set (pd_type_triples p)" "t_kind t = k" "permits t f v"
    by (auto simp: validate_triple_packs [OF o1])
  then have "triple_covered (summarize_triple t) (o_summary onto')"
    using sub summary_triples [OF o1] by (auto simp: is_subset_iff dest: triple_covered_self)
  then obtain row where row: "row \<in> set (os_type_triples (o_summary onto'))" "ts_kind row = kind_code k"
      "covers (t_from_types t) (ts_from_types row)" "covers (t_to_types t) (ts_to_types row)"
    using t(3) by (auto simp: triple_covered_iff summarize_triple_def)
  then obtain q u where u: "q \<in> set (o_packs onto')" "u \<in> set (pd_type_triples q)" "row = summarize_triple u"
    by (auto simp: summary_triples [OF o2])
  with row have "t_kind u = k" "covers (t_from_types t) (t_from_types u)" "covers (t_to_types t) (t_to_types u)"
    by (auto simp: summarize_triple_def intro: rel_kind_id.expand)
  moreover from this t(4) have "permits u f v"
    using permits_fields [of _ f v k] permits_covered by metis
  ultimately show "validate_triple onto' f k v = Inr ()"
    using u by (auto simp: validate_triple_packs [OF o2])
next
  assume "n \<in> set (o_memory_type_names onto)"
  then obtain i where i: "i < length (o_memory_type_names onto)" "n = o_memory_type_names onto ! i"
    by (auto simp: in_set_conv_nth)
  have "prefix (o_memory_type_names onto) (o_memory_type_names onto')"
    using sub by (simp add: is_subset_iff from_packs_ok(3,12) [OF o1] from_packs_ok(3,12) [OF o2]
        of_canonical_packs_def)
  with i have "i < length (o_memory_type_names onto')" "n = o_memory_type_names onto' ! i"
    by (auto simp: prefix_def nth_append)
  with i show "memory_type_id onto' n = memory_type_id onto n"
    using index_names_nth [OF from_packs_ok(5) [OF o1], of i 0 "[]"]
      index_names_nth [OF from_packs_ok(5) [OF o2], of i 0 "[]"]
    by (simp add: memory_type_id_def from_packs_ok(10) [OF o1] from_packs_ok(10) [OF o2])
qed

lemma canonicalized_two_packs:
  "canonicalized [kernel_pack, extra_pack] =
     [kernel_pack, extra_pack\<lparr>pd_type_triples :=
        [\<lparr>t_kind = SOLVES, t_from_types = Some [2], t_to_types = None\<rparr>]\<rparr>]"
  by (simp add: canonicalized_def canon_pack_def canon_kind_def canon_kind_id_def canon_triple_def
      canon_side_def saturating_add8_def sample_defs is_kernel_def local_part_def from_kernel_def
      SOLVES_def FIXES_def CAUSES_def IN_SESSION_def Let_def)

lemma two_packs_load: "\<exists>onto. from_packs sha256 bincode [kernel_pack, extra_pack] = Inr onto"
  unfolding from_packs_def canonicalized_two_packs Let_def
  by (simp add: check_type_names_def sample_defs from_kernel_def SOLVES_def FIXES_def CAUSES_def
      IN_SESSION_def)

lemma two_packs_subset:
  assumes "from_packs sha256 bincode [kernel_pack] = Inr a"
    and "from_packs sha256 bincode [kernel_pack, extra_pack] = Inr b"
  shows "is_subset_of (o_summary a) (o_summary b)"
proof -
  have k: "os_kinds (o_summary b) = os_kinds (o_summary a)"
    unfolding from_packs_ok(12) [OF assms(1)] from_packs_ok(12) [OF assms(2)]
      canonicalized_kernel_pack canonicalized_two_packs
    by (simp add: of_canonical_packs_def extra_pack_def sample_pack_def)
  have "kinds_within (o_summary a) (o_summary b)"
    using is_subset_refl [OF kind_codes_of_packs [OF assms(1)] kernel_pack_strengths [OF assms(1)]] k
    by (simp add: is_subset_iff kinds_within_def kind_row_def)
  then show ?thesis
    unfolding is_subset_iff from_packs_ok(12) [OF assms(1)] from_packs_ok(12) [OF assms(2)]
      canonicalized_kernel_pack canonicalized_two_packs
    by (simp add: of_canonical_packs_def extra_pack_def kernel_pack_def sample_pack_def)
qed

theorem superset_preserves_meaning_witness:
  "\<exists>a b. from_packs id (\<lambda>_. []) [kernel_pack] = Inr a \<and>
     from_packs id (\<lambda>_. []) [kernel_pack, extra_pack] = Inr b \<and>
     memory_type_id b (o_memory_type_names a ! 1) = memory_type_id a (o_memory_type_names a ! 1) \<and>
     validate_triple b 1 CAUSES 0 = Inr ()"
proof -
  obtain a b where o: "from_packs id (\<lambda>_. []) [kernel_pack] = Inr a"
      "from_packs id (\<lambda>_. []) [kernel_pack, extra_pack] = Inr b"
    using kernel_pack_loads two_packs_load by blast
  have "validate_triple a 1 CAUSES 0 = Inr ()"
    by (simp add: validate_triple_packs [OF o(1)] from_packs_ok(2) [OF o(1), unfolded canonicalized_kernel_pack]
        kernel_pack_def sample_pack_def permits_def matches_triple_def)
  moreover have "o_memory_type_names a ! 1 \<in> set (o_memory_type_names a)"
    by (simp add: from_packs_ok(3) [OF o(1), unfolded canonicalized_kernel_pack] kernel_pack_def sample_pack_def)
  ultimately show ?thesis
    using superset_preserves_meaning [OF o two_packs_subset [OF o], of 1 CAUSES 0 "o_memory_type_names a ! 1"] o
    by blast
qed

lemma bounded_accepted_loop_props:
  "length out \<le> MAX_ACCEPTED_FINGERPRINTS \<Longrightarrow> distinct out \<Longrightarrow>
     length (bounded_accepted_loop prior out) \<le> MAX_ACCEPTED_FINGERPRINTS \<and>
     distinct (bounded_accepted_loop prior out) \<and> prefix out (bounded_accepted_loop prior out) \<and>
     set (bounded_accepted_loop prior out) \<subseteq> set out \<union> set prior"
proof (induction prior out rule: bounded_accepted_loop.induct)
  case (2 fp prior out)
  show ?case
  proof (cases "MAX_ACCEPTED_FINGERPRINTS \<le> length out \<or> fp \<in> set out")
    case True
    with 2 show ?thesis by (cases "MAX_ACCEPTED_FINGERPRINTS \<le> length out") auto
  next
    case False
    with 2 have "length (bounded_accepted_loop prior (out @ [fp])) \<le> MAX_ACCEPTED_FINGERPRINTS \<and>
      distinct (bounded_accepted_loop prior (out @ [fp])) \<and>
      prefix (out @ [fp]) (bounded_accepted_loop prior (out @ [fp])) \<and>
      set (bounded_accepted_loop prior (out @ [fp])) \<subseteq> set (out @ [fp]) \<union> set prior"
      by auto
    with False show ?thesis by (auto dest: append_prefixD)
  qed
qed simp

lemma bounded_accepted_loop_all:
  "length out + length prior \<le> MAX_ACCEPTED_FINGERPRINTS \<Longrightarrow>
     set (bounded_accepted_loop prior out) = set out \<union> set prior"
  by (induction prior out rule: bounded_accepted_loop.induct) auto

text \<open>
  the rolling-upgrade window.  The recognised fingerprints after an advance are at most
  eight, without repetition, start with the pin that was replaced, come only from it and from
  its own history, and lose nothing as long as fewer than eight were recognised before.
\<close>

theorem bounded_accepted_window:
  "length (bounded_accepted prior newest) \<le> 8 \<and> distinct (bounded_accepted prior newest) \<and>
   prefix [newest] (bounded_accepted prior newest) \<and>
   set (bounded_accepted prior newest) \<subseteq> insert newest (set prior) \<and>
   (length prior < 8 \<longrightarrow> set (bounded_accepted prior newest) = insert newest (set prior))"
  using bounded_accepted_loop_props [of "[newest]" prior] bounded_accepted_loop_all [of "[newest]" prior]
  by (auto simp: bounded_accepted_def MAX_ACCEPTED_FINGERPRINTS_def)

theorem bounded_accepted_window_witness:
  "set (bounded_accepted [''b'', ''a''] ''c'') = {''a'', ''b'', ''c''}"
  using bounded_accepted_window [of "[''b'', ''a'']" "''c''"] by auto

text \<open>
  admission settles.  Whatever record the node boundary asks to persist, the next start
  of the same runtime finds it satisfied; and after an advance over a smaller ontology the
  replaced fingerprint stays recognised.
\<close>

theorem admission_settles:
  assumes "from_packs sha256 bincode ps = Inr ours"
    and "\<forall>k\<in>set (os_kinds (o_summary ours)). \<not> f32_nan (ks_default_strength k)"
    and "admit_node_graph sha256 pin ours = Inr d" "d = Advance next \<or> d = Migrate next"
  shows "admit_node_graph sha256 (V2 next) ours = Inr Satisfied \<and>
    (\<forall>r. pin = V2 r \<longrightarrow> \<not> summary_eq (pin_summary r) (o_summary ours) \<longrightarrow>
       pin_compatibility r \<in> set (pin_accepted next))"
proof -
  have "pin_summary next = o_summary ours" "pin_compatibility next = hex (o_fingerprint ours)"
      "pin_build next = hex (o_build_fingerprint ours)"
    using assms(3,4)
    by (auto simp: admit_node_graph_def describing_def Let_def split: persisted_pin.splits if_splits)
  then have "admit_node_graph sha256 (V2 next) ours = Inr Satisfied"
    using summary_eq_refl [OF assms(2)] from_packs_ok(13) [OF assms(1)]
    by (simp add: admit_node_graph_def)
  moreover have "pin_compatibility r \<in> set (pin_accepted next)"
    if "pin = V2 r" "\<not> summary_eq (pin_summary r) (o_summary ours)" for r
  proof -
    have "next = (describing ours)\<lparr>pin_accepted := bounded_accepted (pin_accepted r) (pin_compatibility r)\<rparr>"
      using assms(3,4) that by (auto simp: admit_node_graph_def Let_def split: if_splits)
    moreover have "pin_compatibility r \<in> set (bounded_accepted (pin_accepted r) (pin_compatibility r))"
      using bounded_accepted_loop_props [of "[pin_compatibility r]" "pin_accepted r"]
      by (auto simp: bounded_accepted_def MAX_ACCEPTED_FINGERPRINTS_def dest: set_mono_prefix)
    ultimately show ?thesis by simp
  qed
  ultimately show ?thesis by blast
qed

theorem admission_settles_witness:
  "\<exists>ours next. from_packs id (\<lambda>_. []) [kernel_pack] = Inr ours \<and>
     admit_node_graph id (LegacyV1 (o_build_fingerprint ours)) ours = Inr (Migrate next) \<and>
     admit_node_graph id (V2 next) ours = Inr Satisfied"
proof -
  obtain ours where o: "from_packs id (\<lambda>_. []) [kernel_pack] = Inr ours" using kernel_pack_loads by blast
  have "\<exists>next. admit_node_graph id (LegacyV1 (o_build_fingerprint ours)) ours = Inr (Migrate next)"
    by (simp add: admit_node_graph_def)
  with admission_settles [OF o kernel_pack_strengths [OF o]] o show ?thesis by blast
qed

text \<open>
  the divergence of a refused downgrade is lost.  When the runtime knows strictly less
  than the pinned ontology, the comparison is made in the wrong direction: the refusal carries
  no divergence, although the pinned summary does diverge from the runtime.
\<close>

theorem downgrade_reports_no_divergence:
  assumes "hex (compatibility_fingerprint sha256 (pin_summary r)) = pin_compatibility r"
    and "is_subset_of (o_summary ours) (pin_summary r)"
    and "\<not> is_subset_of (pin_summary r) (o_summary ours)"
    and "\<not> summary_eq (pin_summary r) (o_summary ours)"
  shows "admit_node_graph sha256 (V2 r) ours = Inl (NotASuperset None) \<and>
    first_divergence (pin_summary r) (o_summary ours) \<noteq> None"
  using assms by (simp add: admit_node_graph_def first_divergence_None)

definition bare_onto :: "ontology_summary \<Rightarrow> ontology" where
  "bare_onto s =
     \<lparr>o_packs = [], o_kinds_by_id = [], o_triples_by_kind = [], o_memory_type_by_name = [],
      o_entity_type_by_name = [], o_memory_type_names = os_memory_types s, o_entity_type_names = [],
      o_fingerprint = [], o_build_fingerprint = [], o_summary = s\<rparr>"

theorem downgrade_reports_no_divergence_witness:
  "admit_node_graph (\<lambda>_. []) (V2 \<lparr>pin_scheme = 2, pin_compatibility = [], pin_build = [],
       pin_summary = sample_summary ''Problem'', pin_accepted = []\<rparr>)
     (bare_onto ((sample_summary ''Problem'')\<lparr>os_memory_types := []\<rparr>)) = Inl (NotASuperset None)"
  using downgrade_reports_no_divergence [of "\<lambda>_. []"
      "\<lparr>pin_scheme = 2, pin_compatibility = [], pin_build = [],
        pin_summary = sample_summary ''Problem'', pin_accepted = []\<rparr>"
      "bare_onto ((sample_summary ''Problem'')\<lparr>os_memory_types := []\<rparr>)"]
  by (simp add: compatibility_fingerprint_def hex_def is_subset_iff sample_summary_def bare_onto_def
      summary_eq_def kinds_within_def)

end
