(* ===== verification/Storage_Types.thy ===== *)
theory Storage_Types
  imports Compatibility
begin

text \<open>
  The data of the storage seam (\<open>exocortex-storage/src/types.rs\<close> and the errors of
  \<open>trait_.rs\<close>) and the two authoritative visibility decisions every read goes through.
\<close>

section \<open>Records\<close>

datatype storage_error =
    Backend string
  | PermissionDenied
  | FingerprintMismatch "byte list" "byte list"
  | CorruptMetadata string string
  | FencedWriteRejected nat
  | ProposalNotFound
  | ProposalMismatch

record commit_record =
  cr_lsn :: nat
  cr_committed_at :: instant
  cr_node_id :: "nat option"
  cr_edge_id :: "nat option"

record region_key =
  rk_org :: string
  rk_project :: string
  rk_memory_type :: u8

record ingest_batch_key =
  ib_org_id :: string
  ib_producer_id :: string
  ib_batch_id :: string

record settled_ingest_batch =
  sb_accepted :: u32
  sb_rejected :: u32
  sb_assigned_lsn :: nat

record ingest_region_delta =
  rd_region :: region_key
  rd_memories :: u32
  rd_relationships :: u32

record post_ingest_effect =
  pe_effect_id :: string
  pe_session_memory_ids :: "memory_id list"
  pe_region_deltas :: "ingest_region_delta list"

record claimed_post_ingest_effect =
  ce_effect :: post_ingest_effect
  ce_delivery_generation :: nat
  ce_retain_legacy_identity :: bool

datatype ingest_commit_outcome =
    Committed "commit_record list" settled_ingest_batch
  | Duplicate settled_ingest_batch

type_synonym 'k lsn_map = "('k \<times> nat set) list"

record fenced_batch_commit =
  fb_records :: "commit_record list"
  fb_memory_lsns :: "memory_id lsn_map"
  fb_relationship_lsns :: "relationship_id lsn_map"

record fenced_restore =
  fr_memories :: "memory list"
  fr_relationships :: "relationship list"
  fr_created_memories :: "memory list"
  fr_created_relationships :: "relationship list"
  fr_owned_memory_lsns :: "memory_id lsn_map"
  fr_owned_relationship_lsns :: "relationship_id lsn_map"

datatype cycle_journal_state = ActiveJournal | CompletedJournal

datatype lease_key =
    Dreams string string
  | Backfill string
  | Cleanup string
  | Consolidation string string

record owner_lease =
  ol_key :: lease_key
  ol_owner_node_id :: string
  ol_epoch :: nat
  ol_acquired_at :: instant
  ol_expires_at :: instant
  ol_grace_period :: int
  ol_fencing_token :: string

record cycle_journal_record =
  cj_cycle_id :: string
  cj_lease_key :: lease_key
  cj_lease_epoch :: nat
  cj_restore :: fenced_restore
  cj_state :: cycle_journal_state

record visibility_context =
  vc_user_id :: string
  vc_org_id :: string
  vc_project_ids :: "string list"
  vc_team_ids :: "string list"
  vc_max_visibility :: visibility

record discovery_proposal =
  dp_discovery_id :: string
  dp_region :: region_key
  dp_from :: memory_id
  dp_to :: memory_id
  dp_kind :: rel_kind_id
  dp_proposed_visibility :: visibility
  dp_caller_scope :: visibility_context
  dp_issued_at :: instant

record discovery_record =
  dr_discovery_id :: string
  dr_region :: region_key
  dr_from :: memory_id
  dr_to :: memory_id
  dr_discovery_type :: string
  dr_quality :: f32
  dr_via_types :: "u32 list"
  dr_discovery_cycle_id :: string
  dr_discovered_at :: instant

text \<open>The derived \<open>PartialEq\<close> of a discovery record: its quality is a float.\<close>

definition discovery_eq :: "discovery_record \<Rightarrow> discovery_record \<Rightarrow> bool" where
  "discovery_eq a b =
     (a\<lparr>dr_quality := 0\<rparr> = b\<lparr>dr_quality := 0\<rparr> \<and> f32_eq (dr_quality a) (dr_quality b))"

record audit_event =
  ae_action :: string
  ae_actor :: string
  ae_org_id :: string
  ae_input_digest :: "byte list"
  ae_output_ids :: "string list"
  ae_fingerprint :: "byte list"
  ae_lease_epoch :: "nat option"
  ae_recorded_at :: instant

record discovery_acceptance =
  da_discovery_id :: string
  da_region :: region_key
  da_caller_scope :: visibility_context
  da_relationship :: relationship
  da_audit :: audit_event

record memory_filter =
  mf_memory_types :: "u8 list"
  mf_entity_any_of :: "entity_id list"
  mf_project_id :: "string option"
  mf_session_id :: "string option"
  mf_valid_at :: "instant option"
  mf_limit :: nat
  mf_visibility_ctx :: visibility_context

record graph_snapshot =
  gs_as_of :: instant
  gs_backend_lsn :: nat
  gs_memory_count :: nat
  gs_relationship_count :: nat

datatype invalidation =
    MemoryUpserted memory_id nat
  | MemoryDeleted memory_id nat
  | RelationshipUpserted relationship_id memory_id memory_id rel_kind_id nat
  | RelationshipDeleted relationship_id nat
  | DiscoveryAvailable discovery_record nat
  | VisibilityAdvance nat
  | MemorySnapshotUpserted memory nat
  | RelationshipSnapshotUpserted relationship nat
  | GraphReseed "byte list" nat

fun lsn_of :: "invalidation \<Rightarrow> nat" where
  "lsn_of (MemoryUpserted i n) = n"
| "lsn_of (MemoryDeleted i n) = n"
| "lsn_of (RelationshipUpserted i f t k n) = n"
| "lsn_of (RelationshipDeleted i n) = n"
| "lsn_of (DiscoveryAvailable r n) = n"
| "lsn_of (VisibilityAdvance n) = n"
| "lsn_of (MemorySnapshotUpserted m n) = n"
| "lsn_of (RelationshipSnapshotUpserted r n) = n"
| "lsn_of (GraphReseed j n) = n"

section \<open>Cycle journals\<close>

definition empty_restore :: fenced_restore where
  "empty_restore =
     \<lparr>fr_memories = [], fr_relationships = [], fr_created_memories = [],
      fr_created_relationships = [], fr_owned_memory_lsns = [], fr_owned_relationship_lsns = []\<rparr>"

text \<open>Append the rows whose id is not yet present, one by one.\<close>

fun push_missing :: "('a \<Rightarrow> 'k) \<Rightarrow> 'a list \<Rightarrow> 'a list \<Rightarrow> 'a list" where
  "push_missing key [] self = self"
| "push_missing key (x # xs) self =
     (if list_ex (\<lambda>e. key e = key x) self then push_missing key xs self
      else push_missing key xs (self @ [x]))"

definition extend_lsns :: "('k::linorder) lsn_map \<Rightarrow> 'k lsn_map \<Rightarrow> 'k lsn_map" where
  "extend_lsns new self = fold (\<lambda>(i, lsns) m. bt_extend i lsns m) new self"

definition restore_merge :: "fenced_restore \<Rightarrow> fenced_restore \<Rightarrow> fenced_restore" where
  "restore_merge self other =
     self\<lparr>fr_memories := push_missing m_id (fr_memories other) (fr_memories self),
          fr_relationships := push_missing r_id (fr_relationships other) (fr_relationships self),
          fr_created_memories := push_missing m_id (fr_created_memories other) (fr_created_memories self),
          fr_created_relationships :=
            push_missing r_id (fr_created_relationships other) (fr_created_relationships self),
          fr_owned_memory_lsns := extend_lsns (fr_owned_memory_lsns other) (fr_owned_memory_lsns self),
          fr_owned_relationship_lsns :=
            extend_lsns (fr_owned_relationship_lsns other) (fr_owned_relationship_lsns self)\<rparr>"

lemma extend_lsns_set:
  "distinct (map fst new) \<Longrightarrow> bt_set (extend_lsns new self) k = bt_set self k \<union> bt_set new k"
proof (induction new arbitrary: self)
  case Nil
  then show ?case by (simp add: extend_lsns_def)
next
  case (Cons e new)
  obtain i s where e: "e = (i, s)" by (cases e)
  have "bt_set (extend_lsns (e # new) self) k = bt_set (extend_lsns new (bt_extend i s self)) k"
    by (simp add: extend_lsns_def e)
  also have "\<dots> = bt_set (bt_extend i s self) k \<union> bt_set new k"
    using Cons by simp
  also have "\<dots> = bt_set self k \<union> bt_set (e # new) k"
    using Cons.prems map_of_eq_None_iff [of new i]
    by (auto simp: e bt_set_def bt_extend_def split: option.splits)
  finally show ?case .
qed

lemma bt_ok_extend_lsns: "bt_ok self \<Longrightarrow> bt_ok (extend_lsns new self)"
  by (induction new arbitrary: self) (auto simp: extend_lsns_def)

section \<open>Visibility\<close>

definition project_granted :: "string \<Rightarrow> string list \<Rightarrow> bool" where
  "project_granted project granted = list_ex (\<lambda>i. i = project \<or> i = ''*'') granted"

definition effective_visibility :: "visibility \<Rightarrow> visibility" where
  "effective_visibility v = (if v = Public then Org else v)"

definition is_some_and :: "('a \<Rightarrow> bool) \<Rightarrow> 'a option \<Rightarrow> bool" where
  "is_some_and p v = (case v of None \<Rightarrow> False | Some x \<Rightarrow> p x)"

definition memory_visible :: "memory \<Rightarrow> visibility_context \<Rightarrow> bool" where
  "memory_visible m vc =
     (if c_tenant_id (m_context m) \<noteq> Some (vc_org_id vc) then False
      else
        (let effective = effective_visibility (m_visibility m) in
         if vc_max_visibility vc < effective then False
         else
           (case effective of
              Private \<Rightarrow> c_user_id (m_context m) = Some (vc_user_id vc)
            | Project \<Rightarrow> is_some_and (\<lambda>p. project_granted p (vc_project_ids vc)) (c_project_id (m_context m))
            | Team \<Rightarrow> is_some_and (\<lambda>t. t \<in> set (vc_team_ids vc)) (c_team_id (m_context m))
            | Org \<Rightarrow> True
            | Public \<Rightarrow> True)))"

definition relationship_visible ::
    "relationship \<Rightarrow> memory \<Rightarrow> memory \<Rightarrow> visibility_context \<Rightarrow> bool" where
  "relationship_visible r f t vc =
     (let effective = effective_visibility (r_visibility r) in
      if vc_max_visibility vc < effective \<or> \<not> memory_visible f vc \<or> \<not> memory_visible t vc then False
      else
        (case effective of
           Private \<Rightarrow> list_ex (\<lambda>m. m_visibility m = Private
             \<and> c_user_id (m_context m) = Some (vc_user_id vc)) [f, t]
         | Project \<Rightarrow> list_ex (\<lambda>m. m_visibility m = Project
             \<and> is_some_and (\<lambda>p. project_granted p (vc_project_ids vc)) (c_project_id (m_context m))) [f, t]
         | Team \<Rightarrow> list_ex (\<lambda>m. m_visibility m = Team
             \<and> is_some_and (\<lambda>i. i \<in> set (vc_team_ids vc)) (c_team_id (m_context m))) [f, t]
         | Org \<Rightarrow> True
         | Public \<Rightarrow> True))"

section \<open>Properties\<close>

text \<open>
  C23: tenant isolation and the ceiling.  A memory is visible only to its own organisation,
  never above the caller's ceiling (a public row counts as an organisation row), and a private
  row only to its author.
\<close>

theorem memory_visible_bounds:
  assumes "memory_visible m vc"
  shows "c_tenant_id (m_context m) = Some (vc_org_id vc) \<and>
    effective_visibility (m_visibility m) \<le> vc_max_visibility vc \<and>
    (m_visibility m = Private \<longrightarrow> c_user_id (m_context m) = Some (vc_user_id vc)) \<and>
    (m_visibility m = Project \<longrightarrow> (\<exists>p. c_project_id (m_context m) = Some p \<and>
       (p \<in> set (vc_project_ids vc) \<or> ''*'' \<in> set (vc_project_ids vc)))) \<and>
    (m_visibility m = Team \<longrightarrow> (\<exists>t\<in>set (vc_team_ids vc). c_team_id (m_context m) = Some t))"
  using assms
  by (auto simp: memory_visible_def Let_def effective_visibility_def is_some_and_def
      project_granted_def list_ex_iff not_less split: if_splits option.splits)

definition sample_memory :: "memory_id \<Rightarrow> visibility \<Rightarrow> memory" where
  "sample_memory i v =
     \<lparr>m_id = i, m_memory_type = 0, m_title = ''t'', m_content = ''c'', m_summary = None, m_tags = [],
      m_visibility = v, m_provenance = Asserted ''u'' None, m_context = sample_context,
      m_importance = F01 f32_one, m_confidence = F01 f32_one, m_effectiveness = None, m_usage_count = 0,
      m_valid_from = 0, m_valid_until = None, m_recorded_at = 0, m_invalidated_by = None,
      m_embedding = None, m_lsn = new_local 0, m_rights = None\<rparr>"

definition sample_vc :: visibility_context where
  "sample_vc =
     \<lparr>vc_user_id = ''u'', vc_org_id = ''acme'', vc_project_ids = [''*''], vc_team_ids = [],
      vc_max_visibility = Org\<rparr>"

theorem memory_visible_bounds_witness:
  "memory_visible (sample_memory (MemoryId [1]) Private) sample_vc \<and>
   c_user_id (m_context (sample_memory (MemoryId [1]) Private)) = Some (vc_user_id sample_vc)"
proof -
  have "memory_visible (sample_memory (MemoryId [1]) Private) sample_vc"
    by (simp add: memory_visible_def sample_memory_def sample_vc_def sample_context_def
        effective_visibility_def less_visibility_def Let_def)
  with memory_visible_bounds [OF this] show ?thesis by (simp add: sample_memory_def)
qed

lemma effective_min: "effective_visibility (min a b) = min (effective_visibility a) (effective_visibility b)"
  by (cases a; cases b) (auto simp: effective_visibility_def min_def less_eq_visibility_def)

lemma memory_visible_effective:
  "memory_visible m vc \<Longrightarrow> effective_visibility (m_visibility m) \<le> vc_max_visibility vc"
  by (auto simp: memory_visible_def Let_def split: if_splits)

text \<open>
  the storage decision fits the kernel's label.  For an edge that carries the label the
  kernel derives from its endpoints, the edge is visible to a caller exactly when both
  endpoints are: the edge neither leaks a hidden endpoint nor hides between two visible ones.
\<close>

theorem derived_label_visibility:
  assumes "r_visibility r = relationship_visibility (m_visibility f) (m_visibility t)"
  shows "relationship_visible r f t vc \<longleftrightarrow> memory_visible f vc \<and> memory_visible t vc"
proof
  assume "memory_visible f vc \<and> memory_visible t vc"
  then have v: "memory_visible f vc" "memory_visible t vc" by simp_all
  have "effective_visibility (r_visibility r) \<le> vc_max_visibility vc"
    using memory_visible_effective [OF v(1)]
    by (auto simp: assms relationship_visibility_def effective_min min.coboundedI1)
  then show "relationship_visible r f t vc"
    using v assms
    by (cases "m_visibility f"; cases "m_visibility t")
      (auto simp: relationship_visible_def memory_visible_def relationship_visibility_def Let_def
        effective_visibility_def min_def less_eq_visibility_def not_less split: if_splits)
qed (auto simp: relationship_visible_def Let_def split: if_splits)

theorem derived_label_visibility_witness:
  "relationship_visible
     ((sample_edge CAUSES (MemoryId [1]) (MemoryId [2]))\<lparr>r_visibility := relationship_visibility Private Org\<rparr>)
     (sample_memory (MemoryId [1]) Private) (sample_memory (MemoryId [2]) Org) sample_vc"
proof -
  have "memory_visible (sample_memory (MemoryId [1]) Private) sample_vc"
    "memory_visible (sample_memory (MemoryId [2]) Org) sample_vc"
    by (simp_all add: memory_visible_def sample_memory_def sample_vc_def sample_context_def
        effective_visibility_def less_visibility_def Let_def)
  then show ?thesis
    using derived_label_visibility [of
      "(sample_edge CAUSES (MemoryId [1]) (MemoryId [2]))\<lparr>r_visibility := relationship_visibility Private Org\<rparr>"
      "sample_memory (MemoryId [1]) Private" "sample_memory (MemoryId [2]) Org" sample_vc]
    by (simp add: sample_memory_def)
qed

end
