(* ===== verification/Row_History.thy ===== *)
theory Row_History
  imports Storage_Types
begin

text \<open>
  Append-only version histories.  The backend keeps, for each memory id and for each
  relationship id, the stack of the versions asserted so far; the version on top is current.
  The laws both kinds of row obey are the locale \<open>versioned\<close>, interpreted on memories and on
  relationships.
\<close>

definition stamp_memory :: "nat \<Rightarrow> memory \<Rightarrow> memory" where
  "stamp_memory n m = m\<lparr>m_lsn := new_backend n\<rparr>"

definition stamp_relationship :: "nat \<Rightarrow> relationship \<Rightarrow> relationship" where
  "stamp_relationship n r = r\<lparr>r_lsn := new_backend n\<rparr>"

text \<open>The sequence numbers of the versions of one id.\<close>

definition row_lsns :: "('r \<Rightarrow> lsn) \<Rightarrow> ('k, 'r list) hmap \<Rightarrow> 'k \<Rightarrow> nat set" where
  "row_lsns seq m i = (\<lambda>r. lsn_value (seq r)) ` set (hist_of m i)"

text \<open>
  The invariant of a table of histories: no history is empty, every version sits under its own
  id with a backend sequence number at most \<open>bound\<close>, the numbers of one history increase
  strictly, and no number is used by two ids.
\<close>

definition rows_ok :: "('r \<Rightarrow> 'k) \<Rightarrow> ('r \<Rightarrow> lsn) \<Rightarrow> nat \<Rightarrow> ('k, 'r list) hmap \<Rightarrow> bool" where
  "rows_ok ident seq bound m \<longleftrightarrow>
     hm_ok m \<and>
     (\<forall>i. hm_contains m i \<longrightarrow> hist_of m i \<noteq> []) \<and>
     (\<forall>i. \<forall>r\<in>set (hist_of m i). ident r = i \<and> lsn_space (seq r) = BackendSpace \<and> lsn_value (seq r) \<le> bound) \<and>
     (\<forall>i. sorted_wrt (<) (map (\<lambda>r. lsn_value (seq r)) (hist_of m i))) \<and>
     (\<forall>i j. i \<noteq> j \<longrightarrow> row_lsns seq m i \<inter> row_lsns seq m j = {})"

lemma lsn_space_new_backend [simp]: "lsn_space (new_backend n) = BackendSpace"
  by (simp add: new_backend_def)

lemma row_lsns_push [simp]:
  "row_lsns seq (hm_push k v m) i =
     (if i = k then insert (lsn_value (seq v)) (row_lsns seq m k) else row_lsns seq m i)"
  by (auto simp: row_lsns_def)

locale versioned =
  fixes ident :: "'r \<Rightarrow> 'k" and seq :: "'r \<Rightarrow> lsn" and stamp :: "nat \<Rightarrow> 'r \<Rightarrow> 'r"
  assumes ident_stamp: "ident (stamp n r) = ident r"
    and seq_stamp: "seq (stamp n r) = new_backend n"
begin

lemma rows_ok_empty: "rows_ok ident seq b []"
  by (simp add: rows_ok_def row_lsns_def)

lemma rows_ok_mono: "rows_ok ident seq a m \<Longrightarrow> a \<le> b \<Longrightarrow> rows_ok ident seq b m"
  unfolding rows_ok_def by (meson le_trans)

lemma row_lsns_bound: "rows_ok ident seq b m \<Longrightarrow> n \<in> row_lsns seq m i \<Longrightarrow> n \<le> b"
  by (auto simp: rows_ok_def row_lsns_def)

lemma rows_ok_push_raw:
  assumes ok: "rows_ok ident seq b m" and v: "seq v = new_backend n" "ident v = k" and n: "b < n"
  shows "rows_ok ident seq n (hm_push k v m)"
proof -
  have fresh: "n \<notin> row_lsns seq m i" for i
    using row_lsns_bound [OF ok] n by (meson not_le)
  show ?thesis
    unfolding rows_ok_def
  proof (intro conjI allI impI ballI)
    show "hm_ok (hm_push k v m)" using ok by (simp add: rows_ok_def)
    show "hist_of (hm_push k v m) i \<noteq> []" if "hm_contains (hm_push k v m) i" for i
      using ok that by (auto simp: rows_ok_def)
    show "ident r = i" "lsn_space (seq r) = BackendSpace" "lsn_value (seq r) \<le> n"
      if "r \<in> set (hist_of (hm_push k v m) i)" for i r
      using rows_ok_mono [OF ok less_imp_le [OF n]] v that by (auto simp: rows_ok_def split: if_splits)
    show "sorted_wrt (<) (map (\<lambda>r. lsn_value (seq r)) (hist_of (hm_push k v m) i))" for i
      using ok v n by (auto simp: rows_ok_def sorted_wrt_append dest: le_less_trans)
    show "row_lsns seq (hm_push k v m) i \<inter> row_lsns seq (hm_push k v m) j = {}" if "i \<noteq> j" for i j
      using ok v fresh that by (auto simp: rows_ok_def)
  qed
qed

lemma rows_ok_push:
  "rows_ok ident seq b m \<Longrightarrow> b < n \<Longrightarrow> rows_ok ident seq n (hm_push (ident r) (stamp n r) m)"
  by (rule rows_ok_push_raw) (simp_all add: ident_stamp seq_stamp)

text \<open>Filtering one history, and dropping it when nothing is left.\<close>

lemma rows_ok_filter:
  assumes ok: "rows_ok ident seq b m"
  shows "rows_ok ident seq b
    (if filter P (hist_of m k) = [] then hm_remove k m else hm_insert k (filter P (hist_of m k)) m)"
    (is "rows_ok ident seq b ?m")
proof -
  have hm: "hm_ok m" using ok by (simp add: rows_ok_def)
  have h: "hist_of ?m i = (if i = k then filter P (hist_of m k) else hist_of m i)" for i
    using hm by simp
  have sub: "row_lsns seq ?m i \<subseteq> row_lsns seq m i" for i
    unfolding row_lsns_def h by auto
  show ?thesis
    unfolding rows_ok_def
  proof (intro conjI allI impI ballI)
    show "hm_ok ?m" using hm by simp
    show "hist_of ?m i \<noteq> []" if "hm_contains ?m i" for i
      using ok that hm by (auto simp: rows_ok_def hm_contains_def split: if_splits)
    show "ident r = i" "lsn_space (seq r) = BackendSpace" "lsn_value (seq r) \<le> b"
      if "r \<in> set (hist_of ?m i)" for i r
      using ok that unfolding h by (auto simp: rows_ok_def split: if_splits)
    show "sorted_wrt (<) (map (\<lambda>r. lsn_value (seq r)) (hist_of ?m i))" for i
      using ok unfolding h rows_ok_def
      by (auto simp: sorted_wrt_map sorted_wrt_filter)
    show "row_lsns seq ?m i \<inter> row_lsns seq ?m j = {}" if "i \<noteq> j" for i j
      using ok that sub [of i] sub [of j] unfolding rows_ok_def by blast
  qed
qed

text \<open>The stream of current versions: one row per id, found under its id.\<close>

lemma current_stream:
  assumes ok: "rows_ok ident seq b m"
  shows "List.map_filter last_opt (hm_values m) = map (\<lambda>e. last (snd e)) m"
    and "map ident (List.map_filter last_opt (hm_values m)) = map fst m"
proof -
  have hm: "hm_ok m" using ok by (simp add: rows_ok_def)
  have ent: "snd e \<noteq> []" "ident (last (snd e)) = fst e" if "e \<in> set m" for e
  proof -
    from that hm have g: "hm_get m (fst e) = Some (snd e)" by (intro hm_mem_get) simp_all
    then have h: "hist_of m (fst e) = snd e" "hm_contains m (fst e)" by (simp_all add: hist_of_def hm_contains_def)
    with ok show ne: "snd e \<noteq> []" unfolding rows_ok_def by auto
    from ne have "last (snd e) \<in> set (hist_of m (fst e))" unfolding h(1) by (rule last_in_set)
    with ok show "ident (last (snd e)) = fst e" unfolding rows_ok_def by blast
  qed
  have mf: "List.map_filter last_opt (map snd xs) = map (\<lambda>e. last (snd e)) xs" if "\<And>e. e \<in> set xs \<Longrightarrow> snd e \<noteq> []" for xs
    using that by (induction xs) (auto simp: last_opt_def map_filter_simps)
  show *: "List.map_filter last_opt (hm_values m) = map (\<lambda>e. last (snd e)) m"
    using mf [of m] ent(1) by (simp add: hm_values_def)
  show "map ident (List.map_filter last_opt (hm_values m)) = map fst m"
    unfolding * using ent(2) by simp
qed

lemma current_stream_distinct:
  "rows_ok ident seq b m \<Longrightarrow> distinct (map ident (List.map_filter last_opt (hm_values m)))"
  by (simp add: current_stream(2)) (simp add: rows_ok_def hm_ok_def)

lemma current_stream_iff:
  assumes ok: "rows_ok ident seq b m"
  shows "r \<in> set (List.map_filter last_opt (hm_values m)) \<longleftrightarrow> Option.bind (hm_get m (ident r)) last_opt = Some r"
proof -
  have hm: "hm_ok m" using ok by (simp add: rows_ok_def)
  have "ident r = i" if "hm_get m i = Some h" "last_opt h = Some r" for i h
    using ok that last_opt_in [OF that(2)] by (auto simp: rows_ok_def hist_of_def split: option.splits)
  moreover have "r \<in> set (List.map_filter last_opt xs) \<longleftrightarrow> (\<exists>h\<in>set xs. last_opt h = Some r)" for xs
    by (induction xs) (auto simp: map_filter_simps split: option.splits)
  ultimately show ?thesis
    using hm_values_iff [OF hm] unfolding bind_eq_Some_conv by metis
qed

lemma current_stream_find:
  assumes ok: "rows_ok ident seq b m"
  shows "find (\<lambda>r. ident r = i) (List.map_filter last_opt (hm_values m)) = Option.bind (hm_get m i) last_opt"
proof (cases "Option.bind (hm_get m i) last_opt")
  case None
  then show ?thesis
    using current_stream_iff [OF ok] by (auto simp: find_None_iff)
next
  case (Some r)
  let ?xs = "List.map_filter last_opt (hm_values m)"
  have id: "ident r = i"
    using ok Some by (auto simp: bind_eq_Some_conv rows_ok_def hist_of_def split: option.splits dest: last_opt_in)
  with Some current_stream_iff [OF ok] have r: "r \<in> set ?xs" by simp
  then obtain q where q: "find (\<lambda>r. ident r = i) ?xs = Some q"
    using id by (cases "find (\<lambda>r. ident r = i) ?xs") (auto simp: find_None_iff)
  then have "q \<in> set ?xs" "ident q = i" by (auto simp: find_Some_iff)
  with current_stream_iff [OF ok] Some q show ?thesis by auto
qed

end

interpretation mrow: versioned m_id m_lsn stamp_memory
  by unfold_locales (simp_all add: stamp_memory_def)

interpretation rrow: versioned r_id r_lsn stamp_relationship
  by unfold_locales (simp_all add: stamp_relationship_def)

end
