(* ===== verification/Mem_Store.thy ===== *)
theory Mem_Store
  imports Row_History
begin

text \<open>
  The in-memory storage backend (\<open>exocortex-storage/src/in_memory.rs\<close>), its state and its
  row writes.  The struct of mutexes and atomics is one record; every mutation runs under
  \<open>mutation_gate\<close>, so an operation is a function from the state to its result and the next
  state.  The change feed is the list of everything sent so far.  The read counters and the
  fault injection of test builds are left out; log sequence numbers are naturals, which is
  exact for any run of fewer than \<open>2 ^ 64\<close> commits.  BLAKE3 is the parameter \<open>h\<close>, the
  clock reading of an operation its parameter \<open>now\<close>.
\<close>

section \<open>State\<close>

record ingest_effect =
  ie_effect :: post_ingest_effect
  ie_acknowledged :: bool
  ie_cleanup_complete :: bool
  ie_delivery_generation :: "nat option"
  ie_retain_legacy_identity :: bool
  ie_claim :: "(string \<times> instant) option"

record stored_proposal =
  sp_proposal :: discovery_proposal
  sp_consumed :: bool

record held_lease =
  hl_token :: string
  hl_expires_at :: instant

record audit_row =
  ar_action :: string
  ar_actor :: string
  ar_org_id :: string
  ar_input_digest :: string
  ar_output_ids :: "string list"
  ar_fingerprint :: string
  ar_lease_epoch :: string
  ar_recorded_at :: instant
  ar_lsn :: nat

record store =
  s_lsn :: nat
  s_feed :: "invalidation list"
  s_memories :: "(memory_id, memory list) hmap"
  s_rels :: "(relationship_id, relationship list) hmap"
  s_rels_by_node :: "(memory_id, relationship_id list) hmap"
  s_ontology :: ontology
  s_recognized :: "byte list list"
  s_leases :: "(lease_key, held_lease) hmap"
  s_lease_epochs :: "(lease_key, nat) hmap"
  s_proposals :: "(string, stored_proposal) hmap"
  s_discoveries :: "(string, discovery_record) hmap"
  s_audits :: "audit_row list"
  s_settled_ingest :: "(ingest_batch_key, settled_ingest_batch) hmap"
  s_ingest_effects :: "(string, ingest_effect) hmap"
  s_ingest_effect_generation :: nat
  s_governed_imports :: "string list"
  s_cycle_journals :: "(lease_key, cycle_journal_record) hmap"
  s_succeeded_cycles :: "(lease_key \<times> string, string) hmap"
  s_fail_next_batch_read :: bool
  s_fail_next_ingest_commit :: bool

definition build :: "ontology \<Rightarrow> byte list list \<Rightarrow> store" where
  "build onto recognized =
     \<lparr>s_lsn = 0, s_feed = [], s_memories = [], s_rels = [], s_rels_by_node = [], s_ontology = onto,
      s_recognized = recognized, s_leases = [], s_lease_epochs = [], s_proposals = [],
      s_discoveries = [], s_audits = [], s_settled_ingest = [], s_ingest_effects = [],
      s_ingest_effect_generation = 0, s_governed_imports = [], s_cycle_journals = [],
      s_succeeded_cycles = [], s_fail_next_batch_read = False, s_fail_next_ingest_commit = False\<rparr>"

definition new_store :: "ontology \<Rightarrow> store" where
  "new_store onto = build onto []"

definition with_recognized_ontology_history :: "ontology \<Rightarrow> byte list list \<Rightarrow> store" where
  "with_recognized_ontology_history onto history =
     build onto (foldl (\<lambda>rec fp. if fp \<in> set rec then rec else rec @ [fp]) [o_fingerprint onto] history)"

definition recognized_ontology_fingerprints :: "store \<Rightarrow> byte list list" where
  "recognized_ontology_fingerprints st =
     (if s_recognized st = [] then [o_fingerprint (s_ontology st)] else s_recognized st)"

type_synonym 'a outcome = "(storage_error + 'a) \<times> store"

section \<open>Histories, the index and the feed\<close>

definition next_lsn :: "store \<Rightarrow> nat \<times> store" where
  "next_lsn st = (s_lsn st + 1, st\<lparr>s_lsn := s_lsn st + 1\<rparr>)"

definition memory_history :: "store \<Rightarrow> memory_id \<Rightarrow> memory list" where
  "memory_history st i = (case hm_get (s_memories st) i of None \<Rightarrow> [] | Some hist \<Rightarrow> hist)"

definition relationship_history :: "store \<Rightarrow> relationship_id \<Rightarrow> relationship list" where
  "relationship_history st i = (case hm_get (s_rels st) i of None \<Rightarrow> [] | Some hist \<Rightarrow> hist)"

definition last_lsn :: "store \<Rightarrow> nat" where
  "last_lsn st = s_lsn st"

definition index_add ::
    "memory_id \<Rightarrow> relationship_id \<Rightarrow> (memory_id, relationship_id list) hmap \<Rightarrow>
     (memory_id, relationship_id list) hmap" where
  "index_add n i m = hm_insert n (List.insert i (case hm_get m n of None \<Rightarrow> [] | Some l \<Rightarrow> l)) m"

definition index_relationship :: "relationship_id \<Rightarrow> memory_id \<Rightarrow> memory_id \<Rightarrow> store \<Rightarrow> store" where
  "index_relationship i f t st =
     st\<lparr>s_rels_by_node := index_add t i (index_add f i (s_rels_by_node st))\<rparr>"

fun index_invalidation :: "invalidation \<Rightarrow> store \<Rightarrow> store" where
  "index_invalidation (RelationshipUpserted i f t k n) st = index_relationship i f t st"
| "index_invalidation _ st = st"

definition send :: "invalidation \<Rightarrow> store \<Rightarrow> store" where
  "send nv st = st\<lparr>s_feed := s_feed st @ [nv]\<rparr>"

text \<open>The publication loop after a batch: index, then send, in order.\<close>

definition publish :: "invalidation list \<Rightarrow> store \<Rightarrow> store" where
  "publish invs st = fold (\<lambda>nv s. send nv (index_invalidation nv s)) invs st"

definition commit_at :: "nat \<Rightarrow> instant \<Rightarrow> commit_record" where
  "commit_at n now = \<lparr>cr_lsn = n, cr_committed_at = now, cr_node_id = None, cr_edge_id = None\<rparr>"

definition upserted :: "nat \<Rightarrow> relationship \<Rightarrow> invalidation" where
  "upserted n r = RelationshipUpserted (r_id r) (r_from r) (r_to r) (r_kind r) n"

text \<open>\<open>{:02x?}\<close> of an id.\<close>

definition debug_bytes :: "byte list \<Rightarrow> string" where
  "debug_bytes bs =
     ''['' @ (case bs of [] \<Rightarrow> [] | b # r \<Rightarrow> hex_byte b @ concat (map (\<lambda>c. '', '' @ hex_byte c) r)) @ '']''"

section \<open>Single rows\<close>

definition upsert_memory :: "instant \<Rightarrow> memory \<Rightarrow> store \<Rightarrow> commit_record outcome" where
  "upsert_memory now m st =
     (let (n, st1) = next_lsn st;
          st2 = st1\<lparr>s_memories := hm_push (m_id m) (stamp_memory n m) (s_memories st1)\<rparr>
      in (Inr (commit_at n now), send (MemoryUpserted (m_id m) n) st2))"

definition upsert_relationship_row_locked ::
    "instant \<Rightarrow> relationship \<Rightarrow> store \<Rightarrow> commit_record \<times> store" where
  "upsert_relationship_row_locked now r st =
     (let (n, st1) = next_lsn st;
          st2 = st1\<lparr>s_rels := hm_push (r_id r) (stamp_relationship n r) (s_rels st1)\<rparr>;
          st3 = index_relationship (r_id r) (r_from r) (r_to r) st2
      in (commit_at n now, send (upserted n r) st3))"

definition upsert_relationship ::
    "(byte list \<Rightarrow> byte list) \<Rightarrow> instant \<Rightarrow> relationship \<Rightarrow> store \<Rightarrow> commit_record outcome" where
  "upsert_relationship h now r st =
     (let (rec, st1) = upsert_relationship_row_locked now r st in
      case materialize_inverse h (s_ontology st1) r of
        None \<Rightarrow> (Inr rec, st1)
      | Some nv \<Rightarrow>
        (let already_current =
           (case last_opt (relationship_history st1 (r_id nv)) of
              None \<Rightarrow> False | Some cur \<Rightarrow> r_valid_until cur = None)
         in if already_current then (Inr rec, st1)
            else (Inr rec, snd (upsert_relationship_row_locked now nv st1))))"

definition close_memory :: "nat \<Rightarrow> instant \<Rightarrow> memory \<Rightarrow> memory" where
  "close_memory n now m =
     m\<lparr>m_valid_until := Some now, m_recorded_at := now, m_lsn := new_backend n\<rparr>"

definition delete_memory_locked :: "instant \<Rightarrow> memory_id \<Rightarrow> store \<Rightarrow> commit_record \<times> store" where
  "delete_memory_locked now i st =
     (let (n, st1) = next_lsn st in
      (commit_at n now,
       (case last_opt (memory_history st1 i) of
          None \<Rightarrow> st1
        | Some cur \<Rightarrow> st1\<lparr>s_memories := hm_push i (close_memory n now cur) (s_memories st1)\<rparr>)))"

definition delete_memory :: "instant \<Rightarrow> memory_id \<Rightarrow> store \<Rightarrow> commit_record outcome" where
  "delete_memory now i st =
     (let (rec, st1) = delete_memory_locked now i st
      in (Inr rec, send (MemoryDeleted i (cr_lsn rec)) st1))"

definition close_relationship :: "nat \<Rightarrow> instant \<Rightarrow> relationship \<Rightarrow> relationship" where
  "close_relationship n now r =
     r\<lparr>r_valid_until := Some now, r_recorded_at := now, r_lsn := new_backend n\<rparr>"

text \<open>The current row of a relationship when it is still open.\<close>

definition open_row :: "store \<Rightarrow> relationship_id \<Rightarrow> relationship option" where
  "open_row st i =
     (case last_opt (relationship_history st i) of
        None \<Rightarrow> None
      | Some cur \<Rightarrow> if r_valid_until cur = None then Some cur else None)"

definition delete_relationship :: "instant \<Rightarrow> relationship_id \<Rightarrow> store \<Rightarrow> commit_record outcome" where
  "delete_relationship now i st =
     (let (n, st1) = next_lsn st in
      case open_row st1 i of
        None \<Rightarrow>
          (Inl (Backend (''delete_relationship: '' @ debug_bytes (rid_bytes i) @ '' not found or already closed'')), st1)
      | Some cur \<Rightarrow>
          (Inr (commit_at n now),
           send (RelationshipDeleted i n)
             (st1\<lparr>s_rels := hm_push i (close_relationship n now cur) (s_rels st1)\<rparr>)))"

section \<open>Audit rows\<close>

definition audit_value :: "audit_event \<Rightarrow> nat \<Rightarrow> audit_row" where
  "audit_value a n =
     \<lparr>ar_action = ae_action a, ar_actor = ae_actor a, ar_org_id = ae_org_id a,
      ar_input_digest = hex (ae_input_digest a), ar_output_ids = ae_output_ids a,
      ar_fingerprint = hex (ae_fingerprint a),
      ar_lease_epoch = (case ae_lease_epoch a of None \<Rightarrow> [] | Some e \<Rightarrow> show_nat e),
      ar_recorded_at = ae_recorded_at a, ar_lsn = n\<rparr>"

definition push_audit :: "audit_event \<Rightarrow> nat \<Rightarrow> store \<Rightarrow> store" where
  "push_audit a n st = st\<lparr>s_audits := s_audits st @ [audit_value a n]\<rparr>"

definition append_audit :: "instant \<Rightarrow> audit_event \<Rightarrow> store \<Rightarrow> commit_record outcome" where
  "append_audit now a st =
     (let (n, st1) = next_lsn st in (Inr (commit_at n now), push_audit a n st1))"

definition delete_relationship_audited ::
    "instant \<Rightarrow> relationship_id \<Rightarrow> audit_event \<Rightarrow> store \<Rightarrow> commit_record outcome" where
  "delete_relationship_audited now i a st =
     (let (n, st1) = next_lsn st in
      case open_row st1 i of
        None \<Rightarrow>
          (Inl (Backend (''delete_relationship_audited: '' @ debug_bytes (rid_bytes i)
             @ '' not found or already closed'')), st1)
      | Some cur \<Rightarrow>
          (Inr (commit_at n now),
           send (RelationshipDeleted i n) (push_audit a n
             (st1\<lparr>s_rels := hm_push i (close_relationship n now cur) (s_rels st1)\<rparr>))))"

definition audit_range :: "string \<Rightarrow> nat \<Rightarrow> nat \<Rightarrow> store \<Rightarrow> audit_row list" where
  "audit_range org since limit st =
     take limit (filter (\<lambda>row. ar_org_id row = org \<and> since < ar_lsn row) (s_audits st))"

definition promote_memory_visibility_audited ::
    "instant \<Rightarrow> memory \<Rightarrow> audit_event \<Rightarrow> store \<Rightarrow> commit_record outcome" where
  "promote_memory_visibility_audited now m a st =
     (case last_opt (memory_history st (m_id m)) of
        None \<Rightarrow> (Inl (Backend ''promotion target disappeared''), st)
      | Some current \<Rightarrow>
        if m_visibility m < m_visibility current then
          (Inl (Backend ''promotion would narrow current visibility''), st)
        else
          (let n = s_lsn st + 1 in
           (Inr (commit_at n now),
            send (MemoryUpserted (m_id m) n)
              ((push_audit a n
                (st\<lparr>s_memories := hm_push (m_id m) (stamp_memory n m) (s_memories st)\<rparr>))
               \<lparr>s_lsn := n\<rparr>))))"

section \<open>Atomic batches\<close>

text \<open>What a batch stages before it is swapped in.\<close>

record staging =
  sg_memories :: "(memory_id, memory list) hmap"
  sg_rels :: "(relationship_id, relationship list) hmap"
  sg_next :: nat
  sg_records :: "commit_record list"
  sg_invalidations :: "invalidation list"
  sg_seen :: "relationship_id list"

definition stage_memory :: "instant \<Rightarrow> memory \<Rightarrow> staging \<Rightarrow> staging" where
  "stage_memory now m g =
     (let n = sg_next g + 1 in
      g\<lparr>sg_next := n,
        sg_memories := hm_push (m_id m) (stamp_memory n m) (sg_memories g),
        sg_invalidations := sg_invalidations g @ [MemoryUpserted (m_id m) n],
        sg_records := sg_records g @ [commit_at n now]\<rparr>)"

definition stage_row :: "instant \<Rightarrow> relationship \<Rightarrow> staging \<Rightarrow> staging" where
  "stage_row now r g =
     (let n = sg_next g + 1 in
      g\<lparr>sg_next := n,
        sg_rels := hm_push (r_id r) (stamp_relationship n r) (sg_rels g),
        sg_invalidations := sg_invalidations g @ [upserted n r],
        sg_records := sg_records g @ [commit_at n now]\<rparr>)"

definition stage_relationship ::
    "(byte list \<Rightarrow> byte list) \<Rightarrow> ontology \<Rightarrow> instant \<Rightarrow> relationship \<Rightarrow> staging \<Rightarrow> staging" where
  "stage_relationship h onto now r g =
     (let g1 = stage_row now r g in
      case materialize_inverse h onto (stamp_relationship (sg_next g1) r) of
        None \<Rightarrow> g1
      | Some nv \<Rightarrow>
        if r_id nv \<in> set (sg_seen g1) then g1
        else stage_row now nv (g1\<lparr>sg_seen := r_id nv # sg_seen g1\<rparr>))"

definition endpoint_missing :: "store \<Rightarrow> memory list \<Rightarrow> relationship \<Rightarrow> bool" where
  "endpoint_missing st ms r =
     (\<not> hm_contains (s_memories st) (r_from r) \<and> \<not> list_ex (\<lambda>m. m_id m = r_from r) ms
      \<or> \<not> hm_contains (s_memories st) (r_to r) \<and> \<not> list_ex (\<lambda>m. m_id m = r_to r) ms)"

definition upsert_batch_locked ::
    "(byte list \<Rightarrow> byte list) \<Rightarrow> instant \<Rightarrow> memory list \<Rightarrow> relationship list \<Rightarrow> store \<Rightarrow>
     storage_error + (commit_record list \<times> invalidation list \<times> store)" where
  "upsert_batch_locked h now ms rs st =
     (case find (endpoint_missing st ms) rs of
        Some r \<Rightarrow> Inl (Backend (''relationship '' @ debug_bytes (rid_bytes (r_id r)) @ '' endpoint missing''))
      | None \<Rightarrow>
        (let g0 = \<lparr>sg_memories = s_memories st, sg_rels = s_rels st, sg_next = s_lsn st,
                   sg_records = [], sg_invalidations = [], sg_seen = map r_id rs\<rparr>;
             g1 = fold (stage_memory now) ms g0;
             g2 = fold (stage_relationship h (s_ontology st) now) rs g1
         in Inr (sg_records g2, sg_invalidations g2,
              st\<lparr>s_lsn := sg_next g2, s_memories := sg_memories g2, s_rels := sg_rels g2\<rparr>)))"

definition upsert_batch ::
    "(byte list \<Rightarrow> byte list) \<Rightarrow> instant \<Rightarrow> memory list \<Rightarrow> relationship list \<Rightarrow> store \<Rightarrow>
     commit_record list outcome" where
  "upsert_batch h now ms rs st =
     (case upsert_batch_locked h now ms rs st of
        Inl e \<Rightarrow> (Inl e, st)
      | Inr (records, invs, st1) \<Rightarrow> (Inr records, publish invs st1))"

definition last_record_lsn :: "commit_record list \<Rightarrow> nat" where
  "last_record_lsn records = (case last_opt records of None \<Rightarrow> 0 | Some r \<Rightarrow> cr_lsn r)"

definition upsert_batch_audited ::
    "(byte list \<Rightarrow> byte list) \<Rightarrow> instant \<Rightarrow> memory list \<Rightarrow> relationship list \<Rightarrow> audit_event \<Rightarrow> store \<Rightarrow>
     commit_record list outcome" where
  "upsert_batch_audited h now ms rs a st =
     (case upsert_batch_locked h now ms rs st of
        Inl e \<Rightarrow> (Inl e, st)
      | Inr (records, invs, st1) \<Rightarrow>
          (Inr records, publish invs (push_audit a (last_record_lsn records) st1)))"

definition upsert_batch_once ::
    "(byte list \<Rightarrow> byte list) \<Rightarrow> instant \<Rightarrow> string \<Rightarrow> memory list \<Rightarrow> relationship list \<Rightarrow> store \<Rightarrow>
     bool outcome" where
  "upsert_batch_once h now operation_key ms rs st =
     (if operation_key \<in> set (s_governed_imports st) then (Inr False, st)
      else
        (case upsert_batch_locked h now ms rs st of
           Inl e \<Rightarrow> (Inl e, st)
         | Inr (records, invs, st1) \<Rightarrow>
             (Inr True, publish invs
               (st1\<lparr>s_governed_imports := List.insert operation_key (s_governed_imports st1)\<rparr>))))"

definition import_batch_once ::
    "(byte list \<Rightarrow> byte list) \<Rightarrow> instant \<Rightarrow> string \<Rightarrow> memory list \<Rightarrow> relationship list \<Rightarrow> store \<Rightarrow>
     bool outcome" where
  "import_batch_once h now import_key ms rs st = upsert_batch_once h now import_key ms rs st"

section \<open>The row-by-row reading of a write\<close>

text \<open>
  The reference semantics the operations are compared with: a committed write is a sequence of
  rows, each taking the next sequence number, landing on top of its history, entering the
  adjacency index when it is an edge, and announced once on the feed.
\<close>

datatype row = MRow memory | RRow relationship

fun write_row :: "row \<Rightarrow> store \<Rightarrow> store" where
  "write_row (MRow m) st =
     st\<lparr>s_lsn := s_lsn st + 1,
        s_memories := hm_push (m_id m) (stamp_memory (s_lsn st + 1) m) (s_memories st),
        s_feed := s_feed st @ [MemoryUpserted (m_id m) (s_lsn st + 1)]\<rparr>"
| "write_row (RRow r) st =
     st\<lparr>s_lsn := s_lsn st + 1,
        s_rels := hm_push (r_id r) (stamp_relationship (s_lsn st + 1) r) (s_rels st),
        s_rels_by_node := index_add (r_to r) (r_id r) (index_add (r_from r) (r_id r) (s_rels_by_node st)),
        s_feed := s_feed st @ [upserted (s_lsn st + 1) r]\<rparr>"

definition write_rows :: "row list \<Rightarrow> store \<Rightarrow> store" where
  "write_rows rows st = fold write_row rows st"

text \<open>
  The rows a batch asserts: its memories, then each edge followed by the inverse companion the
  ontology asks for, unless an edge with that id is part of the batch already.
\<close>

fun companions ::
    "(byte list \<Rightarrow> byte list) \<Rightarrow> ontology \<Rightarrow> relationship_id list \<Rightarrow> relationship list \<Rightarrow> relationship list" where
  "companions h onto seen [] = []"
| "companions h onto seen (r # rs) =
     r # (case materialize_inverse h onto r of
            None \<Rightarrow> companions h onto seen rs
          | Some nv \<Rightarrow>
            if r_id nv \<in> set seen then companions h onto seen rs
            else nv # companions h onto (r_id nv # seen) rs)"

definition batch_rows ::
    "(byte list \<Rightarrow> byte list) \<Rightarrow> ontology \<Rightarrow> memory list \<Rightarrow> relationship list \<Rightarrow> row list" where
  "batch_rows h onto ms rs = map MRow ms @ map RRow (companions h onto (map r_id rs) rs)"

lemma write_rows_simps [simp]:
  "write_rows [] st = st"
  "write_rows (x # xs) st = write_rows xs (write_row x st)"
  "write_rows (xs @ ys) st = write_rows ys (write_rows xs st)"
  by (simp_all add: write_rows_def)

lemma memory_history_hist: "memory_history st i = hist_of (s_memories st) i"
  by (simp add: memory_history_def hist_of_def)

lemma relationship_history_hist: "relationship_history st i = hist_of (s_rels st) i"
  by (simp add: relationship_history_def hist_of_def)

lemma upsert_memory_row:
  "upsert_memory now m st = (Inr (commit_at (s_lsn st + 1) now), write_row (MRow m) st)"
  by (simp add: upsert_memory_def next_lsn_def send_def Let_def)

lemma upsert_relationship_row:
  "upsert_relationship_row_locked now r st = (commit_at (s_lsn st + 1) now, write_row (RRow r) st)"
  by (simp add: upsert_relationship_row_locked_def next_lsn_def send_def index_relationship_def Let_def)

lemma write_row_lsn [simp]: "s_lsn (write_row x st) = s_lsn st + 1"
  by (cases x) simp_all

lemma write_rows_lsn [simp]: "s_lsn (write_rows xs st) = s_lsn st + length xs"
  by (induction xs arbitrary: st) simp_all

lemma write_row_frame [simp]:
  "s_ontology (write_row x st) = s_ontology st"
  "s_recognized (write_row x st) = s_recognized st"
  "s_leases (write_row x st) = s_leases st"
  "s_lease_epochs (write_row x st) = s_lease_epochs st"
  "s_proposals (write_row x st) = s_proposals st"
  "s_discoveries (write_row x st) = s_discoveries st"
  "s_audits (write_row x st) = s_audits st"
  "s_settled_ingest (write_row x st) = s_settled_ingest st"
  "s_ingest_effects (write_row x st) = s_ingest_effects st"
  "s_ingest_effect_generation (write_row x st) = s_ingest_effect_generation st"
  "s_governed_imports (write_row x st) = s_governed_imports st"
  "s_cycle_journals (write_row x st) = s_cycle_journals st"
  "s_succeeded_cycles (write_row x st) = s_succeeded_cycles st"
  by (cases x; simp)+

lemma write_rows_frame [simp]:
  "s_ontology (write_rows xs st) = s_ontology st"
  "s_recognized (write_rows xs st) = s_recognized st"
  "s_leases (write_rows xs st) = s_leases st"
  "s_lease_epochs (write_rows xs st) = s_lease_epochs st"
  "s_proposals (write_rows xs st) = s_proposals st"
  "s_discoveries (write_rows xs st) = s_discoveries st"
  "s_audits (write_rows xs st) = s_audits st"
  "s_settled_ingest (write_rows xs st) = s_settled_ingest st"
  "s_ingest_effects (write_rows xs st) = s_ingest_effects st"
  "s_ingest_effect_generation (write_rows xs st) = s_ingest_effect_generation st"
  "s_governed_imports (write_rows xs st) = s_governed_imports st"
  "s_cycle_journals (write_rows xs st) = s_cycle_journals st"
  "s_succeeded_cycles (write_rows xs st) = s_succeeded_cycles st"
  by (induction xs arbitrary: st; simp)+

lemma publish_simps [simp]:
  "publish [] st = st"
  "publish (xs @ [x]) st = send x (index_invalidation x (publish xs st))"
  by (simp_all add: publish_def)

text \<open>Publication only touches the index and the feed.\<close>

definition index_all ::
    "invalidation list \<Rightarrow> (memory_id, relationship_id list) hmap \<Rightarrow> (memory_id, relationship_id list) hmap" where
  "index_all invs m =
     fold (\<lambda>x m. case x of RelationshipUpserted i f t k n \<Rightarrow> index_add t i (index_add f i m) | _ \<Rightarrow> m) invs m"

lemma index_all_simps [simp]:
  "index_all [] m = m"
  "index_all (xs @ [MemoryUpserted i n]) m = index_all xs m"
  "index_all (xs @ [RelationshipUpserted j f t k n]) m = index_add t j (index_add f j (index_all xs m))"
  by (simp_all add: index_all_def)

lemma publish_eq:
  "publish invs st =
     st\<lparr>s_feed := s_feed st @ invs, s_rels_by_node := index_all invs (s_rels_by_node st)\<rparr>"
proof (induction invs rule: rev_induct)
  case Nil
  show ?case by simp
next
  case (snoc x xs)
  then show ?case
    by (cases x) (simp_all add: send_def index_relationship_def index_all_def)
qed

text \<open>What the store becomes when a staged batch is swapped in and published.\<close>

definition staged :: "store \<Rightarrow> staging \<Rightarrow> store" where
  "staged st g =
     publish (sg_invalidations g) (st\<lparr>s_lsn := sg_next g, s_memories := sg_memories g, s_rels := sg_rels g\<rparr>)"

lemma stamp_stamp [simp]:
  "stamp_relationship n (stamp_relationship k r) = stamp_relationship n r"
  "r_id (stamp_relationship n r) = r_id r"
  "m_id (stamp_memory n m) = m_id m"
  "m_lsn (stamp_memory n m) = new_backend n"
  "r_lsn (stamp_relationship n r) = new_backend n"
  "r_from (stamp_relationship n r) = r_from r"
  "r_to (stamp_relationship n r) = r_to r"
  "r_kind (stamp_relationship n r) = r_kind r"
  by (simp_all add: stamp_relationship_def stamp_memory_def)

lemma materialize_inverse_stamp:
  "materialize_inverse h onto (stamp_relationship n r) =
     map_option (stamp_relationship n) (materialize_inverse h onto r)"
  by (simp add: materialize_inverse_def stamp_relationship_def split: option.split)

lemma staged_memory: "staged st (stage_memory now m g) = write_row (MRow m) (staged st g)"
  by (simp add: staged_def stage_memory_def Let_def publish_eq)

lemma staged_row: "staged st (stage_row now r g) = write_row (RRow r) (staged st g)"
  by (simp add: staged_def stage_row_def Let_def publish_eq upserted_def)

lemma write_row_stamped [simp]: "write_row (RRow (stamp_relationship n r)) st = write_row (RRow r) st"
  by (simp add: upserted_def)

lemma stage_row_next [simp]:
  "sg_next (stage_row now r g) = sg_next g + 1"
  "sg_seen (stage_row now r g) = sg_seen g"
  "sg_records (stage_row now r g) = sg_records g @ [commit_at (sg_next g + 1) now]"
  by (simp_all add: stage_row_def Let_def)

lemma stage_row_seen [simp]: "staged st (g\<lparr>sg_seen := s\<rparr>) = staged st g"
  by (simp add: staged_def)

text \<open>The commit records of \<open>k\<close> rows written after sequence number \<open>n\<close>.\<close>

definition commits :: "nat \<Rightarrow> instant \<Rightarrow> nat \<Rightarrow> commit_record list" where
  "commits n now k = map (\<lambda>i. commit_at i now) [n + 1 ..< n + 1 + k]"

lemma commits_0 [simp]: "commits n now 0 = []"
  by (simp add: commits_def)

lemma commits_Suc: "commits n now (Suc k) = commit_at (n + 1) now # commits (n + 1) now k"
  by (simp add: commits_def upt_conv_Cons del: upt_Suc)

lemma commits_add: "commits n now (j + k) = commits n now j @ commits (n + j) now k"
  by (induction j arbitrary: n) (simp_all add: commits_Suc)

lemma staged_relationship:
  assumes l: "l = (case materialize_inverse h onto r of None \<Rightarrow> [r]
        | Some nv \<Rightarrow> if r_id nv \<in> set (sg_seen g) then [r] else [r, nv])"
  shows "staged st (stage_relationship h onto now r g) = write_rows (map RRow l) (staged st g)"
    and "sg_records (stage_relationship h onto now r g) = sg_records g @ commits (sg_next g) now (length l)"
    and "companions h onto (sg_seen g) (r # rs) =
      l @ companions h onto (sg_seen (stage_relationship h onto now r g)) rs"
    and "sg_next (stage_relationship h onto now r g) = sg_next g + length l"
  unfolding l stage_relationship_def materialize_inverse_stamp
  by (auto simp: staged_row commits_Suc Let_def simp del: write_row.simps split: option.split)

lemma staged_relationships:
  "staged st (fold (stage_relationship h onto now) rs g) =
     write_rows (map RRow (companions h onto (sg_seen g) rs)) (staged st g) \<and>
   sg_records (fold (stage_relationship h onto now) rs g) =
     sg_records g @ commits (sg_next g) now (length (companions h onto (sg_seen g) rs))"
proof (induction rs arbitrary: g)
  case Nil
  show ?case by simp
next
  case (Cons r rs)
  define l where "l = (case materialize_inverse h onto r of None \<Rightarrow> [r]
        | Some nv \<Rightarrow> if r_id nv \<in> set (sg_seen g) then [r] else [r, nv])"
  show ?case
    using Cons [of "stage_relationship h onto now r g"] staged_relationship(1) [OF l_def, of st now]
      staged_relationship(2,4) [OF l_def, of now]
    unfolding staged_relationship(3) [OF l_def, of rs now] by (simp add: commits_add)
qed

lemma staged_memories:
  "staged st (fold (stage_memory now) ms g) = write_rows (map MRow ms) (staged st g) \<and>
   sg_records (fold (stage_memory now) ms g) = sg_records g @ commits (sg_next g) now (length ms) \<and>
   sg_next (fold (stage_memory now) ms g) = sg_next g + length ms \<and>
   sg_seen (fold (stage_memory now) ms g) = sg_seen g"
proof (induction ms arbitrary: g)
  case Nil
  show ?case by simp
next
  case (Cons m ms)
  have "sg_next (stage_memory now m g) = sg_next g + 1" "sg_seen (stage_memory now m g) = sg_seen g"
    "sg_records (stage_memory now m g) = sg_records g @ [commit_at (sg_next g + 1) now]"
    by (simp_all add: stage_memory_def Let_def)
  with Cons [of "stage_memory now m g"] show ?case
    by (simp add: staged_memory commits_Suc del: write_row.simps)
qed

lemma upsert_batch_locked_ok:
  assumes "\<forall>r\<in>set rs. \<not> endpoint_missing st ms r"
  shows "\<exists>invs st1. upsert_batch_locked h now ms rs st =
      Inr (commits (s_lsn st) now (length (batch_rows h (s_ontology st) ms rs)), invs, st1) \<and>
    publish invs st1 = write_rows (batch_rows h (s_ontology st) ms rs) st \<and>
    st1 = st\<lparr>s_lsn := s_lsn st1, s_memories := s_memories st1, s_rels := s_rels st1\<rparr>"
proof -
  define g0 where "g0 = \<lparr>sg_memories = s_memories st, sg_rels = s_rels st, sg_next = s_lsn st,
                   sg_records = [], sg_invalidations = [], sg_seen = map r_id rs\<rparr>"
  define g1 where "g1 = fold (stage_memory now) ms g0"
  define g2 where "g2 = fold (stage_relationship h (s_ontology st) now) rs g1"
  let ?st1 = "st\<lparr>s_lsn := sg_next g2, s_memories := sg_memories g2, s_rels := sg_rels g2\<rparr>"
  have none: "find (endpoint_missing st ms) rs = None"
    using assms by (simp add: find_None_iff)
  have g0: "staged st g0 = st" "sg_seen g0 = map r_id rs" "sg_next g0 = s_lsn st" "sg_records g0 = []"
    by (simp_all add: g0_def staged_def)
  have run: "upsert_batch_locked h now ms rs st = Inr (sg_records g2, sg_invalidations g2, ?st1)"
    unfolding upsert_batch_locked_def none g0_def [symmetric] g1_def [symmetric] g2_def [symmetric] Let_def
    by simp
  have m: "staged st g1 = write_rows (map MRow ms) st" "sg_records g1 = commits (s_lsn st) now (length ms)"
    "sg_next g1 = s_lsn st + length ms" "sg_seen g1 = map r_id rs"
    using staged_memories [of st now ms g0] g0 unfolding g1_def by simp_all
  have r: "staged st g2 = write_rows (batch_rows h (s_ontology st) ms rs) st"
    "sg_records g2 = commits (s_lsn st) now (length (batch_rows h (s_ontology st) ms rs))"
    using staged_relationships [of st h "s_ontology st" now rs g1] m
    unfolding g2_def [symmetric] by (simp_all add: batch_rows_def commits_add)
  show ?thesis
    using run r unfolding staged_def by (intro exI [of _ "sg_invalidations g2"] exI [of _ ?st1]) simp
qed

section \<open>The invariant of the graph\<close>

text \<open>Every version of every edge is listed in the index under both of its endpoints.\<close>

definition index_ok ::
    "(relationship_id, relationship list) hmap \<Rightarrow> (memory_id, relationship_id list) hmap \<Rightarrow> bool" where
  "index_ok rels idx \<longleftrightarrow>
     (\<forall>i. \<forall>r\<in>set (hist_of rels i). i \<in> set (hist_of idx (r_from r)) \<and> i \<in> set (hist_of idx (r_to r)))"

definition feed_ok :: "nat \<Rightarrow> invalidation list \<Rightarrow> bool" where
  "feed_ok bound feed \<longleftrightarrow> sorted_wrt (<) (map lsn_of feed) \<and> (\<forall>e\<in>set feed. lsn_of e \<le> bound)"

definition lsns_apart :: "(memory_id, memory list) hmap \<Rightarrow> (relationship_id, relationship list) hmap \<Rightarrow> bool" where
  "lsns_apart ms rs \<longleftrightarrow> (\<forall>i j. row_lsns m_lsn ms i \<inter> row_lsns r_lsn rs j = {})"

definition graph_ok :: "store \<Rightarrow> bool" where
  "graph_ok st \<longleftrightarrow>
     rows_ok m_id m_lsn (s_lsn st) (s_memories st) \<and>
     rows_ok r_id r_lsn (s_lsn st) (s_rels st) \<and>
     lsns_apart (s_memories st) (s_rels st) \<and>
     index_ok (s_rels st) (s_rels_by_node st) \<and>
     feed_ok (s_lsn st) (s_feed st)"

lemma feed_ok_append: "feed_ok b feed \<Longrightarrow> b < lsn_of x \<Longrightarrow> lsn_of x \<le> n \<Longrightarrow> feed_ok n (feed @ [x])"
  by (fastforce simp: feed_ok_def sorted_wrt_append)

lemma feed_ok_mono: "feed_ok b feed \<Longrightarrow> b \<le> n \<Longrightarrow> feed_ok n feed"
  by (fastforce simp: feed_ok_def)

lemma index_add_mono: "set (hist_of idx n) \<subseteq> set (hist_of (index_add k i idx) n)"
  by (auto simp: index_add_def hist_of_def)

lemma index_add_member: "i \<in> set (hist_of (index_add k i idx) k)"
  by (simp add: index_add_def)

lemma index_ok_write:
  assumes "index_ok rels idx" "r_id r = i" "r_from r = f" "r_to r = t"
  shows "index_ok (hm_push i r rels) (index_add t i (index_add f i idx))"
  unfolding index_ok_def
proof (intro allI ballI)
  let ?idx = "index_add t i (index_add f i idx)"
  fix j q
  assume q: "q \<in> set (hist_of (hm_push i r rels) j)"
  have mono: "a \<in> set (hist_of idx n) \<Longrightarrow> a \<in> set (hist_of ?idx n)" for a n
    using index_add_mono by (metis subsetD)
  have new: "i \<in> set (hist_of ?idx f)" "i \<in> set (hist_of ?idx t)"
    using index_add_mono index_add_member by (metis subsetD)+
  show "j \<in> set (hist_of ?idx (r_from q)) \<and> j \<in> set (hist_of ?idx (r_to q))"
  proof (cases "q \<in> set (hist_of rels j)")
    case True
    with assms(1) mono show ?thesis by (simp add: index_ok_def)
  next
    case False
    with q have "j = i \<and> q = r" by (auto split: if_splits)
    with assms new show ?thesis by simp
  qed
qed

lemma index_ok_same:
  assumes "index_ok rels idx" "cur \<in> set (hist_of rels i)" "r_from r = r_from cur" "r_to r = r_to cur"
  shows "index_ok (hm_push i r rels) idx"
  using assms unfolding index_ok_def by auto

lemma lsns_apart_push_memory:
  assumes "lsns_apart ms rs" "rows_ok r_id r_lsn b rs" "m_lsn v = new_backend n" "b < n"
  shows "lsns_apart (hm_push k v ms) rs"
proof -
  have "n \<notin> row_lsns r_lsn rs j" for j using rrow.row_lsns_bound [OF assms(2)] assms(4) by (meson not_le)
  with assms show ?thesis by (auto simp: lsns_apart_def)
qed

lemma lsns_apart_push_relationship:
  assumes "lsns_apart ms rs" "rows_ok m_id m_lsn b ms" "r_lsn v = new_backend n" "b < n"
  shows "lsns_apart ms (hm_push k v rs)"
proof -
  have "n \<notin> row_lsns m_lsn ms j" for j using mrow.row_lsns_bound [OF assms(2)] assms(4) by (meson not_le)
  with assms show ?thesis by (auto simp: lsns_apart_def)
qed

text \<open>The three ways an operation advances the graph, and that each keeps the invariant.\<close>

lemma graph_ok_memory:
  assumes "graph_ok st" "m_lsn v = new_backend n" "m_id v = k" "s_lsn st < n" "lsn_of x = n"
  shows "graph_ok (st\<lparr>s_lsn := n, s_memories := hm_push k v (s_memories st), s_feed := s_feed st @ [x]\<rparr>)"
  using assms
  by (auto simp: graph_ok_def intro: mrow.rows_ok_push_raw rrow.rows_ok_mono lsns_apart_push_memory feed_ok_append)

lemma graph_ok_relationship:
  assumes "graph_ok st" "r_lsn v = new_backend n" "r_id v = k" "s_lsn st < n" "lsn_of x = n"
    "index_ok (hm_push k v (s_rels st)) idx"
  shows "graph_ok (st\<lparr>s_lsn := n, s_rels := hm_push k v (s_rels st), s_rels_by_node := idx,
      s_feed := s_feed st @ [x]\<rparr>)"
  using assms
  by (auto simp: graph_ok_def intro: rrow.rows_ok_push_raw mrow.rows_ok_mono lsns_apart_push_relationship feed_ok_append)

lemma graph_ok_advance:
  assumes "graph_ok st" "s_lsn st \<le> n"
  shows "graph_ok (st\<lparr>s_lsn := n\<rparr>)"
  using assms by (auto simp: graph_ok_def intro: rrow.rows_ok_mono mrow.rows_ok_mono feed_ok_mono)

lemma graph_ok_announce:
  assumes "graph_ok st" "s_lsn st < n" "lsn_of x = n"
  shows "graph_ok (st\<lparr>s_lsn := n, s_feed := s_feed st @ [x]\<rparr>)"
  using assms by (auto simp: graph_ok_def intro: rrow.rows_ok_mono mrow.rows_ok_mono feed_ok_append)

lemma graph_ok_cong:
  assumes "graph_ok st" "s_lsn st' = s_lsn st" "s_memories st' = s_memories st" "s_rels st' = s_rels st"
    "s_rels_by_node st' = s_rels_by_node st" "s_feed st' = s_feed st"
  shows "graph_ok st'"
  using assms by (simp add: graph_ok_def)

lemma graph_ok_write_row: "graph_ok st \<Longrightarrow> graph_ok (write_row x st)"
proof (cases x)
  case (MRow m)
  assume "graph_ok st"
  then show ?thesis
    using graph_ok_memory [of st "stamp_memory (s_lsn st + 1) m" "s_lsn st + 1" "m_id m"
        "MemoryUpserted (m_id m) (s_lsn st + 1)"] MRow by simp
next
  case (RRow r)
  assume ok: "graph_ok st"
  have "index_ok (hm_push (r_id r) (stamp_relationship (s_lsn st + 1) r) (s_rels st))
     (index_add (r_to r) (r_id r) (index_add (r_from r) (r_id r) (s_rels_by_node st)))"
    using ok by (intro index_ok_write) (simp_all add: graph_ok_def)
  then show ?thesis
    using ok graph_ok_relationship [of st "stamp_relationship (s_lsn st + 1) r" "s_lsn st + 1" "r_id r"
        "upserted (s_lsn st + 1) r"] RRow by (simp add: upserted_def)
qed

lemma graph_ok_write_rows: "graph_ok st \<Longrightarrow> graph_ok (write_rows xs st)"
  by (induction xs arbitrary: st) (simp_all add: graph_ok_write_row)

lemma graph_ok_build: "graph_ok (build onto recognized)"
  by (simp add: graph_ok_def build_def mrow.rows_ok_empty rrow.rows_ok_empty lsns_apart_def row_lsns_def
      index_ok_def feed_ok_def)

section \<open>Append-only growth\<close>

text \<open>What every write but a restore does to what is already there: nothing.\<close>

definition grows :: "store \<Rightarrow> store \<Rightarrow> bool" where
  "grows st st' \<longleftrightarrow>
     (\<forall>i. prefix (hist_of (s_memories st) i) (hist_of (s_memories st') i)) \<and>
     (\<forall>i. prefix (hist_of (s_rels st) i) (hist_of (s_rels st') i)) \<and>
     (\<forall>n. set (hist_of (s_rels_by_node st) n) \<subseteq> set (hist_of (s_rels_by_node st') n)) \<and>
     prefix (s_feed st) (s_feed st') \<and> prefix (s_audits st) (s_audits st') \<and>
     s_lsn st \<le> s_lsn st' \<and> s_ontology st' = s_ontology st"

lemma grows_refl [simp]: "grows st st"
  by (simp add: grows_def)

lemma grows_trans:
  assumes "grows a b" "grows b c"
  shows "grows a c"
proof -
  have "prefix (hist_of (s_memories a) i) (hist_of (s_memories c) i)" "prefix (hist_of (s_rels a) j) (hist_of (s_rels c) j)" for i j
    using assms unfolding grows_def by (blast intro: prefix_order.trans)+
  moreover have "set (hist_of (s_rels_by_node a) n) \<subseteq> set (hist_of (s_rels_by_node c) n)" for n
    using assms unfolding grows_def by (blast intro: subset_trans)
  moreover have "prefix (s_feed a) (s_feed c)" "prefix (s_audits a) (s_audits c)"
    using assms unfolding grows_def by (blast intro: prefix_order.trans)+
  moreover have "s_lsn a \<le> s_lsn c" "s_ontology c = s_ontology a" using assms unfolding grows_def by simp_all
  ultimately show ?thesis unfolding grows_def by blast
qed

lemma hist_push_prefix: "prefix (hist_of m i) (hist_of (hm_push k v m) i)"
  by (simp add: prefixI)

lemma grows_write_row: "grows st (write_row x st)"
  by (cases x)
    (auto simp: grows_def hist_push_prefix simp del: hist_of_push intro: subsetD [OF index_add_mono])

lemma grows_write_rows: "grows st (write_rows xs st)"
  by (induction xs arbitrary: st) (auto intro: grows_trans grows_write_row)

lemma grows_cong:
  assumes "grows st st'" "s_memories st'' = s_memories st'" "s_rels st'' = s_rels st'"
    "s_rels_by_node st'' = s_rels_by_node st'" "s_feed st'' = s_feed st'" "prefix (s_audits st') (s_audits st'')"
    "s_lsn st'' = s_lsn st'" "s_ontology st'' = s_ontology st'"
  shows "grows st st''"
  using assms unfolding grows_def by (metis prefix_order.trans)

text \<open>Both at once: the invariant carries over and nothing is rewritten.\<close>

definition advances :: "store \<Rightarrow> store \<Rightarrow> bool" where
  "advances st st' \<longleftrightarrow> grows st st' \<and> (graph_ok st \<longrightarrow> graph_ok st')"

lemma advances_refl [simp]: "advances st st"
  by (simp add: advances_def)

lemma advances_trans: "advances a b \<Longrightarrow> advances b c \<Longrightarrow> advances a c"
  by (auto simp: advances_def intro: grows_trans)

lemma advances_write_rows: "advances st (write_rows xs st)"
  by (simp add: advances_def grows_write_rows graph_ok_write_rows)

lemma advances_write_row: "advances st (write_row x st)"
  by (simp add: advances_def grows_write_row graph_ok_write_row del: write_row.simps)

lemma advances_cong:
  assumes "advances st st'" "s_memories st'' = s_memories st'" "s_rels st'' = s_rels st'"
    "s_rels_by_node st'' = s_rels_by_node st'" "s_feed st'' = s_feed st'" "prefix (s_audits st') (s_audits st'')"
    "s_lsn st'' = s_lsn st'" "s_ontology st'' = s_ontology st'"
  shows "advances st st''"
  using assms unfolding advances_def by (meson grows_cong graph_ok_cong)

lemma advances_lsn: "s_lsn st \<le> n \<Longrightarrow> advances st (st\<lparr>s_lsn := n\<rparr>)"
  by (simp add: advances_def grows_def graph_ok_advance)

lemma advances_announce:
  "s_lsn st < n \<Longrightarrow> lsn_of x = n \<Longrightarrow> advances st (st\<lparr>s_lsn := n, s_feed := s_feed st @ [x]\<rparr>)"
  by (simp add: advances_def grows_def graph_ok_announce)

lemma advances_close_memory:
  assumes "last_opt (memory_history st i) = Some cur" "m_lsn v = new_backend n" "m_id v = m_id cur"
    "lsn_of x = n" "n = s_lsn st + 1"
  shows "advances st (st\<lparr>s_lsn := n, s_memories := hm_push i v (s_memories st),
      s_feed := s_feed st @ [x]\<rparr>)"
proof -
  have "graph_ok st \<Longrightarrow> m_id v = i"
    using last_opt_in [OF assms(1)] assms(3) by (auto simp: graph_ok_def rows_ok_def memory_history_hist)
  with assms show ?thesis
    by (simp add: advances_def grows_def hist_push_prefix graph_ok_memory del: hist_of_push)
qed

lemma advances_close_relationship:
  assumes "open_row st i = Some cur" "r_lsn v = new_backend n" "r_id v = r_id cur"
    "r_from v = r_from cur" "r_to v = r_to cur" "lsn_of x = n" "n = s_lsn st + 1"
  shows "advances st (st\<lparr>s_lsn := n, s_rels := hm_push i v (s_rels st),
      s_feed := s_feed st @ [x]\<rparr>)"
proof -
  have cur: "cur \<in> set (hist_of (s_rels st) i)"
    using assms(1) by (auto simp: open_row_def relationship_history_hist split: option.splits if_splits
        dest: last_opt_in)
  have "graph_ok (st\<lparr>s_lsn := n, s_rels := hm_push i v (s_rels st),
      s_feed := s_feed st @ [x]\<rparr>)" if ok: "graph_ok st"
  proof -
    have "r_id v = i" using cur ok assms(3) by (auto simp: graph_ok_def rows_ok_def)
    moreover have "index_ok (hm_push i v (s_rels st)) (s_rels_by_node st)"
      using ok cur assms by (intro index_ok_same) (simp_all add: graph_ok_def)
    ultimately show ?thesis
      using graph_ok_relationship [OF ok assms(2), of i x "s_rels_by_node st"] assms(6,7) by simp
  qed
  with assms show ?thesis
    by (simp add: advances_def grows_def hist_push_prefix del: hist_of_push)
qed

section \<open>Every write advances the store\<close>

lemma advances_upsert_memory: "advances st (snd (upsert_memory now m st))"
  by (simp add: upsert_memory_row advances_write_row del: write_row.simps)

lemma upsert_relationship_eq:
  "upsert_relationship h now r st =
     (Inr (commit_at (s_lsn st + 1) now),
      write_rows (map RRow (r #
        (case materialize_inverse h (s_ontology st) r of
           None \<Rightarrow> []
         | Some nv \<Rightarrow> if open_row (write_row (RRow r) st) (r_id nv) = None then [nv] else []))) st)"
  by (auto simp: upsert_relationship_def upsert_relationship_row open_row_def Let_def
      simp del: write_row.simps split: option.split)

lemma advances_upsert_relationship: "advances st (snd (upsert_relationship h now r st))"
  unfolding upsert_relationship_eq snd_conv by (rule advances_write_rows)

lemma delete_memory_eq:
  "delete_memory now i st =
     (Inr (commit_at (s_lsn st + 1) now),
      (case last_opt (memory_history st i) of
         None \<Rightarrow> st\<lparr>s_lsn := s_lsn st + 1, s_feed := s_feed st @ [MemoryDeleted i (s_lsn st + 1)]\<rparr>
       | Some cur \<Rightarrow>
         st\<lparr>s_lsn := s_lsn st + 1, s_memories := hm_push i (close_memory (s_lsn st + 1) now cur) (s_memories st),
            s_feed := s_feed st @ [MemoryDeleted i (s_lsn st + 1)]\<rparr>))"
  by (auto simp: delete_memory_def delete_memory_locked_def next_lsn_def send_def commit_at_def
      memory_history_def Let_def split: option.split)

lemma advances_delete_memory: "advances st (snd (delete_memory now i st))"
  unfolding delete_memory_eq snd_conv
  by (cases "last_opt (memory_history st i)")
    (simp_all add: advances_announce advances_close_memory close_memory_def)

lemma delete_relationship_eq:
  "delete_relationship now i st =
     (case open_row st i of
        None \<Rightarrow>
          (Inl (Backend (''delete_relationship: '' @ debug_bytes (rid_bytes i) @ '' not found or already closed'')),
           st\<lparr>s_lsn := s_lsn st + 1\<rparr>)
      | Some cur \<Rightarrow>
          (Inr (commit_at (s_lsn st + 1) now),
           st\<lparr>s_lsn := s_lsn st + 1, s_rels := hm_push i (close_relationship (s_lsn st + 1) now cur) (s_rels st),
              s_feed := s_feed st @ [RelationshipDeleted i (s_lsn st + 1)]\<rparr>))"
  by (auto simp: delete_relationship_def next_lsn_def send_def open_row_def relationship_history_def Let_def
      split: option.split)

lemma advances_delete_relationship: "advances st (snd (delete_relationship now i st))"
  unfolding delete_relationship_eq
  by (cases "open_row st i") (simp_all add: advances_lsn advances_close_relationship close_relationship_def)

lemma advances_append_audit: "advances st (snd (append_audit now a st))"
  by (rule advances_cong [OF advances_lsn [of st "s_lsn st + 1"]])
    (simp_all add: append_audit_def next_lsn_def push_audit_def)

lemma delete_relationship_audited_eq:
  "delete_relationship_audited now i a st =
     (case open_row st i of
        None \<Rightarrow>
          (Inl (Backend (''delete_relationship_audited: '' @ debug_bytes (rid_bytes i)
             @ '' not found or already closed'')), st\<lparr>s_lsn := s_lsn st + 1\<rparr>)
      | Some cur \<Rightarrow>
          (Inr (commit_at (s_lsn st + 1) now), push_audit a (s_lsn st + 1) (snd (delete_relationship now i st))))"
  unfolding delete_relationship_eq
  by (auto simp: delete_relationship_audited_def next_lsn_def send_def open_row_def relationship_history_def
      push_audit_def Let_def split: option.split)

lemma advances_push_audit: "advances st st' \<Longrightarrow> advances st (push_audit a n st')"
  by (erule advances_cong) (simp_all add: push_audit_def)

lemma advances_delete_relationship_audited: "advances st (snd (delete_relationship_audited now i a st))"
  unfolding delete_relationship_audited_eq
  by (cases "open_row st i") (simp_all add: advances_lsn advances_push_audit advances_delete_relationship)

lemma promote_eq:
  "promote_memory_visibility_audited now m a st =
     (case last_opt (memory_history st (m_id m)) of
        None \<Rightarrow> (Inl (Backend ''promotion target disappeared''), st)
      | Some current \<Rightarrow>
        if m_visibility m < m_visibility current then
          (Inl (Backend ''promotion would narrow current visibility''), st)
        else
          (Inr (commit_at (s_lsn st + 1) now), push_audit a (s_lsn st + 1) (write_row (MRow m) st)))"
  by (auto simp: promote_memory_visibility_audited_def send_def push_audit_def Let_def
      split: option.split intro!: store.equality)

lemma advances_promote: "advances st (snd (promote_memory_visibility_audited now m a st))"
  by (auto simp: promote_eq advances_push_audit advances_write_row simp del: write_row.simps split: option.split)

lemma upsert_batch_locked_cases:
  obtains (missing) r where "find (endpoint_missing st ms) rs = Some r"
      "upsert_batch_locked h now ms rs st =
        Inl (Backend (''relationship '' @ debug_bytes (rid_bytes (r_id r)) @ '' endpoint missing''))"
    | (staged) invs st1 where "find (endpoint_missing st ms) rs = None"
      "upsert_batch_locked h now ms rs st =
        Inr (commits (s_lsn st) now (length (batch_rows h (s_ontology st) ms rs)), invs, st1)"
      "publish invs st1 = write_rows (batch_rows h (s_ontology st) ms rs) st"
      "st1 = st\<lparr>s_lsn := s_lsn st1, s_memories := s_memories st1, s_rels := s_rels st1\<rparr>"
proof (cases "find (endpoint_missing st ms) rs")
  case None
  then show ?thesis
    using upsert_batch_locked_ok [of rs st ms h now] staged by (auto simp: find_None_iff)
qed (use missing in \<open>simp add: upsert_batch_locked_def\<close>)

lemma upsert_batch_eq:
  "upsert_batch h now ms rs st =
     (case find (endpoint_missing st ms) rs of
        Some r \<Rightarrow>
          (Inl (Backend (''relationship '' @ debug_bytes (rid_bytes (r_id r)) @ '' endpoint missing'')), st)
      | None \<Rightarrow>
          (Inr (commits (s_lsn st) now (length (batch_rows h (s_ontology st) ms rs))),
           write_rows (batch_rows h (s_ontology st) ms rs) st))"
  by (rule upsert_batch_locked_cases [of st ms rs h now]) (simp_all add: upsert_batch_def)

lemma advances_upsert_batch: "advances st (snd (upsert_batch h now ms rs st))"
  by (rule upsert_batch_locked_cases [of st ms rs h now])
    (simp_all add: upsert_batch_def advances_write_rows)

lemma publish_push_audit: "publish invs (push_audit a n st) = push_audit a n (publish invs st)"
  by (simp add: publish_eq push_audit_def)

lemma advances_upsert_batch_audited: "advances st (snd (upsert_batch_audited h now ms rs a st))"
  by (rule upsert_batch_locked_cases [of st ms rs h now])
    (simp_all add: upsert_batch_audited_def publish_push_audit advances_push_audit advances_write_rows)

lemma upsert_batch_once_eq:
  "upsert_batch_once h now key ms rs st =
     (if key \<in> set (s_governed_imports st) then (Inr False, st)
      else
        (case upsert_batch h now ms rs st of
           (Inl e, st1) \<Rightarrow> (Inl e, st1)
         | (Inr recs, st1) \<Rightarrow> (Inr True, st1\<lparr>s_governed_imports := key # s_governed_imports st\<rparr>)))"
proof (rule upsert_batch_locked_cases [of st ms rs h now])
  fix invs st1
  assume l: "upsert_batch_locked h now ms rs st =
      Inr (commits (s_lsn st) now (length (batch_rows h (s_ontology st) ms rs)), invs, st1)"
    and "st1 = st\<lparr>s_lsn := s_lsn st1, s_memories := s_memories st1, s_rels := s_rels st1\<rparr>"
  then have "s_governed_imports st1 = s_governed_imports st" by (metis store.surjective store.update_convs store.select_convs(16))
  with l show ?thesis
    by (simp add: upsert_batch_once_def upsert_batch_def publish_eq)
qed (simp add: upsert_batch_once_def upsert_batch_def)

lemma advances_upsert_batch_once: "advances st (snd (upsert_batch_once h now key ms rs st))"
proof -
  have "advances st (st1\<lparr>s_governed_imports := g\<rparr>)" if "snd (upsert_batch h now ms rs st) = st1" for st1 g
    using that by (intro advances_cong [OF advances_upsert_batch [of st h now ms rs]]) simp_all
  with advances_upsert_batch [of st h now ms rs] show ?thesis
    by (auto simp: upsert_batch_once_eq split: prod.split sum.split)
qed

section \<open>Properties\<close>

text \<open>
  C3: an atomic batch is its rows.  A batch with a missing endpoint is refused before anything
  changes; otherwise the staged copy that is swapped in and published leaves exactly the store
  that writing the memories, the edges and their inverse companions one row at a time would
  have left, and the commit records are consecutive sequence numbers, one per row.
\<close>

theorem batch_refines_rows:
  "upsert_batch h now ms rs st =
     (case find (endpoint_missing st ms) rs of
        Some r \<Rightarrow>
          (Inl (Backend (''relationship '' @ debug_bytes (rid_bytes (r_id r)) @ '' endpoint missing'')), st)
      | None \<Rightarrow>
          (Inr (commits (s_lsn st) now (length (batch_rows h (s_ontology st) ms rs))),
           write_rows (batch_rows h (s_ontology st) ms rs) st))"
  by (rule upsert_batch_eq)

lemma companions_complete:
  "r \<in> set rs \<Longrightarrow> materialize_inverse h onto r = Some nv \<Longrightarrow>
     r \<in> set (companions h onto seen rs) \<and>
     (r_id nv \<in> set seen \<or> r_id nv \<in> r_id ` set (companions h onto seen rs))"
proof (induction rs arbitrary: seen)
  case (Cons q rs)
  show ?case
  proof (cases "r = q")
    case True
    with Cons.prems show ?thesis by auto
  next
    case False
    with Cons.prems have "r \<in> set rs" by simp
    note ih = Cons.IH [OF this Cons.prems(2)]
    show ?thesis
    proof (cases "materialize_inverse h onto q")
      case None
      with ih [of seen] show ?thesis by auto
    next
      case (Some x)
      with ih [of seen] ih [of "r_id x # seen"] show ?thesis by auto
    qed
  qed
qed simp

lemma companions_members: "set rs \<subseteq> set (companions h onto seen rs)"
  by (induction rs arbitrary: seen) (auto split: option.splits)

lemma write_rows_asserts:
  "RRow r \<in> set xs \<Longrightarrow>
     \<exists>n>s_lsn st. stamp_relationship n r \<in> set (hist_of (s_rels (write_rows xs st)) (r_id r))"
proof (induction xs arbitrary: st)
  case (Cons x xs)
  show ?case
  proof (cases "x = RRow r")
    case True
    let ?q = "stamp_relationship (s_lsn st + 1) r"
    have "?q \<in> set (hist_of (s_rels (write_row x st)) (r_id r))" using True by simp
    moreover have "prefix (hist_of (s_rels (write_row x st)) (r_id r)) (hist_of (s_rels (write_rows (x # xs) st)) (r_id r))"
      using grows_write_rows [of "write_row x st" xs] by (simp add: grows_def del: write_row.simps)
    ultimately have "?q \<in> set (hist_of (s_rels (write_rows (x # xs) st)) (r_id r))"
      by (meson set_mono_prefix subsetD)
    then show ?thesis by (intro exI [of _ "s_lsn st + 1"]) simp
  next
    case False
    with Cons.prems have "RRow r \<in> set xs" by simp
    from Cons.IH [OF this, of "write_row x st"] obtain n where
      "s_lsn st + 1 < n" "stamp_relationship n r \<in> set (hist_of (s_rels (write_rows xs (write_row x st))) (r_id r))"
      by (auto simp del: write_row.simps)
    then have "s_lsn st < n \<and> stamp_relationship n r \<in> set (hist_of (s_rels (write_rows (x # xs) st)) (r_id r))"
      by (simp del: write_row.simps)
    then show ?thesis by blast
  qed
qed simp

text \<open>
  no edge without its inverse.  After a committed batch every edge of the batch, and an
  edge with the id of its inverse companion, has a version asserted by this very batch.
\<close>

theorem batch_asserts_inverses:
  assumes "upsert_batch h now ms rs st = (Inr recs, st')" "r \<in> set rs"
    "materialize_inverse h (s_ontology st) r = Some nv"
  shows "(\<exists>n>s_lsn st. stamp_relationship n r \<in> set (relationship_history st' (r_id r))) \<and>
    (\<exists>n>s_lsn st. \<exists>q. r_id q = r_id nv \<and> stamp_relationship n q \<in> set (relationship_history st' (r_id nv)))"
proof -
  let ?cs = "companions h (s_ontology st) (map r_id rs) rs"
  have st': "st' = write_rows (batch_rows h (s_ontology st) ms rs) st"
    using assms(1) by (rule_tac upsert_batch_locked_cases [of st ms rs h now]) (auto simp: upsert_batch_def)
  have as: "\<exists>n>s_lsn st. stamp_relationship n q \<in> set (relationship_history st' (r_id q))" if "q \<in> set ?cs" for q
    using that write_rows_asserts [of q "batch_rows h (s_ontology st) ms rs" st]
    unfolding st' batch_rows_def relationship_history_hist by auto
  obtain q where "q \<in> set ?cs" "r_id q = r_id nv"
    using companions_complete [OF assms(2,3), of "map r_id rs"] companions_members [of rs h "s_ontology st" "map r_id rs"]
    by (auto simp: subset_eq)
  with as [of q] have "\<exists>n>s_lsn st. \<exists>q. r_id q = r_id nv \<and>
      stamp_relationship n q \<in> set (relationship_history st' (r_id nv))" by auto
  moreover have "r \<in> set ?cs" using assms(2) companions_members by blast
  ultimately show ?thesis using as by blast
qed

text \<open>A small store to try the operations on: two memories, an edge kind with an inverse.\<close>

definition sample_memory_pair :: "memory list" where
  "sample_memory_pair = [sample_memory (MemoryId [1]) Org, sample_memory (MemoryId [2]) Org]"

definition sample_ontology :: ontology where
  "sample_ontology =
     (case from_packs id (\<lambda>_. []) [kernel_pack] of Inr onto \<Rightarrow> onto)"

lemma sample_ontology_loads: "from_packs id (\<lambda>_. []) [kernel_pack] = Inr sample_ontology"
  using kernel_pack_loads [of id "\<lambda>_. []"] by (auto simp: sample_ontology_def)

lemma sample_causes:
  "hm_get (o_kinds_by_id sample_ontology) CAUSES = Some (sample_kind CAUSES ''Causes'' (Some (RelKindId 0x80000000)))"
  by (simp add: kinds_by_id_iff [OF sample_ontology_loads, unfolded canonicalized_kernel_pack] sample_defs)

definition sample_store :: store where
  "sample_store = write_rows (map MRow sample_memory_pair) (new_store sample_ontology)"

abbreviation sample_link :: relationship where
  "sample_link \<equiv> (sample_edge CAUSES (MemoryId [1]) (MemoryId [2]))\<lparr>r_id := RelationshipId [7]\<rparr>"

definition sample_inverse :: relationship where
  "sample_inverse =
     (sample_edge (RelKindId 0x80000000) (MemoryId [2]) (MemoryId [1]))
       \<lparr>r_id := derive id (MemoryId [2]) (RelKindId 0x80000000) (MemoryId [1]) None\<rparr>"

lemma sample_link_inverse: "materialize_inverse id sample_ontology sample_link = Some sample_inverse"
proof -
  have "RelKindId 0x80000000 \<noteq> CAUSES" by (simp add: CAUSES_def from_kernel_def)
  moreover have "r_kind sample_link = CAUSES" by (simp add: sample_edge_def)
  ultimately show ?thesis
    by (simp add: materialize_inverse_def sample_causes sample_kind_def sample_inverse_def)
      (simp add: sample_edge_def)
qed

lemma sample_store_simps [simp]:
  "s_ontology sample_store = sample_ontology"
  "s_lsn sample_store = 2"
  "hm_contains (s_memories sample_store) i = (i = MemoryId [1] \<or> i = MemoryId [2])"
  "hist_of (s_rels sample_store) j = []"
  "s_rels sample_store = []"
  "s_governed_imports sample_store = []"
  "hist_of (s_memories sample_store) (MemoryId [1]) = [stamp_memory 1 (sample_memory (MemoryId [1]) Org)]"
  "hist_of (s_memories sample_store) (MemoryId [2]) = [stamp_memory 2 (sample_memory (MemoryId [2]) Org)]"
  by (auto simp: sample_store_def sample_memory_pair_def new_store_def build_def sample_memory_def numeral_2_eq_2)

lemma sample_store_ok: "graph_ok sample_store"
  by (simp add: sample_store_def new_store_def graph_ok_write_rows graph_ok_build)

lemma sample_endpoints: "find (endpoint_missing sample_store ms) [sample_link] = None"
  by (simp add: endpoint_missing_def sample_edge_def)

theorem batch_asserts_inverses_witness:
  "\<exists>recs st'. upsert_batch id 0 [] [sample_link] sample_store = (Inr recs, st') \<and>
     (\<exists>n>2. stamp_relationship n sample_link \<in> set (relationship_history st' (RelationshipId [7]))) \<and>
     (\<exists>n>2. \<exists>q. r_id q = r_id sample_inverse \<and>
        stamp_relationship n q \<in> set (relationship_history st' (r_id sample_inverse)))"
proof -
  let ?st' = "write_rows (batch_rows id sample_ontology [] [sample_link]) sample_store"
  let ?recs = "commits 2 0 (length (batch_rows id sample_ontology [] [sample_link]))"
  have run: "upsert_batch id 0 [] [sample_link] sample_store = (Inr ?recs, ?st')"
    using sample_endpoints
    by (rule_tac upsert_batch_locked_cases [of sample_store "[]" "[sample_link]" id 0]) (auto simp: upsert_batch_def)
  then show ?thesis
    using batch_asserts_inverses [OF run, of sample_link sample_inverse] sample_link_inverse by auto
qed

text \<open>
  writing one edge writes its pair.  The edge is the newest version of its id at the
  returned sequence number, and afterwards the inverse companion has an open current row, or
  the one this very write asserted; a companion that was open already is left alone.
\<close>

theorem upsert_relationship_pairs:
  assumes "upsert_relationship h now r st = (res, st')"
    "materialize_inverse h (s_ontology st) r = Some nv" "r_id nv \<noteq> r_id r"
  shows "res = Inr (commit_at (s_lsn st + 1) now) \<and>
    relationship_history st' (r_id r) = relationship_history st (r_id r) @ [stamp_relationship (s_lsn st + 1) r] \<and>
    relationship_history st' (r_id nv) =
      (if open_row st (r_id nv) = None
       then relationship_history st (r_id nv) @ [stamp_relationship (s_lsn st + 2) nv]
       else relationship_history st (r_id nv))"
proof -
  have "open_row (write_row (RRow r) st) (r_id nv) = open_row st (r_id nv)"
    using assms(3) by (simp add: open_row_def relationship_history_hist)
  with assms show ?thesis
    by (auto simp: upsert_relationship_eq relationship_history_hist)
qed

theorem upsert_relationship_pairs_witness:
  "\<exists>res st'. upsert_relationship id 0 sample_link sample_store = (res, st') \<and> res = Inr (commit_at 3 0) \<and>
     relationship_history st' (RelationshipId [7]) = [stamp_relationship 3 sample_link] \<and>
     relationship_history st' (r_id sample_inverse) = [stamp_relationship 4 sample_inverse]"
proof -
  obtain res st' where run: "upsert_relationship id 0 sample_link sample_store = (res, st')" by (metis surj_pair)
  have "r_id sample_inverse \<noteq> r_id sample_link"
    by (simp add: sample_inverse_def derive_def truncate16_def derive_preimage_def)
  from upsert_relationship_pairs [OF run, of sample_inverse] this sample_link_inverse run show ?thesis
    by (auto simp: relationship_history_hist open_row_def)
qed

text \<open>
  closing an edge.  The delete succeeds exactly when the current row is open; it then adds
  one version, the current one with its validity closed now, and announces it.  Repeating it
  fails and, like a delete of an unknown edge, changes nothing but the sequence counter.
\<close>

theorem delete_relationship_closes:
  assumes "delete_relationship now i st = (res, st')"
  shows "((\<exists>rec. res = Inr rec) \<longleftrightarrow> open_row st i \<noteq> None) \<and>
    (\<forall>cur. open_row st i = Some cur \<longrightarrow>
       relationship_history st' i =
         relationship_history st i @ [close_relationship (s_lsn st + 1) now cur] \<and>
       s_feed st' = s_feed st @ [RelationshipDeleted i (s_lsn st + 1)]) \<and>
    (\<forall>now'. \<exists>e. delete_relationship now' i st' = (Inl e, st'\<lparr>s_lsn := s_lsn st' + 1\<rparr>)) \<and>
    (open_row st i = None \<longrightarrow> st' = st\<lparr>s_lsn := s_lsn st + 1\<rparr>)"
proof (cases "open_row st i")
  case None
  with assms have "st' = st\<lparr>s_lsn := s_lsn st + 1\<rparr>" "\<exists>e. res = Inl e" by (auto simp: delete_relationship_eq)
  moreover with None have "open_row st' i = None" by (simp add: open_row_def relationship_history_def)
  ultimately show ?thesis using None by (auto simp: delete_relationship_eq)
next
  case (Some cur)
  with assms have st': "st' = st\<lparr>s_lsn := s_lsn st + 1,
      s_rels := hm_push i (close_relationship (s_lsn st + 1) now cur) (s_rels st),
      s_feed := s_feed st @ [RelationshipDeleted i (s_lsn st + 1)]\<rparr>" "\<exists>rec. res = Inr rec"
    by (auto simp: delete_relationship_eq)
  then have "open_row st' i = None"
    by (simp add: open_row_def relationship_history_hist close_relationship_def)
  with st' Some show ?thesis by (auto simp: delete_relationship_eq relationship_history_hist)
qed

theorem delete_relationship_closes_witness:
  "\<exists>res st'. delete_relationship 5 (RelationshipId [7]) (write_row (RRow sample_link) sample_store) = (res, st') \<and>
     relationship_history st' (RelationshipId [7]) =
       [stamp_relationship 3 sample_link,
        close_relationship 4 5 (stamp_relationship 3 sample_link)]"
proof -
  let ?st = "write_row (RRow sample_link) sample_store"
  obtain res st' where run: "delete_relationship 5 (RelationshipId [7]) ?st = (res, st')" by (metis surj_pair)
  have "open_row ?st (RelationshipId [7]) = Some (stamp_relationship 3 sample_link)"
    by (simp add: open_row_def relationship_history_hist stamp_relationship_def sample_edge_def)
  from delete_relationship_closes [OF run] this run show ?thesis
    by (auto simp: relationship_history_hist)
qed

text \<open>
  a keyed batch is applied at most once.  After a successful call its operation key is
  recorded and any later call with the same key, whatever rows it carries, answers that it did
  nothing and leaves the store as it is; a call that fails records no key and changes nothing.
\<close>

theorem batch_once_idempotent:
  assumes "upsert_batch_once h now key ms rs st = (res, st')"
  shows "(\<forall>b. res = Inr b \<longrightarrow>
        key \<in> set (s_governed_imports st') \<and>
        b = (key \<notin> set (s_governed_imports st)) \<and>
        (\<forall>now' ms' rs'. upsert_batch_once h now' key ms' rs' st' = (Inr False, st') \<and>
           import_batch_once h now' key ms' rs' st' = (Inr False, st'))) \<and>
    (\<forall>e. res = Inl e \<longrightarrow> st' = st)"
proof -
  have "snd (upsert_batch h now ms rs st) = st" if "fst (upsert_batch h now ms rs st) = Inl e" for e
    using that by (rule_tac upsert_batch_locked_cases [of st ms rs h now]) (auto simp: upsert_batch_def)
  with assms show ?thesis
    by (auto simp: upsert_batch_once_eq import_batch_once_def split: if_splits prod.splits sum.splits)
qed

theorem batch_once_idempotent_witness:
  "\<exists>st'. upsert_batch_once id 0 ''k'' [] [sample_link] sample_store = (Inr True, st') \<and>
     upsert_batch_once id 1 ''k'' sample_memory_pair [] st' = (Inr False, st')"
proof -
  obtain st' where run: "upsert_batch_once id 0 ''k'' [] [sample_link] sample_store = (Inr True, st')"
    using sample_endpoints
    by (rule_tac upsert_batch_locked_cases [of sample_store "[]" "[sample_link]" id 0])
      (auto simp: upsert_batch_once_eq upsert_batch_def)
  with batch_once_idempotent [OF run] show ?thesis by auto
qed

text \<open>
  an audited promotion only widens.  A successful promotion puts the given row on top of
  the history at the next sequence number, its visibility is at least that of the row it
  replaces, and the audit row lands in the same step under the same number; a refused promotion
  changes nothing at all.
\<close>

theorem promotion_only_widens:
  assumes "promote_memory_visibility_audited now m a st = (res, st')"
  shows "(\<forall>rec. res = Inr rec \<longrightarrow>
        (\<exists>cur. last_opt (memory_history st (m_id m)) = Some cur \<and> m_visibility cur \<le> m_visibility m) \<and>
        memory_history st' (m_id m) = memory_history st (m_id m) @ [stamp_memory (cr_lsn rec) m] \<and>
        s_audits st' = s_audits st @ [audit_value a (cr_lsn rec)] \<and> cr_lsn rec = s_lsn st + 1) \<and>
    (\<forall>e. res = Inl e \<longrightarrow> st' = st)"
  using assms
  by (auto simp: promote_eq memory_history_hist push_audit_def commit_at_def not_less
      split: option.splits if_splits)

theorem promotion_only_widens_witness:
  "\<exists>st'. promote_memory_visibility_audited 0 (sample_memory (MemoryId [1]) Public)
       \<lparr>ae_action = ''promote'', ae_actor = ''u'', ae_org_id = ''acme'', ae_input_digest = [],
        ae_output_ids = [], ae_fingerprint = [], ae_lease_epoch = None, ae_recorded_at = 0\<rparr> sample_store
     = (Inr (commit_at 3 0), st') \<and>
     memory_history st' (MemoryId [1]) =
       [stamp_memory 1 (sample_memory (MemoryId [1]) Org), stamp_memory 3 (sample_memory (MemoryId [1]) Public)]"
    (is "\<exists>st'. promote_memory_visibility_audited 0 ?m ?a sample_store = _ \<and> _")
proof -
  have m: "m_id ?m = MemoryId [1]" by (simp add: sample_memory_def)
  have "\<not> m_visibility ?m < m_visibility (stamp_memory 1 (sample_memory (MemoryId [1]) Org))"
    by (simp add: sample_memory_def stamp_memory_def less_visibility_def)
  then have "\<exists>st'. promote_memory_visibility_audited 0 ?m ?a sample_store = (Inr (commit_at 3 0), st')"
    by (simp add: promote_eq memory_history_hist m)
  then obtain st' where run: "promote_memory_visibility_audited 0 ?m ?a sample_store = (Inr (commit_at 3 0), st')" ..
  from promotion_only_widens [OF run] run m show ?thesis
    by (auto simp: memory_history_hist commit_at_def)
qed

lemma audit_range_newest:
  assumes "since < n"
  shows "audit_value a n \<in> set (audit_range (ae_org_id a) since (length (s_audits st) + 1) (push_audit a n st))"
proof -
  let ?P = "\<lambda>row. ar_org_id row = ae_org_id a \<and> since < ar_lsn row"
  have "audit_range (ae_org_id a) since (length (s_audits st) + 1) (push_audit a n st) =
      filter ?P (s_audits st @ [audit_value a n])"
    using length_filter_le [of ?P "s_audits st @ [audit_value a n]"]
    unfolding audit_range_def push_audit_def by (intro trans [OF take_all]) simp_all
  moreover have "?P (audit_value a n)" using assms by (simp add: audit_value_def)
  ultimately show ?thesis by simp
qed

text \<open>
  C12: Rows and their audit event commit together. The audited batch fails exactly when the plain batch
  does, with the same error and an unchanged store; otherwise it leaves the records and the store of
  the plain batch and one audit row more, under the number of its last record, which
  \<open>audit_range\<close> returns to a reader of that organisation from any earlier position. A batch with no
  rows is recorded under number 0, and no range ever returns that row.\<close>

theorem audited_batch_atomic:
  assumes "upsert_batch h now ms rs st = (res, st1)"
  shows "case res of
      Inl e \<Rightarrow> upsert_batch_audited h now ms rs a st = (Inl e, st)
    | Inr recs \<Rightarrow>
        upsert_batch_audited h now ms rs a st =
          (Inr recs, st1\<lparr>s_audits := s_audits st @ [audit_value a (last_record_lsn recs)]\<rparr>) \<and>
        (recs \<noteq> [] \<longrightarrow> last_record_lsn recs = s_lsn st1 \<and>
           (\<forall>since. since \<le> s_lsn st \<longrightarrow> audit_value a (s_lsn st1) \<in>
             set (audit_range (ae_org_id a) since (length (s_audits st) + 1)
               (snd (upsert_batch_audited h now ms rs a st))))) \<and>
        (recs = [] \<longrightarrow> last_record_lsn recs = 0 \<and>
           (\<forall>org since limit. audit_value a 0 \<notin>
              set (audit_range org since limit (snd (upsert_batch_audited h now ms rs a st)))))"
proof (rule upsert_batch_locked_cases [of st ms rs h now])
  fix invs st2
  let ?rows = "batch_rows h (s_ontology st) ms rs"
  assume run: "upsert_batch_locked h now ms rs st = Inr (commits (s_lsn st) now (length ?rows), invs, st2)"
    "publish invs st2 = write_rows ?rows st"
  define recs where "recs = commits (s_lsn st) now (length ?rows)"
  have r: "res = Inr recs" "st1 = write_rows ?rows st"
    using assms run by (auto simp: upsert_batch_def recs_def)
  have push: "push_audit a n st1 = st1\<lparr>s_audits := s_audits st @ [audit_value a n]\<rparr>" for n by (simp add: push_audit_def r(2))
  have aud: "upsert_batch_audited h now ms rs a st = (Inr recs, push_audit a (last_record_lsn recs) st1)"
    using run r by (simp add: upsert_batch_audited_def publish_push_audit recs_def)
  have last: "last_record_lsn recs = s_lsn st1" if "recs \<noteq> []"
    using that by (cases "length ?rows") (simp_all add: last_record_lsn_def last_opt_def commits_def r(2) last_map commit_at_def recs_def)
  have pos: "recs \<noteq> [] \<Longrightarrow> s_lsn st < s_lsn st1" using r by (cases ?rows) (auto simp: commits_def recs_def)
  have zero: "recs = [] \<Longrightarrow> last_record_lsn recs = 0" by (simp add: last_record_lsn_def)
  have rng: "audit_value a 0 \<notin> set (audit_range org since limit s)" for org since limit s
    by (auto simp: audit_range_def audit_value_def dest: in_set_takeD)
  have "audit_value a (s_lsn st1) \<in>
      set (audit_range (ae_org_id a) since (length (s_audits st) + 1) (push_audit a (s_lsn st1) st1))"
    if "recs \<noteq> []" "since \<le> s_lsn st" for since
    using audit_range_newest [OF le_less_trans [OF that(2) pos [OF that(1)]], of a st1] r(2) by simp
  with aud last zero rng show ?thesis by (simp add: r(1) push)
qed (use assms in \<open>auto simp: upsert_batch_def upsert_batch_audited_def\<close>)

theorem audited_batch_atomic_witness:
  "\<exists>recs st1. upsert_batch id 0 [] [sample_link] sample_store = (Inr recs, st1) \<and>
     (\<forall>a. audit_value a (s_lsn st1) \<in> set (audit_range (ae_org_id a) 0 (length (s_audits sample_store) + 1)
        (snd (upsert_batch_audited id 0 [] [sample_link] a sample_store))))"
proof -
  obtain recs st1 where run: "upsert_batch id 0 [] [sample_link] sample_store = (Inr recs, st1)" "recs \<noteq> []"
    using sample_endpoints
    by (rule_tac upsert_batch_locked_cases [of sample_store "[]" "[sample_link]" id 0])
      (auto simp: upsert_batch_def batch_rows_def commits_def)
  have "\<forall>since. since \<le> s_lsn sample_store \<longrightarrow> audit_value a (s_lsn st1) \<in> set (audit_range (ae_org_id a) since
      (length (s_audits sample_store) + 1) (snd (upsert_batch_audited id 0 [] [sample_link] a sample_store)))" for a
    using audited_batch_atomic [OF run(1), of a] run(2) unfolding sum.case by blast
  with run(1) show ?thesis by blast
qed

end
