(* ===== verification/Mem_Ingest.thy ===== *)
theory Mem_Ingest
  imports Mem_Store
begin

text \<open>
  Idempotent ingest commits and the durable queue of post-ingest effects
  (\<open>in_memory.rs\<close>: \<open>commit_ingest_locked\<close> and the operations on \<open>ingest_effects\<close>).  An
  effect row is created by the commit it belongs to, claimed under a token for a bounded time,
  acknowledged by the holder of a live claim, and finally cleaned up.  Instants of the monotonic
  clock are nanoseconds.
\<close>

section \<open>Commits\<close>

definition fresh_effect :: "post_ingest_effect \<Rightarrow> ingest_effect" where
  "fresh_effect effect =
     \<lparr>ie_effect = effect, ie_acknowledged = False, ie_cleanup_complete = False,
      ie_delivery_generation = None, ie_retain_legacy_identity = False, ie_claim = None\<rparr>"

definition effect_conflict :: "post_ingest_effect option \<Rightarrow> store \<Rightarrow> post_ingest_effect option" where
  "effect_conflict effect st =
     (case effect of
        None \<Rightarrow> None
      | Some e \<Rightarrow>
        (case hm_get (s_ingest_effects st) (pe_effect_id e) of
           None \<Rightarrow> None
         | Some stored \<Rightarrow> if ie_effect stored \<noteq> e then Some e else None))"

definition insert_effect :: "post_ingest_effect option \<Rightarrow> store \<Rightarrow> store" where
  "insert_effect effect st =
     (case effect of
        None \<Rightarrow> st
      | Some e \<Rightarrow> st\<lparr>s_ingest_effects := hm_insert (pe_effect_id e) (fresh_effect e) (s_ingest_effects st)\<rparr>)"

definition commit_ingest_locked ::
    "(byte list \<Rightarrow> byte list) \<Rightarrow> instant \<Rightarrow> ingest_batch_key \<Rightarrow> memory list \<Rightarrow> relationship list \<Rightarrow> u32 \<Rightarrow>
     post_ingest_effect option \<Rightarrow> store \<Rightarrow>
     storage_error + (ingest_commit_outcome \<times> invalidation list \<times> store)" where
  "commit_ingest_locked h now key ms rs accepted effect st =
     (case hm_get (s_settled_ingest st) key of
        Some settled \<Rightarrow> Inr (Duplicate settled, [], st)
      | None \<Rightarrow>
        (case effect_conflict effect st of
           Some e \<Rightarrow>
             Inl (Backend (''ingest effect '' @ pe_effect_id e @ '' already exists with different content''))
         | None \<Rightarrow>
           (case upsert_batch_locked h now ms rs st of
              Inl e \<Rightarrow> Inl e
            | Inr (records, invs, st1) \<Rightarrow>
              (let settled = \<lparr>sb_accepted = accepted, sb_rejected = 0, sb_assigned_lsn = last_record_lsn records\<rparr>;
                   st2 = st1\<lparr>s_settled_ingest := hm_insert key settled (s_settled_ingest st1)\<rparr>
               in Inr (Committed records settled, invs, insert_effect effect st2)))))"

definition commit_ingest_batch ::
    "(byte list \<Rightarrow> byte list) \<Rightarrow> instant \<Rightarrow> ingest_batch_key \<Rightarrow> memory list \<Rightarrow> relationship list \<Rightarrow> u32 \<Rightarrow>
     store \<Rightarrow> ingest_commit_outcome outcome" where
  "commit_ingest_batch h now key ms rs accepted st =
     (case commit_ingest_locked h now key ms rs accepted None st of
        Inl e \<Rightarrow> (Inl e, st)
      | Inr (out, invs, st1) \<Rightarrow> (Inr out, publish invs st1))"

definition commit_ingest_batch_with_effect ::
    "(byte list \<Rightarrow> byte list) \<Rightarrow> instant \<Rightarrow> ingest_batch_key \<Rightarrow> memory list \<Rightarrow> relationship list \<Rightarrow> u32 \<Rightarrow>
     post_ingest_effect \<Rightarrow> store \<Rightarrow> ingest_commit_outcome outcome" where
  "commit_ingest_batch_with_effect h now key ms rs accepted effect st =
     (if s_fail_next_ingest_commit st
      then (Inl (Backend ''sentinel backend credential=secret''), st\<lparr>s_fail_next_ingest_commit := False\<rparr>)
      else
        (case commit_ingest_locked h now key ms rs accepted (Some effect) st of
           Inl e \<Rightarrow> (Inl e, st)
         | Inr (out, invs, st1) \<Rightarrow> (Inr out, publish invs st1)))"

section \<open>The effect queue\<close>

definition pending_ingest_effects :: "nat \<Rightarrow> store \<Rightarrow> post_ingest_effect list" where
  "pending_ingest_effects limit st =
     take limit (sort_key pe_effect_id
       (map ie_effect (filter (\<lambda>row. \<not> ie_acknowledged row) (hm_values (s_ingest_effects st)))))"

definition claim_live :: "instant \<Rightarrow> ingest_effect \<Rightarrow> bool" where
  "claim_live now row = (case ie_claim row of None \<Rightarrow> False | Some (_, until) \<Rightarrow> now < until)"

text \<open>\<open>now + Duration::from_millis(lease_ms.try_into().unwrap_or(0))\<close>.\<close>

definition claim_deadline :: "instant \<Rightarrow> int \<Rightarrow> instant" where
  "claim_deadline now lease_ms = now + (if lease_ms < 0 then 0 else lease_ms) * 1000000"

definition eligible_effects :: "instant \<Rightarrow> (string, ingest_effect) hmap \<Rightarrow> string list" where
  "eligible_effects now effects =
     sort (map fst (filter (\<lambda>(_, row). \<not> ie_acknowledged row \<and> \<not> claim_live now row) effects))"

text \<open>
  The row looked up for the first eligible id always exists (the source unwraps it); the
  \<open>None\<close> branch of that lookup is never taken.
\<close>

definition claim_ingest_effect ::
    "instant \<Rightarrow> string \<Rightarrow> int \<Rightarrow> store \<Rightarrow> claimed_post_ingest_effect option outcome" where
  "claim_ingest_effect now claim_token lease_ms st =
     (let effects = s_ingest_effects st in
      if list_ex (\<lambda>row. \<not> ie_acknowledged row \<and> claim_live now row) (hm_values effects)
      then (Inr None, st)
      else
        (case eligible_effects now effects of
              [] \<Rightarrow> (Inr None, st)
            | effect_id # _ \<Rightarrow>
              (case hm_get effects effect_id of
                 None \<Rightarrow> (Inr None, st)
               | Some row \<Rightarrow>
                 (let was_legacy = (ie_delivery_generation row = None \<and> ie_claim row \<noteq> None);
                      generation = s_ingest_effect_generation st + 1;
                      row' = row\<lparr>ie_claim := Some (claim_token, claim_deadline now lease_ms),
                                 ie_delivery_generation := Some generation,
                                 ie_retain_legacy_identity := ie_retain_legacy_identity row \<or> was_legacy\<rparr>
                  in (Inr (Some \<lparr>ce_effect = ie_effect row', ce_delivery_generation = generation,
                                ce_retain_legacy_identity = ie_retain_legacy_identity row'\<rparr>),
                      st\<lparr>s_ingest_effect_generation := generation,
                         s_ingest_effects := hm_insert effect_id row' effects\<rparr>)))))"

definition holds_claim :: "instant \<Rightarrow> string \<Rightarrow> ingest_effect \<Rightarrow> bool" where
  "holds_claim now claim_token row =
     (case ie_claim row of None \<Rightarrow> False | Some (token, until) \<Rightarrow> token = claim_token \<and> now < until)"

definition renew_ingest_effect_claim ::
    "instant \<Rightarrow> string \<Rightarrow> string \<Rightarrow> int \<Rightarrow> store \<Rightarrow> bool outcome" where
  "renew_ingest_effect_claim now effect_id claim_token lease_ms st =
     (case hm_get (s_ingest_effects st) effect_id of
        None \<Rightarrow> (Inr False, st)
      | Some row \<Rightarrow>
        if \<not> holds_claim now claim_token row then (Inr False, st)
        else
          (Inr True,
           st\<lparr>s_ingest_effects :=
             hm_insert effect_id (row\<lparr>ie_claim := Some (claim_token, claim_deadline now lease_ms)\<rparr>)
               (s_ingest_effects st)\<rparr>))"

definition acknowledge_ingest_effect :: "instant \<Rightarrow> string \<Rightarrow> string \<Rightarrow> store \<Rightarrow> bool outcome" where
  "acknowledge_ingest_effect now effect_id claim_token st =
     (case hm_get (s_ingest_effects st) effect_id of
        None \<Rightarrow> (Inr False, st)
      | Some row \<Rightarrow>
        if ie_acknowledged row \<or> \<not> holds_claim now claim_token row then (Inr False, st)
        else
          (Inr True,
           st\<lparr>s_ingest_effects :=
             hm_insert effect_id (row\<lparr>ie_acknowledged := True, ie_claim := None\<rparr>) (s_ingest_effects st)\<rparr>))"

definition cleanup_row :: "ingest_effect \<Rightarrow> claimed_post_ingest_effect option" where
  "cleanup_row row =
     map_option (\<lambda>g. \<lparr>ce_effect = ie_effect row, ce_delivery_generation = g,
                       ce_retain_legacy_identity = ie_retain_legacy_identity row\<rparr>)
       (ie_delivery_generation row)"

definition pending_ingest_effect_cleanups :: "nat \<Rightarrow> store \<Rightarrow> claimed_post_ingest_effect list" where
  "pending_ingest_effect_cleanups limit st =
     take limit (sort_key (pe_effect_id \<circ> ce_effect)
       (List.map_filter cleanup_row
         (filter (\<lambda>row. ie_acknowledged row \<and> \<not> ie_cleanup_complete row) (hm_values (s_ingest_effects st)))))"

definition complete_ingest_effect_cleanup :: "string \<Rightarrow> store \<Rightarrow> bool outcome" where
  "complete_ingest_effect_cleanup effect_id st =
     (case hm_get (s_ingest_effects st) effect_id of
        None \<Rightarrow> (Inr False, st)
      | Some row \<Rightarrow>
        if \<not> ie_acknowledged row then (Inr False, st)
        else
          (Inr True,
           st\<lparr>s_ingest_effects :=
             hm_insert effect_id (row\<lparr>ie_cleanup_complete := True\<rparr>) (s_ingest_effects st)\<rparr>))"

section \<open>The invariant of the queue\<close>

text \<open>
  Rows sit under their own effect id; a row carries a claim or an acknowledgement only after a
  delivery generation was drawn for it; an acknowledged row holds no claim; only acknowledged rows are
  cleaned up; generations are drawn from the counter and never shared by two rows.
\<close>

definition effect_row_ok :: "nat \<Rightarrow> string \<Rightarrow> ingest_effect \<Rightarrow> bool" where
  "effect_row_ok gen i row \<longleftrightarrow>
     pe_effect_id (ie_effect row) = i \<and>
     (ie_acknowledged row \<longrightarrow> ie_claim row = None \<and> ie_delivery_generation row \<noteq> None) \<and>
     (ie_claim row \<noteq> None \<longrightarrow> ie_delivery_generation row \<noteq> None) \<and>
     (ie_cleanup_complete row \<longrightarrow> ie_acknowledged row) \<and>
     \<not> ie_retain_legacy_identity row \<and>
     (\<forall>g. ie_delivery_generation row = Some g \<longrightarrow> g \<le> gen)"

definition queue_ok :: "store \<Rightarrow> bool" where
  "queue_ok st \<longleftrightarrow>
     hm_ok (s_ingest_effects st) \<and> hm_ok (s_settled_ingest st) \<and>
     (\<forall>i row. hm_get (s_ingest_effects st) i = Some row \<longrightarrow> effect_row_ok (s_ingest_effect_generation st) i row) \<and>
     (\<forall>i j a b g. hm_get (s_ingest_effects st) i = Some a \<longrightarrow> hm_get (s_ingest_effects st) j = Some b \<longrightarrow>
        ie_delivery_generation a = Some g \<longrightarrow> ie_delivery_generation b = Some g \<longrightarrow> i = j)"

lemma queue_ok_cong:
  assumes "queue_ok st" "s_ingest_effects st' = s_ingest_effects st" "s_settled_ingest st' = s_settled_ingest st"
    "s_ingest_effect_generation st' = s_ingest_effect_generation st"
  shows "queue_ok st'"
  using assms by (simp add: queue_ok_def)

text \<open>Replacing one row, its generation kept, dropped, or drawn afresh.\<close>

lemma queue_ok_set_row:
  assumes ok: "queue_ok st" and gen: "s_ingest_effect_generation st \<le> gen"
    and row: "effect_row_ok gen i row"
    and keep: "\<And>g. ie_delivery_generation row = Some g \<Longrightarrow>
      s_ingest_effect_generation st < g \<or>
      (\<exists>old. hm_get (s_ingest_effects st) i = Some old \<and> ie_delivery_generation old = Some g)"
  shows "queue_ok (st\<lparr>s_ingest_effect_generation := gen,
    s_ingest_effects := hm_insert i row (s_ingest_effects st)\<rparr>)"
proof -
  have up: "effect_row_ok gen j r" if "hm_get (s_ingest_effects st) j = Some r" for j r
    using ok that gen by (fastforce simp: queue_ok_def effect_row_ok_def)
  have fresh: "j = i" if "hm_get (s_ingest_effects st) j = Some r" "ie_delivery_generation r = Some g"
      "ie_delivery_generation row = Some g" for j r g
  proof -
    have "g \<le> s_ingest_effect_generation st"
      using ok that(1,2) by (auto simp: queue_ok_def effect_row_ok_def)
    with keep [OF that(3)] obtain old where
      "hm_get (s_ingest_effects st) i = Some old" "ie_delivery_generation old = Some g" by auto
    with ok that show ?thesis by (auto simp: queue_ok_def)
  qed
  show ?thesis
    unfolding queue_ok_def
  proof (intro conjI allI impI)
    fix k j a b g
    let ?m = "s_ingest_effects (st\<lparr>s_ingest_effect_generation := gen,
      s_ingest_effects := hm_insert i row (s_ingest_effects st)\<rparr>)"
    assume *: "hm_get ?m k = Some a" "hm_get ?m j = Some b"
      "ie_delivery_generation a = Some g" "ie_delivery_generation b = Some g"
    show "k = j"
    proof (cases "k = i \<or> j = i")
      case True
      with * fresh show ?thesis by (auto split: if_splits)
    next
      case False
      with * have "hm_get (s_ingest_effects st) k = Some a" "hm_get (s_ingest_effects st) j = Some b" by simp_all
      with ok * show ?thesis unfolding queue_ok_def by blast
    qed
  qed (use ok row up in \<open>auto simp: queue_ok_def split: if_splits\<close>)
qed

lemma queue_ok_update_row:
  assumes "queue_ok st" "effect_row_ok (s_ingest_effect_generation st) i row"
    "hm_get (s_ingest_effects st) i = Some old" "ie_delivery_generation row = ie_delivery_generation old"
  shows "queue_ok (st\<lparr>s_ingest_effects := hm_insert i row (s_ingest_effects st)\<rparr>)"
  using queue_ok_set_row [OF assms(1) order_refl assms(2)] assms(3,4) by simp

lemma queue_ok_build: "queue_ok (build onto rec)"
  by (simp add: queue_ok_def build_def)

lemma queue_ok_row:
  "queue_ok st \<Longrightarrow> hm_get (s_ingest_effects st) i = Some row \<Longrightarrow>
     effect_row_ok (s_ingest_effect_generation st) i row"
  by (simp add: queue_ok_def)

lemma queue_ok_renew: "queue_ok st \<Longrightarrow> queue_ok (snd (renew_ingest_effect_claim now i tok ms st))"
  by (auto simp: renew_ingest_effect_claim_def holds_claim_def effect_row_ok_def split: option.split
      dest: queue_ok_row intro!: queue_ok_update_row)

lemma queue_ok_acknowledge: "queue_ok st \<Longrightarrow> queue_ok (snd (acknowledge_ingest_effect now i tok st))"
  by (auto simp: acknowledge_ingest_effect_def holds_claim_def effect_row_ok_def split: option.split
      dest: queue_ok_row intro!: queue_ok_update_row)

lemma queue_ok_cleanup: "queue_ok st \<Longrightarrow> queue_ok (snd (complete_ingest_effect_cleanup i st))"
  by (auto simp: complete_ingest_effect_cleanup_def effect_row_ok_def split: option.split
      dest: queue_ok_row intro!: queue_ok_update_row)

text \<open>What a claim does, in terms of the queue as read by \<open>pending_ingest_effects\<close>.\<close>

definition some_live :: "instant \<Rightarrow> store \<Rightarrow> bool" where
  "some_live now st \<longleftrightarrow> (\<exists>i row. hm_get (s_ingest_effects st) i = Some row \<and> \<not> ie_acknowledged row \<and> claim_live now row)"

definition pending_ids :: "store \<Rightarrow> string set" where
  "pending_ids st = {i. \<exists>row. hm_get (s_ingest_effects st) i = Some row \<and> \<not> ie_acknowledged row}"

lemma some_live_exec:
  "queue_ok st \<Longrightarrow>
     list_ex (\<lambda>row. \<not> ie_acknowledged row \<and> claim_live now row) (hm_values (s_ingest_effects st)) = some_live now st"
  using hm_values_iff [of "s_ingest_effects st"] unfolding list_ex_iff some_live_def queue_ok_def by blast

lemma finite_pending: "finite (pending_ids st)"
proof (rule finite_subset)
  show "pending_ids st \<subseteq> fst ` set (s_ingest_effects st)"
    by (force simp: pending_ids_def dest: hm_get_mem)
qed simp

lemma claim_ingest_effect_eq:
  assumes ok: "queue_ok st"
  shows "claim_ingest_effect now tok ms st =
    (if some_live now st \<or> pending_ids st = {} then (Inr None, st)
     else
       (let i = Min (pending_ids st);
            row = the (hm_get (s_ingest_effects st) i);
            g = s_ingest_effect_generation st + 1
        in (Inr (Some \<lparr>ce_effect = ie_effect row, ce_delivery_generation = g, ce_retain_legacy_identity = False\<rparr>),
            st\<lparr>s_ingest_effect_generation := g,
               s_ingest_effects := hm_insert i
                 (row\<lparr>ie_claim := Some (tok, claim_deadline now ms), ie_delivery_generation := Some g,
                      ie_retain_legacy_identity := False\<rparr>) (s_ingest_effects st)\<rparr>)))"
proof (cases "some_live now st")
  case True
  then show ?thesis using some_live_exec [OF ok] by (simp add: claim_ingest_effect_def)
next
  case False
  let ?l = "map fst (filter (\<lambda>(_, row). \<not> ie_acknowledged row \<and> \<not> claim_live now row) (s_ingest_effects st))"
  have hm: "hm_ok (s_ingest_effects st)" using ok by (simp add: queue_ok_def)
  have mem: "(i, row) \<in> set (s_ingest_effects st) \<longleftrightarrow> hm_get (s_ingest_effects st) i = Some row" for i row
    using hm_mem_get [OF hm] hm_get_mem by metis
  have "set ?l = {i. \<exists>row. hm_get (s_ingest_effects st) i = Some row \<and> \<not> ie_acknowledged row \<and> \<not> claim_live now row}"
    unfolding mem [symmetric] by force
  also have "\<dots> = pending_ids st"
    using False unfolding pending_ids_def some_live_def by blast
  finally have set: "set (eligible_effects now (s_ingest_effects st)) = pending_ids st"
    unfolding eligible_effects_def by (simp only: set_sort)
  show ?thesis
  proof (cases "eligible_effects now (s_ingest_effects st)")
    case Nil
    with set have "pending_ids st = {}" by simp
    with Nil False show ?thesis
      using some_live_exec [OF ok] by (simp add: claim_ingest_effect_def)
  next
    case (Cons i rest)
    have "sorted (i # rest)" "set (i # rest) = pending_ids st"
      using sorted_sort [of ?l] set unfolding eligible_effects_def [symmetric] Cons by simp_all
    then have min: "i \<in> pending_ids st" "\<And>j. j \<in> pending_ids st \<Longrightarrow> i \<le> j"
      by auto
    then have eq: "Min (pending_ids st) = i" by (intro Min_eqI) (simp_all add: finite_pending)
    from min(1) obtain row where row: "hm_get (s_ingest_effects st) i = Some row" by (auto simp: pending_ids_def)
    have "effect_row_ok (s_ingest_effect_generation st) i row" using queue_ok_row [OF ok row] .
    then have legacy: "(ie_retain_legacy_identity row \<or>
        (ie_delivery_generation row = None \<and> ie_claim row \<noteq> None)) = False" by (auto simp: effect_row_ok_def)
    have ne: "pending_ids st \<noteq> {}" using min by auto
    show ?thesis
      using False ne some_live_exec [OF ok, of now]
      unfolding claim_ingest_effect_def Let_def Cons eq list.case
      unfolding row option.case option.sel legacy by simp
  qed
qed

lemma queue_ok_claim: "queue_ok st \<Longrightarrow> queue_ok (snd (claim_ingest_effect now tok ms st))"
proof (cases "some_live now st \<or> pending_ids st = {}")
  case False
  assume ok: "queue_ok st"
  let ?i = "Min (pending_ids st)"
  have "?i \<in> pending_ids st" using False finite_pending Min_in by blast
  then obtain row where row: "hm_get (s_ingest_effects st) ?i = Some row" "\<not> ie_acknowledged row"
    by (auto simp: pending_ids_def)
  from queue_ok_row [OF ok row(1)] row(2) have "effect_row_ok (s_ingest_effect_generation st + 1) ?i
    (row\<lparr>ie_claim := Some (tok, claim_deadline now ms),
         ie_delivery_generation := Some (s_ingest_effect_generation st + 1), ie_retain_legacy_identity := False\<rparr>)"
    by (auto simp: effect_row_ok_def)
  from queue_ok_set_row [OF ok _ this] False row show ?thesis
    by (simp add: claim_ingest_effect_eq [OF ok] Let_def)
qed (simp add: claim_ingest_effect_eq)

section \<open>Commits as batches\<close>

definition settlement :: "u32 \<Rightarrow> commit_record list \<Rightarrow> settled_ingest_batch" where
  "settlement accepted records = \<lparr>sb_accepted = accepted, sb_rejected = 0, sb_assigned_lsn = last_record_lsn records\<rparr>"

definition settle ::
    "ingest_batch_key \<Rightarrow> settled_ingest_batch \<Rightarrow> post_ingest_effect option \<Rightarrow> store \<Rightarrow> store" where
  "settle key s effect st = insert_effect effect (st\<lparr>s_settled_ingest := hm_insert key s (s_settled_ingest st)\<rparr>)"

text \<open>The commit under the gate followed by publication, for either operation.\<close>

definition commit_published ::
    "(byte list \<Rightarrow> byte list) \<Rightarrow> instant \<Rightarrow> ingest_batch_key \<Rightarrow> memory list \<Rightarrow> relationship list \<Rightarrow> u32 \<Rightarrow>
     post_ingest_effect option \<Rightarrow> store \<Rightarrow> ingest_commit_outcome outcome" where
  "commit_published h now key ms rs accepted effect st =
     (case commit_ingest_locked h now key ms rs accepted effect st of
        Inl e \<Rightarrow> (Inl e, st)
      | Inr (out, invs, st1) \<Rightarrow> (Inr out, publish invs st1))"

lemma publish_settle: "publish invs (settle key s effect st) = settle key s effect (publish invs st)"
  by (simp add: settle_def insert_effect_def publish_eq split: option.split)

lemma commit_published_eq:
  "commit_published h now key ms rs accepted effect st =
     (case hm_get (s_settled_ingest st) key of
        Some s \<Rightarrow> (Inr (Duplicate s), st)
      | None \<Rightarrow>
        (case effect_conflict effect st of
           Some e \<Rightarrow>
             (Inl (Backend (''ingest effect '' @ pe_effect_id e @ '' already exists with different content'')), st)
         | None \<Rightarrow>
           (case upsert_batch h now ms rs st of
              (Inl e, st1) \<Rightarrow> (Inl e, st1)
            | (Inr recs, st1) \<Rightarrow>
              (Inr (Committed recs (settlement accepted recs)), settle key (settlement accepted recs) effect st1))))"
proof (rule upsert_batch_locked_cases [of st ms rs h now])
  fix invs st1
  assume run: "upsert_batch_locked h now ms rs st =
      Inr (commits (s_lsn st) now (length (batch_rows h (s_ontology st) ms rs)), invs, st1)"
  have pub: "publish invs (insert_effect effect (st1\<lparr>s_settled_ingest := hm_insert key s (s_settled_ingest st1)\<rparr>)) =
      settle key s effect (publish invs st1)" for s
    using publish_settle [of invs key s effect st1] by (simp add: settle_def)
  show ?thesis
    by (auto simp: commit_published_def commit_ingest_locked_def upsert_batch_def settlement_def run pub Let_def
        split: option.split)
qed (auto simp: commit_published_def commit_ingest_locked_def upsert_batch_def split: option.split)

lemma commit_ingest_batch_eq: "commit_ingest_batch h now key ms rs accepted st = commit_published h now key ms rs accepted None st"
  by (simp add: commit_ingest_batch_def commit_published_def)

lemma commit_with_effect_eq:
  "\<not> s_fail_next_ingest_commit st \<Longrightarrow>
     commit_ingest_batch_with_effect h now key ms rs accepted effect st =
     commit_published h now key ms rs accepted (Some effect) st"
  by (simp add: commit_ingest_batch_with_effect_def commit_published_def)

lemma settle_frame [simp]:
  "s_memories (settle key s e st) = s_memories st" "s_rels (settle key s e st) = s_rels st"
  "s_rels_by_node (settle key s e st) = s_rels_by_node st" "s_feed (settle key s e st) = s_feed st"
  "s_audits (settle key s e st) = s_audits st" "s_lsn (settle key s e st) = s_lsn st"
  "s_ontology (settle key s e st) = s_ontology st"
  "s_settled_ingest (settle key s e st) = hm_insert key s (s_settled_ingest st)"
  "s_ingest_effect_generation (settle key s e st) = s_ingest_effect_generation st"
  by (simp_all add: settle_def insert_effect_def split: option.split)

lemma upsert_batch_frame:
  assumes "upsert_batch h now ms rs st = (res, st')"
  shows "s_ingest_effects st' = s_ingest_effects st" "s_settled_ingest st' = s_settled_ingest st"
    "s_ingest_effect_generation st' = s_ingest_effect_generation st" "s_leases st' = s_leases st"
    "s_lease_epochs st' = s_lease_epochs st" "s_proposals st' = s_proposals st"
    "s_discoveries st' = s_discoveries st" "s_audits st' = s_audits st"
    "s_cycle_journals st' = s_cycle_journals st" "s_succeeded_cycles st' = s_succeeded_cycles st"
  using assms unfolding upsert_batch_eq by (auto split: option.splits)

lemma advances_settle: "advances st st' \<Longrightarrow> advances st (settle key s effect st')"
  by (erule advances_cong) simp_all

lemma advances_commit: "advances st (snd (commit_published h now key ms rs accepted effect st))"
  using advances_upsert_batch [of st h now ms rs]
  by (auto simp: commit_published_eq advances_settle split: option.split prod.split sum.split)

lemma queue_ok_settle:
  assumes "queue_ok st" shows "queue_ok (settle key s effect st)"
proof -
  have "queue_ok (st\<lparr>s_settled_ingest := hm_insert key s (s_settled_ingest st)\<rparr>)" (is "queue_ok ?st")
    using assms by (simp add: queue_ok_def)
  then have "queue_ok (?st\<lparr>s_ingest_effects := hm_insert (pe_effect_id e) (fresh_effect e) (s_ingest_effects ?st)\<rparr>)" for e
    using queue_ok_set_row [of ?st "s_ingest_effect_generation st" "pe_effect_id e" "fresh_effect e"]
    by (simp add: fresh_effect_def effect_row_ok_def)
  with \<open>queue_ok ?st\<close> show ?thesis
    by (simp add: settle_def insert_effect_def split: option.split)
qed

lemma queue_ok_upsert_batch: "queue_ok st \<Longrightarrow> queue_ok (snd (upsert_batch h now ms rs st))"
  using upsert_batch_frame(1-3) [of h now ms rs st] by (metis queue_ok_cong prod.collapse)

lemma queue_ok_commit: "queue_ok st \<Longrightarrow> queue_ok (snd (commit_published h now key ms rs accepted effect st))"
  using queue_ok_upsert_batch [of st h now ms rs]
  by (auto simp: commit_published_eq queue_ok_settle split: option.split prod.split sum.split)

section \<open>Properties\<close>

text \<open>
  a batch key commits once.  Whatever a commit answers successfully, its settlement is on
  record under the key afterwards; a fresh key runs the batch once and, in the same step, records
  the settlement (every row accepted, the number of the last record) and queues the effect; a key on
  record answers with the recorded settlement and changes nothing, whatever rows come with it.  A
  failed commit changes nothing.
\<close>

theorem ingest_commits_once:
  assumes "s_fail_next_ingest_commit st = False"
    and "commit_ingest_batch_with_effect h now key ms rs accepted effect st = (res, st')"
  shows "(\<forall>out. res = Inr out \<longrightarrow>
       (\<exists>s. hm_get (s_settled_ingest st') key = Some s \<and>
         (hm_get (s_settled_ingest st) key = Some s \<and> out = Duplicate s \<and> st' = st \<or>
          hm_get (s_settled_ingest st) key = None \<and>
          (\<exists>recs st1. upsert_batch h now ms rs st = (Inr recs, st1) \<and> out = Committed recs s \<and>
             s = \<lparr>sb_accepted = accepted, sb_rejected = 0, sb_assigned_lsn = last_record_lsn recs\<rparr> \<and>
             relationship_history st' = relationship_history st1 \<and> memory_history st' = memory_history st1 \<and>
             hm_get (s_ingest_effects st') (pe_effect_id effect) = Some (fresh_effect effect))) \<and>
         (\<forall>now' ms' rs' accepted'. commit_ingest_batch h now' key ms' rs' accepted' st' = (Inr (Duplicate s), st')))) \<and>
    (\<forall>e. res = Inl e \<longrightarrow> st' = st)"
proof -
  have dup: "commit_ingest_batch h now' key ms' rs' accepted' st' = (Inr (Duplicate s), st')"
    if "hm_get (s_settled_ingest st') key = Some s" for now' ms' rs' accepted' s
    using that by (simp add: commit_ingest_batch_eq commit_published_eq)
  have hist: "relationship_history (settle key s e x) = relationship_history x"
    "memory_history (settle key s e x) = memory_history x" for s e x
    by (simp_all add: fun_eq_iff relationship_history_hist memory_history_hist)
  have eff: "hm_get (s_ingest_effects (settle key s (Some effect) x)) (pe_effect_id effect) = Some (fresh_effect effect)" for s x
    by (simp add: settle_def insert_effect_def)
  have same: "snd (upsert_batch h now ms rs st) = st" if "fst (upsert_batch h now ms rs st) = Inl e" for e
    using that by (auto simp: upsert_batch_eq split: option.splits)
  have run: "commit_published h now key ms rs accepted (Some effect) st = (res, st')"
    using assms by (simp add: commit_with_effect_eq)
  show ?thesis
  proof (cases "hm_get (s_settled_ingest st) key")
    case (Some s)
    with run dup show ?thesis by (auto simp: commit_published_eq)
  next
    case None
    show ?thesis
    proof (cases "effect_conflict (Some effect) st")
      case conflict: None
      obtain r st1 where b: "upsert_batch h now ms rs st = (r, st1)" by force
      show ?thesis
      proof (cases r)
        case (Inl e)
        with run None conflict b same show ?thesis by (auto simp: commit_published_eq)
      next
        case (Inr recs)
        let ?s = "settlement accepted recs"
        have out: "res = Inr (Committed recs ?s)" "st' = settle key ?s (Some effect) st1"
          using run None conflict b Inr by (simp_all add: commit_published_eq)
        then have "hm_get (s_settled_ingest st') key = Some ?s" by simp
        with out None b Inr hist eff dup show ?thesis
          by (auto simp: settlement_def)
      qed
    qed (use run None in \<open>auto simp: commit_published_eq\<close>)
  qed
qed

definition sample_key :: ingest_batch_key where
  "sample_key = \<lparr>ib_org_id = ''acme'', ib_producer_id = ''p'', ib_batch_id = ''1''\<rparr>"

definition sample_effect :: post_ingest_effect where
  "sample_effect = \<lparr>pe_effect_id = ''e1'', pe_session_memory_ids = [], pe_region_deltas = []\<rparr>"

lemma sample_store_frame [simp]:
  "s_fail_next_ingest_commit sample_store = False" "s_settled_ingest sample_store = []"
  "s_ingest_effects sample_store = []" "s_ingest_effect_generation sample_store = 0"
  "s_proposals sample_store = []" "s_discoveries sample_store = []" "s_audits sample_store = []"
  "s_leases sample_store = []" "s_lease_epochs sample_store = []" "s_cycle_journals sample_store = []"
  "s_succeeded_cycles sample_store = []"
  by (simp_all add: sample_store_def sample_memory_pair_def new_store_def build_def)

lemma sample_batch:
  "upsert_batch id now [] [sample_link] sample_store =
     (Inr (commits 2 now (length (batch_rows id sample_ontology [] [sample_link]))),
      write_rows (batch_rows id sample_ontology [] [sample_link]) sample_store)"
  using sample_endpoints [of "[]"] by (simp add: upsert_batch_eq del: find.simps)

definition sample_commit_store :: store where
  "sample_commit_store =
     snd (commit_ingest_batch_with_effect id 0 sample_key [] [sample_link] 1 sample_effect sample_store)"

lemma sample_commit:
  "\<exists>recs. commit_ingest_batch_with_effect id 0 sample_key [] [sample_link] 1 sample_effect sample_store =
     (Inr (Committed recs (settlement 1 recs)), sample_commit_store) \<and>
   sample_commit_store = settle sample_key (settlement 1 recs) (Some sample_effect)
     (write_rows (batch_rows id sample_ontology [] [sample_link]) sample_store)"
  by (simp add: sample_commit_store_def commit_with_effect_eq commit_published_eq sample_batch effect_conflict_def)

theorem ingest_commits_once_witness:
  "\<exists>recs s. commit_ingest_batch_with_effect id 0 sample_key [] [sample_link] 1 sample_effect sample_store =
     (Inr (Committed recs s), sample_commit_store) \<and>
     commit_ingest_batch id 9 sample_key sample_memory_pair [] 2 sample_commit_store =
       (Inr (Duplicate s), sample_commit_store)"
proof -
  obtain recs where run: "commit_ingest_batch_with_effect id 0 sample_key [] [sample_link] 1 sample_effect sample_store =
     (Inr (Committed recs (settlement 1 recs)), sample_commit_store)" using sample_commit by blast
  from ingest_commits_once [OF _ run] run show ?thesis by auto
qed

lemma pending_head:
  assumes ok: "queue_ok st" and i: "Min (pending_ids st) = i" and row: "hm_get (s_ingest_effects st) i = Some row"
    and ne: "pending_ids st \<noteq> {}" and n: "0 < n"
  shows "take 1 (pending_ingest_effects n st) = [ie_effect row]"
proof -
  let ?xs = "map ie_effect (filter (\<lambda>row. \<not> ie_acknowledged row) (hm_values (s_ingest_effects st)))"
  have hm: "hm_ok (s_ingest_effects st)" using ok by (simp add: queue_ok_def)
  have vals: "row \<in> set (hm_values (s_ingest_effects st)) \<longleftrightarrow> (\<exists>i. hm_get (s_ingest_effects st) i = Some row)" for row
    by (rule hm_values_iff [OF hm])
  have ids: "pe_effect_id (ie_effect r) = j" if "hm_get (s_ingest_effects st) j = Some r" for j r
    using queue_ok_row [OF ok that] by (simp add: effect_row_ok_def)
  have mem: "x \<in> set ?xs \<longleftrightarrow> (\<exists>j r. hm_get (s_ingest_effects st) j = Some r \<and> \<not> ie_acknowledged r \<and> x = ie_effect r)" for x
    using vals by auto
  have keys: "pe_effect_id x \<in> pending_ids st" if "x \<in> set ?xs" for x
    using that ids unfolding mem pending_ids_def by auto
  have cover: "\<exists>x\<in>set ?xs. pe_effect_id x = j" if "j \<in> pending_ids st" for j
    using that ids unfolding pending_ids_def by (auto simp: vals)
  have i_in: "i \<in> pending_ids st" using i ne finite_pending Min_in by blast
  obtain y ys where y: "sort_key pe_effect_id ?xs = y # ys"
    using cover [OF i_in] by (cases "sort_key pe_effect_id ?xs") (metis empty_iff list.set(1) set_sort, blast)
  have y_in: "y \<in> set ?xs" using y by (metis list.set_intros(1) set_sort)
  have "pe_effect_id y \<le> pe_effect_id x" if "x \<in> set ?xs" for x
    using sorted_sort_key [of pe_effect_id ?xs] that unfolding y
    by (metis (no_types, lifting) y list.simps(9) set_ConsD set_sort sorted_simps(2) image_eqI list.set_map order_refl)
  then have "pe_effect_id y = i"
    using cover keys [OF y_in] i by (metis Min_eqI finite_pending)
  with y_in ids row have "y = ie_effect row" unfolding mem by auto
  with y n show ?thesis by (cases n) (simp_all add: pending_ingest_effects_def)
qed

text \<open>
  C17: a claim hands out the next effect and fences everyone else.  A claim succeeds only when no
  effect is held live, and returns the first pending effect under a delivery generation larger
  than every generation drawn before.  From then on no other token can renew or acknowledge that
  effect at any time, and until the deadline no claim at all succeeds.
\<close>

theorem claim_fences:
  assumes ok: "queue_ok st" and run: "claim_ingest_effect now tok ms st = (Inr (Some ce), st')"
  shows "\<not> some_live now st \<and> take 1 (pending_ingest_effects 1 st) = [ce_effect ce] \<and>
    (\<forall>i row g. hm_get (s_ingest_effects st) i = Some row \<longrightarrow> ie_delivery_generation row = Some g \<longrightarrow>
       g < ce_delivery_generation ce) \<and>
    (\<forall>tok' now' ms'. tok' \<noteq> tok \<longrightarrow>
       acknowledge_ingest_effect now' (pe_effect_id (ce_effect ce)) tok' st' = (Inr False, st') \<and>
       renew_ingest_effect_claim now' (pe_effect_id (ce_effect ce)) tok' ms' st' = (Inr False, st')) \<and>
    (\<forall>tok' now' ms'. now' < claim_deadline now ms \<longrightarrow>
       claim_ingest_effect now' tok' ms' st' = (Inr None, st'))"
proof -
  let ?i = "Min (pending_ids st)"
  have go: "\<not> some_live now st" "pending_ids st \<noteq> {}"
    using run by (auto simp: claim_ingest_effect_eq [OF ok] split: if_splits)
  then have "?i \<in> pending_ids st" using finite_pending Min_in by blast
  then obtain row where row: "hm_get (s_ingest_effects st) ?i = Some row" "\<not> ie_acknowledged row"
    by (auto simp: pending_ids_def)
  let ?row = "row\<lparr>ie_claim := Some (tok, claim_deadline now ms),
    ie_delivery_generation := Some (s_ingest_effect_generation st + 1), ie_retain_legacy_identity := False\<rparr>"
  have st': "st' = st\<lparr>s_ingest_effect_generation := s_ingest_effect_generation st + 1,
      s_ingest_effects := hm_insert ?i ?row (s_ingest_effects st)\<rparr>"
    and ce: "ce_effect ce = ie_effect row" "ce_delivery_generation ce = s_ingest_effect_generation st + 1"
    using run go row by (auto simp: claim_ingest_effect_eq [OF ok] Let_def)
  have id_row: "pe_effect_id (ie_effect row) = ?i"
    using queue_ok_row [OF ok row(1)] by (simp add: effect_row_ok_def)
  have new: "hm_get (s_ingest_effects st') ?i = Some ?row" by (simp add: st')
  have ok': "queue_ok st'" using queue_ok_claim [OF ok] run by (metis snd_conv)
  have "some_live now' st'" if "now' < claim_deadline now ms" for now'
    unfolding some_live_def using new that row(2)
    by (intro exI [of _ ?i] exI [of _ ?row]) (simp add: claim_live_def)
  then have shut: "claim_ingest_effect now' tok' ms' st' = (Inr None, st')"
    if "now' < claim_deadline now ms" for now' tok' ms'
    using that by (simp add: claim_ingest_effect_eq [OF ok'])
  have gens: "g < ce_delivery_generation ce"
    if "hm_get (s_ingest_effects st) i = Some r" "ie_delivery_generation r = Some g" for i r g
    using queue_ok_row [OF ok that(1)] that(2) by (auto simp: effect_row_ok_def ce)
  have "acknowledge_ingest_effect now' ?i tok' st' = (Inr False, st') \<and>
      renew_ingest_effect_claim now' ?i tok' ms' st' = (Inr False, st')" if "tok' \<noteq> tok" for tok' now' ms'
    using new that
    by (simp add: acknowledge_ingest_effect_def renew_ingest_effect_claim_def holds_claim_def)
  then show ?thesis
    using go(1) pending_head [OF ok refl row(1) go(2), of 1] gens shut by (simp add: ce id_row)
qed

lemma sample_commit_effects: "s_ingest_effects sample_commit_store = [(''e1'', fresh_effect sample_effect)]"
proof -
  obtain recs where eq: "sample_commit_store = settle sample_key (settlement 1 recs) (Some sample_effect)
     (write_rows (batch_rows id sample_ontology [] [sample_link]) sample_store)" using sample_commit by blast
  show ?thesis by (subst eq) (simp add: settle_def insert_effect_def sample_effect_def hm_insert_def)
qed

lemma sample_commit_queue: "queue_ok sample_commit_store"
proof -
  have "queue_ok sample_store" by (simp add: queue_ok_def)
  then show ?thesis
    unfolding sample_commit_store_def by (simp add: commit_with_effect_eq queue_ok_commit)
qed

lemma sample_claim: "\<exists>ce st'. claim_ingest_effect 0 ''t'' 10 sample_commit_store = (Inr (Some ce), st') \<and> ce_effect ce = sample_effect"
  by (simp add: claim_ingest_effect_def sample_commit_effects eligible_effects_def fresh_effect_def hm_values_def
      hm_get_def claim_live_def Let_def)

theorem claim_fences_witness:
  "\<exists>ce st'. claim_ingest_effect 0 ''t'' 10 sample_commit_store = (Inr (Some ce), st') \<and>
     acknowledge_ingest_effect 1 ''e1'' ''other'' st' = (Inr False, st') \<and>
     claim_ingest_effect 5 ''other'' 10 st' = (Inr None, st')"
proof -
  obtain ce st' where run: "claim_ingest_effect 0 ''t'' 10 sample_commit_store = (Inr (Some ce), st')"
      "ce_effect ce = sample_effect" using sample_claim by blast
  have "pe_effect_id (ce_effect ce) = ''e1''" by (simp add: run sample_effect_def)
  moreover have "(5::int) < claim_deadline 0 10" by (simp add: claim_deadline_def)
  ultimately show ?thesis
    using claim_fences [OF sample_commit_queue run(1)] run(1) by auto
qed

text \<open>No two unacknowledged effects are held live at the same instant.\<close>

definition one_live :: "instant \<Rightarrow> store \<Rightarrow> bool" where
  "one_live t st \<longleftrightarrow>
     (\<forall>i j a b. hm_get (s_ingest_effects st) i = Some a \<longrightarrow> hm_get (s_ingest_effects st) j = Some b \<longrightarrow>
        \<not> ie_acknowledged a \<longrightarrow> \<not> ie_acknowledged b \<longrightarrow> claim_live t a \<longrightarrow> claim_live t b \<longrightarrow> i = j)"

lemma claim_live_mono: "claim_live t row \<Longrightarrow> now \<le> t \<Longrightarrow> claim_live now row"
  by (auto simp: claim_live_def split: option.splits)

lemma one_live_update:
  assumes "one_live t st" "\<not> ie_acknowledged row \<Longrightarrow> claim_live t row \<Longrightarrow>
      (\<And>j b. hm_get (s_ingest_effects st) j = Some b \<Longrightarrow> \<not> ie_acknowledged b \<Longrightarrow> claim_live t b \<Longrightarrow> j = i)"
  shows "one_live t (st\<lparr>s_ingest_effect_generation := g, s_ingest_effects := hm_insert i row (s_ingest_effects st)\<rparr>)"
  using assms unfolding one_live_def by (auto split: if_splits)

lemma one_live_cong: "one_live t st \<Longrightarrow> s_ingest_effects st' = s_ingest_effects st \<Longrightarrow> one_live t st'"
  by (simp add: one_live_def)

text \<open>
  C18: deliveries never overlap.  If no two effects are held live from now on, then none are
  after any queue operation run now: a claim is granted only when all others have lapsed, a
  renewal only to the one live holder, and committing, acknowledging or cleaning up an effect
  opens no claim.
\<close>

theorem deliveries_exclusive:
  assumes ok: "queue_ok st" and one: "\<And>t. now \<le> t \<Longrightarrow> one_live t st" and t: "now \<le> t"
  shows "one_live t (snd (claim_ingest_effect now tok ms st)) \<and>
    one_live t (snd (renew_ingest_effect_claim now i tok ms st)) \<and>
    one_live t (snd (acknowledge_ingest_effect now i tok st)) \<and>
    one_live t (snd (complete_ingest_effect_cleanup i st)) \<and>
    one_live t (snd (commit_ingest_batch_with_effect h wall key mems rels accepted effect st))"
proof (intro conjI)
  have idle: "\<not> claim_live t b" if "\<not> some_live now st" "hm_get (s_ingest_effects st) j = Some b" "\<not> ie_acknowledged b" for j b
    using that claim_live_mono [OF _ t] unfolding some_live_def by blast
  show "one_live t (snd (claim_ingest_effect now tok ms st))"
    using one [OF t] idle by (auto simp: claim_ingest_effect_eq [OF ok] Let_def intro!: one_live_update)
  have others: "j = i" if "hm_get (s_ingest_effects st) i = Some row" "holds_claim now tok row"
      "\<not> ie_acknowledged row" "hm_get (s_ingest_effects st) j = Some b" "\<not> ie_acknowledged b" "claim_live t b" for j b row
  proof -
    have "claim_live now row" using that(2) by (auto simp: holds_claim_def claim_live_def split: option.splits)
    with that one [OF order_refl] claim_live_mono [OF that(6) t] show ?thesis unfolding one_live_def by blast
  qed
  have "one_live t (st\<lparr>s_ingest_effects := hm_insert i row' (s_ingest_effects st)\<rparr>)"
    if "\<not> ie_acknowledged row' \<Longrightarrow> claim_live t row' \<Longrightarrow>
      (\<And>j b. hm_get (s_ingest_effects st) j = Some b \<Longrightarrow> \<not> ie_acknowledged b \<Longrightarrow> claim_live t b \<Longrightarrow> j = i)" for i row'
    by (rule one_live_cong [OF one_live_update [where g = "s_ingest_effect_generation st", OF one [OF t], of row' i]])
      (use that in simp_all)
  note upd = this
  show "one_live t (snd (renew_ingest_effect_claim now i tok ms st))"
    using one [OF t] others by (auto simp: renew_ingest_effect_claim_def split: option.split intro!: upd)
  show "one_live t (snd (acknowledge_ingest_effect now i tok st))"
    using one [OF t] by (auto simp: acknowledge_ingest_effect_def split: option.split intro!: upd)
  show "one_live t (snd (complete_ingest_effect_cleanup i st))"
    using one [OF t] by (auto simp: complete_ingest_effect_cleanup_def split: option.split intro!: upd)
  have batch: "s_ingest_effects (snd (upsert_batch h wall mems rels st)) = s_ingest_effects st"
    by (metis prod.collapse upsert_batch_frame(1))
  have "one_live t (settle key s (Some effect) (snd (upsert_batch h wall mems rels st)))" for s
    by (rule one_live_cong [OF upd [of "fresh_effect effect" "pe_effect_id effect"]])
      (auto simp: settle_def insert_effect_def batch fresh_effect_def claim_live_def)
  with one [OF t] show "one_live t (snd (commit_ingest_batch_with_effect h wall key mems rels accepted effect st))"
    using one_live_cong [OF one [OF t] batch]
    by (cases "s_fail_next_ingest_commit st")
      (auto simp: commit_ingest_batch_with_effect_def commit_published_def [symmetric] commit_published_eq
        split: option.split prod.split sum.split elim: one_live_cong)
qed

theorem deliveries_exclusive_witness:
  "one_live 3 (snd (claim_ingest_effect 0 ''t'' 10 sample_commit_store)) \<and>
   one_live 3 (snd (renew_ingest_effect_claim 0 ''e1'' ''t'' 10 sample_commit_store))"
proof -
  have "one_live t sample_commit_store" for t
    by (simp add: one_live_def sample_commit_effects hm_get_def)
  with deliveries_exclusive [OF sample_commit_queue, of 0 3] show ?thesis by simp
qed

end
