(* ===== verification/Mem_Lease.thy ===== *)
theory Mem_Lease
  imports Mem_Ingest
begin

text \<open>
  The lease table (\<open>in_memory.rs\<close>): one holder per key, a monotone fencing epoch per key and
  a token minted from it.  Every fenced write starts with \<open>check_lease_current\<close>.
\<close>

definition LEASE_GRACE_PERIOD :: int where
  "LEASE_GRACE_PERIOD = 15 * 1000000000"

definition lease_token :: "nat \<Rightarrow> string" where
  "lease_token epoch = ''in-memory:'' @ show_nat epoch"

definition check_lease_current :: "instant \<Rightarrow> owner_lease \<Rightarrow> store \<Rightarrow> storage_error + unit" where
  "check_lease_current now lease st =
     (case hm_get (s_leases st) (ol_key lease) of
        None \<Rightarrow> Inl (FencedWriteRejected (ol_epoch lease))
      | Some held \<Rightarrow>
        if hl_token held = ol_fencing_token lease \<and> now < hl_expires_at held then Inr ()
        else Inl (FencedWriteRejected (ol_epoch lease)))"

definition next_epoch :: "lease_key \<Rightarrow> store \<Rightarrow> nat" where
  "next_epoch key st = (case hm_get (s_lease_epochs st) key of None \<Rightarrow> 1 | Some e \<Rightarrow> e + 1)"

definition acquire_lease :: "instant \<Rightarrow> lease_key \<Rightarrow> int \<Rightarrow> store \<Rightarrow> owner_lease outcome" where
  "acquire_lease now key ttl st =
     (if (case hm_get (s_leases st) key of None \<Rightarrow> False | Some held \<Rightarrow> now < hl_expires_at held)
      then (Inl (Backend ''lease held by another node''), st)
      else
        (let epoch = next_epoch key st;
             token = lease_token epoch;
             expires_at = now + ttl
         in (Inr \<lparr>ol_key = key, ol_owner_node_id = ''in-memory'', ol_epoch = epoch, ol_acquired_at = now,
                  ol_expires_at = expires_at, ol_grace_period = LEASE_GRACE_PERIOD, ol_fencing_token = token\<rparr>,
             st\<lparr>s_lease_epochs := hm_insert key epoch (s_lease_epochs st),
                s_leases := hm_insert key \<lparr>hl_token = token, hl_expires_at = expires_at\<rparr> (s_leases st)\<rparr>)))"

definition renew_lease :: "instant \<Rightarrow> owner_lease \<Rightarrow> store \<Rightarrow> owner_lease outcome" where
  "renew_lease now l st =
     (case hm_get (s_leases st) (ol_key l) of
        None \<Rightarrow> (Inl (Backend ''lease lost (token mismatch)''), st)
      | Some held \<Rightarrow>
        if hl_token held = ol_fencing_token l \<and> now < hl_expires_at held then
          (let ttl = ol_expires_at l - ol_acquired_at l
           in (Inr (l\<lparr>ol_acquired_at := now, ol_expires_at := now + ttl\<rparr>),
               st\<lparr>s_leases := hm_insert (ol_key l) (held\<lparr>hl_expires_at := now + ttl\<rparr>) (s_leases st)\<rparr>))
        else (Inl (Backend ''lease lost (token mismatch)''), st))"

definition release_lease :: "owner_lease \<Rightarrow> store \<Rightarrow> unit outcome" where
  "release_lease l st =
     (if (case hm_get (s_leases st) (ol_key l) of None \<Rightarrow> False | Some held \<Rightarrow> hl_token held = ol_fencing_token l)
      then (Inr (), st\<lparr>s_leases := hm_remove (ol_key l) (s_leases st)\<rparr>)
      else (Inr (), st))"

section \<open>The invariant of the table\<close>

text \<open>A held lease carries the token of the current epoch of its key.\<close>

definition leases_ok :: "store \<Rightarrow> bool" where
  "leases_ok st \<longleftrightarrow>
     hm_ok (s_leases st) \<and> hm_ok (s_lease_epochs st) \<and>
     (\<forall>key held. hm_get (s_leases st) key = Some held \<longrightarrow>
        (\<exists>e. hm_get (s_lease_epochs st) key = Some e \<and> hl_token held = lease_token e))"

definition current_epoch :: "lease_key \<Rightarrow> store \<Rightarrow> nat" where
  "current_epoch key st = (case hm_get (s_lease_epochs st) key of None \<Rightarrow> 0 | Some e \<Rightarrow> e)"

lemma lease_token_inj [simp]: "lease_token a = lease_token b \<longleftrightarrow> a = b"
  by (auto simp: lease_token_def dest: show_nat_inj)

lemma leases_ok_cong:
  "leases_ok st \<Longrightarrow> s_leases st' = s_leases st \<Longrightarrow> s_lease_epochs st' = s_lease_epochs st \<Longrightarrow> leases_ok st'"
  by (simp add: leases_ok_def)

lemma leases_ok_build: "leases_ok (build onto rec)"
  by (simp add: leases_ok_def build_def)

lemma leases_ok_acquire: "leases_ok st \<Longrightarrow> leases_ok (snd (acquire_lease now key ttl st))"
  by (auto simp: leases_ok_def acquire_lease_def Let_def)

lemma held_token:
  assumes "leases_ok st" "hm_get (s_leases st) key = Some held"
  shows "hl_token held = lease_token (current_epoch key st)"
    and "hm_get (s_lease_epochs st) key = Some (current_epoch key st)"
proof -
  from assms obtain e where "hm_get (s_lease_epochs st) key = Some e" "hl_token held = lease_token e"
    unfolding leases_ok_def by blast
  then show "hl_token held = lease_token (current_epoch key st)"
    "hm_get (s_lease_epochs st) key = Some (current_epoch key st)" by (simp_all add: current_epoch_def)
qed

lemma leases_ok_renew:
  assumes ok: "leases_ok st" shows "leases_ok (snd (renew_lease now l st))"
proof (cases "hm_get (s_leases st) (ol_key l)")
  case (Some held)
  from held_token [OF ok this] ok show ?thesis
    by (auto simp: renew_lease_def Some Let_def leases_ok_def)
qed (use ok in \<open>simp add: renew_lease_def\<close>)

lemma leases_ok_release: "leases_ok st \<Longrightarrow> leases_ok (snd (release_lease l st))"
  by (auto simp: leases_ok_def release_lease_def split: option.split if_splits)

lemma advances_leases:
  "advances st (snd (acquire_lease now key ttl st))"
  "advances st (snd (renew_lease now l st))"
  "advances st (snd (release_lease l st))"
  by (auto simp: acquire_lease_def renew_lease_def release_lease_def Let_def split: option.split
      intro!: advances_cong [OF advances_refl])

lemma epoch_mono:
  "current_epoch key st \<le> current_epoch key (snd (acquire_lease now key' ttl st))"
  "current_epoch key (snd (renew_lease now l st)) = current_epoch key st"
  "current_epoch key (snd (release_lease l st)) = current_epoch key st"
  by (auto simp: current_epoch_def acquire_lease_def next_epoch_def renew_lease_def release_lease_def Let_def
      split: option.split)

lemma stale_check:
  assumes "leases_ok st" "ol_fencing_token l = lease_token e" "e \<noteq> current_epoch (ol_key l) st"
  shows "check_lease_current now l st = Inl (FencedWriteRejected (ol_epoch l))"
  using assms held_token(1) [OF assms(1), of "ol_key l"]
  by (auto simp: check_lease_current_def split: option.split)

section \<open>Properties\<close>

text \<open>
  re-acquisition fences every earlier holder for good.  An acquisition succeeds exactly
  when the key is not held by an unexpired lease, and mints the next epoch.  In every later
  state whose epoch for the key is at least the new one, a lease carrying the token of an earlier
  epoch is refused by the fencing check and by renewal, and cannot release the lease of its
  successor.
\<close>

theorem stale_lease_rejected:
  assumes "leases_ok st" "acquire_lease now key ttl st = (Inr l, st')"
    and "leases_ok later" "ol_epoch l \<le> current_epoch key later"
    and "ol_key old = key" "ol_fencing_token old = lease_token e" "e \<le> current_epoch key st"
  shows "ol_epoch l = current_epoch key st + 1 \<and> current_epoch key st' = ol_epoch l \<and>
    check_lease_current now' old later = Inl (FencedWriteRejected (ol_epoch old)) \<and>
    (\<exists>err. renew_lease now' old later = (Inl err, later)) \<and>
    release_lease old later = (Inr (), later)"
proof -
  have ep: "ol_epoch l = current_epoch key st + 1" "current_epoch key st' = ol_epoch l"
    using assms(2) by (auto simp: acquire_lease_def next_epoch_def current_epoch_def Let_def split: if_splits option.splits)
  then have ne: "e \<noteq> current_epoch key later" using assms(4,7) by simp
  then have tok: "hl_token held \<noteq> ol_fencing_token old" if "hm_get (s_leases later) (ol_key old) = Some held" for held
    using held_token(1) [OF assms(3) that] assms(5,6) ne by simp
  have "check_lease_current now' old later = Inl (FencedWriteRejected (ol_epoch old))"
    by (rule stale_check [OF assms(3,6)]) (use ne assms(5) in simp)
  with ep tok show ?thesis
    by (auto simp: renew_lease_def release_lease_def split: option.split)
qed

text \<open>
  the lease is exclusive while it lasts and available afterwards.  Right after a successful
  acquisition its holder passes the check until the expiry and not beyond, no other acquisition
  succeeds before it, and one succeeds at or after it; a release by the holder frees the key at
  once.
\<close>

theorem lease_exclusive:
  assumes "leases_ok st" "acquire_lease now key ttl st = (Inr l, st')"
  shows "(check_lease_current t l st' = Inr () \<longleftrightarrow> t < now + ttl) \<and>
    ((\<exists>l2. fst (acquire_lease t key ttl2 st') = Inr l2) \<longleftrightarrow> now + ttl \<le> t) \<and>
    (\<exists>l2. fst (acquire_lease t key ttl2 (snd (release_lease l st'))) = Inr l2)"
proof -
  have st': "hm_get (s_leases st') key = Some \<lparr>hl_token = ol_fencing_token l, hl_expires_at = now + ttl\<rparr>"
    "ol_key l = key" "hm_ok (s_leases st')"
    using assms by (auto simp: acquire_lease_def Let_def leases_ok_def split: if_splits)
  then show ?thesis
    by (auto simp: check_lease_current_def acquire_lease_def release_lease_def Let_def)
qed

definition sample_lease_key :: lease_key where
  "sample_lease_key = Dreams ''acme'' ''p''"

definition sample_old_lease :: owner_lease where
  "sample_old_lease =
     \<lparr>ol_key = sample_lease_key, ol_owner_node_id = ''in-memory'', ol_epoch = 1, ol_acquired_at = 0,
      ol_expires_at = 10, ol_grace_period = LEASE_GRACE_PERIOD, ol_fencing_token = lease_token 1\<rparr>"

definition sample_leased :: store where
  "sample_leased = snd (acquire_lease 0 sample_lease_key 10 sample_store)"

lemma sample_acquire: "acquire_lease 0 sample_lease_key 10 sample_store = (Inr sample_old_lease, sample_leased)"
  by (simp add: sample_leased_def acquire_lease_def sample_old_lease_def next_epoch_def Let_def)

lemma sample_leases_ok: "leases_ok sample_store" "leases_ok sample_leased"
proof -
  show "leases_ok sample_store" by (simp add: leases_ok_def)
  then show "leases_ok sample_leased" unfolding sample_leased_def by (rule leases_ok_acquire)
qed

lemma sample_leased_get:
  "hm_get (s_leases sample_leased) sample_lease_key = Some \<lparr>hl_token = lease_token 1, hl_expires_at = 10\<rparr>"
  "current_epoch sample_lease_key sample_leased = 1"
  by (simp_all add: sample_leased_def acquire_lease_def next_epoch_def current_epoch_def Let_def)

theorem stale_lease_rejected_witness:
  "\<exists>l st'. acquire_lease 20 sample_lease_key 10 sample_leased = (Inr l, st') \<and>
     check_lease_current 21 sample_old_lease st' = Inl (FencedWriteRejected 1) \<and>
     release_lease sample_old_lease st' = (Inr (), st')"
proof -
  obtain l st' where run: "acquire_lease 20 sample_lease_key 10 sample_leased = (Inr l, st')"
    by (auto simp: acquire_lease_def sample_leased_get Let_def)
  have ok': "leases_ok st'" using leases_ok_acquire [OF sample_leases_ok(2)] run by (metis snd_conv)
  have "ol_epoch l \<le> current_epoch sample_lease_key st'"
    using run by (auto simp: acquire_lease_def sample_leased_get current_epoch_def Let_def)
  from stale_lease_rejected [OF sample_leases_ok(2) run ok' this, of sample_old_lease 1] run show ?thesis
    by (auto simp: sample_old_lease_def sample_leased_get)
qed

theorem lease_exclusive_witness:
  "check_lease_current 9 sample_old_lease sample_leased = Inr () \<and>
   \<not> (\<exists>l2. fst (acquire_lease 9 sample_lease_key 5 sample_leased) = Inr l2)"
  using lease_exclusive [OF sample_leases_ok(1) sample_acquire, of 9 5] by simp

end
