(* ===== verification/Mem_Discovery.thy ===== *)
theory Mem_Discovery
  imports Mem_Lease
begin

text \<open>
  Discoveries and their acceptance (\<open>in_memory.rs\<close>): a discovery is stored once, turned into a
  proposal scoped to a caller, and the proposal is consumed by at most one acceptance, which
  writes the asserted edge, its inverse companion and the audit row in one step.
\<close>

definition create_discovery_proposal :: "discovery_proposal \<Rightarrow> store \<Rightarrow> unit outcome" where
  "create_discovery_proposal p st =
     (if rk_org (dp_region p) \<noteq> vc_org_id (dp_caller_scope p)
         \<or> vc_max_visibility (dp_caller_scope p) < dp_proposed_visibility p
         \<or> (rk_project (dp_region p) \<noteq> [] \<and> rk_project (dp_region p) \<noteq> ''*''
            \<and> rk_project (dp_region p) \<notin> set (vc_project_ids (dp_caller_scope p)))
      then (Inl ProposalMismatch, st)
      else
        (case hm_get (s_proposals st) (dp_discovery_id p) of
           Some stored \<Rightarrow>
             if sp_proposal stored = p \<and> \<not> sp_consumed stored then (Inr (), st)
             else if sp_proposal stored = p then (Inl ProposalNotFound, st)
             else (Inl ProposalMismatch, st)
         | None \<Rightarrow>
           (case hm_get (s_discoveries st) (dp_discovery_id p) of
              None \<Rightarrow> (Inl ProposalNotFound, st)
            | Some d \<Rightarrow>
              if dr_region d \<noteq> dp_region p \<or> dr_from d \<noteq> dp_from p \<or> dr_to d \<noteq> dp_to p
              then (Inl ProposalMismatch, st)
              else
                (Inr (),
                 st\<lparr>s_proposals := hm_insert (dp_discovery_id p) \<lparr>sp_proposal = p, sp_consumed = False\<rparr> (s_proposals st),
                    s_discoveries := hm_remove (dp_discovery_id p) (s_discoveries st)\<rparr>))))"

definition store_discovery :: "discovery_record \<Rightarrow> store \<Rightarrow> unit outcome" where
  "store_discovery d st =
     (if hm_contains (s_proposals st) (dr_discovery_id d) then (Inl ProposalMismatch, st)
      else
        (case hm_get (s_discoveries st) (dr_discovery_id d) of
           Some stored \<Rightarrow> if discovery_eq stored d then (Inr (), st) else (Inl ProposalMismatch, st)
         | None \<Rightarrow>
           (let n = s_lsn st + 1 in
            (Inr (),
             send (DiscoveryAvailable d n)
               (st\<lparr>s_discoveries := hm_insert (dr_discovery_id d) d (s_discoveries st), s_lsn := n\<rparr>)))))"

definition store_discovery_fenced :: "instant \<Rightarrow> discovery_record \<Rightarrow> owner_lease \<Rightarrow> store \<Rightarrow> unit outcome" where
  "store_discovery_fenced now d lease st =
     (case check_lease_current now lease st of
        Inl e \<Rightarrow> (Inl e, st)
      | Inr _ \<Rightarrow>
        if hm_contains (s_proposals st) (dr_discovery_id d) then (Inl ProposalMismatch, st)
        else
          (case hm_get (s_discoveries st) (dr_discovery_id d) of
             Some stored \<Rightarrow> if discovery_eq stored d then (Inr (), st) else (Inl ProposalMismatch, st)
           | None \<Rightarrow>
             (let n = s_lsn st + 1 in
              (Inr (),
               send (DiscoveryAvailable d n)
                 (st\<lparr>s_discoveries := hm_insert (dr_discovery_id d) d (s_discoveries st), s_lsn := n\<rparr>)))))"

definition get_discovery :: "string \<Rightarrow> store \<Rightarrow> discovery_record option" where
  "get_discovery i st = hm_get (s_discoveries st) i"

definition list_discoveries :: "string \<Rightarrow> nat \<Rightarrow> store \<Rightarrow> discovery_record list" where
  "list_discoveries org limit st =
     take (min limit 100) (sort_key (\<lambda>row. (- dr_discovered_at row, dr_discovery_id row))
       (filter (\<lambda>row. rk_org (dr_region row) = org) (hm_values (s_discoveries st))))"

definition get_discovery_proposal :: "string \<Rightarrow> store \<Rightarrow> discovery_proposal option" where
  "get_discovery_proposal i st =
     (case hm_get (s_proposals st) i of
        None \<Rightarrow> None
      | Some stored \<Rightarrow> if sp_consumed stored then None else Some (sp_proposal stored))"

definition acceptance_mismatch :: "discovery_proposal \<Rightarrow> discovery_acceptance \<Rightarrow> bool" where
  "acceptance_mismatch p acc =
     (let rel = da_relationship acc in
      dp_region p \<noteq> da_region acc
      \<or> dp_caller_scope p \<noteq> da_caller_scope acc
      \<or> dp_from p \<noteq> r_from rel
      \<or> dp_to p \<noteq> r_to rel
      \<or> dp_kind p \<noteq> r_kind rel
      \<or> dp_proposed_visibility p \<noteq> r_visibility rel
      \<or> rk_org (dp_region p) \<noteq> ae_org_id (da_audit acc)
      \<or> vc_user_id (dp_caller_scope p) \<noteq> ae_actor (da_audit acc)
      \<or> vc_max_visibility (da_caller_scope acc) < r_visibility rel)"

definition accept_discovery ::
    "(byte list \<Rightarrow> byte list) \<Rightarrow> instant \<Rightarrow> discovery_acceptance \<Rightarrow> store \<Rightarrow> commit_record outcome" where
  "accept_discovery h now acc st =
     (case hm_get (s_proposals st) (da_discovery_id acc) of
        None \<Rightarrow> (Inl ProposalNotFound, st)
      | Some stored \<Rightarrow>
        if sp_consumed stored then (Inl ProposalNotFound, st)
        else if acceptance_mismatch (sp_proposal stored) acc then (Inl ProposalMismatch, st)
        else
          (let rel = da_relationship acc;
               n = s_lsn st + 1;
               rels1 = hm_push (r_id rel) (stamp_relationship n rel) (s_rels st);
               (next_lsn, rels2, invs) =
                 (case materialize_inverse h (s_ontology st) rel of
                    None \<Rightarrow> (n, rels1, [upserted n rel])
                  | Some nv \<Rightarrow>
                    (n + 1, hm_push (r_id nv) (stamp_relationship (n + 1) nv) rels1,
                     [upserted n rel, upserted (n + 1) nv]));
               st1 = push_audit (da_audit acc) n
                 (st\<lparr>s_proposals := hm_insert (da_discovery_id acc) (stored\<lparr>sp_consumed := True\<rparr>) (s_proposals st),
                     s_rels := rels2, s_lsn := next_lsn\<rparr>)
           in (Inr (commit_at n now), publish invs st1)))"

section \<open>The invariant\<close>

text \<open>Rows sit under their own id, and no id is both an open discovery and a proposal.\<close>

definition discoveries_ok :: "store \<Rightarrow> bool" where
  "discoveries_ok st \<longleftrightarrow>
     hm_ok (s_proposals st) \<and> hm_ok (s_discoveries st) \<and>
     (\<forall>i p. hm_get (s_proposals st) i = Some p \<longrightarrow> hm_get (s_discoveries st) i = None) \<and>
     (\<forall>i p. hm_get (s_proposals st) i = Some p \<longrightarrow> dp_discovery_id (sp_proposal p) = i \<and>
        rk_org (dp_region (sp_proposal p)) = vc_org_id (dp_caller_scope (sp_proposal p)) \<and>
        dp_proposed_visibility (sp_proposal p) \<le> vc_max_visibility (dp_caller_scope (sp_proposal p))) \<and>
     (\<forall>i d. hm_get (s_discoveries st) i = Some d \<longrightarrow> dr_discovery_id d = i)"

lemma discoveries_ok_cong:
  "discoveries_ok st \<Longrightarrow> s_proposals st' = s_proposals st \<Longrightarrow> s_discoveries st' = s_discoveries st \<Longrightarrow> discoveries_ok st'"
  by (simp add: discoveries_ok_def)

lemma discoveries_ok_build: "discoveries_ok (build onto rec)"
  by (simp add: discoveries_ok_def build_def)

lemma discoveries_ok_create: "discoveries_ok st \<Longrightarrow> discoveries_ok (snd (create_discovery_proposal p st))"
  by (auto simp: create_discovery_proposal_def discoveries_ok_def hm_contains_def split: option.split)

lemma store_discovery_eq:
  "store_discovery d st =
     (if hm_contains (s_proposals st) (dr_discovery_id d) then (Inl ProposalMismatch, st)
      else
        (case hm_get (s_discoveries st) (dr_discovery_id d) of
           Some stored \<Rightarrow> if discovery_eq stored d then (Inr (), st) else (Inl ProposalMismatch, st)
         | None \<Rightarrow>
           (Inr (),
            st\<lparr>s_lsn := s_lsn st + 1, s_feed := s_feed st @ [DiscoveryAvailable d (s_lsn st + 1)],
               s_discoveries := hm_insert (dr_discovery_id d) d (s_discoveries st)\<rparr>)))"
  by (auto simp: store_discovery_def send_def Let_def split: option.split intro!: store.equality)

lemma discoveries_ok_store: "discoveries_ok st \<Longrightarrow> discoveries_ok (snd (store_discovery d st))"
  by (auto simp: store_discovery_eq discoveries_ok_def hm_contains_def split: option.split)

lemma store_discovery_fenced_eq:
  "store_discovery_fenced now d lease st =
     (case check_lease_current now lease st of Inl e \<Rightarrow> (Inl e, st) | Inr _ \<Rightarrow> store_discovery d st)"
  unfolding store_discovery_fenced_def store_discovery_def by (rule refl)

lemma advances_create: "advances st (snd (create_discovery_proposal p st))"
  by (auto simp: create_discovery_proposal_def split: option.split intro!: advances_cong [OF advances_refl])

lemma advances_store: "advances st (snd (store_discovery d st))"
proof -
  have "advances st (st\<lparr>s_lsn := s_lsn st + 1, s_feed := s_feed st @ [DiscoveryAvailable d (s_lsn st + 1)],
      s_discoveries := x\<rparr>)" for x
    by (rule advances_cong [OF advances_announce [of st "s_lsn st + 1" "DiscoveryAvailable d (s_lsn st + 1)"]]) simp_all
  then show ?thesis by (auto simp: store_discovery_eq split: option.split)
qed

text \<open>The rows an acceptance writes.\<close>

definition acceptance_rows :: "(byte list \<Rightarrow> byte list) \<Rightarrow> ontology \<Rightarrow> relationship \<Rightarrow> row list" where
  "acceptance_rows h onto rel =
     RRow rel # (case materialize_inverse h onto rel of None \<Rightarrow> [] | Some nv \<Rightarrow> [RRow nv])"

lemma accept_discovery_eq:
  "accept_discovery h now acc st =
     (case hm_get (s_proposals st) (da_discovery_id acc) of
        None \<Rightarrow> (Inl ProposalNotFound, st)
      | Some stored \<Rightarrow>
        if sp_consumed stored then (Inl ProposalNotFound, st)
        else if acceptance_mismatch (sp_proposal stored) acc then (Inl ProposalMismatch, st)
        else
          (Inr (commit_at (s_lsn st + 1) now),
           (push_audit (da_audit acc) (s_lsn st + 1)
              (write_rows (acceptance_rows h (s_ontology st) (da_relationship acc)) st))
           \<lparr>s_proposals := hm_insert (da_discovery_id acc) (stored\<lparr>sp_consumed := True\<rparr>) (s_proposals st)\<rparr>))"
proof -
  have "publish [upserted n a, upserted k b] st = publish [upserted k b] (publish [upserted n a] st)" for n a k b st
    by (simp add: publish_def)
  then show ?thesis
    by (auto simp: accept_discovery_def Let_def acceptance_rows_def push_audit_def publish_def upserted_def send_def
        index_relationship_def split: option.split intro!: store.equality)
qed

lemma advances_accept: "advances st (snd (accept_discovery h now acc st))"
proof -
  have "advances st ((push_audit a n (write_rows rows st))\<lparr>s_proposals := ps\<rparr>)" for a n rows ps
    by (rule advances_cong [OF advances_push_audit [OF advances_write_rows [of st rows], of a n]]) simp_all
  then show ?thesis by (simp add: accept_discovery_eq split: option.split)
qed

lemma push_audit_frame [simp]:
  "s_proposals (push_audit a n st) = s_proposals st" "s_discoveries (push_audit a n st) = s_discoveries st"
  "s_rels (push_audit a n st) = s_rels st" "s_memories (push_audit a n st) = s_memories st"
  "s_audits (push_audit a n st) = s_audits st @ [audit_value a n]" "s_lsn (push_audit a n st) = s_lsn st"
  "s_feed (push_audit a n st) = s_feed st"
  by (simp_all add: push_audit_def)

lemma discoveries_ok_accept: "discoveries_ok st \<Longrightarrow> discoveries_ok (snd (accept_discovery h now acc st))"
  by (auto simp: accept_discovery_eq discoveries_ok_def hm_contains_def split: option.split)

section \<open>Properties\<close>

text \<open>
  C15: acceptance is exactly the proposal, whole or not at all.  An acceptance succeeds precisely
  when an unconsumed proposal with that id has its region and caller scope, the endpoints, kind and
  visibility of its edge, the organisation of the region and the user of the scope are those of the
  audit event, and the edge is not wider than the scope may see.  Then the edge and its inverse
  companion are written as the next rows, the audit row is added under the number of the edge, the
  memories are untouched and the proposal is consumed.  Otherwise nothing changes, and the error
  says whether there was an open proposal.
\<close>

theorem acceptance_exact:
  assumes "accept_discovery h now acc st = (res, st')"
  shows "((\<exists>rec. res = Inr rec) \<longleftrightarrow>
      (\<exists>p. get_discovery_proposal (da_discovery_id acc) st = Some p \<and>
        da_region acc = dp_region p \<and> da_caller_scope acc = dp_caller_scope p \<and>
        r_from (da_relationship acc) = dp_from p \<and> r_to (da_relationship acc) = dp_to p \<and>
        r_kind (da_relationship acc) = dp_kind p \<and> r_visibility (da_relationship acc) = dp_proposed_visibility p \<and>
        ae_org_id (da_audit acc) = rk_org (dp_region p) \<and> ae_actor (da_audit acc) = vc_user_id (dp_caller_scope p) \<and>
        r_visibility (da_relationship acc) \<le> vc_max_visibility (da_caller_scope acc))) \<and>
    (\<forall>rec. res = Inr rec \<longrightarrow>
       cr_lsn rec = s_lsn st + 1 \<and>
       s_rels st' = s_rels (write_rows (acceptance_rows h (s_ontology st) (da_relationship acc)) st) \<and>
       s_feed st' = s_feed (write_rows (acceptance_rows h (s_ontology st) (da_relationship acc)) st) \<and>
       s_audits st' = s_audits st @ [audit_value (da_audit acc) (cr_lsn rec)] \<and>
       s_memories st' = s_memories st \<and> get_discovery_proposal (da_discovery_id acc) st' = None) \<and>
    (\<forall>e. res = Inl e \<longrightarrow> st' = st \<and>
       e = (if get_discovery_proposal (da_discovery_id acc) st = None then ProposalNotFound else ProposalMismatch))"
proof (cases "get_discovery_proposal (da_discovery_id acc) st")
  case None
  with assms show ?thesis
    by (auto simp: accept_discovery_eq get_discovery_proposal_def split: option.splits if_splits)
next
  case (Some p)
  then obtain stored where stored: "hm_get (s_proposals st) (da_discovery_id acc) = Some stored" "\<not> sp_consumed stored" "sp_proposal stored = p"
    by (auto simp: get_discovery_proposal_def split: option.splits if_splits)
  have agree: "\<not> acceptance_mismatch p acc \<longleftrightarrow>
        da_region acc = dp_region p \<and> da_caller_scope acc = dp_caller_scope p \<and>
        r_from (da_relationship acc) = dp_from p \<and> r_to (da_relationship acc) = dp_to p \<and>
        r_kind (da_relationship acc) = dp_kind p \<and> r_visibility (da_relationship acc) = dp_proposed_visibility p \<and>
        ae_org_id (da_audit acc) = rk_org (dp_region p) \<and> ae_actor (da_audit acc) = vc_user_id (dp_caller_scope p) \<and>
        r_visibility (da_relationship acc) \<le> vc_max_visibility (da_caller_scope acc)"
    unfolding acceptance_mismatch_def Let_def by (auto simp: not_less)
  have mems: "s_memories (write_rows (acceptance_rows h onto r) st) = s_memories st" for onto r
    by (simp add: acceptance_rows_def split: option.split)
  show ?thesis
  proof (cases "acceptance_mismatch p acc")
    case True
    with assms stored Some agree show ?thesis by (auto simp: accept_discovery_eq)
  next
    case False
    then have run: "res = Inr (commit_at (s_lsn st + 1) now)"
      "st' = (push_audit (da_audit acc) (s_lsn st + 1)
              (write_rows (acceptance_rows h (s_ontology st) (da_relationship acc)) st))
           \<lparr>s_proposals := hm_insert (da_discovery_id acc) (stored\<lparr>sp_consumed := True\<rparr>) (s_proposals st)\<rparr>"
      using assms stored by (simp_all add: accept_discovery_eq)
    have "\<exists>q. get_discovery_proposal (da_discovery_id acc) st = Some q \<and>
        da_region acc = dp_region q \<and> da_caller_scope acc = dp_caller_scope q \<and>
        r_from (da_relationship acc) = dp_from q \<and> r_to (da_relationship acc) = dp_to q \<and>
        r_kind (da_relationship acc) = dp_kind q \<and> r_visibility (da_relationship acc) = dp_proposed_visibility q \<and>
        ae_org_id (da_audit acc) = rk_org (dp_region q) \<and> ae_actor (da_audit acc) = vc_user_id (dp_caller_scope q) \<and>
        r_visibility (da_relationship acc) \<le> vc_max_visibility (da_caller_scope acc)"
      using False agree Some by blast
    then show ?thesis unfolding run by (simp add: commit_at_def mems get_discovery_proposal_def)
  qed
qed

text \<open>
  a discovery is accepted at most once.  After an acceptance no other acceptance with that id
  succeeds, the proposal is no longer readable, and neither a new proposal nor a new discovery
  can be stored under the id; each of these attempts leaves the store as it is.
\<close>

theorem acceptance_once:
  assumes "discoveries_ok st" "accept_discovery h now acc st = (Inr rec, st')"
  shows "(\<forall>now' acc'. da_discovery_id acc' = da_discovery_id acc \<longrightarrow>
       accept_discovery h now' acc' st' = (Inl ProposalNotFound, st')) \<and>
    get_discovery_proposal (da_discovery_id acc) st' = None \<and>
    get_discovery (da_discovery_id acc) st' = None \<and>
    (\<forall>p. dp_discovery_id p = da_discovery_id acc \<longrightarrow>
       (\<exists>e. create_discovery_proposal p st' = (Inl e, st'))) \<and>
    (\<forall>d. dr_discovery_id d = da_discovery_id acc \<longrightarrow> store_discovery d st' = (Inl ProposalMismatch, st'))"
proof -
  obtain stored where "hm_get (s_proposals st') (da_discovery_id acc) = Some stored" "sp_consumed stored"
    using assms(2) by (auto simp: accept_discovery_eq split: option.splits if_splits)
  moreover have "discoveries_ok st'" using discoveries_ok_accept [OF assms(1)] assms(2) by (metis snd_conv)
  ultimately show ?thesis
    by (auto simp: accept_discovery_eq get_discovery_proposal_def get_discovery_def create_discovery_proposal_def
        store_discovery_def discoveries_ok_def hm_contains_def)
qed

definition sample_region :: region_key where
  "sample_region = \<lparr>rk_org = ''acme'', rk_project = ''*'', rk_memory_type = 0\<rparr>"

definition sample_discovery :: discovery_record where
  "sample_discovery =
     \<lparr>dr_discovery_id = ''d1'', dr_region = sample_region, dr_from = MemoryId [1], dr_to = MemoryId [2],
      dr_discovery_type = ''bridge'', dr_quality = f32_one, dr_via_types = [], dr_discovery_cycle_id = ''c1'',
      dr_discovered_at = 0\<rparr>"

definition sample_proposal :: discovery_proposal where
  "sample_proposal =
     \<lparr>dp_discovery_id = ''d1'', dp_region = sample_region, dp_from = MemoryId [1], dp_to = MemoryId [2],
      dp_kind = CAUSES, dp_proposed_visibility = Org, dp_caller_scope = sample_vc, dp_issued_at = 0\<rparr>"

definition sample_audit :: audit_event where
  "sample_audit =
     \<lparr>ae_action = ''accept'', ae_actor = ''u'', ae_org_id = ''acme'', ae_input_digest = [], ae_output_ids = [],
      ae_fingerprint = [], ae_lease_epoch = None, ae_recorded_at = 0\<rparr>"

definition sample_acceptance :: discovery_acceptance where
  "sample_acceptance =
     \<lparr>da_discovery_id = ''d1'', da_region = sample_region, da_caller_scope = sample_vc,
      da_relationship = sample_link, da_audit = sample_audit\<rparr>"

definition sample_proposed :: store where
  "sample_proposed = snd (create_discovery_proposal sample_proposal (snd (store_discovery sample_discovery sample_store)))"

lemma sample_proposed_get:
  "hm_get (s_proposals sample_proposed) ''d1'' = Some \<lparr>sp_proposal = sample_proposal, sp_consumed = False\<rparr>"
  by (simp add: sample_proposed_def store_discovery_eq sample_discovery_def sample_proposal_def sample_region_def
      create_discovery_proposal_def sample_vc_def less_visibility_def)

lemma sample_proposed_ok: "discoveries_ok sample_proposed"
  unfolding sample_proposed_def
  by (intro discoveries_ok_create discoveries_ok_store) (simp add: discoveries_ok_def)

lemma sample_matches: "\<not> acceptance_mismatch sample_proposal sample_acceptance"
  by (simp add: acceptance_mismatch_def sample_proposal_def sample_acceptance_def sample_edge_def sample_region_def
      sample_audit_def sample_vc_def less_visibility_def Let_def)

lemma sample_accepted: "\<exists>rec st'. accept_discovery id 0 sample_acceptance sample_proposed = (Inr rec, st')"
  using sample_matches sample_proposed_get by (simp add: accept_discovery_eq) (simp add: sample_acceptance_def)

theorem acceptance_exact_witness:
  "\<exists>rec st'. accept_discovery id 0 sample_acceptance sample_proposed = (Inr rec, st') \<and>
     s_audits st' = s_audits sample_proposed @ [audit_value sample_audit (cr_lsn rec)]"
proof -
  obtain rec st' where run: "accept_discovery id 0 sample_acceptance sample_proposed = (Inr rec, st')"
    using sample_accepted by blast
  from acceptance_exact [OF run] run show ?thesis by (auto simp: sample_acceptance_def)
qed

theorem acceptance_once_witness:
  "\<exists>rec st'. accept_discovery id 0 sample_acceptance sample_proposed = (Inr rec, st') \<and>
     accept_discovery id 1 sample_acceptance st' = (Inl ProposalNotFound, st') \<and>
     store_discovery sample_discovery st' = (Inl ProposalMismatch, st')"
proof -
  obtain rec st' where run: "accept_discovery id 0 sample_acceptance sample_proposed = (Inr rec, st')"
    using sample_accepted by blast
  have "dr_discovery_id sample_discovery = da_discovery_id sample_acceptance"
    by (simp add: sample_discovery_def sample_acceptance_def)
  with acceptance_once [OF sample_proposed_ok run] run show ?thesis by blast
qed

end
