(* ===== verification/Mem_Cycle.thy ===== *)
theory Mem_Cycle
  imports Mem_Discovery
begin

text \<open>
  Fenced owner cycles (\<open>in_memory.rs\<close>): batches committed under a lease, the durable journal
  of the sequence numbers a cycle owns, its rollback, and the settlement that persists a cycle's
  discoveries and its success identity in one step.
\<close>

section \<open>Fenced batches\<close>

text \<open>Which numbers a batch assigned to which id.\<close>

fun tally :: "invalidation \<Rightarrow> fenced_batch_commit \<Rightarrow> fenced_batch_commit" where
  "tally (MemoryUpserted i n) c = c\<lparr>fb_memory_lsns := bt_extend i {n} (fb_memory_lsns c)\<rparr>"
| "tally (RelationshipUpserted i f t k n) c =
     c\<lparr>fb_relationship_lsns := bt_extend i {n} (fb_relationship_lsns c)\<rparr>"
| "tally _ c = c"

definition tally_all :: "commit_record list \<Rightarrow> invalidation list \<Rightarrow> fenced_batch_commit" where
  "tally_all records invs =
     fold tally invs \<lparr>fb_records = records, fb_memory_lsns = [], fb_relationship_lsns = []\<rparr>"

definition upsert_batch_fenced ::
    "(byte list \<Rightarrow> byte list) \<Rightarrow> instant \<Rightarrow> memory list \<Rightarrow> relationship list \<Rightarrow> owner_lease \<Rightarrow> store \<Rightarrow>
     fenced_batch_commit outcome" where
  "upsert_batch_fenced h now ms rs lease st =
     (case check_lease_current now lease st of
        Inl e \<Rightarrow> (Inl e, st)
      | Inr _ \<Rightarrow>
        (case upsert_batch_locked h now ms rs st of
           Inl e \<Rightarrow> (Inl e, st)
         | Inr (records, invs, st1) \<Rightarrow> (Inr (tally_all records invs), publish invs st1)))"

definition delete_memory_fenced :: "instant \<Rightarrow> memory_id \<Rightarrow> owner_lease \<Rightarrow> store \<Rightarrow> commit_record outcome" where
  "delete_memory_fenced now i lease st =
     (case check_lease_current now lease st of
        Inl e \<Rightarrow> (Inl e, st)
      | Inr _ \<Rightarrow>
        (let (rec, st1) = delete_memory_locked now i st
         in (Inr rec, send (MemoryDeleted i (cr_lsn rec)) st1)))"

section \<open>The cycle journal\<close>

definition journal_conflict :: "string \<Rightarrow> lease_key \<Rightarrow> store \<Rightarrow> cycle_journal_record option" where
  "journal_conflict cycle_id key st =
     (case hm_get (s_cycle_journals st) key of
        None \<Rightarrow> None
      | Some active \<Rightarrow>
        if cj_state active = ActiveJournal \<and> cj_cycle_id active \<noteq> cycle_id then Some active else None)"

text \<open>The journal entry after a batch: the prepared preimages merged in, the new numbers owned.\<close>

definition journal_batch ::
    "string \<Rightarrow> owner_lease \<Rightarrow> fenced_restore \<Rightarrow> fenced_batch_commit \<Rightarrow> cycle_journal_record option \<Rightarrow>
     cycle_journal_record" where
  "journal_batch cycle_id lease prepared committed existing =
     (let journal = (case existing of
            Some j \<Rightarrow> j
          | None \<Rightarrow> \<lparr>cj_cycle_id = cycle_id, cj_lease_key = ol_key lease, cj_lease_epoch = ol_epoch lease,
                     cj_restore = empty_restore, cj_state = ActiveJournal\<rparr>);
          merged = restore_merge (cj_restore journal) prepared;
          owned = merged
            \<lparr>fr_owned_memory_lsns := extend_lsns (fb_memory_lsns committed) (fr_owned_memory_lsns merged),
             fr_owned_relationship_lsns :=
               extend_lsns (fb_relationship_lsns committed) (fr_owned_relationship_lsns merged)\<rparr>
      in journal\<lparr>cj_cycle_id := cycle_id, cj_lease_epoch := ol_epoch lease, cj_state := ActiveJournal,
                 cj_restore := owned\<rparr>)"

definition upsert_batch_fenced_journaled ::
    "(byte list \<Rightarrow> byte list) \<Rightarrow> instant \<Rightarrow> memory list \<Rightarrow> relationship list \<Rightarrow> fenced_restore \<Rightarrow> string \<Rightarrow>
     owner_lease \<Rightarrow> store \<Rightarrow> fenced_batch_commit outcome" where
  "upsert_batch_fenced_journaled h now ms rs prepared cycle_id lease st =
     (case check_lease_current now lease st of
        Inl e \<Rightarrow> (Inl e, st)
      | Inr _ \<Rightarrow>
        (case journal_conflict cycle_id (ol_key lease) st of
           Some active \<Rightarrow>
             (Inl (Backend (''active cycle '' @ cj_cycle_id active @ '' requires recovery before '' @ cycle_id)), st)
         | None \<Rightarrow>
           (case upsert_batch_locked h now ms rs st of
              Inl e \<Rightarrow> (Inl e, st)
            | Inr (records, invs, st1) \<Rightarrow>
              (let committed = tally_all records invs;
                   journal = journal_batch cycle_id lease prepared committed
                     (hm_get (s_cycle_journals st1) (ol_key lease));
                   st2 = st1\<lparr>s_cycle_journals := hm_insert (ol_key lease) journal (s_cycle_journals st1)\<rparr>
               in (Inr committed, publish invs st2)))))"

definition get_active_cycle_journal :: "lease_key \<Rightarrow> store \<Rightarrow> cycle_journal_record option" where
  "get_active_cycle_journal key st =
     (case hm_get (s_cycle_journals st) key of
        None \<Rightarrow> None
      | Some j \<Rightarrow> if cj_state j = ActiveJournal then Some j else None)"

definition complete_cycle_journal_fenced :: "instant \<Rightarrow> string \<Rightarrow> owner_lease \<Rightarrow> store \<Rightarrow> unit outcome" where
  "complete_cycle_journal_fenced now cycle_id lease st =
     (case check_lease_current now lease st of
        Inl e \<Rightarrow> (Inl e, st)
      | Inr _ \<Rightarrow>
        (case hm_get (s_cycle_journals st) (ol_key lease) of
           None \<Rightarrow> (Inl (Backend ''cycle journal not found''), st)
         | Some journal \<Rightarrow>
           if cj_cycle_id journal \<noteq> cycle_id then (Inl (Backend ''cycle journal identity mismatch''), st)
           else
             (Inr (), st\<lparr>s_cycle_journals :=
                hm_insert (ol_key lease) (journal\<lparr>cj_state := CompletedJournal\<rparr>) (s_cycle_journals st)\<rparr>)))"

section \<open>Rollback\<close>

record undo =
  u_memories :: "(memory_id, memory list) hmap"
  u_rels :: "(relationship_id, relationship list) hmap"
  u_next :: nat
  u_records :: "commit_record list"
  u_invalidations :: "invalidation list"

text \<open>The \<open>record\<close> closure: the next number and its commit record.\<close>

definition undo_record :: "instant \<Rightarrow> undo \<Rightarrow> undo" where
  "undo_record now u = u\<lparr>u_next := u_next u + 1, u_records := u_records u @ [commit_at (u_next u + 1) now]\<rparr>"

definition undo_memory :: "instant \<Rightarrow> memory_id \<times> nat set \<Rightarrow> undo \<Rightarrow> undo" where
  "undo_memory now e u =
     (case e of (i, owned) \<Rightarrow>
       case hm_get (u_memories u) i of
         None \<Rightarrow> u
       | Some hist \<Rightarrow>
         (let kept = filter (\<lambda>v. lsn_value (m_lsn v) \<notin> owned) hist in
          if length kept = length hist then u
          else
            (let u1 = undo_record now u; n = u_next u1 in
             if kept = [] then
               u1\<lparr>u_memories := hm_remove i (u_memories u1),
                  u_invalidations := u_invalidations u1 @ [MemoryDeleted i n]\<rparr>
             else
               u1\<lparr>u_memories := hm_insert i kept (u_memories u1),
                  u_invalidations := u_invalidations u1 @ [MemoryUpserted i n]\<rparr>)))"

definition undo_relationship :: "instant \<Rightarrow> relationship_id \<times> nat set \<Rightarrow> undo \<Rightarrow> undo" where
  "undo_relationship now e u =
     (case e of (i, owned) \<Rightarrow>
       case hm_get (u_rels u) i of
         None \<Rightarrow> u
       | Some hist \<Rightarrow>
         (let kept = filter (\<lambda>v. lsn_value (r_lsn v) \<notin> owned) hist in
          if length kept = length hist then u
          else
            (let u1 = undo_record now u; n = u_next u1 in
             case last_opt kept of
               Some current \<Rightarrow>
                 u1\<lparr>u_rels := hm_insert i kept (u_rels u1),
                    u_invalidations := u_invalidations u1
                      @ [RelationshipUpserted i (r_from current) (r_to current) (r_kind current) n]\<rparr>
             | None \<Rightarrow>
                 u1\<lparr>u_rels := hm_remove i (u_rels u1),
                    u_invalidations := u_invalidations u1 @ [RelationshipDeleted i n]\<rparr>)))"

definition undo_all :: "instant \<Rightarrow> fenced_restore \<Rightarrow> store \<Rightarrow> undo" where
  "undo_all now restore st =
     fold (undo_relationship now) (fr_owned_relationship_lsns restore)
       (fold (undo_memory now) (fr_owned_memory_lsns restore)
         \<lparr>u_memories = s_memories st, u_rels = s_rels st, u_next = s_lsn st, u_records = [], u_invalidations = []\<rparr>)"

definition restore_fenced :: "instant \<Rightarrow> fenced_restore \<Rightarrow> owner_lease \<Rightarrow> store \<Rightarrow> commit_record list outcome" where
  "restore_fenced now restore lease st =
     (case check_lease_current now lease st of
        Inl e \<Rightarrow> (Inl e, st)
      | Inr _ \<Rightarrow>
        (let u = undo_all now restore st in
         (Inr (u_records u),
          publish (u_invalidations u) (st\<lparr>s_lsn := u_next u, s_memories := u_memories u, s_rels := u_rels u\<rparr>))))"

section \<open>Settlement\<close>

definition cycle_succeeded :: "lease_key \<Rightarrow> string \<Rightarrow> store \<Rightarrow> bool" where
  "cycle_succeeded key cycle_id st = hm_contains (s_succeeded_cycles st) (key, cycle_id)"

definition cycle_succeeded_fenced :: "instant \<Rightarrow> string \<Rightarrow> owner_lease \<Rightarrow> store \<Rightarrow> storage_error + bool" where
  "cycle_succeeded_fenced now cycle_id lease st =
     (case check_lease_current now lease st of
        Inl e \<Rightarrow> Inl e
      | Inr _ \<Rightarrow> Inr (hm_contains (s_succeeded_cycles st) (ol_key lease, cycle_id)))"

text \<open>\<open>content_digest_hex\<close> of the wire crate, over its digest.\<close>

definition content_digest_hex :: "(byte list \<Rightarrow> byte list) \<Rightarrow> byte list \<Rightarrow> string" where
  "content_digest_hex digest bytes = hex (digest bytes)"

text \<open>The JSON encoder is a parameter; its error is the text of the source's \<open>Backend\<close> error.\<close>

definition dreams_settlement_effect_digest ::
    "(byte list \<Rightarrow> byte list) \<Rightarrow> (discovery_record list \<Rightarrow> string + byte list) \<Rightarrow> discovery_record list \<Rightarrow>
     storage_error + string" where
  "dreams_settlement_effect_digest digest json records =
     (let ordered = sort_key dr_discovery_id records in
      if list_ex (\<lambda>(a, b). dr_discovery_id a = dr_discovery_id b) (zip ordered (tl ordered))
      then Inl ProposalMismatch
      else
        (case json ordered of
           Inl e \<Rightarrow> Inl (Backend e)
         | Inr encoded \<Rightarrow> Inr (content_digest_hex digest encoded)))"

definition settlement_clash :: "store \<Rightarrow> discovery_record \<Rightarrow> bool" where
  "settlement_clash st d =
     (hm_contains (s_proposals st) (dr_discovery_id d)
      \<or> (case hm_get (s_discoveries st) (dr_discovery_id d) of
           None \<Rightarrow> False | Some stored \<Rightarrow> \<not> discovery_eq stored d))"

fun settle_discoveries :: "discovery_record list \<Rightarrow> store \<Rightarrow> invalidation list \<times> store" where
  "settle_discoveries [] st = ([], st)"
| "settle_discoveries (d # ds) st =
     (if hm_contains (s_discoveries st) (dr_discovery_id d) then settle_discoveries ds st
      else
        (let n = s_lsn st + 1;
             st1 = st\<lparr>s_discoveries := hm_insert (dr_discovery_id d) d (s_discoveries st), s_lsn := n\<rparr>;
             (invs, st2) = settle_discoveries ds st1
         in (DiscoveryAvailable d n # invs, st2)))"

definition settle_dreams_cycle_fenced ::
    "(byte list \<Rightarrow> byte list) \<Rightarrow> (discovery_record list \<Rightarrow> string + byte list) \<Rightarrow> instant \<Rightarrow> string \<Rightarrow>
     discovery_record list \<Rightarrow> owner_lease \<Rightarrow> store \<Rightarrow> unit outcome" where
  "settle_dreams_cycle_fenced digest json now cycle_id records lease st =
     (case dreams_settlement_effect_digest digest json records of
        Inl e \<Rightarrow> (Inl e, st)
      | Inr effect_digest \<Rightarrow>
        (case check_lease_current now lease st of
           Inl e \<Rightarrow> (Inl e, st)
         | Inr _ \<Rightarrow>
           (case hm_get (s_succeeded_cycles st) (ol_key lease, cycle_id) of
              Some stored \<Rightarrow> if stored = effect_digest then (Inr (), st) else (Inl ProposalMismatch, st)
            | None \<Rightarrow>
              if journal_conflict cycle_id (ol_key lease) st \<noteq> None then
                (Inl (Backend ''another active Dreams cycle requires recovery''), st)
              else if list_ex (settlement_clash st) records then (Inl ProposalMismatch, st)
              else
                (let (invs, st1) = settle_discoveries records st;
                     tombstone = \<lparr>cj_cycle_id = cycle_id, cj_lease_key = ol_key lease, cj_lease_epoch = ol_epoch lease,
                                  cj_restore = empty_restore, cj_state = CompletedJournal\<rparr>;
                     st2 = st1\<lparr>s_cycle_journals := hm_insert (ol_key lease) tombstone (s_cycle_journals st1),
                               s_succeeded_cycles :=
                                 hm_insert (ol_key lease, cycle_id) effect_digest (s_succeeded_cycles st1)\<rparr>
                 in (Inr (), publish invs st2)))))"

section \<open>What a batch owns\<close>

lemma tally_all_memory:
  "bt_set (fb_memory_lsns (fold tally invs c)) i = bt_set (fb_memory_lsns c) i \<union> {n. MemoryUpserted i n \<in> set invs}"
proof (induction invs arbitrary: c)
  case (Cons x invs)
  show ?case by (cases x) (auto simp: Cons.IH)
qed simp

lemma tally_all_relationship:
  "bt_set (fb_relationship_lsns (fold tally invs c)) i =
     bt_set (fb_relationship_lsns c) i \<union> {n. \<exists>f t k. RelationshipUpserted i f t k n \<in> set invs}"
proof (induction invs arbitrary: c)
  case (Cons x invs)
  show ?case by (cases x) (auto simp: Cons.IH)
qed simp

lemma tally_ok:
  "bt_ok (fb_memory_lsns c) \<Longrightarrow> bt_ok (fb_memory_lsns (fold tally invs c))"
  "bt_ok (fb_relationship_lsns c) \<Longrightarrow> bt_ok (fb_relationship_lsns (fold tally invs c))"
proof (induction invs arbitrary: c)
  case (Cons x invs)
  { case 1 then show ?case using Cons.IH by (cases x) simp_all }
  { case 2 then show ?case using Cons.IH by (cases x) simp_all }
qed simp_all

text \<open>
  Writing rows extends every history by versions whose numbers are new and are exactly the ones
  the feed announces for that id.
\<close>

lemma write_rows_memory_tail:
  "\<exists>new. hist_of (s_memories (write_rows xs st)) i = hist_of (s_memories st) i @ new \<and>
     (\<forall>v\<in>set new. s_lsn st < lsn_value (m_lsn v) \<and>
        MemoryUpserted i (lsn_value (m_lsn v)) \<in> set (drop (length (s_feed st)) (s_feed (write_rows xs st))))"
proof (induction xs rule: rev_induct)
  case Nil
  show ?case by simp
next
  case (snoc x xs)
  then obtain new where new: "hist_of (s_memories (write_rows xs st)) i = hist_of (s_memories st) i @ new"
    "\<forall>v\<in>set new. s_lsn st < lsn_value (m_lsn v) \<and>
       MemoryUpserted i (lsn_value (m_lsn v)) \<in> set (drop (length (s_feed st)) (s_feed (write_rows xs st)))" by blast
  have pre: "prefix (s_feed st) (s_feed (write_rows xs st))"
    using grows_write_rows [of st xs] by (simp add: grows_def)
  then obtain z where z: "s_feed (write_rows xs st) = s_feed st @ z" by (auto simp: prefix_def)
  show ?case
  proof (cases x)
    case (MRow m)
    then show ?thesis using new z
      by (cases "m_id m = i") (intro exI [of _ "new @ [stamp_memory (s_lsn (write_rows xs st) + 1) m]"], auto)
  next
    case (RRow r)
    then show ?thesis using new z by (intro exI [of _ new]) auto
  qed
qed

lemma write_rows_relationship_tail:
  "\<exists>new. hist_of (s_rels (write_rows xs st)) i = hist_of (s_rels st) i @ new \<and>
     (\<forall>v\<in>set new. s_lsn st < lsn_value (r_lsn v) \<and>
        (\<exists>f t k. RelationshipUpserted i f t k (lsn_value (r_lsn v)) \<in>
           set (drop (length (s_feed st)) (s_feed (write_rows xs st)))))"
proof (induction xs rule: rev_induct)
  case Nil
  show ?case by simp
next
  case (snoc x xs)
  then obtain new where new: "hist_of (s_rels (write_rows xs st)) i = hist_of (s_rels st) i @ new"
    "\<forall>v\<in>set new. s_lsn st < lsn_value (r_lsn v) \<and>
       (\<exists>f t k. RelationshipUpserted i f t k (lsn_value (r_lsn v)) \<in>
          set (drop (length (s_feed st)) (s_feed (write_rows xs st))))" by blast
  have pre: "prefix (s_feed st) (s_feed (write_rows xs st))"
    using grows_write_rows [of st xs] by (simp add: grows_def)
  then obtain z where z: "s_feed (write_rows xs st) = s_feed st @ z" by (auto simp: prefix_def)
  show ?case
  proof (cases x)
    case (RRow r)
    show ?thesis
    proof (cases "r_id r = i")
      case True
      then show ?thesis using RRow new z
        by (intro exI [of _ "new @ [stamp_relationship (s_lsn (write_rows xs st) + 1) r]"]) (auto simp: upserted_def, blast)
    next
      case False
      then show ?thesis using RRow new z by (intro exI [of _ new]) (auto, blast)
    qed
  next
    case (MRow m)
    then show ?thesis using new z by (intro exI [of _ new]) auto
  qed
qed

lemma write_rows_feed_lsns:
  "\<forall>e\<in>set (drop (length (s_feed st)) (s_feed (write_rows xs st))). s_lsn st < lsn_of e"
proof (induction xs rule: rev_induct)
  case (snoc x xs)
  have "prefix (s_feed st) (s_feed (write_rows xs st))"
    using grows_write_rows [of st xs] by (simp add: grows_def)
  then obtain z where z: "s_feed (write_rows xs st) = s_feed st @ z" by (auto simp: prefix_def)
  with snoc show ?case by (cases x) (auto simp: upserted_def)
qed simp

section \<open>Rollback as a filter\<close>

lemma undo_memory_hist:
  assumes "hm_ok (u_memories u)"
  shows "hm_ok (u_memories (undo_memory now (k, owned) u))"
    and "hist_of (u_memories (undo_memory now (k, owned) u)) i =
      (if i = k then filter (\<lambda>v. lsn_value (m_lsn v) \<notin> owned) (hist_of (u_memories u) k)
       else hist_of (u_memories u) i)"
    and "u_rels (undo_memory now (k, owned) u) = u_rels u"
  using assms
  by (auto simp: undo_memory_def undo_record_def hist_of_def Let_def split: option.splits dest!: filter_same_length)

lemma undo_relationship_hist:
  assumes "hm_ok (u_rels u)"
  shows "hm_ok (u_rels (undo_relationship now (k, owned) u))"
    and "hist_of (u_rels (undo_relationship now (k, owned) u)) i =
      (if i = k then filter (\<lambda>v. lsn_value (r_lsn v) \<notin> owned) (hist_of (u_rels u) k)
       else hist_of (u_rels u) i)"
    and "u_memories (undo_relationship now (k, owned) u) = u_memories u"
  using assms
  by (auto simp: undo_relationship_def undo_record_def hist_of_def Let_def last_opt_def
      split: option.splits dest!: filter_same_length)

lemma undo_memories:
  assumes "hm_ok (u_memories u)" "distinct (map fst es)"
  shows "hm_ok (u_memories (fold (undo_memory now) es u)) \<and>
    hist_of (u_memories (fold (undo_memory now) es u)) i =
      filter (\<lambda>v. lsn_value (m_lsn v) \<notin> bt_set es i) (hist_of (u_memories u) i) \<and>
    u_rels (fold (undo_memory now) es u) = u_rels u"
  using assms
proof (induction es arbitrary: u)
  case (Cons e es)
  obtain k owned where e: "e = (k, owned)" by (cases e)
  note step = undo_memory_hist [OF Cons.prems(1), of now k owned]
  have "map_of es k = None" using Cons.prems(2) by (simp add: e map_of_eq_None_iff)
  then show ?case
    using Cons.IH [OF step(1)] Cons.prems(2) step(2,3) by (simp add: e bt_set_def)
qed simp

lemma undo_relationships:
  assumes "hm_ok (u_rels u)" "distinct (map fst es)"
  shows "hm_ok (u_rels (fold (undo_relationship now) es u)) \<and>
    hist_of (u_rels (fold (undo_relationship now) es u)) i =
      filter (\<lambda>v. lsn_value (r_lsn v) \<notin> bt_set es i) (hist_of (u_rels u) i) \<and>
    u_memories (fold (undo_relationship now) es u) = u_memories u"
  using assms
proof (induction es arbitrary: u)
  case (Cons e es)
  obtain k owned where e: "e = (k, owned)" by (cases e)
  note step = undo_relationship_hist [OF Cons.prems(1), of now k owned]
  have "map_of es k = None" using Cons.prems(2) by (simp add: e map_of_eq_None_iff)
  then show ?case
    using Cons.IH [OF step(1)] Cons.prems(2) step(2,3) by (simp add: e bt_set_def)
qed simp

text \<open>A well-formed rollback record: both maps of owned numbers are ordered maps.\<close>

definition restore_ok :: "fenced_restore \<Rightarrow> bool" where
  "restore_ok r \<longleftrightarrow> bt_ok (fr_owned_memory_lsns r) \<and> bt_ok (fr_owned_relationship_lsns r)"

lemma restore_histories:
  assumes "graph_ok st" "restore_ok r" "restore_fenced now r lease st = (Inr recs, st')"
  shows "memory_history st' i =
      filter (\<lambda>v. lsn_value (m_lsn v) \<notin> bt_set (fr_owned_memory_lsns r) i) (memory_history st i)"
    and "relationship_history st' j =
      filter (\<lambda>v. lsn_value (r_lsn v) \<notin> bt_set (fr_owned_relationship_lsns r) j) (relationship_history st j)"
proof -
  let ?u0 = "\<lparr>u_memories = s_memories st, u_rels = s_rels st, u_next = s_lsn st, u_records = [], u_invalidations = []\<rparr>"
  let ?u1 = "fold (undo_memory now) (fr_owned_memory_lsns r) ?u0"
  have hm: "hm_ok (s_memories st)" "hm_ok (s_rels st)"
    using assms(1) by (simp_all add: graph_ok_def rows_ok_def)
  have d: "distinct (map fst (fr_owned_memory_lsns r))" "distinct (map fst (fr_owned_relationship_lsns r))"
    using assms(2) by (auto simp: restore_ok_def dest: bt_ok_distinct)
  have st': "s_memories st' = u_memories (undo_all now r st)" "s_rels st' = u_rels (undo_all now r st)"
    using assms(3) by (auto simp: restore_fenced_def publish_eq Let_def split: sum.splits)
  show "memory_history st' i =
      filter (\<lambda>v. lsn_value (m_lsn v) \<notin> bt_set (fr_owned_memory_lsns r) i) (memory_history st i)"
    using undo_memories [of ?u0 "fr_owned_memory_lsns r" now i] hm d
      undo_relationships [of ?u1 "fr_owned_relationship_lsns r" now]
    by (simp add: memory_history_hist st' undo_all_def)
  show "relationship_history st' j =
      filter (\<lambda>v. lsn_value (r_lsn v) \<notin> bt_set (fr_owned_relationship_lsns r) j) (relationship_history st j)"
    using undo_memories [of ?u0 "fr_owned_memory_lsns r" now] hm d
      undo_relationships [of ?u1 "fr_owned_relationship_lsns r" now j]
    by (simp add: relationship_history_hist st' undo_all_def)
qed

text \<open>A rollback keeps the invariant of the graph: it only drops versions.\<close>

definition keep_hist :: "('v \<Rightarrow> bool) \<Rightarrow> 'k \<Rightarrow> ('k, 'v list) hmap \<Rightarrow> ('k, 'v list) hmap" where
  "keep_hist P k m =
     (if filter P (hist_of m k) = [] then hm_remove k m else hm_insert k (filter P (hist_of m k)) m)"

lemma keep_hist_of: "hm_ok m \<Longrightarrow> hist_of (keep_hist P k m) i = (if i = k then filter P (hist_of m k) else hist_of m i)"
  by (simp add: keep_hist_def)

lemma keep_hist_lsns: "hm_ok m \<Longrightarrow> row_lsns seq (keep_hist P k m) i \<subseteq> row_lsns seq m i"
  by (auto simp: row_lsns_def keep_hist_of)

lemma lsns_apart_mono:
  assumes "lsns_apart ms rs" "\<And>i. row_lsns m_lsn ms' i \<subseteq> row_lsns m_lsn ms i"
    "\<And>i. row_lsns r_lsn rs' i \<subseteq> row_lsns r_lsn rs i"
  shows "lsns_apart ms' rs'"
  using assms unfolding lsns_apart_def by blast

lemma graph_ok_keep_memory:
  assumes "graph_ok s" "s_lsn s < n" "lsn_of x = n"
  shows "graph_ok (s\<lparr>s_lsn := n, s_memories := keep_hist P k (s_memories s), s_feed := s_feed s @ [x]\<rparr>)"
proof -
  have "rows_ok m_id m_lsn (s_lsn s) (keep_hist P k (s_memories s))"
    unfolding keep_hist_def using assms(1) by (intro mrow.rows_ok_filter) (simp add: graph_ok_def)
  moreover have "lsns_apart (keep_hist P k (s_memories s)) (s_rels s)"
    by (rule lsns_apart_mono [OF _ keep_hist_lsns order_refl]) (use assms(1) in \<open>simp_all add: graph_ok_def rows_ok_def\<close>)
  ultimately show ?thesis
    using assms unfolding graph_ok_def
    by (auto intro: mrow.rows_ok_mono [of "s_lsn s"] rrow.rows_ok_mono [of "s_lsn s"] feed_ok_append [of "s_lsn s"])
qed

lemma index_ok_mono:
  assumes "index_ok rels idx" "\<And>i. set (hist_of rels' i) \<subseteq> set (hist_of rels i)"
    "\<And>n. set (hist_of idx n) \<subseteq> set (hist_of idx' n)"
  shows "index_ok rels' idx'"
  using assms unfolding index_ok_def by blast

lemma graph_ok_keep_relationship:
  assumes "graph_ok s" "s_lsn s < n" "lsn_of x = n" "\<And>k. set (hist_of (s_rels_by_node s) k) \<subseteq> set (hist_of idx k)"
  shows "graph_ok (s\<lparr>s_lsn := n, s_rels := keep_hist P k (s_rels s), s_rels_by_node := idx, s_feed := s_feed s @ [x]\<rparr>)"
proof -
  have hm: "hm_ok (s_rels s)" using assms(1) by (simp add: graph_ok_def rows_ok_def)
  have "rows_ok r_id r_lsn (s_lsn s) (keep_hist P k (s_rels s))"
    unfolding keep_hist_def using assms(1) by (intro rrow.rows_ok_filter) (simp add: graph_ok_def)
  moreover have "lsns_apart (s_memories s) (keep_hist P k (s_rels s))"
    by (rule lsns_apart_mono [OF _ order_refl keep_hist_lsns [OF hm]]) (use assms(1) in \<open>simp add: graph_ok_def\<close>)
  moreover have "index_ok (keep_hist P k (s_rels s)) idx"
    by (rule index_ok_mono [OF _ _ assms(4)]) (use assms(1) in \<open>auto simp: graph_ok_def keep_hist_of [OF hm] split: if_splits\<close>)
  ultimately show ?thesis
    using assms unfolding graph_ok_def
    by (auto intro: mrow.rows_ok_mono [of "s_lsn s"] rrow.rows_ok_mono [of "s_lsn s"] feed_ok_append [of "s_lsn s"])
qed

definition undone :: "store \<Rightarrow> undo \<Rightarrow> store" where
  "undone st u =
     publish (u_invalidations u) (st\<lparr>s_lsn := u_next u, s_memories := u_memories u, s_rels := u_rels u\<rparr>)"

lemma publish_snoc:
  "publish (invs @ [x]) st = send x (index_invalidation x (publish invs st))"
  by simp

lemma index_invalidation_mono:
  "set (hist_of (s_rels_by_node st) n) \<subseteq> set (hist_of (s_rels_by_node (index_invalidation x st)) n)"
proof (cases x)
  case (RelationshipUpserted i f t k l)
  have "set (hist_of (s_rels_by_node st) n) \<subseteq>
      set (hist_of (index_add t i (index_add f i (s_rels_by_node st))) n)"
    by (rule subset_trans [OF index_add_mono index_add_mono])
  with RelationshipUpserted show ?thesis by (simp add: index_relationship_def)
qed simp_all

lemma undone_memory:
  assumes "graph_ok (undone st u)"
  shows "graph_ok (undone st (undo_memory now e u))"
proof -
  obtain i owned where e: "e = (i, owned)" by (cases e)
  let ?P = "\<lambda>v. lsn_value (m_lsn v) \<notin> owned"
  have ok: "graph_ok ((undone st u)\<lparr>s_lsn := u_next u + 1,
      s_memories := keep_hist ?P i (s_memories (undone st u)), s_feed := s_feed (undone st u) @ [x]\<rparr>)"
    if "lsn_of x = u_next u + 1" for x
    by (rule graph_ok_keep_memory [OF assms]) (use that in \<open>simp_all add: undone_def publish_eq\<close>)
  show ?thesis
  proof (cases "hm_get (u_memories u) i")
    case None
    with assms show ?thesis by (simp add: e undo_memory_def)
  next
    case (Some hist)
    show ?thesis
    proof (cases "length (filter ?P hist) = length hist")
      case True
      with assms Some show ?thesis by (simp add: e undo_memory_def Let_def)
    next
      case False
      have h: "hist_of (u_memories u) i = hist" by (simp add: hist_of_def Some)
      let ?x = "if filter ?P hist = [] then MemoryDeleted i (u_next u + 1) else MemoryUpserted i (u_next u + 1)"
      have x: "lsn_of ?x = u_next u + 1" by simp
      show ?thesis
        by (rule graph_ok_cong [OF ok [OF x]])
          (use False in \<open>simp_all add: e undo_memory_def undo_record_def Some Let_def undone_def publish_eq
            keep_hist_def h index_all_def\<close>)
    qed
  qed
qed

lemma undone_relationship:
  assumes "graph_ok (undone st u)"
  shows "graph_ok (undone st (undo_relationship now e u))"
proof -
  obtain i owned where e: "e = (i, owned)" by (cases e)
  let ?P = "\<lambda>v. lsn_value (r_lsn v) \<notin> owned"
  have ok: "graph_ok ((undone st u)\<lparr>s_lsn := u_next u + 1,
      s_rels := keep_hist ?P i (s_rels (undone st u)),
      s_rels_by_node := s_rels_by_node (index_invalidation x (undone st u)),
      s_feed := s_feed (undone st u) @ [x]\<rparr>)"
    if "lsn_of x = u_next u + 1" for x
    by (rule graph_ok_keep_relationship [OF assms _ that index_invalidation_mono]) (simp add: undone_def publish_eq)
  show ?thesis
  proof (cases "hm_get (u_rels u) i")
    case None
    with assms show ?thesis by (simp add: e undo_relationship_def)
  next
    case (Some hist)
    have h: "hist_of (u_rels u) i = hist" by (simp add: hist_of_def Some)
    show ?thesis
    proof (cases "length (filter ?P hist) = length hist")
      case True
      with assms Some show ?thesis by (simp add: e undo_relationship_def Let_def)
    next
      case False
      let ?x = "case last_opt (filter ?P hist) of
          Some cur \<Rightarrow> RelationshipUpserted i (r_from cur) (r_to cur) (r_kind cur) (u_next u + 1)
        | None \<Rightarrow> RelationshipDeleted i (u_next u + 1)"
      have x: "lsn_of ?x = u_next u + 1" by (simp split: option.split)
      show ?thesis
        by (rule graph_ok_cong [OF ok [OF x]])
          (use False in \<open>simp_all add: e undo_relationship_def undo_record_def Some Let_def undone_def publish_eq
            keep_hist_def h index_all_def index_relationship_def last_opt_def\<close>)
    qed
  qed
qed

lemma graph_ok_restore: "graph_ok st \<Longrightarrow> graph_ok (snd (restore_fenced now r lease st))"
proof -
  have m: "graph_ok (undone st u) \<Longrightarrow> graph_ok (undone st (fold (undo_memory now) es u))" for u es
    by (induction es arbitrary: u) (simp_all add: undone_memory)
  have q: "graph_ok (undone st u) \<Longrightarrow> graph_ok (undone st (fold (undo_relationship now) es u))" for u es
    by (induction es arbitrary: u) (simp_all add: undone_relationship)
  assume "graph_ok st"
  then have "graph_ok (undone st \<lparr>u_memories = s_memories st, u_rels = s_rels st, u_next = s_lsn st, u_records = [], u_invalidations = []\<rparr>)"
    by (simp add: undone_def)
  from q [OF m [OF this]] have "graph_ok (undone st (undo_all now r st))" unfolding undo_all_def .
  with \<open>graph_ok st\<close> show ?thesis by (auto simp: restore_fenced_def undone_def Let_def split: sum.split)
qed

section \<open>Journaled batches and settlements\<close>

lemma publish_journal:
  "publish invs (st\<lparr>s_cycle_journals := j\<rparr>) = (publish invs st)\<lparr>s_cycle_journals := j\<rparr>"
  by (simp add: publish_eq)

text \<open>A journaled batch is a batch whose numbers the journal then owns.\<close>

lemma journaled_batch_eq:
  assumes "check_lease_current now lease st = Inr ()" "journal_conflict cycle_id (ol_key lease) st = None"
    "upsert_batch h now ms rs st = (Inr recs, st1)"
  shows "upsert_batch_fenced_journaled h now ms rs prepared cycle_id lease st =
    (Inr (tally_all recs (drop (length (s_feed st)) (s_feed st1))),
     st1\<lparr>s_cycle_journals := hm_insert (ol_key lease)
       (journal_batch cycle_id lease prepared (tally_all recs (drop (length (s_feed st)) (s_feed st1)))
         (hm_get (s_cycle_journals st) (ol_key lease))) (s_cycle_journals st)\<rparr>)"
proof (rule upsert_batch_locked_cases [of st ms rs h now])
  fix invs st2
  assume run: "upsert_batch_locked h now ms rs st =
      Inr (commits (s_lsn st) now (length (batch_rows h (s_ontology st) ms rs)), invs, st2)"
    and eq: "st2 = st\<lparr>s_lsn := s_lsn st2, s_memories := s_memories st2, s_rels := s_rels st2\<rparr>"
  have st1: "recs = commits (s_lsn st) now (length (batch_rows h (s_ontology st) ms rs))" "st1 = publish invs st2"
    using assms(3) run by (auto simp: upsert_batch_def)
  have feed: "s_feed st2 = s_feed st" "s_cycle_journals st2 = s_cycle_journals st"
    by (subst eq, simp)+
  have "drop (length (s_feed st)) (s_feed st1) = invs" by (simp add: st1 publish_eq feed)
  then show ?thesis
    using assms(1,2) run by (simp add: upsert_batch_fenced_journaled_def st1 publish_journal feed Let_def)
qed (use assms in \<open>simp add: upsert_batch_def\<close>)

lemma journaled_batch_cases:
  assumes "upsert_batch_fenced_journaled h now ms rs prepared cycle_id lease st = (res, st')"
  obtains (refused) e where "res = Inl e" "st' = st"
    | (committed) recs st1 where "check_lease_current now lease st = Inr ()"
      "journal_conflict cycle_id (ol_key lease) st = None" "upsert_batch h now ms rs st = (Inr recs, st1)"
proof (cases "check_lease_current now lease st")
  case (Inr u)
  show ?thesis
  proof (cases "journal_conflict cycle_id (ol_key lease) st")
    case None
    show ?thesis
    proof (rule upsert_batch_locked_cases [of st ms rs h now])
      fix invs st1
      assume "upsert_batch_locked h now ms rs st =
        Inr (commits (s_lsn st) now (length (batch_rows h (s_ontology st) ms rs)), invs, st1)"
      then show ?thesis using committed None Inr by (simp add: upsert_batch_def)
    qed (use assms refused Inr None in \<open>auto simp: upsert_batch_fenced_journaled_def\<close>)
  qed (use assms refused Inr in \<open>auto simp: upsert_batch_fenced_journaled_def\<close>)
qed (use assms refused in \<open>auto simp: upsert_batch_fenced_journaled_def\<close>)

lemma advances_journaled: "advances st (snd (upsert_batch_fenced_journaled h now ms rs prepared cycle_id lease st))"
proof -
  obtain res st' where run: "upsert_batch_fenced_journaled h now ms rs prepared cycle_id lease st = (res, st')" by force
  then show ?thesis
  proof (cases rule: journaled_batch_cases)
    case (committed recs st1)
    have "advances st st1" using advances_upsert_batch [of st h now ms rs] committed(3) by simp
    then show ?thesis
      unfolding journaled_batch_eq [OF committed] snd_conv by (rule advances_cong) simp_all
  qed (simp add: run)
qed

lemma upsert_batch_fenced_eq:
  "upsert_batch_fenced h now ms rs lease st =
     (case check_lease_current now lease st of
        Inl e \<Rightarrow> (Inl e, st)
      | Inr _ \<Rightarrow>
        (case upsert_batch h now ms rs st of
           (Inl e, st1) \<Rightarrow> (Inl e, st1)
         | (Inr recs, st1) \<Rightarrow> (Inr (tally_all recs (drop (length (s_feed st)) (s_feed st1))), st1)))"
proof (rule upsert_batch_locked_cases [of st ms rs h now])
  fix invs st2
  assume run: "upsert_batch_locked h now ms rs st =
      Inr (commits (s_lsn st) now (length (batch_rows h (s_ontology st) ms rs)), invs, st2)"
    and eq: "st2 = st\<lparr>s_lsn := s_lsn st2, s_memories := s_memories st2, s_rels := s_rels st2\<rparr>"
  have "s_feed st2 = s_feed st" by (subst eq, simp)
  then show ?thesis
    using run by (auto simp: upsert_batch_fenced_def upsert_batch_def publish_eq split: sum.split)
qed (auto simp: upsert_batch_fenced_def upsert_batch_def split: sum.split)

lemma advances_batch_fenced: "advances st (snd (upsert_batch_fenced h now ms rs lease st))"
  using advances_upsert_batch [of st h now ms rs]
  by (auto simp: upsert_batch_fenced_eq split: sum.split prod.split)

lemma delete_memory_fenced_eq:
  "delete_memory_fenced now i lease st =
     (case check_lease_current now lease st of Inl e \<Rightarrow> (Inl e, st) | Inr _ \<Rightarrow> delete_memory now i st)"
  unfolding delete_memory_fenced_def delete_memory_def by (rule refl)

lemma advances_complete_journal: "advances st (snd (complete_cycle_journal_fenced now cycle_id lease st))"
  by (auto simp: complete_cycle_journal_fenced_def split: sum.split option.split intro!: advances_cong [OF advances_refl])

text \<open>The settlement loop, read as one discovery after the other.\<close>

definition open_discovery :: "discovery_record \<Rightarrow> store \<Rightarrow> store" where
  "open_discovery d s =
     (if hm_contains (s_discoveries s) (dr_discovery_id d) then s
      else s\<lparr>s_lsn := s_lsn s + 1, s_feed := s_feed s @ [DiscoveryAvailable d (s_lsn s + 1)],
             s_discoveries := hm_insert (dr_discovery_id d) d (s_discoveries s)\<rparr>)"

lemma settle_discoveries_feed:
  "settle_discoveries ds (st\<lparr>s_feed := f\<rparr>) =
     (case settle_discoveries ds st of (invs, st1) \<Rightarrow> (invs, st1\<lparr>s_feed := f\<rparr>))"
proof (induction ds arbitrary: st)
  case (Cons d ds)
  let ?s = "st\<lparr>s_discoveries := hm_insert (dr_discovery_id d) d (s_discoveries st), s_lsn := s_lsn st + 1\<rparr>"
  have eq: "st\<lparr>s_feed := f, s_discoveries := hm_insert (dr_discovery_id d) d (s_discoveries st), s_lsn := Suc (s_lsn st)\<rparr> =
      ?s\<lparr>s_feed := f\<rparr>" by simp
  have "settle_discoveries (d # ds) (st\<lparr>s_feed := f\<rparr>) =
      (if hm_contains (s_discoveries st) (dr_discovery_id d) then settle_discoveries ds (st\<lparr>s_feed := f\<rparr>)
       else (case settle_discoveries ds (?s\<lparr>s_feed := f\<rparr>) of
         (invs, st2) \<Rightarrow> (DiscoveryAvailable d (s_lsn st + 1) # invs, st2)))"
    by (simp add: Let_def eq)
  then show ?case
    by (simp only: Cons.IH) (simp add: Let_def split: prod.split)
qed simp

lemma settle_discoveries_publish:
  "settle_discoveries ds st = (invs, st1) \<Longrightarrow> publish invs st1 = fold open_discovery ds st"
proof (induction ds arbitrary: st invs st1)
  case (Cons d ds)
  show ?case
  proof (cases "hm_contains (s_discoveries st) (dr_discovery_id d)")
    case True
    with Cons show ?thesis by (simp add: open_discovery_def)
  next
    case False
    let ?n = "s_lsn st + 1"
    let ?s = "st\<lparr>s_discoveries := hm_insert (dr_discovery_id d) d (s_discoveries st), s_lsn := ?n\<rparr>"
    obtain invs' where r: "settle_discoveries ds ?s = (invs', st1)" "invs = DiscoveryAvailable d ?n # invs'"
      using Cons.prems False by (auto simp: Let_def split: prod.splits)
    let ?f = "s_feed st @ [DiscoveryAvailable d ?n]"
    have feed: "s_feed st1 = s_feed st"
    proof -
      have "settle_discoveries ds (?s\<lparr>s_feed := s_feed st\<rparr>) = (invs', st1\<lparr>s_feed := s_feed st\<rparr>)"
        unfolding settle_discoveries_feed r(1) by simp
      moreover have "?s\<lparr>s_feed := s_feed st\<rparr> = ?s" by (rule store.equality) simp_all
      ultimately have "st1 = st1\<lparr>s_feed := s_feed st\<rparr>" using r by simp
      then show ?thesis by (metis store.select_convs(2) store.surjective store.update_convs(2))
    qed
    have "settle_discoveries ds (?s\<lparr>s_feed := ?f\<rparr>) = (invs', st1\<lparr>s_feed := ?f\<rparr>)"
      unfolding settle_discoveries_feed r(1) by simp
    from Cons.IH [OF this] have "publish invs' (st1\<lparr>s_feed := ?f\<rparr>) = fold open_discovery ds (?s\<lparr>s_feed := ?f\<rparr>)" .
    moreover have "?s\<lparr>s_feed := ?f\<rparr> = open_discovery d st"
      using False by (simp add: open_discovery_def store.equality)
    moreover have "publish invs st1 = publish invs' (st1\<lparr>s_feed := ?f\<rparr>)"
      by (simp add: r publish_eq feed index_all_def)
    ultimately show ?thesis by simp
  qed
qed simp

lemma settle_discoveries_frame:
  "settle_discoveries ds st = (invs, st1) \<Longrightarrow>
     s_cycle_journals st1 = s_cycle_journals st \<and> s_succeeded_cycles st1 = s_succeeded_cycles st"
  by (induction ds arbitrary: st invs) (auto simp: Let_def split: if_splits prod.splits)

lemma settle_eq:
  "settle_dreams_cycle_fenced digest json now cycle_id records lease st =
     (case dreams_settlement_effect_digest digest json records of
        Inl e \<Rightarrow> (Inl e, st)
      | Inr effect_digest \<Rightarrow>
        (case check_lease_current now lease st of
           Inl e \<Rightarrow> (Inl e, st)
         | Inr _ \<Rightarrow>
           (case hm_get (s_succeeded_cycles st) (ol_key lease, cycle_id) of
              Some stored \<Rightarrow> if stored = effect_digest then (Inr (), st) else (Inl ProposalMismatch, st)
            | None \<Rightarrow>
              if journal_conflict cycle_id (ol_key lease) st \<noteq> None then
                (Inl (Backend ''another active Dreams cycle requires recovery''), st)
              else if list_ex (settlement_clash st) records then (Inl ProposalMismatch, st)
              else
                (Inr (), (fold open_discovery records st)
                   \<lparr>s_cycle_journals := hm_insert (ol_key lease)
                      \<lparr>cj_cycle_id = cycle_id, cj_lease_key = ol_key lease, cj_lease_epoch = ol_epoch lease,
                       cj_restore = empty_restore, cj_state = CompletedJournal\<rparr> (s_cycle_journals st),
                    s_succeeded_cycles :=
                      hm_insert (ol_key lease, cycle_id) effect_digest (s_succeeded_cycles st)\<rparr>))))"
proof -
  obtain invs st1 where r: "settle_discoveries records st = (invs, st1)" by force
  have "publish invs (st1\<lparr>s_cycle_journals := a, s_succeeded_cycles := b\<rparr>) =
      (publish invs st1)\<lparr>s_cycle_journals := a, s_succeeded_cycles := b\<rparr>" for a b
    by (simp add: publish_eq)
  then show ?thesis
    using settle_discoveries_publish [OF r] settle_discoveries_frame [OF r]
    by (auto simp: settle_dreams_cycle_fenced_def r Let_def split: sum.split option.split)
qed

lemma advances_open_discovery: "advances st (open_discovery d st)"
proof -
  have "advances st (st\<lparr>s_lsn := s_lsn st + 1, s_feed := s_feed st @ [DiscoveryAvailable d (s_lsn st + 1)],
      s_discoveries := x\<rparr>)" for x
    by (rule advances_cong [OF advances_announce [of st "s_lsn st + 1" "DiscoveryAvailable d (s_lsn st + 1)"]]) simp_all
  then show ?thesis by (simp add: open_discovery_def)
qed

lemma advances_settle_cycle: "advances st (snd (settle_dreams_cycle_fenced digest json now cycle_id records lease st))"
proof -
  have "advances st (fold open_discovery ds st)" for ds
    by (induction ds arbitrary: st) (auto intro: advances_trans advances_open_discovery)
  then have "advances st ((fold open_discovery ds st)\<lparr>s_cycle_journals := a, s_succeeded_cycles := b\<rparr>)" for ds a b
    by (rule advances_cong) simp_all
  then show ?thesis by (simp add: settle_eq split: sum.split option.split)
qed

section \<open>Properties\<close>

text \<open>
  a rollback removes exactly what the cycle owns.  From a well-formed graph, a successful
  restore leaves in every history precisely the versions whose number is not owned under that id,
  in their order, and the graph is well formed again; a restore whose lease is not current
  changes nothing.
\<close>

theorem restore_removes_owned:
  assumes "graph_ok st" "restore_ok r" "restore_fenced now r lease st = (res, st')"
  shows "graph_ok st' \<and>
    (\<forall>recs i j. res = Inr recs \<longrightarrow>
       memory_history st' i =
         filter (\<lambda>v. lsn_value (m_lsn v) \<notin> bt_set (fr_owned_memory_lsns r) i) (memory_history st i) \<and>
       relationship_history st' j =
         filter (\<lambda>v. lsn_value (r_lsn v) \<notin> bt_set (fr_owned_relationship_lsns r) j) (relationship_history st j)) \<and>
    (\<forall>e. res = Inl e \<longrightarrow> st' = st)"
proof -
  have "graph_ok st'" using graph_ok_restore [OF assms(1), of now r lease] assms(3) by simp
  moreover have "res = Inl e \<Longrightarrow> st' = st" for e
    using assms(3) by (auto simp: restore_fenced_def Let_def split: sum.splits)
  ultimately show ?thesis using restore_histories [OF assms(1,2)] assms(3) by blast
qed

lemma filter_fresh:
  assumes "hist' = hist @ new" "\<forall>v\<in>set hist. seq v \<notin> N" "\<forall>v\<in>set new. seq v \<in> N"
  shows "filter (\<lambda>v. seq v \<notin> S \<union> N) hist' = filter (\<lambda>v. seq v \<notin> S) hist"
proof -
  have "filter (\<lambda>v. seq v \<notin> S \<union> N) hist = filter (\<lambda>v. seq v \<notin> S) hist"
    using assms(2) by (intro filter_cong) auto
  with assms show ?thesis by (auto simp: filter_empty_conv)
qed

text \<open>What the journal of a lease key owns, and what a history is without it.\<close>

definition owned_memory :: "lease_key \<Rightarrow> store \<Rightarrow> memory_id \<Rightarrow> nat set" where
  "owned_memory key st i =
     (case hm_get (s_cycle_journals st) key of None \<Rightarrow> {} | Some j \<Rightarrow> bt_set (fr_owned_memory_lsns (cj_restore j)) i)"

definition owned_relationship :: "lease_key \<Rightarrow> store \<Rightarrow> relationship_id \<Rightarrow> nat set" where
  "owned_relationship key st i =
     (case hm_get (s_cycle_journals st) key of
        None \<Rightarrow> {} | Some j \<Rightarrow> bt_set (fr_owned_relationship_lsns (cj_restore j)) i)"

definition unowned_memories :: "lease_key \<Rightarrow> store \<Rightarrow> memory_id \<Rightarrow> memory list" where
  "unowned_memories key st i = filter (\<lambda>v. lsn_value (m_lsn v) \<notin> owned_memory key st i) (memory_history st i)"

definition unowned_relationships :: "lease_key \<Rightarrow> store \<Rightarrow> relationship_id \<Rightarrow> relationship list" where
  "unowned_relationships key st i =
     filter (\<lambda>v. lsn_value (r_lsn v) \<notin> owned_relationship key st i) (relationship_history st i)"

definition journal_ok :: "lease_key \<Rightarrow> store \<Rightarrow> bool" where
  "journal_ok key st \<longleftrightarrow> (\<forall>j. hm_get (s_cycle_journals st) key = Some j \<longrightarrow> restore_ok (cj_restore j))"

text \<open>
  The batches of one cycle: journaled batches under one cycle id and leases of one key, each with
  prepared preimages that own nothing the journal does not own already.
\<close>

inductive cycle_batches :: "(byte list \<Rightarrow> byte list) \<Rightarrow> string \<Rightarrow> lease_key \<Rightarrow> store \<Rightarrow> store \<Rightarrow> bool"
  for h cycle_id key where
  no_batch: "cycle_batches h cycle_id key st st"
| next_batch: "cycle_batches h cycle_id key st st1 \<Longrightarrow> ol_key lease = key \<Longrightarrow> restore_ok prepared \<Longrightarrow>
    (\<And>i. bt_set (fr_owned_memory_lsns prepared) i \<subseteq> owned_memory key st1 i) \<Longrightarrow>
    (\<And>i. bt_set (fr_owned_relationship_lsns prepared) i \<subseteq> owned_relationship key st1 i) \<Longrightarrow>
    upsert_batch_fenced_journaled h now ms rs prepared cycle_id lease st1 = (Inr c, st2) \<Longrightarrow>
    cycle_batches h cycle_id key st st2"

lemma extend_owned:
  assumes "bt_ok a" "bt_ok b"
  shows "bt_set (extend_lsns b (extend_lsns a c)) i = bt_set c i \<union> bt_set a i \<union> bt_set b i"
  using extend_lsns_set [OF bt_ok_distinct [OF assms(1)]] extend_lsns_set [OF bt_ok_distinct [OF assms(2)]] by simp

lemma journal_batch_owned:
  assumes "restore_ok prepared" "bt_ok (fb_memory_lsns c)" "bt_ok (fb_relationship_lsns c)"
  shows "bt_set (fr_owned_memory_lsns (cj_restore (journal_batch cycle_id lease prepared c existing))) i =
      (case existing of None \<Rightarrow> {} | Some j \<Rightarrow> bt_set (fr_owned_memory_lsns (cj_restore j)) i) \<union>
      bt_set (fr_owned_memory_lsns prepared) i \<union> bt_set (fb_memory_lsns c) i"
    and "bt_set (fr_owned_relationship_lsns (cj_restore (journal_batch cycle_id lease prepared c existing))) k =
      (case existing of None \<Rightarrow> {} | Some j \<Rightarrow> bt_set (fr_owned_relationship_lsns (cj_restore j)) k) \<union>
      bt_set (fr_owned_relationship_lsns prepared) k \<union> bt_set (fb_relationship_lsns c) k"
  using assms
  by (simp_all add: journal_batch_def Let_def restore_merge_def empty_restore_def restore_ok_def extend_owned split: option.split)

lemma journal_batch_ok:
  assumes "\<And>j. existing = Some j \<Longrightarrow> restore_ok (cj_restore j)"
  shows "restore_ok (cj_restore (journal_batch cycle_id lease prepared c existing))"
  using assms
  by (auto simp: journal_batch_def Let_def restore_merge_def empty_restore_def restore_ok_def bt_ok_extend_lsns split: option.split)

lemma journaled_batch_owned:
  assumes ok: "graph_ok st" and jok: "journal_ok (ol_key lease) st" and prep: "restore_ok prepared"
    and sub: "\<And>i. bt_set (fr_owned_memory_lsns prepared) i \<subseteq> owned_memory (ol_key lease) st i"
      "\<And>i. bt_set (fr_owned_relationship_lsns prepared) i \<subseteq> owned_relationship (ol_key lease) st i"
    and run: "upsert_batch_fenced_journaled h now ms rs prepared cycle_id lease st = (Inr c, st1)"
  obtains rows where "s_memories st1 = s_memories (write_rows rows st)" "s_rels st1 = s_rels (write_rows rows st)"
    "graph_ok st1" "journal_ok (ol_key lease) st1"
    "\<And>i. owned_memory (ol_key lease) st1 i = owned_memory (ol_key lease) st i \<union>
      {n. MemoryUpserted i n \<in> set (drop (length (s_feed st)) (s_feed (write_rows rows st)))}"
    "\<And>i. owned_relationship (ol_key lease) st1 i = owned_relationship (ol_key lease) st i \<union>
      {n. \<exists>f t k. RelationshipUpserted i f t k n \<in> set (drop (length (s_feed st)) (s_feed (write_rows rows st)))}"
proof -
  obtain recs0 b where b: "check_lease_current now lease st = Inr ()"
      "journal_conflict cycle_id (ol_key lease) st = None" "upsert_batch h now ms rs st = (Inr recs0, b)"
    using run by (cases rule: journaled_batch_cases) auto
  let ?rows = "batch_rows h (s_ontology st) ms rs"
  let ?old = "hm_get (s_cycle_journals st) (ol_key lease)"
  have bw: "b = write_rows ?rows st" using b(3) by (auto simp: upsert_batch_eq split: option.splits)
  let ?invs = "drop (length (s_feed st)) (s_feed b)"
  have c: "c = tally_all recs0 ?invs" and st1: "st1 = b\<lparr>s_cycle_journals := s_cycle_journals st1\<rparr>"
    and j: "hm_get (s_cycle_journals st1) (ol_key lease) = Some (journal_batch cycle_id lease prepared c ?old)"
    using run journaled_batch_eq [OF b, of prepared] by auto
  have cok: "bt_ok (fb_memory_lsns c)" "bt_ok (fb_relationship_lsns c)"
    unfolding c tally_all_def by (simp_all add: tally_ok)
  have st1_rows: "s_memories st1 = s_memories b" "s_rels st1 = s_rels b" by (subst st1, simp)+
  have "graph_ok st1"
    by (rule graph_ok_cong [OF graph_ok_write_rows [OF ok, of ?rows]]) (subst st1, simp add: bw)+
  moreover have "journal_ok (ol_key lease) st1"
    using jok journal_batch_ok [of ?old] by (simp add: journal_ok_def j)
  moreover have "owned_memory (ol_key lease) st1 i = owned_memory (ol_key lease) st i \<union> {n. MemoryUpserted i n \<in> set ?invs}" for i
    using sub(1) [of i] journal_batch_owned(1) [OF prep cok, of cycle_id lease ?old i]
    by (auto simp: owned_memory_def j c tally_all_def tally_all_memory)
  moreover have "owned_relationship (ol_key lease) st1 i = owned_relationship (ol_key lease) st i \<union>
      {n. \<exists>f t k. RelationshipUpserted i f t k n \<in> set ?invs}" for i
    using sub(2) [of i] journal_batch_owned(2) [OF prep cok, of cycle_id lease ?old i]
    by (auto simp: owned_relationship_def j c tally_all_def tally_all_relationship)
  ultimately show ?thesis using that [of ?rows] st1_rows bw by blast
qed

text \<open>A journaled batch leaves what the journal does not own as it was.\<close>

lemma journaled_batch_unowned:
  assumes ok: "graph_ok st" and jok: "journal_ok (ol_key lease) st" and prep: "restore_ok prepared"
    and sub: "\<And>i. bt_set (fr_owned_memory_lsns prepared) i \<subseteq> owned_memory (ol_key lease) st i"
      "\<And>i. bt_set (fr_owned_relationship_lsns prepared) i \<subseteq> owned_relationship (ol_key lease) st i"
    and run: "upsert_batch_fenced_journaled h now ms rs prepared cycle_id lease st = (Inr c, st1)"
  shows "graph_ok st1 \<and> journal_ok (ol_key lease) st1 \<and>
    unowned_memories (ol_key lease) st1 = unowned_memories (ol_key lease) st \<and>
    unowned_relationships (ol_key lease) st1 = unowned_relationships (ol_key lease) st"
proof -
  obtain rows where sh: "s_memories st1 = s_memories (write_rows rows st)" "s_rels st1 = s_rels (write_rows rows st)"
      "graph_ok st1" "journal_ok (ol_key lease) st1"
    and set: "\<And>i. owned_memory (ol_key lease) st1 i = owned_memory (ol_key lease) st i \<union>
      {n. MemoryUpserted i n \<in> set (drop (length (s_feed st)) (s_feed (write_rows rows st)))}"
      "\<And>i. owned_relationship (ol_key lease) st1 i = owned_relationship (ol_key lease) st i \<union>
      {n. \<exists>f t k. RelationshipUpserted i f t k n \<in> set (drop (length (s_feed st)) (s_feed (write_rows rows st)))}"
    using journaled_batch_owned [OF ok jok prep sub run] by blast
  let ?invs = "drop (length (s_feed st)) (s_feed (write_rows rows st))"
  have new: "MemoryUpserted i n \<in> set ?invs \<Longrightarrow> s_lsn st < n"
    "RelationshipUpserted i' f t k n \<in> set ?invs \<Longrightarrow> s_lsn st < n" for i i' n f t k
    using write_rows_feed_lsns [of st rows] by fastforce+
  have old: "v \<in> set (hist_of (s_memories st) i) \<Longrightarrow> lsn_value (m_lsn v) \<le> s_lsn st"
    "w \<in> set (hist_of (s_rels st) i') \<Longrightarrow> lsn_value (r_lsn w) \<le> s_lsn st" for i i' v w
    using ok by (auto simp: graph_ok_def rows_ok_def)
  have "unowned_memories (ol_key lease) st1 i = unowned_memories (ol_key lease) st i" for i
    using write_rows_memory_tail [of rows st i] new(1) [of i] old(1) [of _ i] leD
    unfolding unowned_memories_def set memory_history_hist sh
    by (elim exE conjE) (rule filter_fresh, assumption, blast+)
  moreover have "unowned_relationships (ol_key lease) st1 i = unowned_relationships (ol_key lease) st i" for i
    using write_rows_relationship_tail [of rows st i] new(2) [of i] old(2) [of _ i] leD
    unfolding unowned_relationships_def set relationship_history_hist sh
    by (elim exE conjE) (rule filter_fresh, assumption, blast+)
  ultimately show ?thesis using sh(3,4) by (simp add: fun_eq_iff)
qed

lemma cycle_batches_unowned:
  assumes "cycle_batches h cycle_id key st st1" "graph_ok st" "journal_ok key st"
  shows "graph_ok st1 \<and> journal_ok key st1 \<and> unowned_memories key st1 = unowned_memories key st \<and>
    unowned_relationships key st1 = unowned_relationships key st"
  using assms
proof (induction rule: cycle_batches.induct)
  case (next_batch st st1 lease prepared now ms rs c st2)
  then show ?case using journaled_batch_unowned [of st1 lease prepared h now ms rs cycle_id c st2] by simp
qed simp

text \<open>
  C14: Journal and rollback are inverse over a whole cycle.  After any number of journaled batches
  of a cycle, restoring what the active journal owns leaves in every memory history and every
  relationship history, companions included, exactly the versions that were there before the first
  of them and that the journal found on the key did not own already.  In particular, from a key
  with no journal, or with the empty tombstone of a settled cycle, every history is as it was.
\<close>

theorem journaled_batch_rolls_back:
  assumes ok: "graph_ok st" "journal_ok key st"
    and run: "cycle_batches h cycle_id key st st1"
    and j: "get_active_cycle_journal key st1 = Some j"
    and rolled: "restore_fenced now' (cj_restore j) lease st1 = (Inr recs, st2)"
  shows "memory_history st2 i =
      filter (\<lambda>v. lsn_value (m_lsn v) \<notin> owned_memory key st i) (memory_history st i) \<and>
    relationship_history st2 k =
      filter (\<lambda>v. lsn_value (r_lsn v) \<notin> owned_relationship key st k) (relationship_history st k) \<and>
    ((\<forall>j0. hm_get (s_cycle_journals st) key = Some j0 \<longrightarrow> cj_restore j0 = empty_restore) \<longrightarrow>
      memory_history st2 i = memory_history st i \<and> relationship_history st2 k = relationship_history st k)"
proof -
  have inv: "graph_ok st1" "journal_ok key st1" "unowned_memories key st1 = unowned_memories key st"
    "unowned_relationships key st1 = unowned_relationships key st"
    using cycle_batches_unowned [OF run ok] by auto
  have j': "hm_get (s_cycle_journals st1) key = Some j"
    using j by (auto simp: get_active_cycle_journal_def split: option.splits if_splits)
  with inv(2) have "restore_ok (cj_restore j)" by (simp add: journal_ok_def)
  from restore_histories [OF inv(1) this rolled]
  have eq: "memory_history st2 i = unowned_memories key st1 i" "relationship_history st2 k = unowned_relationships key st1 k"
    by (simp_all add: unowned_memories_def unowned_relationships_def owned_memory_def owned_relationship_def j')
  moreover have "owned_memory key st i = {}" "owned_relationship key st k = {}"
    if "\<forall>j0. hm_get (s_cycle_journals st) key = Some j0 \<longrightarrow> cj_restore j0 = empty_restore"
    using that by (auto simp: owned_memory_def owned_relationship_def empty_restore_def bt_set_def split: option.split)
  ultimately show ?thesis unfolding eq inv(3,4) by (simp add: unowned_memories_def unowned_relationships_def)
qed

definition sample_cycle :: store where
  "sample_cycle = snd (upsert_batch_fenced_journaled id 1 [] [sample_link] empty_restore ''c1'' sample_old_lease sample_leased)"

lemma sample_leased_check: "t < 10 \<Longrightarrow> check_lease_current t sample_old_lease sample_leased = Inr ()"
  using sample_leased_get(1) by (simp add: check_lease_current_def sample_old_lease_def)

lemma sample_leased_frame [simp]:
  "s_memories sample_leased = s_memories sample_store" "s_rels sample_leased = s_rels sample_store"
  "s_ontology sample_leased = sample_ontology" "s_cycle_journals sample_leased = []"
  "s_lsn sample_leased = 2" "s_succeeded_cycles sample_leased = []" "s_proposals sample_leased = []"
  "s_discoveries sample_leased = []"
  by (simp_all add: sample_leased_def acquire_lease_def Let_def)

lemma sample_leased_graph: "graph_ok sample_leased"
  unfolding sample_leased_def using advances_leases(1) sample_store_ok by (auto simp: advances_def)

lemma sample_leased_batch:
  "\<exists>recs st1. upsert_batch id 1 [] [sample_link] sample_leased = (Inr recs, st1)"
proof -
  have "find (endpoint_missing sample_leased []) [sample_link] = None"
    by (simp add: endpoint_missing_def sample_edge_def)
  then show ?thesis by (simp add: upsert_batch_eq)
qed

lemma sample_cycle_run:
  "\<exists>c j. upsert_batch_fenced_journaled id 1 [] [sample_link] empty_restore ''c1'' sample_old_lease sample_leased =
     (Inr c, sample_cycle) \<and> get_active_cycle_journal sample_lease_key sample_cycle = Some j \<and>
   s_leases sample_cycle = s_leases sample_leased"
proof -
  obtain recs st1 where b: "upsert_batch id 1 [] [sample_link] sample_leased = (Inr recs, st1)"
    using sample_leased_batch by blast
  have "journal_conflict ''c1'' (ol_key sample_old_lease) sample_leased = None"
    by (simp add: journal_conflict_def)
  from journaled_batch_eq [OF sample_leased_check this b, of empty_restore] show ?thesis
    using upsert_batch_frame(4) [OF b]
    by (simp add: sample_cycle_def get_active_cycle_journal_def sample_old_lease_def journal_batch_def Let_def)
qed

theorem journaled_batch_rolls_back_witness:
  "\<exists>j recs st2. get_active_cycle_journal sample_lease_key sample_cycle = Some j \<and>
     restore_fenced 2 (cj_restore j) sample_old_lease sample_cycle = (Inr recs, st2) \<and>
     memory_history st2 (MemoryId [1]) = memory_history sample_leased (MemoryId [1]) \<and>
     relationship_history st2 (r_id sample_link) = relationship_history sample_leased (r_id sample_link)"
proof -
  obtain c j where run: "upsert_batch_fenced_journaled id 1 [] [sample_link] empty_restore ''c1'' sample_old_lease sample_leased =
     (Inr c, sample_cycle)" "get_active_cycle_journal sample_lease_key sample_cycle = Some j"
     "s_leases sample_cycle = s_leases sample_leased" using sample_cycle_run by blast
  have "check_lease_current 2 sample_old_lease sample_cycle = Inr ()"
    using sample_leased_check [of 2] run(3) by (simp add: check_lease_current_def)
  then obtain recs st2 where r: "restore_fenced 2 (cj_restore j) sample_old_lease sample_cycle = (Inr recs, st2)"
    by (auto simp: restore_fenced_def Let_def)
  have batches: "cycle_batches id ''c1'' sample_lease_key sample_leased sample_cycle"
    by (rule next_batch [OF no_batch _ _ _ _ run(1)])
      (simp_all add: sample_old_lease_def restore_ok_def empty_restore_def bt_ok_def bt_set_def)
  have "journal_ok sample_lease_key sample_leased" by (simp add: journal_ok_def)
  from journaled_batch_rolls_back [OF sample_leased_graph this batches run(2) r]
  have "memory_history st2 i = memory_history sample_leased i \<and>
      relationship_history st2 k = relationship_history sample_leased k" for i k
    by (simp add: owned_memory_def owned_relationship_def)
  with run(2) r show ?thesis by blast
qed

theorem restore_removes_owned_witness:
  "\<exists>res st'. restore_fenced 2 (empty_restore\<lparr>fr_owned_memory_lsns := [(MemoryId [2], {2})]\<rparr>) sample_old_lease sample_leased =
     (res, st') \<and> graph_ok st' \<and> memory_history st' (MemoryId [2]) = [] \<and>
     memory_history st' (MemoryId [1]) = [stamp_memory 1 (sample_memory (MemoryId [1]) Org)]"
proof -
  let ?r = "empty_restore\<lparr>fr_owned_memory_lsns := [(MemoryId [2], {2})]\<rparr>"
  obtain recs st' where run: "restore_fenced 2 ?r sample_old_lease sample_leased = (Inr recs, st')"
    by (auto simp: restore_fenced_def sample_leased_check Let_def)
  have "restore_ok ?r" by (simp add: restore_ok_def empty_restore_def bt_ok_def)
  from restore_removes_owned [OF sample_leased_graph this run] run show ?thesis
    by (auto simp: memory_history_hist bt_set_def)
qed

text \<open>
  every fenced operation is gated.  Presented with a lease the table no longer honours, each
  fenced operation fails without touching the store, and with the fence error unless the
  settlement's own records are already inconsistent.
\<close>

theorem fenced_operations_gated:
  assumes "check_lease_current now lease st = Inl e"
  shows "upsert_batch_fenced h now ms rs lease st = (Inl e, st) \<and>
    upsert_batch_fenced_journaled h now ms rs prepared cycle_id lease st = (Inl e, st) \<and>
    complete_cycle_journal_fenced now cycle_id lease st = (Inl e, st) \<and>
    restore_fenced now r lease st = (Inl e, st) \<and>
    delete_memory_fenced now i lease st = (Inl e, st) \<and>
    store_discovery_fenced now d lease st = (Inl e, st) \<and>
    cycle_succeeded_fenced now cycle_id lease st = Inl e \<and>
    e = FencedWriteRejected (ol_epoch lease) \<and>
    (\<exists>e'. settle_dreams_cycle_fenced digest json now cycle_id records lease st = (Inl e', st)) \<and>
    (\<forall>x. dreams_settlement_effect_digest digest json records = Inr x \<longrightarrow>
       settle_dreams_cycle_fenced digest json now cycle_id records lease st = (Inl e, st))"
proof -
  have "e = FencedWriteRejected (ol_epoch lease)"
    using assms by (auto simp: check_lease_current_def split: option.splits if_splits)
  with assms show ?thesis
    by (auto simp: upsert_batch_fenced_def upsert_batch_fenced_journaled_def complete_cycle_journal_fenced_def
        restore_fenced_def delete_memory_fenced_def store_discovery_fenced_def cycle_succeeded_fenced_def
        settle_dreams_cycle_fenced_def split: sum.split)
qed

theorem fenced_operations_gated_witness:
  "upsert_batch_fenced id 11 [] [sample_link] sample_old_lease sample_leased =
     (Inl (FencedWriteRejected 1), sample_leased)"
proof -
  have "check_lease_current 11 sample_old_lease sample_leased = Inl (FencedWriteRejected 1)"
    using sample_leased_get(1) by (simp add: check_lease_current_def sample_old_lease_def)
  from fenced_operations_gated [OF this] show ?thesis by blast
qed

text \<open>
  C19: a cycle settles once, with one effect.  A successful settlement leaves every one of its
  discoveries open under its id, tombstones the journal and records the success identity; a
  replay with the same effect is a successful no-op, and a replay with a different effect is
  refused without changing the store.
\<close>

theorem settlement_once:
  assumes "settle_dreams_cycle_fenced digest json now cycle_id records lease st = (Inr (), st')"
    and "dreams_settlement_effect_digest digest json records = Inr x"
    and "check_lease_current now' lease st' = Inr ()"
  shows "cycle_succeeded (ol_key lease) cycle_id st' \<and>
    hm_get (s_succeeded_cycles st') (ol_key lease, cycle_id) = Some x \<and>
    settle_dreams_cycle_fenced digest json now' cycle_id records lease st' = (Inr (), st') \<and>
    (\<forall>records' x'. dreams_settlement_effect_digest digest json records' = Inr x' \<longrightarrow> x' \<noteq> x \<longrightarrow>
       settle_dreams_cycle_fenced digest json now' cycle_id records' lease st' = (Inl ProposalMismatch, st')) \<and>
    (hm_get (s_succeeded_cycles st) (ol_key lease, cycle_id) = None \<longrightarrow>
       get_active_cycle_journal (ol_key lease) st' = None \<and>
       (\<forall>d\<in>set records. get_discovery (dr_discovery_id d) st' \<noteq> None))"
proof -
  have open_kept: "hm_get (s_discoveries (fold open_discovery ds s)) i \<noteq> None"
    if "hm_get (s_discoveries s) i \<noteq> None \<or> (\<exists>d\<in>set ds. dr_discovery_id d = i)" for ds s i
    using that by (induction ds arbitrary: s) (auto simp: open_discovery_def hm_contains_def)
  have got: "hm_get (s_succeeded_cycles st') (ol_key lease, cycle_id) = Some x"
    using assms(1,2) by (auto simp: settle_eq split: sum.splits option.splits if_splits)
  have "get_active_cycle_journal (ol_key lease) st' = None \<and>
      (\<forall>d\<in>set records. get_discovery (dr_discovery_id d) st' \<noteq> None)"
    if "hm_get (s_succeeded_cycles st) (ol_key lease, cycle_id) = None"
    using assms(1,2) that open_kept [of st _ records]
    by (fastforce simp: settle_eq get_active_cycle_journal_def get_discovery_def split: sum.splits option.splits if_splits)
  with got assms(2,3) show ?thesis
    by (auto simp: settle_eq cycle_succeeded_def hm_contains_def)
qed

theorem settlement_once_witness:
  "\<exists>st'. settle_dreams_cycle_fenced id (\<lambda>ds. Inr (str_bytes (dr_discovery_id (hd ds)))) 1 ''c1'' [sample_discovery]
       sample_old_lease sample_leased = (Inr (), st') \<and>
     settle_dreams_cycle_fenced id (\<lambda>ds. Inr (str_bytes (dr_discovery_id (hd ds)))) 2 ''c1'' [sample_discovery]
       sample_old_lease st' = (Inr (), st')"
proof -
  let ?json = "\<lambda>ds. Inr (str_bytes (dr_discovery_id (hd ds)))"
  let ?settle = "settle_dreams_cycle_fenced id ?json"
  have dg: "\<exists>x. dreams_settlement_effect_digest id ?json [sample_discovery] = Inr x"
    by (simp add: dreams_settlement_effect_digest_def)
  then obtain x where x: "dreams_settlement_effect_digest id ?json [sample_discovery] = Inr x" ..
  have "\<exists>st'. ?settle 1 ''c1'' [sample_discovery] sample_old_lease sample_leased = (Inr (), st') \<and>
      s_leases st' = s_leases sample_leased"
    using x by (simp add: settle_eq sample_leased_check journal_conflict_def settlement_clash_def open_discovery_def)
  then obtain st' where run: "?settle 1 ''c1'' [sample_discovery] sample_old_lease sample_leased = (Inr (), st')"
    "s_leases st' = s_leases sample_leased" by blast
  have "check_lease_current 2 sample_old_lease st' = Inr ()"
    using sample_leased_check [of 2] run(2) by (simp add: check_lease_current_def)
  from settlement_once [OF run(1) x this] run(1) show ?thesis by blast
qed

end
