(* ===== verification/Mem_Reads.thy ===== *)
theory Mem_Reads
  imports Mem_Cycle
begin

text \<open>
  The reads of the in-memory backend (\<open>in_memory.rs\<close>) and the default methods of the storage
  trait (\<open>trait_.rs\<close>), which answer the same questions by scanning the two row streams.
  Iteration over a hash map or hash set is in the order of the association list, which stands
  for an unspecified order.
\<close>

section \<open>Point and batch reads\<close>

definition get_memory :: "memory_id \<Rightarrow> store \<Rightarrow> memory option" where
  "get_memory i st = Option.bind (hm_get (s_memories st) i) last_opt"

definition get_memory_for :: "memory_id \<Rightarrow> visibility_context \<Rightarrow> store \<Rightarrow> storage_error + memory option" where
  "get_memory_for i vc st =
     (case Option.bind (hm_get (s_memories st) i) last_opt of
        None \<Rightarrow> Inr None
      | Some m \<Rightarrow> if \<not> memory_visible m vc then Inl PermissionDenied else Inr (Some m))"

definition get_memories :: "memory_id list \<Rightarrow> store \<Rightarrow> memory list outcome" where
  "get_memories ids st =
     (if s_fail_next_batch_read st
      then (Inl (Backend ''sentinel backend credential=secret''), st\<lparr>s_fail_next_batch_read := False\<rparr>)
      else (Inr (List.map_filter (\<lambda>i. Option.bind (hm_get (s_memories st) i) last_opt) ids), st))"

definition get_visible_memories :: "memory_id list \<Rightarrow> visibility_context \<Rightarrow> store \<Rightarrow> memory list" where
  "get_visible_memories ids vc st =
     filter (\<lambda>m. memory_visible m vc)
       (List.map_filter (\<lambda>i. Option.bind (hm_get (s_memories st) i) last_opt) ids)"

definition get_relationship :: "relationship_id \<Rightarrow> store \<Rightarrow> relationship option" where
  "get_relationship i st = Option.bind (hm_get (s_rels st) i) last_opt"

definition get_relationships :: "relationship_id list \<Rightarrow> store \<Rightarrow> relationship list" where
  "get_relationships ids st = List.map_filter (\<lambda>i. Option.bind (hm_get (s_rels st) i) last_opt) ids"

section \<open>Scans\<close>

definition stream_all_memories :: "store \<Rightarrow> memory list" where
  "stream_all_memories st = List.map_filter last_opt (hm_values (s_memories st))"

definition stream_all_relationships :: "store \<Rightarrow> relationship list" where
  "stream_all_relationships st = List.map_filter last_opt (hm_values (s_rels st))"

definition open_edge :: "relationship \<Rightarrow> bool" where
  "open_edge r = (r_valid_until r = None \<and> r_invalidated_by r = None)"

definition relationships_touching :: "memory_id list \<Rightarrow> nat \<Rightarrow> store \<Rightarrow> relationship list" where
  "relationships_touching frontier limit st =
     (let ids = remdups (concat (List.map_filter (hm_get (s_rels_by_node st)) frontier))
      in take limit (filter open_edge
           (List.map_filter (\<lambda>i. Option.bind (hm_get (s_rels st) i) last_opt) ids)))"

definition memory_in_region :: "region_key \<Rightarrow> memory \<Rightarrow> bool" where
  "memory_in_region region m =
     (m_memory_type m = rk_memory_type region
      \<and> (rk_org region = ''*'' \<or> c_tenant_id (m_context m) = Some (rk_org region))
      \<and> (rk_project region = ''*'' \<or> c_project_id (m_context m) = Some (rk_project region)))"

definition in_region :: "region_key \<Rightarrow> store \<Rightarrow> memory_id \<Rightarrow> bool" where
  "in_region region st i =
     is_some_and (memory_in_region region) (Option.bind (hm_get (s_memories st) i) last_opt)"

definition edge_key :: "relationship \<Rightarrow> memory_id \<times> memory_id \<times> rel_kind_id \<times> relationship_id" where
  "edge_key r = (r_from r, r_to r, r_kind r, r_id r)"

definition edge_budget :: "nat \<Rightarrow> relationship list \<Rightarrow> storage_error + relationship list" where
  "edge_budget limit rows =
     (if limit < length rows
      then Inl (Backend (''region relationship budget exceeded: more than '' @ show_nat limit @ '' rows''))
      else Inr rows)"

definition relationships_in_region :: "region_key \<Rightarrow> nat \<Rightarrow> store \<Rightarrow> storage_error + relationship list" where
  "relationships_in_region region limit st =
     edge_budget limit (sort_key edge_key
       (filter (\<lambda>r. r_valid_until r = None \<and> r_invalidated_by r = None
           \<and> in_region region st (r_from r) \<and> in_region region st (r_to r))
         (List.map_filter last_opt (hm_values (s_rels st)))))"

definition memories_in_region :: "region_key \<Rightarrow> nat \<Rightarrow> store \<Rightarrow> storage_error + memory list" where
  "memories_in_region region limit st =
     (let rows = sort_key m_id (filter (memory_in_region region) (List.map_filter last_opt (hm_values (s_memories st))))
      in if limit < length rows
         then Inl (Backend (''region memory budget exceeded: more than '' @ show_nat limit @ '' rows''))
         else Inr rows)"

definition current_relationships_in_region :: "region_key \<Rightarrow> nat \<Rightarrow> store \<Rightarrow> storage_error + relationship list" where
  "current_relationships_in_region region limit st =
     edge_budget limit (sort_key edge_key
       (filter (\<lambda>r. in_region region st (r_from r) \<and> in_region region st (r_to r))
         (List.map_filter last_opt (hm_values (s_rels st)))))"

definition shares_attribute :: "string list \<Rightarrow> entity_id list \<Rightarrow> memory \<Rightarrow> bool" where
  "shares_attribute tags entities m =
     (list_ex (\<lambda>tag. tag \<in> set tags) (m_tags m) \<or> list_ex (\<lambda>e. e \<in> set entities) (c_entities (m_context m)))"

definition memories_sharing_attributes :: "string list \<Rightarrow> entity_id list \<Rightarrow> nat \<Rightarrow> store \<Rightarrow> memory list" where
  "memories_sharing_attributes tags entities limit st =
     take limit (filter (shares_attribute tags entities) (List.map_filter last_opt (hm_values (s_memories st))))"

definition none_or :: "('a \<Rightarrow> bool) \<Rightarrow> 'a option \<Rightarrow> bool" where
  "none_or p v = (case v of None \<Rightarrow> True | Some x \<Rightarrow> p x)"

definition valid_span :: "instant \<Rightarrow> instant \<Rightarrow> instant option \<Rightarrow> bool" where
  "valid_span t vf vu = (vf \<le> t \<and> none_or (\<lambda>v. t < v) vu)"

definition matches_filter :: "memory_filter \<Rightarrow> memory \<Rightarrow> bool" where
  "matches_filter filt m =
     ((mf_memory_types filt = [] \<or> m_memory_type m \<in> set (mf_memory_types filt))
      \<and> none_or (\<lambda>p. c_project_id (m_context m) = Some p) (mf_project_id filt)
      \<and> none_or (\<lambda>at. valid_span at (m_valid_from m) (m_valid_until m)) (mf_valid_at filt)
      \<and> memory_visible m (mf_visibility_ctx filt))"

definition find_by_entity :: "entity_id \<Rightarrow> memory_filter \<Rightarrow> store \<Rightarrow> storage_error + memory list" where
  "find_by_entity e filt st =
     (if 500 < mf_limit filt then Inl (Backend ''limit > 500'')
      else Inr (take (mf_limit filt) (sort_key (\<lambda>m. - m_recorded_at m)
        (filter (\<lambda>m. e \<in> set (c_entities (m_context m)) \<and> matches_filter filt m)
          (List.map_filter last_opt (hm_values (s_memories st)))))))"

section \<open>Bi-temporal reads\<close>

text \<open>The newest version already recorded and already begun at \<open>t\<close>, from the top of the history.\<close>

definition known_memory :: "instant \<Rightarrow> memory list \<Rightarrow> memory option" where
  "known_memory t hist = find (\<lambda>m. m_recorded_at m \<le> t \<and> m_valid_from m \<le> t) (rev hist)"

definition known_relationship :: "instant \<Rightarrow> relationship list \<Rightarrow> relationship option" where
  "known_relationship t hist = find (\<lambda>r. r_recorded_at r \<le> t \<and> r_valid_from r \<le> t) (rev hist)"

definition get_state_at :: "instant \<Rightarrow> store \<Rightarrow> graph_snapshot" where
  "get_state_at t st =
     \<lparr>gs_as_of = t, gs_backend_lsn = s_lsn st,
      gs_memory_count = length (filter (\<lambda>h. is_some_and (\<lambda>m. valid_span t (m_valid_from m) (m_valid_until m))
        (known_memory t h)) (hm_values (s_memories st))),
      gs_relationship_count = length (filter (\<lambda>h. is_some_and (\<lambda>r. valid_span t (r_valid_from r) (r_valid_until r))
        (known_relationship t h)) (hm_values (s_rels st)))\<rparr>"

definition valid_at :: "memory_id \<Rightarrow> instant \<Rightarrow> store \<Rightarrow> memory option" where
  "valid_at i t st =
     Option.bind (hm_get (s_memories st) i) (\<lambda>h.
       case known_memory t h of
         None \<Rightarrow> None
       | Some m \<Rightarrow> if none_or (\<lambda>v. t < v) (m_valid_until m) then Some m else None)"

section \<open>The default methods of the trait\<close>

definition default_get_visible_memories ::
    "(memory_id list \<Rightarrow> memory list) \<Rightarrow> memory_id list \<Rightarrow> visibility_context \<Rightarrow> memory list" where
  "default_get_visible_memories get ids vc =
     (let by_id = fold (\<lambda>m. hm_insert (m_id m) m) (get ids) []
      in filter (\<lambda>m. memory_visible m vc) (List.map_filter (hm_get by_id) ids))"

definition default_get_relationship :: "relationship list \<Rightarrow> relationship_id \<Rightarrow> relationship option" where
  "default_get_relationship rows i = find (\<lambda>r. r_id r = i) rows"

definition default_get_relationships :: "relationship list \<Rightarrow> relationship_id list \<Rightarrow> relationship list" where
  "default_get_relationships rows ids = List.map_filter (default_get_relationship rows) ids"

text \<open>The bounded scan of the defaults: push, then stop once the bound is met.\<close>

fun scan_limit :: "('a \<Rightarrow> bool) \<Rightarrow> nat \<Rightarrow> 'a list \<Rightarrow> 'a list \<Rightarrow> 'a list" where
  "scan_limit p limit [] out = out"
| "scan_limit p limit (x # xs) out =
     (if p x then
        (if limit \<le> length out + 1 then out @ [x] else scan_limit p limit xs (out @ [x]))
      else scan_limit p limit xs out)"

definition default_relationships_touching :: "relationship list \<Rightarrow> memory_id list \<Rightarrow> nat \<Rightarrow> relationship list" where
  "default_relationships_touching rows frontier limit =
     scan_limit (\<lambda>r. r_from r \<in> set frontier \<or> r_to r \<in> set frontier) limit rows []"

definition default_relationships_in_region ::
    "relationship list \<Rightarrow> (memory_id list \<Rightarrow> memory list) \<Rightarrow> region_key \<Rightarrow> nat \<Rightarrow> storage_error + relationship list" where
  "default_relationships_in_region rows get region limit =
     (let candidates = filter open_edge rows;
          endpoint_ids = concat (map (\<lambda>r. [r_from r, r_to r]) candidates);
          endpoints = fold (\<lambda>m. hm_insert (m_id m) m) (get endpoint_ids) []
      in edge_budget limit (sort_key edge_key
           (filter (\<lambda>r. is_some_and (memory_in_region region) (hm_get endpoints (r_from r))
               \<and> is_some_and (memory_in_region region) (hm_get endpoints (r_to r))) candidates)))"

definition default_memories_in_region :: "memory list \<Rightarrow> region_key \<Rightarrow> nat \<Rightarrow> storage_error + memory list" where
  "default_memories_in_region rows region limit =
     (let found = sort_key m_id (filter (memory_in_region region) rows)
      in if limit < length found
         then Inl (Backend (''region memory budget exceeded: more than '' @ show_nat limit @ '' rows''))
         else Inr found)"

definition default_current_relationships_in_region ::
    "memory list \<Rightarrow> relationship list \<Rightarrow> region_key \<Rightarrow> nat \<Rightarrow> storage_error + relationship list" where
  "default_current_relationships_in_region mems rows region limit =
     and_then (default_memories_in_region mems region limit) (\<lambda>ms.
       let ids = map m_id ms
       in edge_budget limit (sort_key edge_key (filter (\<lambda>r. r_from r \<in> set ids \<and> r_to r \<in> set ids) rows)))"

definition default_memories_sharing_attributes ::
    "memory list \<Rightarrow> string list \<Rightarrow> entity_id list \<Rightarrow> nat \<Rightarrow> memory list" where
  "default_memories_sharing_attributes rows tags entities limit =
     scan_limit (shares_attribute tags entities) limit rows []"

section \<open>The contract of a row source\<close>

text \<open>
  What the default methods rely on: the streams list each current row once, and a batch read
  returns the current rows of the ids asked for, in their order.
\<close>

locale row_source =
  fixes ok :: "'st \<Rightarrow> bool"
    and stream_m :: "'st \<Rightarrow> memory list"
    and stream_r :: "'st \<Rightarrow> relationship list"
    and batch :: "'st \<Rightarrow> memory_id list \<Rightarrow> memory list"
  assumes memories_once: "ok st \<Longrightarrow> distinct (map m_id (stream_m st))"
    and relationships_once: "ok st \<Longrightarrow> distinct (map r_id (stream_r st))"
    and batch_reads: "ok st \<Longrightarrow> batch st ids = List.map_filter (\<lambda>i. find (\<lambda>m. m_id m = i) (stream_m st)) ids"
begin

lemma stream_find:
  "ok st \<Longrightarrow> find (\<lambda>m. m_id m = i) (stream_m st) = Some m \<longleftrightarrow> m \<in> set (stream_m st) \<and> m_id m = i"
  by (rule find_key_iff [OF memories_once])

lemma batch_ids: "ok st \<Longrightarrow> m \<in> set (batch st ids) \<longleftrightarrow> m \<in> set (stream_m st) \<and> m_id m \<in> set ids"
  by (auto simp: batch_reads map_filter_member stream_find)

lemma batch_lookup:
  assumes ok: "ok st" and i: "i \<in> set ids"
  shows "hm_get (fold (\<lambda>m. hm_insert (m_id m) m) (batch st ids) []) i = find (\<lambda>m. m_id m = i) (stream_m st)"
proof -
  have inj: "inj_on m_id (set (stream_m st))" using memories_once [OF ok] by (simp add: distinct_map)
  then have "inj_on m_id (set (batch st ids))" by (rule inj_on_subset) (auto simp: batch_ids [OF ok])
  from hm_collect [OF this, of "[]" i] have
    "hm_get (fold (\<lambda>m. hm_insert (m_id m) m) (batch st ids) []) i = find (\<lambda>m. m_id m = i) (batch st ids)"
    by (simp split: option.split)
  also have "\<dots> = find (\<lambda>m. m_id m = i) (stream_m st)"
  proof (cases "find (\<lambda>m. m_id m = i) (stream_m st)")
    case None
    then have "find (\<lambda>m. m_id m = i) (batch st ids) = None" by (auto simp: find_None_iff batch_ids [OF ok])
    with None show ?thesis by simp
  next
    case (Some m)
    then have m: "m \<in> set (batch st ids)" "m_id m = i"
      using i by (auto simp: stream_find [OF ok] batch_ids [OF ok])
    then obtain q where q: "find (\<lambda>m. m_id m = i) (batch st ids) = Some q"
      by (cases "find (\<lambda>m. m_id m = i) (batch st ids)") (auto simp: find_None_iff)
    then have "q \<in> set (batch st ids)" "m_id q = i" by (auto simp: find_Some_iff)
    with m inj have "q = m" by (auto simp: batch_ids [OF ok] dest: inj_onD)
    with q Some show ?thesis by simp
  qed
  finally show ?thesis .
qed

text \<open>The default visible read keeps exactly the visible current rows, in the order asked.\<close>

lemma default_visible:
  assumes ok: "ok st"
  shows "default_get_visible_memories (batch st) ids vc =
    filter (\<lambda>m. memory_visible m vc) (List.map_filter (\<lambda>i. find (\<lambda>m. m_id m = i) (stream_m st)) ids)"
  unfolding default_get_visible_memories_def Let_def
  by (subst map_filter_cong_list [OF batch_lookup [OF ok]]) simp_all

text \<open>The default region read resolves each endpoint in the stream.\<close>

lemma default_region:
  assumes ok: "ok st"
  shows "default_relationships_in_region (stream_r st) (batch st) region limit =
    edge_budget limit (sort_key edge_key (filter (\<lambda>r. open_edge r \<and>
      is_some_and (memory_in_region region) (find (\<lambda>m. m_id m = r_from r) (stream_m st)) \<and>
      is_some_and (memory_in_region region) (find (\<lambda>m. m_id m = r_to r) (stream_m st))) (stream_r st)))"
proof -
  let ?c = "filter open_edge (stream_r st)"
  let ?ids = "concat (map (\<lambda>r. [r_from r, r_to r]) ?c)"
  have "hm_get (fold (\<lambda>m. hm_insert (m_id m) m) (batch st ?ids) []) (r_from r) = find (\<lambda>m. m_id m = r_from r) (stream_m st)"
    "hm_get (fold (\<lambda>m. hm_insert (m_id m) m) (batch st ?ids) []) (r_to r) = find (\<lambda>m. m_id m = r_to r) (stream_m st)"
    if "r \<in> set ?c" for r
    using that by (auto intro!: batch_lookup [OF ok])
  then have "filter (\<lambda>r. is_some_and (memory_in_region region)
        (hm_get (fold (\<lambda>m. hm_insert (m_id m) m) (batch st ?ids) []) (r_from r))
      \<and> is_some_and (memory_in_region region)
        (hm_get (fold (\<lambda>m. hm_insert (m_id m) m) (batch st ?ids) []) (r_to r))) ?c =
    filter (\<lambda>r. is_some_and (memory_in_region region) (find (\<lambda>m. m_id m = r_from r) (stream_m st))
      \<and> is_some_and (memory_in_region region) (find (\<lambda>m. m_id m = r_to r) (stream_m st))) ?c"
    by (intro filter_cong refl) simp_all
  then show ?thesis
    unfolding default_relationships_in_region_def Let_def by (simp add: filter_filter conj_ac)
qed

lemma default_region_canonical:
  assumes "ok st" "default_relationships_in_region (stream_r st) (batch st) region limit = Inr rows"
  shows "sorted_wrt (<) (map edge_key rows) \<and> length rows \<le> limit"
proof -
  let ?q = "filter (\<lambda>r. open_edge r \<and>
      is_some_and (memory_in_region region) (find (\<lambda>m. m_id m = r_from r) (stream_m st)) \<and>
      is_some_and (memory_in_region region) (find (\<lambda>m. m_id m = r_to r) (stream_m st))) (stream_r st)"
  have rows: "rows = sort_key edge_key ?q" "length rows \<le> limit"
    using assms(2) unfolding default_region [OF assms(1)] by (auto simp: edge_budget_def split: if_splits)
  have "distinct (map r_id ?q)" using relationships_once [OF assms(1)] by (rule distinct_map_filter)
  then have "distinct (map edge_key ?q)"
    by (auto simp: distinct_map inj_on_def edge_key_def)
  then have "distinct (map edge_key rows)"
    unfolding rows by (simp add: distinct_map)
  then show ?thesis
    using rows sorted_sort_key [of edge_key ?q] by (simp add: strict_sorted_iff)
qed

end

definition batch_current :: "store \<Rightarrow> memory_id list \<Rightarrow> memory list" where
  "batch_current st ids = List.map_filter (\<lambda>i. Option.bind (hm_get (s_memories st) i) last_opt) ids"

lemma get_memories_batch:
  "\<not> s_fail_next_batch_read st \<Longrightarrow> get_memories ids st = (Inr (batch_current st ids), st)"
  by (simp add: get_memories_def batch_current_def)

lemma stream_memories:
  assumes "graph_ok st"
  shows "distinct (map m_id (stream_all_memories st))"
    and "m \<in> set (stream_all_memories st) \<longleftrightarrow> get_memory (m_id m) st = Some m"
    and "find (\<lambda>m. m_id m = i) (stream_all_memories st) = get_memory i st"
  using assms mrow.current_stream_distinct mrow.current_stream_iff mrow.current_stream_find
  unfolding graph_ok_def stream_all_memories_def get_memory_def by blast+

lemma stream_relationships:
  assumes "graph_ok st"
  shows "distinct (map r_id (stream_all_relationships st))"
    and "r \<in> set (stream_all_relationships st) \<longleftrightarrow> get_relationship (r_id r) st = Some r"
    and "find (\<lambda>r. r_id r = i) (stream_all_relationships st) = get_relationship i st"
  using assms rrow.current_stream_distinct rrow.current_stream_iff rrow.current_stream_find
  unfolding graph_ok_def stream_all_relationships_def get_relationship_def by blast+

interpretation mem_rows: row_source graph_ok stream_all_memories stream_all_relationships batch_current
  by unfold_locales
    (simp_all add: stream_memories stream_relationships batch_current_def get_memory_def)

lemma get_memory_id: "graph_ok st \<Longrightarrow> get_memory i st = Some m \<Longrightarrow> m_id m = i"
  using stream_memories(3) [of st i] by (auto simp: find_Some_iff)

lemma get_relationship_id: "graph_ok st \<Longrightarrow> get_relationship i st = Some r \<Longrightarrow> r_id r = i"
  using stream_relationships(3) [of st i] by (auto simp: find_Some_iff)

section \<open>Overrides and defaults\<close>

text \<open>
  A bounded scan with a positive bound keeps the first matching rows; a bound of zero still
  returns one row, where the override returns none.\<close>

lemma scan_limit_take:
  "length out < limit \<Longrightarrow> scan_limit p limit xs out = out @ take (limit - length out) (filter p xs)"
proof (induction xs arbitrary: out)
  case (Cons x xs)
  then show ?case
    by (cases "limit = Suc (length out)") (auto simp: Suc_diff_Suc take_Cons' simp flip: diff_Suc_eq_diff_pred)
qed simp

lemma in_region_ids:
  assumes ok: "graph_ok st"
  shows "in_region region st i \<longleftrightarrow> i \<in> set (map m_id (filter (memory_in_region region) (stream_all_memories st)))"
proof -
  have "in_region region st i \<longleftrightarrow> (\<exists>m. get_memory i st = Some m \<and> memory_in_region region m)"
    by (simp add: in_region_def get_memory_def is_some_and_def split: option.split)
  also have "\<dots> \<longleftrightarrow> (\<exists>m. m \<in> set (stream_all_memories st) \<and> m_id m = i \<and> memory_in_region region m)"
    using get_memory_id [OF ok] stream_memories(2) [OF ok] by blast
  finally show ?thesis by auto
qed

text \<open>
  C20: Seven of the eight row reads that the in-memory backend overrides answer as the default
  methods of the trait answer over its row streams, on every consistent store and errors
  included: the visible batch read, the two point reads of relationships, the memories and the
  open relationships of a region, the memories sharing an attribute (for a positive limit) and
  the current relationships of a region (when the region has no more memories than the limit,
  beyond which the default fails).  The eighth, the frontier read, differs from its default and has a
  property of its own.\<close>

theorem overrides_agree:
  assumes ok: "graph_ok st"
  shows "get_visible_memories ids vc st = default_get_visible_memories (batch_current st) ids vc \<and>
    get_relationship i st = default_get_relationship (stream_all_relationships st) i \<and>
    get_relationships rids st = default_get_relationships (stream_all_relationships st) rids \<and>
    memories_in_region region limit st = default_memories_in_region (stream_all_memories st) region limit \<and>
    relationships_in_region region limit st =
      default_relationships_in_region (stream_all_relationships st) (batch_current st) region limit \<and>
    (0 < limit \<longrightarrow> memories_sharing_attributes tags entities limit st =
      default_memories_sharing_attributes (stream_all_memories st) tags entities limit) \<and>
    (case memories_in_region region limit st of
       Inl e \<Rightarrow> default_current_relationships_in_region (stream_all_memories st) (stream_all_relationships st) region limit = Inl e
     | Inr _ \<Rightarrow> default_current_relationships_in_region (stream_all_memories st) (stream_all_relationships st) region limit =
         current_relationships_in_region region limit st)"
proof (intro conjI impI)
  note find = stream_memories(3) [OF ok]
  show "get_visible_memories ids vc st = default_get_visible_memories (batch_current st) ids vc"
    unfolding mem_rows.default_visible [OF ok] find by (simp add: get_visible_memories_def get_memory_def)
  show rel: "get_relationship i st = default_get_relationship (stream_all_relationships st) i" for i
    by (simp add: default_get_relationship_def stream_relationships(3) [OF ok])
  show "get_relationships rids st = default_get_relationships (stream_all_relationships st) rids"
    unfolding get_relationships_def default_get_relationships_def
    by (intro map_filter_cong_list) (simp add: rel [symmetric] get_relationship_def)
  show mems: "memories_in_region region limit st = default_memories_in_region (stream_all_memories st) region limit"
    by (simp add: memories_in_region_def default_memories_in_region_def stream_all_memories_def)
  show "relationships_in_region region limit st =
      default_relationships_in_region (stream_all_relationships st) (batch_current st) region limit"
    unfolding mem_rows.default_region [OF ok] find
    by (simp add: relationships_in_region_def in_region_def open_edge_def get_memory_def
      stream_all_relationships_def conj_ac)
  show "memories_sharing_attributes tags entities limit st =
      default_memories_sharing_attributes (stream_all_memories st) tags entities limit" if "0 < limit"
    using that by (simp add: memories_sharing_attributes_def default_memories_sharing_attributes_def scan_limit_take
      stream_all_memories_def)
  have "set (map m_id ms) = set (map m_id (filter (memory_in_region region) (stream_all_memories st)))"
    if "default_memories_in_region (stream_all_memories st) region limit = Inr ms" for ms
    using that by (auto simp: default_memories_in_region_def Let_def split: if_splits)
  then show "case memories_in_region region limit st of
       Inl e \<Rightarrow> default_current_relationships_in_region (stream_all_memories st) (stream_all_relationships st) region limit = Inl e
     | Inr _ \<Rightarrow> default_current_relationships_in_region (stream_all_memories st) (stream_all_relationships st) region limit =
         current_relationships_in_region region limit st"
    unfolding mems current_relationships_in_region_def in_region_ids [OF ok]
    by (auto simp: default_current_relationships_in_region_def stream_all_relationships_def Let_def split: sum.split)
qed

definition sample_linked :: store where
  "sample_linked = snd (upsert_relationship id 0 sample_link sample_store)"

lemma sample_linked_ok: "graph_ok sample_linked"
  using advances_upsert_relationship [of sample_store id 0 sample_link] sample_store_ok
  by (simp add: sample_linked_def advances_def)

theorem overrides_agree_witness:
  "graph_ok sample_linked \<and>
   relationships_in_region sample_region 10 sample_linked =
     default_relationships_in_region (stream_all_relationships sample_linked) (batch_current sample_linked)
       sample_region 10"
  using overrides_agree [OF sample_linked_ok] sample_linked_ok by blast

section \<open>The frontier read\<close>

lemma touching_rows:
  assumes ok: "graph_ok st"
  shows "r \<in> set (List.map_filter (\<lambda>i. Option.bind (hm_get (s_rels st) i) last_opt) ids) \<longleftrightarrow>
      r_id r \<in> set ids \<and> get_relationship (r_id r) st = Some r"
  using get_relationship_id [OF ok] unfolding map_filter_member get_relationship_def by blast

lemma map_filter_ids_distinct:
  assumes "\<And>i x. g i = Some x \<Longrightarrow> f x = i" "distinct ids"
  shows "distinct (map f (List.map_filter g ids))"
  using assms(2)
proof (induction ids)
  case (Cons i ids)
  have "i \<notin> f ` set (List.map_filter g ids)" using Cons.prems assms(1) by (auto simp: map_filter_member)
  with Cons assms(1) show ?case by (auto simp: map_filter_simps split: option.split)
qed (simp add: map_filter_simps)

lemma current_indexed:
  assumes "graph_ok st" "get_relationship (r_id r) st = Some r" "n = r_from r \<or> n = r_to r"
  shows "r_id r \<in> set (hist_of (s_rels_by_node st) n)"
proof -
  have "r \<in> set (hist_of (s_rels st) (r_id r))"
    using assms(2) by (auto simp: get_relationship_def bind_eq_Some_conv hist_of_def dest: last_opt_in)
  with assms(1,3) show ?thesis unfolding graph_ok_def index_ok_def by blast
qed

text \<open>
  C21: The traversal read over a frontier returns each edge at most once and at most \<open>limit\<close>
  edges; every edge it returns is the current version of its id and still open; and unless the
  limit cut the answer, no open current edge with an endpoint in the frontier is missed: the
  adjacency index is complete.\<close>

theorem touching_complete:
  assumes ok: "graph_ok st"
  shows "distinct (map r_id (relationships_touching frontier limit st)) \<and>
    length (relationships_touching frontier limit st) \<le> limit \<and>
    (\<forall>r\<in>set (relationships_touching frontier limit st). open_edge r \<and> get_relationship (r_id r) st = Some r) \<and>
    (length (relationships_touching frontier limit st) < limit \<longrightarrow>
      (\<forall>r. get_relationship (r_id r) st = Some r \<longrightarrow> open_edge r \<longrightarrow>
        r_from r \<in> set frontier \<or> r_to r \<in> set frontier \<longrightarrow> r \<in> set (relationships_touching frontier limit st)))"
proof -
  define ids where "ids = remdups (concat (List.map_filter (hm_get (s_rels_by_node st)) frontier))"
  define rows where "rows = filter open_edge (List.map_filter (\<lambda>i. Option.bind (hm_get (s_rels st) i) last_opt) ids)"
  have out: "relationships_touching frontier limit st = take limit rows"
    by (simp add: relationships_touching_def Let_def ids_def rows_def)
  have "distinct (map r_id (List.map_filter (\<lambda>i. Option.bind (hm_get (s_rels st) i) last_opt) ids))"
    using get_relationship_id [OF ok] by (intro map_filter_ids_distinct) (auto simp: get_relationship_def ids_def)
  then have d: "distinct (map r_id rows)" unfolding rows_def by (rule distinct_map_filter)
  have mem: "r \<in> set rows \<longleftrightarrow> open_edge r \<and> r_id r \<in> set ids \<and> get_relationship (r_id r) st = Some r" for r
    unfolding rows_def using touching_rows [OF ok] by auto
  have "r_id r \<in> set ids"
    if "get_relationship (r_id r) st = Some r" "r_from r \<in> set frontier \<or> r_to r \<in> set frontier" for r
  proof -
    from that(2) obtain n where n: "n \<in> set frontier" "n = r_from r \<or> n = r_to r" by blast
    from current_indexed [OF ok that(1) n(2)]
    obtain l where "hm_get (s_rels_by_node st) n = Some l" "r_id r \<in> set l"
      by (cases "hm_get (s_rels_by_node st) n") (simp_all add: hist_of_def)
    moreover from this(1) n(1) have "l \<in> set (List.map_filter (hm_get (s_rels_by_node st)) frontier)"
      unfolding map_filter_member by blast
    ultimately show ?thesis unfolding ids_def by auto
  qed
  with mem have complete: "r \<in> set rows"
    if "get_relationship (r_id r) st = Some r" "open_edge r" "r_from r \<in> set frontier \<or> r_to r \<in> set frontier" for r
    using that by blast
  show ?thesis
    unfolding out using d mem complete
    by (auto simp: take_map [symmetric] dest: in_set_takeD)
qed

theorem touching_complete_witness:
  "graph_ok sample_linked \<and>
   length (relationships_touching [r_from sample_link] 5 sample_linked) \<le> 5"
  using touching_complete [OF sample_linked_ok] sample_linked_ok by blast

section \<open>Search by entity\<close>

lemma sort_take_cut:
  assumes "x \<in> set xs" "x \<notin> set (take n (sort_key f xs))"
  shows "length (take n (sort_key f xs)) = n" and "y \<in> set (take n (sort_key f xs)) \<Longrightarrow> f y \<le> f x"
proof -
  let ?s = "sort_key f xs"
  have "set ?s = set (take n ?s) \<union> set (drop n ?s)" by (metis append_take_drop_id set_append)
  with assms have d: "x \<in> set (drop n ?s)" by auto
  then show "length (take n ?s) = n" by (cases "n \<le> length ?s") auto
  have "sorted (map f (take n ?s @ drop n ?s))" by simp
  then show "y \<in> set (take n ?s) \<Longrightarrow> f y \<le> f x" using d unfolding map_append sorted_append by auto
qed

text \<open>
  Search by entity returns at most the requested number of current rows, each once, newest
  recording first, and only rows that mention the entity, pass the filter and are visible to the
  caller; a row that qualifies and is left out was cut by the limit and is no newer than any row
  returned.\<close>

theorem entity_search:
  assumes ok: "graph_ok st" and found: "find_by_entity e filt st = Inr rows"
  shows "length rows \<le> mf_limit filt \<and> distinct (map m_id rows) \<and>
    sorted_wrt (\<lambda>a b. m_recorded_at b \<le> m_recorded_at a) rows \<and>
    (\<forall>m\<in>set rows. get_memory (m_id m) st = Some m \<and> e \<in> set (c_entities (m_context m)) \<and>
      matches_filter filt m \<and> memory_visible m (mf_visibility_ctx filt)) \<and>
    (\<forall>m. get_memory (m_id m) st = Some m \<and> e \<in> set (c_entities (m_context m)) \<and> matches_filter filt m \<longrightarrow>
      m \<in> set rows \<or> length rows = mf_limit filt \<and> (\<forall>r\<in>set rows. m_recorded_at m \<le> m_recorded_at r))"
proof -
  define q where "q = filter (\<lambda>m. e \<in> set (c_entities (m_context m)) \<and> matches_filter filt m) (stream_all_memories st)"
  have rows: "rows = take (mf_limit filt) (sort_key (\<lambda>m. - m_recorded_at m) q)"
    using found by (simp add: find_by_entity_def q_def stream_all_memories_def split: if_splits)
  have q: "m \<in> set q \<longleftrightarrow> get_memory (m_id m) st = Some m \<and> e \<in> set (c_entities (m_context m)) \<and> matches_filter filt m" for m
    by (auto simp: q_def stream_memories(2) [OF ok])
  have "distinct (map m_id q)" unfolding q_def using stream_memories(1) [OF ok] by (rule distinct_map_filter)
  then have "distinct (map m_id (sort_key (\<lambda>m. - m_recorded_at m) q))" by (simp add: distinct_map)
  then have d: "distinct (map m_id rows)" unfolding rows take_map [symmetric] by (rule distinct_take)
  have "sorted (map (\<lambda>m. - m_recorded_at m) rows)" unfolding rows take_map [symmetric] by (simp add: sorted_wrt_take)
  then have s: "sorted_wrt (\<lambda>a b. m_recorded_at b \<le> m_recorded_at a) rows" by (simp add: sorted_map)
  have sub: "m \<in> set q" if "m \<in> set rows" for m using that unfolding rows by (auto dest: in_set_takeD)
  have cut: "m \<in> set rows \<or> length rows = mf_limit filt \<and> (\<forall>r\<in>set rows. m_recorded_at m \<le> m_recorded_at r)"
    if "m \<in> set q" for m
    using sort_take_cut [OF that, of "mf_limit filt" "\<lambda>m. - m_recorded_at m"] unfolding rows [symmetric] by auto
  show ?thesis
    using d s sub cut q by (auto simp: matches_filter_def rows)
qed

definition sample_filter :: memory_filter where
  "sample_filter = \<lparr>mf_memory_types = [], mf_entity_any_of = [], mf_project_id = None, mf_session_id = None,
     mf_valid_at = None, mf_limit = 1, mf_visibility_ctx = sample_vc\<rparr>"

definition sample_mention :: memory where
  "sample_mention = (sample_memory (MemoryId [1]) Org)\<lparr>m_context := sample_context\<lparr>c_entities := [EntityId [7]]\<rparr>\<rparr>"

definition sample_mentioned :: store where
  "sample_mentioned = snd (upsert_memory 0 sample_mention (new_store sample_ontology))"

lemma sample_mentioned_ok: "graph_ok sample_mentioned"
  using advances_upsert_memory [of "new_store sample_ontology" 0 sample_mention] graph_ok_build
  by (simp add: sample_mentioned_def new_store_def advances_def)

lemma sample_mention_found:
  "find_by_entity (EntityId [7]) sample_filter sample_mentioned = Inr [stamp_memory 1 sample_mention]"
  by (simp add: find_by_entity_def sample_mentioned_def sample_mention_def sample_filter_def new_store_def build_def
    upsert_memory_def next_lsn_def send_def hm_push_def hm_insert_def hm_values_def last_opt_def map_filter_simps
    matches_filter_def none_or_def memory_visible_def sample_memory_def sample_vc_def sample_context_def stamp_memory_def
    effective_visibility_def less_visibility_def Let_def)

theorem entity_search_witness:
  "graph_ok sample_mentioned \<and>
   get_memory (MemoryId [1]) sample_mentioned = Some (stamp_memory 1 sample_mention) \<and>
   memory_visible (stamp_memory 1 sample_mention) sample_vc"
  using entity_search [OF sample_mentioned_ok sample_mention_found] sample_mentioned_ok
  by (simp add: sample_filter_def sample_mention_def sample_memory_def stamp_memory_def)

section \<open>As-of reads\<close>



lemma count_histories:
  assumes "hm_ok m"
  shows "length (filter p (hm_values m)) = card {i. is_some_and p (hm_get m i)}"
proof -
  let ?f = "filter (\<lambda>e. p (snd e)) m"
  have d: "distinct (map fst ?f)" using assms unfolding hm_ok_def by (rule distinct_map_filter)
  have "i \<in> set (map fst ?f) \<longleftrightarrow> is_some_and p (hm_get m i)" for i
  proof -
    have "i \<in> set (map fst ?f) \<longleftrightarrow> (\<exists>h. (i, h) \<in> set m \<and> p h)" by (simp add: image_iff Bex_def)
    also have "\<dots> \<longleftrightarrow> (\<exists>h. hm_get m i = Some h \<and> p h)" using hm_mem_get [OF assms] hm_get_mem [of m i] by blast
    finally show ?thesis by (simp add: is_some_and_def split: option.split)
  qed
  then have "set (map fst ?f) = {i. is_some_and p (hm_get m i)}" by blast
  with distinct_card [OF d] show ?thesis by (simp add: hm_values_def filter_map comp_def)
qed

lemma valid_at_known:
  "valid_at i t st = Some m \<longleftrightarrow> known_memory t (memory_history st i) = Some m \<and> none_or (\<lambda>v. t < v) (m_valid_until m)"
  unfolding valid_at_def memory_history_def
  by (cases "hm_get (s_memories st) i") (auto simp: known_memory_def split: option.splits if_splits)

lemma valid_at_counted:
  "is_some_and (\<lambda>h. is_some_and (\<lambda>m. valid_span t (m_valid_from m) (m_valid_until m)) (known_memory t h))
     (hm_get (s_memories st) i) \<longleftrightarrow> valid_at i t st \<noteq> None"
proof -
  have "known_memory t h = Some m \<Longrightarrow> m_valid_from m \<le> t" for h m
    by (auto simp: known_memory_def find_Some_iff)
  then show ?thesis
    unfolding valid_at_def is_some_and_def valid_span_def by (auto split: option.splits)
qed



text \<open>Versions recorded after an instant are invisible to the as-of reads at that instant.\<close>

lemma known_memory_later:
  "\<forall>v\<in>set new. t < m_recorded_at v \<Longrightarrow> known_memory t (hist @ new) = known_memory t hist"
proof (induction new rule: rev_induct)
  case (snoc v new)
  then have "known_memory t ((hist @ new) @ [v]) = known_memory t (hist @ new)" by (simp add: known_memory_def)
  with snoc show ?case by simp
qed simp

lemma known_relationship_later:
  "\<forall>v\<in>set new. t < r_recorded_at v \<Longrightarrow> known_relationship t (hist @ new) = known_relationship t hist"
proof (induction new rule: rev_induct)
  case (snoc v new)
  then have "known_relationship t ((hist @ new) @ [v]) = known_relationship t (hist @ new)"
    by (simp add: known_relationship_def)
  with snoc show ?case by simp
qed simp

lemma valid_at_later:
  assumes "memory_history st' i = memory_history st i @ new" "\<forall>v\<in>set new. t < m_recorded_at v"
  shows "valid_at i t st' = valid_at i t st"
  using known_memory_later [OF assms(2)] assms(1) by (metis not_Some_eq valid_at_known)

text \<open>The snapshot counts the relationships whose newest known version spans the instant.\<close>

definition spans_at :: "instant \<Rightarrow> relationship_id \<Rightarrow> store \<Rightarrow> bool" where
  "spans_at t j st =
     is_some_and (\<lambda>r. valid_span t (r_valid_from r) (r_valid_until r)) (known_relationship t (relationship_history st j))"

lemma snapshot_counts:
  assumes "graph_ok st"
  shows "gs_memory_count (get_state_at t st) = card {i. valid_at i t st \<noteq> None}"
    and "gs_relationship_count (get_state_at t st) = card {j. spans_at t j st}"
proof -
  have "hm_ok (s_memories st)" "hm_ok (s_rels st)" using assms by (simp_all add: graph_ok_def rows_ok_def)
  moreover have "spans_at t j st \<longleftrightarrow>
      is_some_and (\<lambda>h. is_some_and (\<lambda>r. valid_span t (r_valid_from r) (r_valid_until r)) (known_relationship t h))
        (hm_get (s_rels st) j)" for j
    by (cases "hm_get (s_rels st) j")
      (simp_all add: spans_at_def relationship_history_hist hist_of_def known_relationship_def is_some_and_def)
  ultimately show "gs_memory_count (get_state_at t st) = card {i. valid_at i t st \<noteq> None}"
    "gs_relationship_count (get_state_at t st) = card {j. spans_at t j st}"
    by (simp_all add: get_state_at_def count_histories valid_at_counted)
qed

end
