(* ===== verification/Mem_System.thy ===== *)
theory Mem_System
  imports Mem_Reads
begin

text \<open>
  The in-memory backend as a transition system: every operation that changes the store is a
  step, in any order and with any arguments, clock readings included.  The mutation gate makes
  each operation one step; the publication loop that some operations run after releasing the
  gate is part of the step.
\<close>

section \<open>A system that keeps its records\<close>

text \<open>
  An invariant every step keeps, and a preorder of what is never taken back along a run.
\<close>

locale keeping_system =
  fixes init :: "'s \<Rightarrow> bool"
    and step :: "'s \<Rightarrow> 's \<Rightarrow> bool"
    and ok :: "'s \<Rightarrow> bool"
    and kept :: "'s \<Rightarrow> 's \<Rightarrow> bool"
  assumes init_ok: "init s \<Longrightarrow> ok s"
    and step_ok: "ok s \<Longrightarrow> step s t \<Longrightarrow> ok t"
    and step_kept: "ok s \<Longrightarrow> step s t \<Longrightarrow> kept s t"
    and kept_refl: "kept s s"
    and kept_trans: "kept s t \<Longrightarrow> kept t u \<Longrightarrow> kept s u"
begin

lemma run_ok: "step\<^sup>*\<^sup>* s t \<Longrightarrow> ok s \<Longrightarrow> ok t"
  by (induction rule: rtranclp_induct) (auto intro: step_ok)

lemma reach_ok: "init s \<Longrightarrow> step\<^sup>*\<^sup>* s t \<Longrightarrow> ok t"
  using init_ok run_ok by blast

lemma run_kept: "step\<^sup>*\<^sup>* s t \<Longrightarrow> ok s \<Longrightarrow> kept s t"
proof (induction rule: rtranclp_induct)
  case base
  show ?case by (rule kept_refl)
next
  case (step t u)
  then show ?case using kept_trans step_kept run_ok by blast
qed

end

section \<open>The steps of the backend\<close>

inductive write_step ::
    "(byte list \<Rightarrow> byte list) \<Rightarrow> (byte list \<Rightarrow> byte list) \<Rightarrow> (discovery_record list \<Rightarrow> string + byte list) \<Rightarrow>
     store \<Rightarrow> store \<Rightarrow> bool"
  for h digest json where
  ws_upsert_memory: "write_step h digest json st (snd (upsert_memory now m st))"
| ws_upsert_relationship: "write_step h digest json st (snd (upsert_relationship h now r st))"
| ws_delete_memory: "write_step h digest json st (snd (delete_memory now i st))"
| ws_delete_relationship: "write_step h digest json st (snd (delete_relationship now ri st))"
| ws_append_audit: "write_step h digest json st (snd (append_audit now a st))"
| ws_delete_audited: "write_step h digest json st (snd (delete_relationship_audited now ri a st))"
| ws_promote: "write_step h digest json st (snd (promote_memory_visibility_audited now m a st))"
| ws_batch: "write_step h digest json st (snd (upsert_batch h now ms rs st))"
| ws_batch_audited: "write_step h digest json st (snd (upsert_batch_audited h now ms rs a st))"
| ws_batch_once: "write_step h digest json st (snd (upsert_batch_once h now key ms rs st))"
| ws_import: "write_step h digest json st (snd (import_batch_once h now key ms rs st))"
| ws_commit: "write_step h digest json st (snd (commit_ingest_batch h now bk ms rs n st))"
| ws_commit_effect: "write_step h digest json st (snd (commit_ingest_batch_with_effect h now bk ms rs n e st))"
| ws_claim: "write_step h digest json st (snd (claim_ingest_effect now tok ttl st))"
| ws_renew_claim: "write_step h digest json st (snd (renew_ingest_effect_claim now ei tok ttl st))"
| ws_acknowledge: "write_step h digest json st (snd (acknowledge_ingest_effect now ei tok st))"
| ws_cleanup: "write_step h digest json st (snd (complete_ingest_effect_cleanup ei st))"
| ws_acquire: "write_step h digest json st (snd (acquire_lease now lk ttl st))"
| ws_renew: "write_step h digest json st (snd (renew_lease now lease st))"
| ws_release: "write_step h digest json st (snd (release_lease lease st))"
| ws_create: "write_step h digest json st (snd (create_discovery_proposal p st))"
| ws_store: "write_step h digest json st (snd (store_discovery d st))"
| ws_store_fenced: "write_step h digest json st (snd (store_discovery_fenced now d lease st))"
| ws_accept: "write_step h digest json st (snd (accept_discovery h now acc st))"
| ws_batch_fenced: "write_step h digest json st (snd (upsert_batch_fenced h now ms rs lease st))"
| ws_delete_fenced: "write_step h digest json st (snd (delete_memory_fenced now i lease st))"
| ws_journaled: "write_step h digest json st (snd (upsert_batch_fenced_journaled h now ms rs prep cid lease st))"
| ws_complete: "write_step h digest json st (snd (complete_cycle_journal_fenced now cid lease st))"
| ws_settle: "write_step h digest json st (snd (settle_dreams_cycle_fenced digest json now cid ds lease st))"
| ws_get_memories: "write_step h digest json st (snd (get_memories ids st))"

inductive store_step ::
    "(byte list \<Rightarrow> byte list) \<Rightarrow> (byte list \<Rightarrow> byte list) \<Rightarrow> (discovery_record list \<Rightarrow> string + byte list) \<Rightarrow>
     store \<Rightarrow> store \<Rightarrow> bool"
  for h digest json where
  ss_write: "write_step h digest json st st' \<Longrightarrow> store_step h digest json st st'"
| ss_restore: "store_step h digest json st (snd (restore_fenced now restore lease st))"

section \<open>What each step does to the graph\<close>

lemma advances_claim: "advances st (snd (claim_ingest_effect now tok ttl st))"
  by (auto simp: claim_ingest_effect_def Let_def split: list.split option.split intro!: advances_cong [OF advances_refl])

lemma advances_queue:
  "advances st (snd (renew_ingest_effect_claim now ei tok ttl st))"
  "advances st (snd (acknowledge_ingest_effect now ei tok st))"
  "advances st (snd (complete_ingest_effect_cleanup ei st))"
  by (auto simp: renew_ingest_effect_claim_def acknowledge_ingest_effect_def complete_ingest_effect_cleanup_def
      split: option.split intro!: advances_cong [OF advances_refl])

lemma advances_commits:
  "advances st (snd (commit_ingest_batch h now bk ms rs n st))"
  "advances st (snd (commit_ingest_batch_with_effect h now bk ms rs n e st))"
proof -
  show "advances st (snd (commit_ingest_batch h now bk ms rs n st))"
    unfolding commit_ingest_batch_eq by (rule advances_commit)
  have "advances st (st\<lparr>s_fail_next_ingest_commit := False\<rparr>)" by (rule advances_cong [OF advances_refl]) simp_all
  then show "advances st (snd (commit_ingest_batch_with_effect h now bk ms rs n e st))"
    using advances_commit [of st h now bk ms rs n "Some e"]
    by (cases "s_fail_next_ingest_commit st")
      (simp_all add: commit_with_effect_eq, simp add: commit_ingest_batch_with_effect_def)
qed

lemma advances_fenced:
  "advances st (snd (store_discovery_fenced now d lease st))"
  "advances st (snd (delete_memory_fenced now i lease st))"
  by (simp_all add: store_discovery_fenced_eq delete_memory_fenced_eq advances_store advances_delete_memory split: sum.split)

lemma advances_get_memories: "advances st (snd (get_memories ids st))"
  by (auto simp: get_memories_def intro!: advances_cong [OF advances_refl])

lemmas advances_all = advances_upsert_memory advances_upsert_relationship advances_delete_memory
  advances_delete_relationship advances_append_audit advances_delete_relationship_audited advances_promote
  advances_upsert_batch advances_upsert_batch_audited advances_upsert_batch_once advances_commits advances_claim
  advances_queue advances_leases advances_create advances_store advances_accept advances_batch_fenced
  advances_fenced advances_journaled advances_complete_journal advances_settle_cycle advances_get_memories

lemma write_step_advances: "write_step h digest json st st' \<Longrightarrow> advances st st'"
  by (erule write_step.cases) (simp_all add: advances_all import_batch_once_def)

section \<open>What each step does to the tables\<close>

definition cycles_ok :: "store \<Rightarrow> bool" where
  "cycles_ok st \<longleftrightarrow>
     hm_ok (s_cycle_journals st) \<and> hm_ok (s_succeeded_cycles st) \<and>
     (\<forall>key j. hm_get (s_cycle_journals st) key = Some j \<longrightarrow> cj_lease_key j = key \<and> restore_ok (cj_restore j))"

definition tables_ok :: "store \<Rightarrow> bool" where
  "tables_ok st \<longleftrightarrow> queue_ok st \<and> leases_ok st \<and> discoveries_ok st \<and> cycles_ok st"

text \<open>
  What is never taken back: settlements, governed imports, successful cycles and consumed
  proposals stay on record, proposals keep their terms, and fencing epochs do not fall.
\<close>

definition kept :: "store \<Rightarrow> store \<Rightarrow> bool" where
  "kept st st' \<longleftrightarrow>
     (\<forall>k s. hm_get (s_settled_ingest st) k = Some s \<longrightarrow> hm_get (s_settled_ingest st') k = Some s) \<and>
     set (s_governed_imports st) \<subseteq> set (s_governed_imports st') \<and>
     (\<forall>k d. hm_get (s_succeeded_cycles st) k = Some d \<longrightarrow> hm_get (s_succeeded_cycles st') k = Some d) \<and>
     (\<forall>i p. hm_get (s_proposals st) i = Some p \<longrightarrow>
        (\<exists>q. hm_get (s_proposals st') i = Some q \<and> sp_proposal q = sp_proposal p \<and> (sp_consumed p \<longrightarrow> sp_consumed q))) \<and>
     (\<forall>k. current_epoch k st \<le> current_epoch k st') \<and>
     s_ingest_effect_generation st \<le> s_ingest_effect_generation st' \<and>
     s_ontology st' = s_ontology st"

lemma kept_refl [simp]: "kept st st"
  by (simp add: kept_def)

lemma kept_trans: "kept a b \<Longrightarrow> kept b c \<Longrightarrow> kept a c"
  unfolding kept_def by (intro conjI allI impI) (blast, blast, blast, metis, metis le_trans, linarith, simp)

definition tables ::
    "store \<Rightarrow> (lease_key, held_lease) hmap \<times> (lease_key, nat) hmap \<times> (string, stored_proposal) hmap \<times>
     (string, discovery_record) hmap \<times> (ingest_batch_key, settled_ingest_batch) hmap \<times> (string, ingest_effect) hmap \<times>
     nat \<times> string list \<times> (lease_key, cycle_journal_record) hmap \<times> (lease_key \<times> string, string) hmap \<times> ontology" where
  "tables st = (s_leases st, s_lease_epochs st, s_proposals st, s_discoveries st, s_settled_ingest st, s_ingest_effects st,
     s_ingest_effect_generation st, s_governed_imports st, s_cycle_journals st, s_succeeded_cycles st, s_ontology st)"

definition keeps :: "store \<Rightarrow> store \<Rightarrow> bool" where
  "keeps st st' \<longleftrightarrow> (tables_ok st \<longrightarrow> tables_ok st' \<and> kept st st')"

lemma keeps_refl [simp]: "keeps st st"
  by (simp add: keeps_def)

lemma keeps_tables: "tables st' = tables st \<Longrightarrow> keeps st st'"
  unfolding keeps_def tables_ok_def
  by (auto simp: tables_def kept_def current_epoch_def cycles_ok_def
      intro: queue_ok_cong leases_ok_cong discoveries_ok_cong)

lemma keeps_after: "keeps st st1 \<Longrightarrow> tables st' = tables st1 \<Longrightarrow> keeps st st'"
  using keeps_tables [of st' st1] kept_trans unfolding keeps_def by blast

lemma tables_write_rows [simp]: "tables (write_rows xs st) = tables st"
  by (simp add: tables_def)

lemma tables_push_audit [simp]: "tables (push_audit a n st) = tables st"
  by (simp add: tables_def push_audit_def)

lemma tables_publish [simp]: "tables (publish invs st) = tables st"
  by (simp add: tables_def publish_eq)

lemma tables_write_row [simp]: "tables (write_row x st) = tables st"
  by (simp add: tables_def)

lemma tables_rows:
  "tables (snd (upsert_memory now m st)) = tables st"
  "tables (snd (upsert_relationship h now r st)) = tables st"
  "tables (snd (delete_memory now i st)) = tables st"
  "tables (snd (delete_relationship now ri st)) = tables st"
  "tables (snd (append_audit now a st)) = tables st"
  "tables (snd (promote_memory_visibility_audited now m a st)) = tables st"
  "tables (snd (upsert_batch h now ms rs st)) = tables st"
proof -
  show "tables (snd (upsert_memory now m st)) = tables st"
    by (simp add: upsert_memory_row del: write_row.simps)
  show "tables (snd (upsert_relationship h now r st)) = tables st"
    unfolding upsert_relationship_eq snd_conv by (rule tables_write_rows)
  show "tables (snd (delete_memory now i st)) = tables st"
    by (simp add: delete_memory_eq tables_def split: option.split)
  show "tables (snd (delete_relationship now ri st)) = tables st"
    by (simp add: delete_relationship_eq tables_def split: option.split)
  show "tables (snd (append_audit now a st)) = tables st"
    by (simp add: append_audit_def next_lsn_def push_audit_def tables_def)
  show "tables (snd (promote_memory_visibility_audited now m a st)) = tables st"
    by (simp add: promote_eq del: write_row.simps split: option.split)
  show "tables (snd (upsert_batch h now ms rs st)) = tables st"
    by (simp add: upsert_batch_eq split: option.split)
qed

lemma tables_audited:
  "tables (snd (delete_relationship_audited now ri a st)) = tables st"
  "tables (snd (upsert_batch_audited h now ms rs a st)) = tables st"
proof -
  have "tables (st\<lparr>s_lsn := n\<rparr>) = tables st" for n by (simp add: tables_def)
  then show "tables (snd (delete_relationship_audited now ri a st)) = tables st"
    by (simp add: delete_relationship_audited_eq tables_rows split: option.split)
  show "tables (snd (upsert_batch_audited h now ms rs a st)) = tables st"
    by (rule upsert_batch_locked_cases [of st ms rs h now])
      (simp_all add: upsert_batch_audited_def publish_push_audit del: tables_publish)
qed

lemma tables_fenced:
  "tables (snd (upsert_batch_fenced h now ms rs lease st)) = tables st"
  "tables (snd (delete_memory_fenced now i lease st)) = tables st"
  "tables (snd (restore_fenced now restore lease st)) = tables st"
  "tables (snd (get_memories ids st)) = tables st"
proof -
  show "tables (snd (upsert_batch_fenced h now ms rs lease st)) = tables st"
    using tables_rows(7) [of h now ms rs st] by (auto simp: upsert_batch_fenced_eq split: sum.split prod.split)
  show "tables (snd (delete_memory_fenced now i lease st)) = tables st"
    by (simp add: delete_memory_fenced_eq tables_rows split: sum.split)
  have "tables (st\<lparr>s_lsn := n, s_memories := a, s_rels := b\<rparr>) = tables st" for n a b by (simp add: tables_def)
  then show "tables (snd (restore_fenced now restore lease st)) = tables st"
    by (simp add: restore_fenced_def Let_def split: sum.split)
  show "tables (snd (get_memories ids st)) = tables st"
    by (simp add: get_memories_def tables_def)
qed

text \<open>A step on one table keeps the others.\<close>

lemma keeps_once: "keeps st (snd (upsert_batch_once h now key ms rs st))"
proof -
  have "keeps st (st1\<lparr>s_governed_imports := key # s_governed_imports st\<rparr>)"
    if "upsert_batch h now ms rs st = (Inr recs, st1)" for recs st1
    using tables_rows(7) [of h now ms rs st] that
    by (auto simp: tables_def keeps_def tables_ok_def kept_def current_epoch_def cycles_ok_def queue_ok_def
        leases_ok_def discoveries_ok_def)
  moreover have "keeps st st1" if "upsert_batch h now ms rs st = (Inl e, st1)" for e st1
    using tables_rows(7) [of h now ms rs st] that by (simp add: keeps_tables)
  ultimately show ?thesis by (auto simp: upsert_batch_once_eq split: prod.split sum.split)
qed

lemma keeps_queue:
  assumes "tables_ok st \<Longrightarrow> queue_ok st'" "s_settled_ingest st' = s_settled_ingest st"
    "s_ingest_effect_generation st \<le> s_ingest_effect_generation st'"
    "st' = st\<lparr>s_ingest_effects := s_ingest_effects st', s_ingest_effect_generation := s_ingest_effect_generation st'\<rparr>"
  shows "keeps st st'"
  unfolding keeps_def
proof
  assume "tables_ok st"
  moreover have "queue_ok st'" using assms(1) calculation by blast
  moreover have "leases_ok st'" if "leases_ok st" using that by (subst assms(4)) (simp add: leases_ok_def)
  moreover have "discoveries_ok st'" if "discoveries_ok st" using that by (subst assms(4)) (simp add: discoveries_ok_def)
  moreover have "cycles_ok st'" if "cycles_ok st" using that by (subst assms(4)) (simp add: cycles_ok_def)
  moreover have "kept st st'" using assms(3) by (subst assms(4)) (simp add: kept_def current_epoch_def)
  ultimately show "tables_ok st' \<and> kept st st'" by (simp add: tables_ok_def)
qed

lemma keeps_queue_operations:
  "keeps st (snd (claim_ingest_effect now tok ttl st))"
  "keeps st (snd (renew_ingest_effect_claim now ei tok ttl st))"
  "keeps st (snd (acknowledge_ingest_effect now ei tok st))"
  "keeps st (snd (complete_ingest_effect_cleanup ei st))"
  by (rule keeps_queue;
      (simp add: queue_ok_claim queue_ok_renew queue_ok_acknowledge queue_ok_cleanup tables_ok_def; fail)?;
      simp add: claim_ingest_effect_def renew_ingest_effect_claim_def acknowledge_ingest_effect_def
        complete_ingest_effect_cleanup_def Let_def split: list.split option.split)+

lemma keeps_settle:
  assumes "keeps st st1" "hm_get (s_settled_ingest st1) key = None"
  shows "keeps st (settle key s effect st1)"
  unfolding keeps_def
proof
  assume ok: "tables_ok st"
  have same: "s_leases (settle key s effect st1) = s_leases st1" "s_lease_epochs (settle key s effect st1) = s_lease_epochs st1"
    "s_proposals (settle key s effect st1) = s_proposals st1" "s_discoveries (settle key s effect st1) = s_discoveries st1"
    "s_cycle_journals (settle key s effect st1) = s_cycle_journals st1"
    "s_succeeded_cycles (settle key s effect st1) = s_succeeded_cycles st1"
    "s_governed_imports (settle key s effect st1) = s_governed_imports st1"
    by (simp_all add: settle_def insert_effect_def split: option.split)
  from assms(1) ok have ok1: "tables_ok st1" and k: "kept st st1" by (simp_all add: keeps_def)
  have "kept st1 (settle key s effect st1)" using assms(2) by (auto simp: kept_def same current_epoch_def)
  moreover have "tables_ok (settle key s effect st1)"
    using ok1 same by (auto simp: tables_ok_def cycles_ok_def queue_ok_settle intro: leases_ok_cong discoveries_ok_cong)
  ultimately show "tables_ok (settle key s effect st1) \<and> kept st (settle key s effect st1)"
    using k kept_trans by blast
qed

lemma keeps_commit: "keeps st (snd (commit_published h now key ms rs n effect st))"
proof (cases "hm_get (s_settled_ingest st) key")
  case None
  have t: "tables (snd (upsert_batch h now ms rs st)) = tables st" by (rule tables_rows)
  then have "hm_get (s_settled_ingest (snd (upsert_batch h now ms rs st))) key = None" using None by (simp add: tables_def)
  with keeps_settle [OF keeps_tables [OF t]] None keeps_tables [OF t] show ?thesis
    by (cases "upsert_batch h now ms rs st") (simp add: commit_published_eq split: option.split sum.split)
qed (simp add: commit_published_eq)

lemma keeps_commits:
  "keeps st (snd (commit_ingest_batch h now bk ms rs n st))"
  "keeps st (snd (commit_ingest_batch_with_effect h now bk ms rs n e st))"
proof -
  show "keeps st (snd (commit_ingest_batch h now bk ms rs n st))"
    unfolding commit_ingest_batch_eq by (rule keeps_commit)
  have "keeps st (st\<lparr>s_fail_next_ingest_commit := False\<rparr>)" by (rule keeps_tables) (simp add: tables_def)
  then show "keeps st (snd (commit_ingest_batch_with_effect h now bk ms rs n e st))"
    using keeps_commit [of st h now bk ms rs n "Some e"]
    by (cases "s_fail_next_ingest_commit st")
      (simp_all add: commit_with_effect_eq, simp add: commit_ingest_batch_with_effect_def)
qed

lemma keeps_leases:
  assumes "tables_ok st \<Longrightarrow> leases_ok st'" "\<And>k. current_epoch k st \<le> current_epoch k st'"
    "st' = st\<lparr>s_leases := s_leases st', s_lease_epochs := s_lease_epochs st'\<rparr>"
  shows "keeps st st'"
  unfolding keeps_def
proof
  assume "tables_ok st"
  moreover have "leases_ok st'" using assms(1) calculation by blast
  moreover have "queue_ok st'" if "queue_ok st" using that by (subst assms(3)) (simp add: queue_ok_def)
  moreover have "discoveries_ok st'" if "discoveries_ok st" using that by (subst assms(3)) (simp add: discoveries_ok_def)
  moreover have "cycles_ok st'" if "cycles_ok st" using that by (subst assms(3)) (simp add: cycles_ok_def)
  moreover have "kept st st'"
  proof -
    obtain a b where st': "st' = st\<lparr>s_leases := a, s_lease_epochs := b\<rparr>" using assms(3) by blast
    show ?thesis using assms(2) by (simp add: kept_def st')
  qed
  ultimately show "tables_ok st' \<and> kept st st'" by (simp add: tables_ok_def)
qed

lemma keeps_lease_operations:
  "keeps st (snd (acquire_lease now lk ttl st))"
  "keeps st (snd (renew_lease now lease st))"
  "keeps st (snd (release_lease lease st))"
proof -
  show "keeps st (snd (acquire_lease now lk ttl st))"
    by (rule keeps_leases) (simp_all add: tables_ok_def leases_ok_acquire epoch_mono, simp add: acquire_lease_def Let_def)
  show "keeps st (snd (renew_lease now lease st))"
    by (rule keeps_leases) (simp_all add: tables_ok_def leases_ok_renew epoch_mono, simp add: renew_lease_def Let_def split: option.split)
  show "keeps st (snd (release_lease lease st))"
    by (rule keeps_leases) (simp_all add: tables_ok_def leases_ok_release epoch_mono, simp add: release_lease_def)
qed

lemma keeps_discoveries:
  assumes "tables_ok st \<Longrightarrow> discoveries_ok st'"
    "\<And>i p. hm_get (s_proposals st) i = Some p \<Longrightarrow>
       \<exists>q. hm_get (s_proposals st') i = Some q \<and> sp_proposal q = sp_proposal p \<and> (sp_consumed p \<longrightarrow> sp_consumed q)"
    "tables st' = tables (st\<lparr>s_proposals := s_proposals st', s_discoveries := s_discoveries st'\<rparr>)"
  shows "keeps st st'"
  unfolding keeps_def
proof
  assume "tables_ok st"
  moreover have "discoveries_ok st'" using assms(1) calculation by blast
  moreover have "queue_ok st'" if "queue_ok st" using that assms(3) by (intro queue_ok_cong [OF that]) (simp_all add: tables_def)
  moreover have "leases_ok st'" if "leases_ok st" using that assms(3) by (intro leases_ok_cong [OF that]) (simp_all add: tables_def)
  moreover have "cycles_ok st'" if "cycles_ok st" using that assms(3) by (simp add: cycles_ok_def tables_def)
  moreover have "kept st st'" using assms(2,3) by (simp add: kept_def tables_def current_epoch_def)
  ultimately show "tables_ok st' \<and> kept st st'" by (simp add: tables_ok_def)
qed

lemma keeps_create: "keeps st (snd (create_discovery_proposal p st))"
proof (rule keeps_discoveries)
  show "tables_ok st \<Longrightarrow> discoveries_ok (snd (create_discovery_proposal p st))"
    by (simp add: tables_ok_def discoveries_ok_create)
  show "\<exists>q. hm_get (s_proposals (snd (create_discovery_proposal p st))) i = Some q \<and> sp_proposal q = sp_proposal v \<and>
      (sp_consumed v \<longrightarrow> sp_consumed q)" if "hm_get (s_proposals st) i = Some v" for i v
    using that by (auto simp: create_discovery_proposal_def split: option.split)
qed (auto simp: create_discovery_proposal_def tables_def split: option.split)

lemma keeps_store: "keeps st (snd (store_discovery d st))"
  by (rule keeps_discoveries)
    (auto simp: tables_ok_def discoveries_ok_store, auto simp: store_discovery_eq tables_def split: option.split)

lemma keeps_store_fenced: "keeps st (snd (store_discovery_fenced now d lease st))"
  by (simp add: store_discovery_fenced_eq keeps_store split: sum.split)

lemma keeps_accept: "keeps st (snd (accept_discovery h now acc st))"
proof (rule keeps_discoveries)
  show "tables_ok st \<Longrightarrow> discoveries_ok (snd (accept_discovery h now acc st))"
    by (simp add: tables_ok_def discoveries_ok_accept)
  show "\<exists>q. hm_get (s_proposals (snd (accept_discovery h now acc st))) i = Some q \<and> sp_proposal q = sp_proposal v \<and>
      (sp_consumed v \<longrightarrow> sp_consumed q)" if "hm_get (s_proposals st) i = Some v" for i v
    using that by (auto simp: accept_discovery_eq split: option.split)
qed (auto simp: accept_discovery_eq tables_def push_audit_def split: option.split)

lemma keeps_cycles:
  assumes "tables_ok st \<Longrightarrow> cycles_ok st'"
    "\<And>k d. hm_get (s_succeeded_cycles st) k = Some d \<Longrightarrow> hm_get (s_succeeded_cycles st') k = Some d"
    "tables st' = tables (st\<lparr>s_cycle_journals := s_cycle_journals st', s_succeeded_cycles := s_succeeded_cycles st'\<rparr>)"
  shows "keeps st st'"
  unfolding keeps_def
proof
  assume "tables_ok st"
  moreover have "cycles_ok st'" using assms(1) calculation by blast
  moreover have "queue_ok st'" if "queue_ok st" using that assms(3) by (intro queue_ok_cong [OF that]) (simp_all add: tables_def)
  moreover have "leases_ok st'" if "leases_ok st" using that assms(3) by (intro leases_ok_cong [OF that]) (simp_all add: tables_def)
  moreover have "discoveries_ok st'" if "discoveries_ok st"
    using that assms(3) by (intro discoveries_ok_cong [OF that]) (simp_all add: tables_def)
  moreover have "kept st st'" using assms(2,3) by (simp add: kept_def tables_def current_epoch_def)
  ultimately show "tables_ok st' \<and> kept st st'" by (simp add: tables_ok_def)
qed

lemma keeps_complete: "keeps st (snd (complete_cycle_journal_fenced now cid lease st))"
  by (rule keeps_cycles)
    (auto simp: complete_cycle_journal_fenced_def tables_ok_def cycles_ok_def tables_def split: sum.split option.split)

lemma journal_batch_key:
  "(\<And>j. existing = Some j \<Longrightarrow> cj_lease_key j = ol_key lease) \<Longrightarrow>
     cj_lease_key (journal_batch cid lease prep c existing) = ol_key lease"
  by (simp add: journal_batch_def Let_def split: option.split)

lemma keeps_journaled: "keeps st (snd (upsert_batch_fenced_journaled h now ms rs prep cid lease st))"
proof -
  obtain res st' where run: "upsert_batch_fenced_journaled h now ms rs prep cid lease st = (res, st')" by force
  then show ?thesis
  proof (cases rule: journaled_batch_cases)
    case (committed recs st1)
    have t: "tables st1 = tables st" using tables_rows(7) [of h now ms rs st] committed(3) by simp
    then have j: "s_cycle_journals st1 = s_cycle_journals st" "s_succeeded_cycles st1 = s_succeeded_cycles st"
      by (simp_all add: tables_def)
    define j' where "j' = hm_insert (ol_key lease)
       (journal_batch cid lease prep (tally_all recs (drop (length (s_feed st)) (s_feed st1)))
         (hm_get (s_cycle_journals st) (ol_key lease))) (s_cycle_journals st)"
    have "tables_ok st \<Longrightarrow> cycles_ok (st1\<lparr>s_cycle_journals := j'\<rparr>)"
      by (auto simp: tables_ok_def cycles_ok_def j j'_def intro: journal_batch_key journal_batch_ok)
    moreover have "tables (st1\<lparr>s_cycle_journals := j'\<rparr>) =
        tables (st\<lparr>s_cycle_journals := j', s_succeeded_cycles := s_succeeded_cycles st\<rparr>)"
      using t by (simp add: tables_def)
    ultimately have "keeps st (st1\<lparr>s_cycle_journals := j'\<rparr>)" by (intro keeps_cycles) (simp_all add: j)
    then show ?thesis unfolding journaled_batch_eq [OF committed] snd_conv j'_def .
  qed (simp add: run)
qed

lemma keeps_trans: "keeps a b \<Longrightarrow> keeps b c \<Longrightarrow> keeps a c"
  using kept_trans unfolding keeps_def by blast

lemma keeps_open_discovery:
  assumes "\<not> hm_contains (s_proposals st) (dr_discovery_id d)" shows "keeps st (open_discovery d st)"
proof (rule keeps_discoveries)
  show "tables_ok st \<Longrightarrow> discoveries_ok (open_discovery d st)"
    using assms by (auto simp: tables_ok_def discoveries_ok_def open_discovery_def hm_contains_def)
qed (auto simp: open_discovery_def tables_def)

lemma keeps_open_discoveries:
  "(\<And>d. d \<in> set ds \<Longrightarrow> \<not> hm_contains (s_proposals st) (dr_discovery_id d)) \<Longrightarrow> keeps st (fold open_discovery ds st)"
proof (induction ds arbitrary: st)
  case (Cons d ds)
  have "s_proposals (open_discovery d st) = s_proposals st" by (simp add: open_discovery_def)
  with Cons.prems have "keeps (open_discovery d st) (fold open_discovery ds (open_discovery d st))"
    by (intro Cons.IH) simp
  moreover have "keeps st (open_discovery d st)" using Cons.prems by (intro keeps_open_discovery) simp
  ultimately show ?case using keeps_trans by simp
qed simp

lemma open_discoveries_cycles [simp]:
  "s_cycle_journals (fold open_discovery ds st) = s_cycle_journals st"
  "s_succeeded_cycles (fold open_discovery ds st) = s_succeeded_cycles st"
  by (induction ds arbitrary: st) (simp_all add: open_discovery_def)

lemma keeps_settle_cycle: "keeps st (snd (settle_dreams_cycle_fenced digest json now cid ds lease st))"
proof -
  have "keeps st ((fold open_discovery ds st)\<lparr>s_cycle_journals := hm_insert (ol_key lease) j (s_cycle_journals st),
      s_succeeded_cycles := hm_insert (ol_key lease, cid) e (s_succeeded_cycles st)\<rparr>)"
    if "\<not> list_ex (settlement_clash st) ds" "hm_get (s_succeeded_cycles st) (ol_key lease, cid) = None"
      "cj_lease_key j = ol_key lease" "restore_ok (cj_restore j)" for j e
  proof -
    have k: "keeps st (fold open_discovery ds st)"
      using that(1) by (intro keeps_open_discoveries) (auto simp: list_ex_iff settlement_clash_def)
    moreover have "keeps (fold open_discovery ds st) ((fold open_discovery ds st)
      \<lparr>s_cycle_journals := hm_insert (ol_key lease) j (s_cycle_journals st),
      s_succeeded_cycles := hm_insert (ol_key lease, cid) e (s_succeeded_cycles st)\<rparr>)"
      by (rule keeps_cycles) (use that in \<open>auto simp: tables_ok_def cycles_ok_def tables_def\<close>)
    ultimately show ?thesis by (rule keeps_trans)
  qed
  moreover have "restore_ok empty_restore" by (simp add: restore_ok_def empty_restore_def bt_ok_def)
  ultimately show ?thesis by (simp add: settle_eq split: sum.split option.split)
qed

lemmas keeps_all = keeps_once keeps_queue_operations keeps_commits keeps_lease_operations keeps_create keeps_store
  keeps_store_fenced keeps_accept keeps_complete keeps_journaled keeps_settle_cycle
  tables_rows [THEN keeps_tables] tables_audited [THEN keeps_tables] tables_fenced [THEN keeps_tables]

lemma write_step_keeps: "write_step h digest json st st' \<Longrightarrow> keeps st st'"
  by (erule write_step.cases) (simp_all add: keeps_all import_batch_once_def)

lemma store_step_keeps: "store_step h digest json st st' \<Longrightarrow> keeps st st'"
  by (erule store_step.cases) (simp_all add: write_step_keeps keeps_all)

lemma store_step_graph: "store_step h digest json st st' \<Longrightarrow> graph_ok st \<Longrightarrow> graph_ok st'"
  by (erule store_step.cases) (auto simp: graph_ok_restore dest: write_step_advances simp: advances_def)

definition store_ok :: "store \<Rightarrow> bool" where
  "store_ok st \<longleftrightarrow> graph_ok st \<and> tables_ok st"

definition initial :: "store \<Rightarrow> bool" where
  "initial st \<longleftrightarrow> (\<exists>onto recognized. st = build onto recognized)"

lemma initial_ok: "initial st \<Longrightarrow> store_ok st"
  by (auto simp: initial_def store_ok_def tables_ok_def graph_ok_build queue_ok_build leases_ok_build
      discoveries_ok_build) (simp add: cycles_ok_def build_def)

interpretation backend: keeping_system initial "store_step h digest json" store_ok kept
proof
  fix s t u
  show "initial s \<Longrightarrow> store_ok s" by (rule initial_ok)
  show "store_ok s \<Longrightarrow> store_step h digest json s t \<Longrightarrow> store_ok t"
    using store_step_keeps [of h digest json s t] store_step_graph [of h digest json s t]
    by (simp add: store_ok_def keeps_def)
  show "store_ok s \<Longrightarrow> store_step h digest json s t \<Longrightarrow> kept s t"
    using store_step_keeps [of h digest json s t] by (simp add: store_ok_def keeps_def)
  show "kept s s" by simp
  show "kept s t \<Longrightarrow> kept t u \<Longrightarrow> kept s u" by (rule kept_trans)
qed

interpretation appends: keeping_system initial "write_step h digest json" store_ok grows
proof
  fix s t u
  show "initial s \<Longrightarrow> store_ok s" by (rule initial_ok)
  show "store_ok s \<Longrightarrow> write_step h digest json s t \<Longrightarrow> store_ok t"
    using backend.step_ok ss_write by blast
  show "store_ok s \<Longrightarrow> write_step h digest json s t \<Longrightarrow> grows s t"
    using write_step_advances [of h digest json s t] by (simp add: advances_def)
  show "grows s s" by simp
  show "grows s t \<Longrightarrow> grows t u \<Longrightarrow> grows s u" by (rule grows_trans)
qed

end
