(* ===== verification/Wire.thy ===== *)
theory Wire
  imports Storage_Types
begin

text \<open>
  The wire messages (\<open>proto/*.proto\<close>) and the integrity helpers over them
  (\<open>exocortex-wire/src/signing.rs\<close>).  The Protobuf encoder, HMAC-SHA256 and BLAKE3 are
  parameters: \<open>enc\<close>, \<open>mac\<close> (key, then message) and \<open>h\<close>.  An enumeration field is its
  \<open>i32\<close>.
\<close>

section \<open>Messages\<close>

record timestamp_pb =
  ts_seconds :: int
  ts_nanos :: int

record rights_pb =
  rp_licence :: string
  rp_consent_basis :: string
  rp_retention_until :: "timestamp_pb option"
  rp_redacted :: bool

record external_key_pb =
  xkp_table_uuid :: "byte list"
  xkp_logical_pk :: string
  xkp_mapping_version :: u32

record memory_draft_pb =
  md_draft_key :: string
  md_id :: string
  md_memory_type :: string
  md_title :: string
  md_content :: string
  md_tags :: "string list"
  md_visibility :: int
  md_valid_from :: "timestamp_pb option"
  md_valid_until :: "timestamp_pb option"
  md_external_key :: "external_key_pb option"
  md_rights :: "rights_pb option"

record relationship_draft_pb =
  rd_from_draft_key :: string
  rd_to_draft_key :: string
  rd_kind :: string
  rd_strength :: f32
  rd_confidence :: f32
  rd_context :: string
  rd_visibility :: int
  rd_to_memory_id :: string

record snapshot_info_pb =
  si_snapshot_id :: string
  si_schema_hash :: "byte list"
  si_source_flavor :: string

record client_metadata_pb =
  cm_playbook_version :: string
  cm_client_version :: string
  cm_harness_hint :: string
  cm_project_id :: string
  cm_team_id :: string

record producer_identity_pb =
  pi_node_id :: string
  pi_agent_id :: string
  pi_adapter_id :: string
  pi_hmac_signature :: "byte list"
  pi_client_metadata :: "client_metadata_pb option"

record ingest_batch =
  ibt_org_id :: string
  ibt_source_uri :: string
  ibt_producer_id :: string
  ibt_batch_id :: string
  ibt_mapping_version :: string
  ibt_ontology_fingerprint :: "byte list"
  ibt_ceiling :: int
  ibt_checksum :: string
  ibt_observed_at :: "timestamp_pb option"
  ibt_recorded_at :: "timestamp_pb option"
  ibt_snapshot :: "snapshot_info_pb option"
  ibt_memories :: "memory_draft_pb list"
  ibt_relationships :: "relationship_draft_pb list"
  ibt_producer :: "producer_identity_pb option"

record projection_field_pb =
  pf_source_field :: string
  pf_memory_type :: string
  pf_kind :: string

record source_column_pb =
  sc_name :: string
  sc_data_type :: string

record projection_bounds_pb =
  pb_max_rows_per_window :: nat
  pb_max_rows_per_run :: nat
  pb_max_graph_share_percent :: u32

record projection_descriptor_pb =
  pd_selector :: string
  pd_fields :: "projection_field_pb list"
  pd_source_schema :: "source_column_pb list"
  pd_mapping_version :: u32
  pd_bounds :: "projection_bounds_pb option"
  pd_last_snapshot_id :: string

record register_source_request =
  rr_org_id :: string
  rr_source_uri :: string
  rr_producer_id :: string
  rr_ceiling :: int
  rr_source_flavor :: string
  rr_producer :: "producer_identity_pb option"
  rr_producer_kind :: int
  rr_projection :: "projection_descriptor_pb option"
  rr_default_rights :: "rights_pb option"

datatype kind_pb =
    KMemoryUpserted "byte list" "byte list"
  | KMemoryDeleted "byte list"
  | KRelationshipUpserted "byte list" "byte list" "byte list" u32 "byte list"
  | KRelationshipDeleted "byte list"
  | KVisibilityAdvance
  | KGraphReseed "byte list"
  | KDiscoveryAvailable "byte list"

record invalidation_pb =
  iv_kind :: "kind_pb option"
  iv_backend_lsn :: nat

record invalidation_envelope =
  en_wire_version :: u32
  en_ontology_fingerprint :: "byte list"
  en_emitter_node_id :: string
  en_inv :: "invalidation_pb option"
  en_hmac :: "byte list"

section \<open>Signatures\<close>

text \<open>Every signature is a MAC of the message with the signature field cleared.\<close>

type_synonym mac_fn = "byte list \<Rightarrow> byte list \<Rightarrow> byte list"

definition derive_sse_client_key :: "mac_fn \<Rightarrow> byte list \<Rightarrow> string \<Rightarrow> byte list" where
  "derive_sse_client_key mac cluster_key token = mac cluster_key (str_bytes ''sse-client:'' @ str_bytes token)"

definition derive_supervised_store_token :: "mac_fn \<Rightarrow> byte list \<Rightarrow> byte list" where
  "derive_supervised_store_token mac cluster_key = mac cluster_key (str_bytes ''supervised-store:'')"

definition unsigned_envelope_bytes :: "(invalidation_envelope \<Rightarrow> byte list) \<Rightarrow> invalidation_envelope \<Rightarrow> byte list" where
  "unsigned_envelope_bytes enc env = enc (env\<lparr>en_hmac := []\<rparr>)"

definition sign_invalidation_envelope ::
    "mac_fn \<Rightarrow> (invalidation_envelope \<Rightarrow> byte list) \<Rightarrow> byte list \<Rightarrow> invalidation_envelope \<Rightarrow> invalidation_envelope" where
  "sign_invalidation_envelope mac enc key env = env\<lparr>en_hmac := mac key (unsigned_envelope_bytes enc env)\<rparr>"

definition verify_invalidation_envelope ::
    "mac_fn \<Rightarrow> (invalidation_envelope \<Rightarrow> byte list) \<Rightarrow> byte list \<Rightarrow> invalidation_envelope \<Rightarrow> bool" where
  "verify_invalidation_envelope mac enc key env =
     (if en_hmac env = [] then False
      else
        (let expected = mac key (unsigned_envelope_bytes enc env)
         in length expected = length (en_hmac env) \<and> expected = en_hmac env))"

definition clear_signature :: "producer_identity_pb option \<Rightarrow> producer_identity_pb option" where
  "clear_signature = map_option (\<lambda>p. p\<lparr>pi_hmac_signature := []\<rparr>)"

definition unsigned_bytes :: "(ingest_batch \<Rightarrow> byte list) \<Rightarrow> ingest_batch \<Rightarrow> byte list" where
  "unsigned_bytes enc b = enc (b\<lparr>ibt_producer := clear_signature (ibt_producer b)\<rparr>)"

definition sign_batch :: "mac_fn \<Rightarrow> (ingest_batch \<Rightarrow> byte list) \<Rightarrow> byte list \<Rightarrow> ingest_batch \<Rightarrow> ingest_batch" where
  "sign_batch mac enc key b =
     b\<lparr>ibt_producer :=
        map_option (\<lambda>p. p\<lparr>pi_hmac_signature := mac key (unsigned_bytes enc b)\<rparr>) (ibt_producer b)\<rparr>"

definition verify_signature :: "mac_fn \<Rightarrow> (ingest_batch \<Rightarrow> byte list) \<Rightarrow> byte list \<Rightarrow> ingest_batch \<Rightarrow> bool" where
  "verify_signature mac enc key b =
     (case ibt_producer b of
        None \<Rightarrow> False
      | Some p \<Rightarrow>
        if pi_hmac_signature p = [] then False
        else
          (let expected = mac key (unsigned_bytes enc b)
           in length expected = length (pi_hmac_signature p) \<and> expected = pi_hmac_signature p))"

definition unsigned_registration_bytes ::
    "(register_source_request \<Rightarrow> byte list) \<Rightarrow> register_source_request \<Rightarrow> byte list" where
  "unsigned_registration_bytes enc r = enc (r\<lparr>rr_producer := clear_signature (rr_producer r)\<rparr>)"

definition sign_registration ::
    "mac_fn \<Rightarrow> (register_source_request \<Rightarrow> byte list) \<Rightarrow> byte list \<Rightarrow> register_source_request \<Rightarrow>
     register_source_request" where
  "sign_registration mac enc key r =
     r\<lparr>rr_producer :=
        map_option (\<lambda>p. p\<lparr>pi_hmac_signature := mac key (unsigned_registration_bytes enc r)\<rparr>) (rr_producer r)\<rparr>"

definition verify_registration ::
    "mac_fn \<Rightarrow> (register_source_request \<Rightarrow> byte list) \<Rightarrow> byte list \<Rightarrow> register_source_request \<Rightarrow> bool" where
  "verify_registration mac enc key r =
     (case rr_producer r of
        None \<Rightarrow> False
      | Some p \<Rightarrow>
        if pi_hmac_signature p = [] then False
        else
          (let expected = mac key (unsigned_registration_bytes enc r)
           in length expected = length (pi_hmac_signature p) \<and> expected = pi_hmac_signature p))"

definition registration ::
    "mac_fn \<Rightarrow> (register_source_request \<Rightarrow> byte list) \<Rightarrow> byte list \<Rightarrow> string \<Rightarrow> string \<Rightarrow> string \<Rightarrow> int \<Rightarrow>
     string \<Rightarrow> string \<Rightarrow> int \<Rightarrow> register_source_request" where
  "registration mac enc key org_id source_uri producer_id ceiling source_flavor node_id producer_kind =
     sign_registration mac enc key
       \<lparr>rr_org_id = org_id, rr_source_uri = source_uri, rr_producer_id = producer_id, rr_ceiling = ceiling,
        rr_source_flavor = source_flavor,
        rr_producer = Some \<lparr>pi_node_id = node_id, pi_agent_id = [], pi_adapter_id = [], pi_hmac_signature = [],
                            pi_client_metadata = None\<rparr>,
        rr_producer_kind = producer_kind, rr_projection = None, rr_default_rights = None\<rparr>"

section \<open>The canonical checksum\<close>

text \<open>\<open>to_be_bytes\<close>.\<close>

definition be_bytes :: "nat \<Rightarrow> nat \<Rightarrow> byte list" where
  "be_bytes n v = rev (le_bytes n v)"

definition CHECKSUM_DOMAIN :: "byte list" where
  "CHECKSUM_DOMAIN = str_bytes ''exocortex-ingest-checksum''"

definition CHECKSUM_FORMAT_VERSION :: nat where
  "CHECKSUM_FORMAT_VERSION = 2"

definition push_len :: "nat \<Rightarrow> byte list" where
  "push_len n = be_bytes 8 n"

definition push_len_prefixed :: "byte list \<Rightarrow> byte list" where
  "push_len_prefixed v = push_len (length v) @ v"

definition push_collection :: "byte list \<Rightarrow> byte list list \<Rightarrow> byte list" where
  "push_collection name rows =
     push_len_prefixed name @ push_len (length rows) @ concat (map push_len_prefixed rows)"

definition checksum_preimage ::
    "(memory_draft_pb \<Rightarrow> byte list) \<Rightarrow> (relationship_draft_pb \<Rightarrow> byte list) \<Rightarrow> (snapshot_info_pb \<Rightarrow> byte list) \<Rightarrow>
     ingest_batch \<Rightarrow> byte list" where
  "checksum_preimage enc_m enc_r enc_s b =
     (let memories = sort (map (\<lambda>m. enc_m (m\<lparr>md_tags := sort (md_tags m)\<rparr>)) (ibt_memories b));
          relationships = sort (map enc_r (ibt_relationships b))
      in push_len_prefixed CHECKSUM_DOMAIN @ be_bytes 4 CHECKSUM_FORMAT_VERSION
         @ push_collection (str_bytes ''memories'') memories
         @ push_collection (str_bytes ''relationships'') relationships
         @ push_len_prefixed (str_bytes ''snapshot'')
         @ (case ibt_snapshot b of
              Some s \<Rightarrow> 1 # push_len_prefixed (enc_s s)
            | None \<Rightarrow> [0]))"

definition canonical_checksum ::
    "(byte list \<Rightarrow> byte list) \<Rightarrow> (memory_draft_pb \<Rightarrow> byte list) \<Rightarrow> (relationship_draft_pb \<Rightarrow> byte list) \<Rightarrow>
     (snapshot_info_pb \<Rightarrow> byte list) \<Rightarrow> ingest_batch \<Rightarrow> string" where
  "canonical_checksum h enc_m enc_r enc_s b = hex (h (checksum_preimage enc_m enc_r enc_s b))"

definition prepare_batch ::
    "(byte list \<Rightarrow> byte list) \<Rightarrow> mac_fn \<Rightarrow> (memory_draft_pb \<Rightarrow> byte list) \<Rightarrow> (relationship_draft_pb \<Rightarrow> byte list) \<Rightarrow>
     (snapshot_info_pb \<Rightarrow> byte list) \<Rightarrow> (ingest_batch \<Rightarrow> byte list) \<Rightarrow> byte list \<Rightarrow> ingest_batch \<Rightarrow> ingest_batch" where
  "prepare_batch h mac enc_m enc_r enc_s enc key b =
     sign_batch mac enc key (b\<lparr>ibt_checksum := canonical_checksum h enc_m enc_r enc_s b\<rparr>)"

section \<open>Hexadecimal keys\<close>

text \<open>A byte offset of a \<open>str\<close> is a boundary unless a UTF-8 continuation byte starts there.\<close>

definition starts_char :: "string \<Rightarrow> bool" where
  "starts_char s = (case s of [] \<Rightarrow> True | c # _ \<Rightarrow> \<not> (128 \<le> (of_char c :: nat) \<and> (of_char c :: nat) < 192))"

text \<open>\<open>u8::from_str_radix(_, 16)\<close> on two bytes: a leading plus sign is accepted.\<close>

definition radix16_pair :: "char \<Rightarrow> char \<Rightarrow> nat option" where
  "radix16_pair c d =
     (if c = CHR ''+'' then to_digit16 d
      else
        (case to_digit16 c of None \<Rightarrow> None | Some hi \<Rightarrow> map_option (\<lambda>lo. 16 * hi + lo) (to_digit16 d)))"

fun decode_pairs :: "string \<Rightarrow> string + byte list" where
  "decode_pairs [] = Inr []"
| "decode_pairs [c] = Inl ''key truncated''"
| "decode_pairs (c # d # rest) =
     (if \<not> starts_char (c # d # rest) \<or> \<not> starts_char rest then Inl ''key truncated''
      else
        (case radix16_pair c d of
           None \<Rightarrow> Inl ''bad key hex: invalid digit found in string''
         | Some v \<Rightarrow> and_then (decode_pairs rest) (\<lambda>bs. Inr (word_of_nat v # bs))))"

definition decode_hex32 :: "string \<Rightarrow> string + byte list" where
  "decode_hex32 s =
     (if length s \<noteq> 64 then Inl (''key must be 64 hex chars, got '' @ show_nat (length s))
      else decode_pairs s)"

section \<open>Lemmas\<close>

lemma be_bytes_cancel:
  assumes "v < 256 ^ n" "w < 256 ^ n" "be_bytes n v @ r = be_bytes n w @ s"
  shows "v = w \<and> r = s"
proof -
  from assms(3) have "be_bytes n v = be_bytes n w" "r = s" by (auto simp: be_bytes_def append_eq_append_conv)
  with assms(1,2) show ?thesis by (auto simp: be_bytes_def dest: le_bytes_inj)
qed

interpretation be64: prefix_code push_len "\<lambda>n. fits64 n"
  by unfold_locales (unfold push_len_def, rule be_bytes_cancel [of _ 8]; simp)

lemma push_len_prefixed_cancel:
  assumes "fits64 (length v)" "fits64 (length w)" "push_len_prefixed v @ r = push_len_prefixed w @ s"
  shows "v = w \<and> r = s"
proof -
  from assms(3) have "push_len (length v) @ (v @ r) = push_len (length w) @ (w @ s)"
    unfolding push_len_prefixed_def by (simp only: append_assoc)
  from be64.cancel [OF assms(1,2) this] have "length v = length w" "v @ r = w @ s" by blast+
  then show ?thesis using append_eq_append_conv [of v w r s] by blast
qed

interpretation len_prefixed: prefix_code push_len_prefixed "\<lambda>v. fits64 (length v)"
  by unfold_locales (rule push_len_prefixed_cancel)

abbreviation rows_fit :: "byte list list \<Rightarrow> bool" where
  "rows_fit rows \<equiv> fits64 (length rows) \<and> list_all (\<lambda>v. fits64 (length v)) rows"

lemma push_collection_cancel:
  assumes "rows_fit a" "rows_fit b" "push_collection name a @ r = push_collection name b @ s"
  shows "a = b \<and> r = s"
proof -
  from assms(3) have "push_len (length a) @ (concat (map push_len_prefixed a) @ r) =
      push_len (length b) @ (concat (map push_len_prefixed b) @ s)"
    unfolding push_collection_def by simp
  with be64.cancel assms(1,2) have "length a = length b"
    "concat (map push_len_prefixed a) @ r = concat (map push_len_prefixed b) @ s" by blast+
  with len_prefixed.concat_cancel [of a b r s] assms(1,2) show ?thesis by blast
qed

text \<open>What the checksum covers, as the code reads it: two multisets of rows and the snapshot.\<close>

definition tags_sorted :: "memory_draft_pb \<Rightarrow> memory_draft_pb" where
  "tags_sorted m = m\<lparr>md_tags := sort (md_tags m)\<rparr>"

definition covered ::
    "ingest_batch \<Rightarrow> memory_draft_pb multiset \<times> relationship_draft_pb multiset \<times> snapshot_info_pb option" where
  "covered b = (mset (map tags_sorted (ibt_memories b)), mset (ibt_relationships b), ibt_snapshot b)"

definition encodings_fit ::
    "(memory_draft_pb \<Rightarrow> byte list) \<Rightarrow> (relationship_draft_pb \<Rightarrow> byte list) \<Rightarrow> (snapshot_info_pb \<Rightarrow> byte list) \<Rightarrow>
     ingest_batch \<Rightarrow> bool" where
  "encodings_fit enc_m enc_r enc_s b \<longleftrightarrow>
     rows_fit (map (enc_m \<circ> tags_sorted) (ibt_memories b)) \<and> rows_fit (map enc_r (ibt_relationships b)) \<and>
     pred_option (\<lambda>s. fits64 (length (enc_s s))) (ibt_snapshot b)"

lemma preimage_eq:
  "checksum_preimage enc_m enc_r enc_s b =
     push_len_prefixed CHECKSUM_DOMAIN @ be_bytes 4 CHECKSUM_FORMAT_VERSION
     @ push_collection (str_bytes ''memories'') (sort (map enc_m (map tags_sorted (ibt_memories b))))
     @ push_collection (str_bytes ''relationships'') (sort (map enc_r (ibt_relationships b)))
     @ push_len_prefixed (str_bytes ''snapshot'')
     @ (case ibt_snapshot b of Some s \<Rightarrow> 1 # push_len_prefixed (enc_s s) | None \<Rightarrow> [0])"
  by (simp add: checksum_preimage_def tags_sorted_def comp_def Let_def)

lemma sort_image_mset: "mset a = mset b \<Longrightarrow> sort (map f a) = sort (map f b)"
  by (rule properties_for_sort) simp_all

lemma preimage_of_covered:
  assumes "covered a = covered b"
  shows "checksum_preimage enc_m enc_r enc_s a = checksum_preimage enc_m enc_r enc_s b"
  using assms sort_image_mset [of "map tags_sorted (ibt_memories a)" "map tags_sorted (ibt_memories b)" enc_m]
    sort_image_mset [of "ibt_relationships a" "ibt_relationships b" enc_r]
  unfolding preimage_eq covered_def by simp

lemma mset_of_sorted_images:
  assumes "sort (map f a) = sort (map f b)" "inj_on f (set a \<union> set b)"
  shows "mset a = mset b"
proof -
  let ?g = "inv_into (set a \<union> set b) f"
  have undo: "image_mset ?g (image_mset f M) = M" if "set_mset M \<subseteq> set a \<union> set b" for M
    using that assms(2) by (induction M) auto
  have "image_mset f (mset a) = image_mset f (mset b)" by (metis assms(1) mset_map mset_sort)
  then have "image_mset ?g (image_mset f (mset a)) = image_mset ?g (image_mset f (mset b))" by (rule arg_cong)
  moreover have "image_mset ?g (image_mset f (mset a)) = mset a" by (rule undo) simp
  moreover have "image_mset ?g (image_mset f (mset b)) = mset b" by (rule undo) simp
  ultimately show ?thesis by metis
qed

lemma rows_fit_sort [simp]: "rows_fit (sort rows) \<longleftrightarrow> rows_fit rows"
  by (simp add: list_all_iff)

lemma covered_of_preimage:
  assumes eq: "checksum_preimage enc_m enc_r enc_s a = checksum_preimage enc_m enc_r enc_s b"
    and fit: "encodings_fit enc_m enc_r enc_s a" "encodings_fit enc_m enc_r enc_s b"
    and inj: "inj_on enc_m (set (map tags_sorted (ibt_memories a)) \<union> set (map tags_sorted (ibt_memories b)))"
      "inj_on enc_r (set (ibt_relationships a) \<union> set (ibt_relationships b))"
      "inj_on enc_s (set_option (ibt_snapshot a) \<union> set_option (ibt_snapshot b))"
  shows "covered a = covered b"
proof -
  let ?m = "\<lambda>b. sort (map enc_m (map tags_sorted (ibt_memories b)))"
  let ?r = "\<lambda>b. sort (map enc_r (ibt_relationships b))"
  let ?t = "\<lambda>b. push_len_prefixed (str_bytes ''snapshot'')
     @ (case ibt_snapshot b of Some s \<Rightarrow> 1 # push_len_prefixed (enc_s s) | None \<Rightarrow> [0])"
  have fits: "rows_fit (?m x)" "rows_fit (?r x)" if "encodings_fit enc_m enc_r enc_s x" for x
    using that by (simp_all add: encodings_fit_def comp_def list_all_iff)
  from eq have "push_collection (str_bytes ''memories'') (?m a)
      @ (push_collection (str_bytes ''relationships'') (?r a) @ ?t a) =
    push_collection (str_bytes ''memories'') (?m b) @ (push_collection (str_bytes ''relationships'') (?r b) @ ?t b)"
    unfolding preimage_eq by simp
  from push_collection_cancel [OF fits(1) [OF fit(1)] fits(1) [OF fit(2)] this]
  have m: "?m a = ?m b" and rest: "push_collection (str_bytes ''relationships'') (?r a) @ ?t a =
      push_collection (str_bytes ''relationships'') (?r b) @ ?t b" by blast+
  from push_collection_cancel [OF fits(2) [OF fit(1)] fits(2) [OF fit(2)] rest]
  have r: "?r a = ?r b" and t: "?t a = ?t b" by blast+
  have "x = y" if "ibt_snapshot a = Some x" "ibt_snapshot b = Some y" for x y
  proof -
    have "push_len_prefixed (enc_s x) = push_len_prefixed (enc_s y)" using t unfolding that by simp
    moreover have "fits64 (length (enc_s x))" "fits64 (length (enc_s y))"
      using fit unfolding encodings_fit_def that by simp_all
    ultimately have "enc_s x = enc_s y" by (metis len_prefixed.injective)
    from inj_onD [OF inj(3) this] that show ?thesis by simp
  qed
  then have "ibt_snapshot a = ibt_snapshot b"
    using t by (auto split: option.splits)
  with mset_of_sorted_images [OF m inj(1)] mset_of_sorted_images [OF r inj(2)] show ?thesis
    by (simp add: covered_def)
qed

section \<open>Properties\<close>

text \<open>
  C26: The checksum names the content.  Reordering the rows of a batch, or the tags of a draft,
  leaves it; and where the hash does not collide on the two preimages and the encoders are
  injective on the rows at hand, two batches have the same checksum exactly when they carry the
  same drafts (tags in any order), the same relationships and the same snapshot.\<close>

theorem checksum_canonical:
  assumes "h (checksum_preimage enc_m enc_r enc_s a) = h (checksum_preimage enc_m enc_r enc_s b) \<Longrightarrow>
      checksum_preimage enc_m enc_r enc_s a = checksum_preimage enc_m enc_r enc_s b"
    and "encodings_fit enc_m enc_r enc_s a" "encodings_fit enc_m enc_r enc_s b"
    and "inj_on enc_m (set (map tags_sorted (ibt_memories a)) \<union> set (map tags_sorted (ibt_memories b)))"
      "inj_on enc_r (set (ibt_relationships a) \<union> set (ibt_relationships b))"
      "inj_on enc_s (set_option (ibt_snapshot a) \<union> set_option (ibt_snapshot b))"
  shows "canonical_checksum h enc_m enc_r enc_s a = canonical_checksum h enc_m enc_r enc_s b \<longleftrightarrow> covered a = covered b"
proof
  assume "canonical_checksum h enc_m enc_r enc_s a = canonical_checksum h enc_m enc_r enc_s b"
  then have "h (checksum_preimage enc_m enc_r enc_s a) = h (checksum_preimage enc_m enc_r enc_s b)"
    unfolding canonical_checksum_def hex_inj .
  from covered_of_preimage [OF assms(1) [OF this] assms(2-6)] show "covered a = covered b" .
next
  assume "covered a = covered b"
  from preimage_of_covered [OF this] show "canonical_checksum h enc_m enc_r enc_s a = canonical_checksum h enc_m enc_r enc_s b"
    by (simp add: canonical_checksum_def)
qed

definition sample_draft_pb :: "string \<Rightarrow> string list \<Rightarrow> memory_draft_pb" where
  "sample_draft_pb k tags = \<lparr>md_draft_key = k, md_id = [], md_memory_type = ''General'', md_title = ''t'', md_content = ''c'',
     md_tags = tags, md_visibility = 3, md_valid_from = None, md_valid_until = None, md_external_key = None,
     md_rights = None\<rparr>"

definition sample_batch_pb :: "memory_draft_pb list \<Rightarrow> ingest_batch" where
  "sample_batch_pb ms = \<lparr>ibt_org_id = ''acme'', ibt_source_uri = ''session://s'', ibt_producer_id = ''p'', ibt_batch_id = ''b'',
     ibt_mapping_version = [], ibt_ontology_fingerprint = [], ibt_ceiling = 3, ibt_checksum = [], ibt_observed_at = None,
     ibt_recorded_at = None, ibt_snapshot = None, ibt_memories = ms, ibt_relationships = [],
     ibt_producer = Some \<lparr>pi_node_id = ''n'', pi_agent_id = [], pi_adapter_id = [], pi_hmac_signature = [],
                          pi_client_metadata = None\<rparr>\<rparr>"

theorem checksum_canonical_witness:
  "canonical_checksum id (str_bytes \<circ> md_draft_key) (\<lambda>_. []) (\<lambda>_. [])
       (sample_batch_pb [sample_draft_pb ''a'' [''y'', ''x''], sample_draft_pb ''b'' []]) =
     canonical_checksum id (str_bytes \<circ> md_draft_key) (\<lambda>_. []) (\<lambda>_. [])
       (sample_batch_pb [sample_draft_pb ''b'' [], sample_draft_pb ''a'' [''x'', ''y'']])"
proof -
  let ?a = "sample_batch_pb [sample_draft_pb ''a'' [''y'', ''x''], sample_draft_pb ''b'' []]"
  let ?b = "sample_batch_pb [sample_draft_pb ''b'' [], sample_draft_pb ''a'' [''x'', ''y'']]"
  let ?enc = "str_bytes \<circ> md_draft_key"
  have cov: "covered ?a = covered ?b" by (simp add: covered_def sample_batch_pb_def tags_sorted_def sample_draft_pb_def)
  have fit: "encodings_fit ?enc (\<lambda>_. []) (\<lambda>_. []) ?a" "encodings_fit ?enc (\<lambda>_. []) (\<lambda>_. []) ?b"
    by (simp_all add: encodings_fit_def sample_batch_pb_def tags_sorted_def sample_draft_pb_def)
  show ?thesis
    by (subst checksum_canonical [OF _ fit])
      (use cov in \<open>simp_all add: inj_on_def sample_batch_pb_def tags_sorted_def sample_draft_pb_def\<close>)
qed

lemma unsigned_sign [simp]:
  "unsigned_envelope_bytes enc (env\<lparr>en_hmac := s\<rparr>) = unsigned_envelope_bytes enc env"
  "clear_signature (map_option (\<lambda>p. p\<lparr>pi_hmac_signature := s\<rparr>) q) = clear_signature q"
  by (simp_all add: unsigned_envelope_bytes_def clear_signature_def option.map_comp comp_def)

lemma unsigned_sign_batch [simp]: "unsigned_bytes enc (sign_batch mac enc key b) = unsigned_bytes enc b"
  by (simp add: unsigned_bytes_def sign_batch_def)

lemma unsigned_sign_registration [simp]:
  "unsigned_registration_bytes enc (sign_registration mac enc key r) = unsigned_registration_bytes enc r"
  by (simp add: unsigned_registration_bytes_def sign_registration_def)

lemma checksum_covers [simp]:
  "canonical_checksum h enc_m enc_r enc_s (b\<lparr>ibt_checksum := c\<rparr>) = canonical_checksum h enc_m enc_r enc_s b"
  "canonical_checksum h enc_m enc_r enc_s (sign_batch mac enc key b) = canonical_checksum h enc_m enc_r enc_s b"
  by (simp_all add: canonical_checksum_def checksum_preimage_def sign_batch_def)

lemma sign_batch_again: "sign_batch mac enc key (sign_batch mac enc key b) = sign_batch mac enc key b"
proof -
  have "sign_batch mac enc key (sign_batch mac enc key b) =
      (sign_batch mac enc key b)\<lparr>ibt_producer := map_option (\<lambda>p. p\<lparr>pi_hmac_signature := mac key (unsigned_bytes enc b)\<rparr>)
        (ibt_producer (sign_batch mac enc key b))\<rparr>"
    by (subst sign_batch_def) simp
  also have "\<dots> = sign_batch mac enc key b"
    by (simp add: sign_batch_def option.map_comp comp_def)
  finally show ?thesis .
qed

lemma verify_signature_iff:
  "verify_signature mac enc key b \<longleftrightarrow>
     (\<exists>p. ibt_producer b = Some p \<and> pi_hmac_signature p \<noteq> [] \<and> pi_hmac_signature p = mac key (unsigned_bytes enc b))"
  by (auto simp: verify_signature_def Let_def split: option.split)

text \<open>
  C27: What a producer prepares, the server accepts.  A prepared batch with a producer identity
  passes the signature check and carries the checksum the server recomputes, and preparing it
  again changes nothing.  Conversely a batch passes under a key only when its signature is the
  MAC of its other fields: two accepted batches with the same signature agree, up to a MAC
  collision, in everything but the signature.  Registrations and invalidation envelopes verify
  after signing in the same way.\<close>

theorem prepared_messages_verify:
  assumes "\<And>m. mac key m \<noteq> []" "ibt_producer b = Some p" "rr_producer r = Some q"
  shows "verify_signature mac enc key (prepare_batch h mac enc_m enc_r enc_s enc key b) \<and>
    ibt_checksum (prepare_batch h mac enc_m enc_r enc_s enc key b) =
      canonical_checksum h enc_m enc_r enc_s (prepare_batch h mac enc_m enc_r enc_s enc key b) \<and>
    prepare_batch h mac enc_m enc_r enc_s enc key (prepare_batch h mac enc_m enc_r enc_s enc key b) =
      prepare_batch h mac enc_m enc_r enc_s enc key b \<and>
    (verify_signature mac enc key c \<longleftrightarrow>
      (\<exists>s. ibt_producer c = Some s \<and> pi_hmac_signature s = mac key (unsigned_bytes enc c))) \<and>
    verify_registration mac enc' key (sign_registration mac enc' key r) \<and>
    verify_invalidation_envelope mac enc'' key (sign_invalidation_envelope mac enc'' key env)"
proof (intro conjI)
  let ?b = "prepare_batch h mac enc_m enc_r enc_s enc key b"
  have chk: "ibt_checksum ?b = canonical_checksum h enc_m enc_r enc_s b"
    by (simp add: prepare_batch_def sign_batch_def)
  show "ibt_checksum ?b = canonical_checksum h enc_m enc_r enc_s ?b"
    unfolding chk by (simp add: prepare_batch_def)
  have "?b\<lparr>ibt_checksum := canonical_checksum h enc_m enc_r enc_s ?b\<rparr> = ?b"
    using chk by (simp add: prepare_batch_def)
  then show "prepare_batch h mac enc_m enc_r enc_s enc key ?b = ?b"
    by (subst prepare_batch_def) (simp add: prepare_batch_def sign_batch_again)
  have "ibt_producer ?b = Some (p\<lparr>pi_hmac_signature := mac key (unsigned_bytes enc ?b)\<rparr>)"
    using assms(2) by (simp add: prepare_batch_def) (simp add: sign_batch_def)
  then show "verify_signature mac enc key ?b" using assms(1) by (simp add: verify_signature_iff)
  show "verify_signature mac enc key c \<longleftrightarrow>
      (\<exists>s. ibt_producer c = Some s \<and> pi_hmac_signature s = mac key (unsigned_bytes enc c))"
    using assms(1) by (auto simp: verify_signature_iff)
  have "rr_producer (sign_registration mac enc' key r) =
      Some (q\<lparr>pi_hmac_signature := mac key (unsigned_registration_bytes enc' r)\<rparr>)"
    using assms(3) by (simp add: sign_registration_def)
  then show "verify_registration mac enc' key (sign_registration mac enc' key r)"
    using assms(1) by (simp add: verify_registration_def Let_def)
  show "verify_invalidation_envelope mac enc'' key (sign_invalidation_envelope mac enc'' key env)"
    using assms(1) by (simp add: verify_invalidation_envelope_def sign_invalidation_envelope_def Let_def)
qed

definition sample_request :: register_source_request where
  "sample_request = registration (\<lambda>k m. k @ m) (\<lambda>_. []) [1] ''acme'' ''session://s'' ''p'' 3 ''session'' ''n'' 1"

theorem prepared_messages_verify_witness:
  "verify_signature (\<lambda>k m. k @ m) (\<lambda>b. str_bytes (ibt_checksum b)) [7]
     (prepare_batch id (\<lambda>k m. k @ m) (str_bytes \<circ> md_draft_key) (\<lambda>_. []) (\<lambda>_. []) (\<lambda>b. str_bytes (ibt_checksum b)) [7]
       (sample_batch_pb [sample_draft_pb ''a'' []]))"
proof -
  have "ibt_producer (sample_batch_pb [sample_draft_pb ''a'' []]) = Some (the (ibt_producer (sample_batch_pb [])))"
    "rr_producer sample_request = Some (the (rr_producer sample_request))"
    by (simp_all add: sample_batch_pb_def sample_request_def registration_def sign_registration_def)
  from prepared_messages_verify [OF _ this, of "\<lambda>k m. k @ m" "[7]"] show ?thesis by blast
qed

lemma hex_digit_ascii:
  assumes "d < 16" shows "(of_char (hex_digit d) :: nat) < 128" "hex_digit d \<noteq> CHR ''+''"
proof -
  note v = of_char_hex_digit [OF assms]
  show "(of_char (hex_digit d) :: nat) < 128" using assms by (simp add: v)
  have "(of_char (hex_digit d) :: nat) \<noteq> 43" by (simp add: v)
  moreover have "(of_char CHR ''+'' :: nat) = 43" by simp
  ultimately show "hex_digit d \<noteq> CHR ''+''" by metis
qed

lemma starts_char_hex: "starts_char (hex bs)"
proof (cases bs)
  case (Cons b cs)
  have "(of_char (hex_digit (unat b div 16)) :: nat) < 128" by (rule hex_digit_ascii(1) [OF nibble_bounds(1)])
  then show ?thesis unfolding Cons by (simp add: starts_char_def hex_Cons)
qed (simp add: starts_char_def hex_def)

lemma decode_pairs_hex: "decode_pairs (hex bs) = Inr bs"
proof (induction bs)
  case Nil
  show ?case by (simp add: hex_def)
next
  case (Cons b bs)
  have "radix16_pair (hex_digit (unat b div 16)) (hex_digit (unat b mod 16)) = Some (unat b)"
    using nibble_bounds [of b] hex_digit_ascii(2) by (simp add: radix16_pair_def to_digit16_hex_digit)
  with Cons starts_char_hex [of bs] starts_char_hex [of "b # bs"] show ?case by (simp add: hex_Cons)
qed

text \<open>
  Key decoding inverts the hexadecimal form of a 32-byte key.  It is not the inverse of it:
  a pair may also be a plus sign and a digit, which the integer parser accepts.\<close>

theorem key_hex_roundtrip:
  "(length key = 32 \<longrightarrow> decode_hex32 (hex key) = Inr key) \<and>
   decode_hex32 (''+1'' @ replicate 62 CHR ''0'') = Inr (1 # replicate 31 0)"
proof -
  have "(char_of (of_char CHR ''0'' :: nat) :: char) = CHR ''0''" by (rule char_of_char)
  then have zero: "(char_of (48 :: nat) :: char) = CHR ''0''" by simp
  have "hex (replicate n 0) = replicate (2 * n) CHR ''0''" for n
    by (induction n) (simp_all add: hex_def hex_byte_def hex_digit_def zero)
  from this [of 31] have "''+1'' @ replicate 62 CHR ''0'' = CHR ''+'' # CHR ''1'' # hex (replicate 31 0)" by simp
  moreover have "starts_char (hex (replicate 31 0))" by (rule starts_char_hex)
  moreover have "starts_char (CHR ''+'' # CHR ''1'' # hex (replicate 31 0))" by (simp add: starts_char_def)
  moreover have "radix16_pair CHR ''+'' CHR ''1'' = Some 1" by (simp add: radix16_pair_def to_digit16_def)
  ultimately have "decode_pairs (''+1'' @ replicate 62 CHR ''0'') = Inr (1 # replicate 31 0)"
    by (simp only: decode_pairs.simps decode_pairs_hex and_then_simps) simp
  then have "decode_hex32 (''+1'' @ replicate 62 CHR ''0'') = Inr (1 # replicate 31 0)"
    by (simp only: decode_hex32_def) simp
  then show ?thesis by (simp add: decode_hex32_def decode_pairs_hex)
qed

theorem key_hex_roundtrip_witness: "decode_hex32 (hex (replicate 32 7)) = Inr (replicate 32 7)"
  using key_hex_roundtrip [of "replicate 32 7"] by simp

end
