(* ===== verification/Cluster_Feed.thy ===== *)
theory Cluster_Feed
  imports Wire Mem_System
begin

text \<open>
  The change feed of a cluster node (\<open>exocortex-cluster\<close>): storage invalidations become signed
  envelopes, are admitted, appended to a bounded replay ring and fanned out; a reconnecting
  subscriber asks the ring for everything after the last number it saw.  JSON encoders, the
  Protobuf encoder and the MAC are parameters; \<open>u64\<close> numbers are naturals with the
  saturation written out.
\<close>

section \<open>Envelopes\<close>

definition WIRE_VERSION :: u32 where
  "WIRE_VERSION = 1"

definition sse_hex :: "byte list \<Rightarrow> byte list" where
  "sse_hex i = str_bytes (hex i)"

record json_encoders =
  je_memory :: "memory \<Rightarrow> byte list"
  je_relationship :: "relationship \<Rightarrow> byte list"
  je_discovery :: "discovery_record \<Rightarrow> byte list"

fun invalidation_to_pb :: "json_encoders \<Rightarrow> invalidation \<Rightarrow> invalidation_pb" where
  "invalidation_to_pb j (MemoryUpserted i n) =
     \<lparr>iv_kind = Some (KMemoryUpserted (sse_hex (mid_bytes i)) []), iv_backend_lsn = n\<rparr>"
| "invalidation_to_pb j (MemoryDeleted i n) =
     \<lparr>iv_kind = Some (KMemoryDeleted (sse_hex (mid_bytes i))), iv_backend_lsn = n\<rparr>"
| "invalidation_to_pb j (RelationshipUpserted i f t k n) =
     \<lparr>iv_kind = Some (KRelationshipUpserted (sse_hex (rid_bytes i)) (sse_hex (mid_bytes f)) (sse_hex (mid_bytes t))
        (kind_code k) []), iv_backend_lsn = n\<rparr>"
| "invalidation_to_pb j (RelationshipDeleted i n) =
     \<lparr>iv_kind = Some (KRelationshipDeleted (sse_hex (rid_bytes i))), iv_backend_lsn = n\<rparr>"
| "invalidation_to_pb j (VisibilityAdvance n) = \<lparr>iv_kind = Some KVisibilityAdvance, iv_backend_lsn = n\<rparr>"
| "invalidation_to_pb j (MemorySnapshotUpserted m n) =
     \<lparr>iv_kind = Some (KMemoryUpserted (sse_hex (mid_bytes (m_id m))) (je_memory j m)), iv_backend_lsn = n\<rparr>"
| "invalidation_to_pb j (RelationshipSnapshotUpserted r n) =
     \<lparr>iv_kind = Some (KRelationshipUpserted (sse_hex (rid_bytes (r_id r))) (sse_hex (mid_bytes (r_from r)))
        (sse_hex (mid_bytes (r_to r))) (kind_code (r_kind r)) (je_relationship j r)), iv_backend_lsn = n\<rparr>"
| "invalidation_to_pb j (GraphReseed snap n) = \<lparr>iv_kind = Some (KGraphReseed snap), iv_backend_lsn = n\<rparr>"
| "invalidation_to_pb j (DiscoveryAvailable d n) =
     \<lparr>iv_kind = Some (KDiscoveryAvailable (je_discovery j d)), iv_backend_lsn = n\<rparr>"

section \<open>The replay ring\<close>

datatype replay = Fresh "invalidation_envelope list" | TooOld

definition REPLAY_CAPACITY_DEFAULT :: nat where
  "REPLAY_CAPACITY_DEFAULT = 4096"

definition envelope_lsn :: "invalidation_envelope \<Rightarrow> nat" where
  "envelope_lsn env = (case en_inv env of None \<Rightarrow> 0 | Some i \<Rightarrow> iv_backend_lsn i)"

record ring_change_log =
  rc_ring :: "invalidation_envelope list"
  rc_cap :: nat
  rc_observed_anything :: bool
  rc_max_observed_lsn :: nat

definition with_capacity :: "nat \<Rightarrow> ring_change_log" where
  "with_capacity cap =
     \<lparr>rc_ring = [], rc_cap = max cap 1, rc_observed_anything = False, rc_max_observed_lsn = 0\<rparr>"

definition new_ring :: ring_change_log where
  "new_ring = with_capacity REPLAY_CAPACITY_DEFAULT"

definition append_log :: "invalidation_envelope \<Rightarrow> ring_change_log \<Rightarrow> ring_change_log" where
  "append_log env l =
     (let ring = (if length (rc_ring l) = rc_cap l then tl (rc_ring l) else rc_ring l)
      in l\<lparr>rc_observed_anything := True,
           rc_max_observed_lsn := max (rc_max_observed_lsn l) (envelope_lsn env),
           rc_ring := ring @ [env]\<rparr>)"

definition saturating_add64 :: "nat \<Rightarrow> nat \<Rightarrow> nat" where
  "saturating_add64 a b = min (a + b) (2 ^ 64 - 1)"

definition replay_since :: "nat \<Rightarrow> ring_change_log \<Rightarrow> replay" where
  "replay_since since l =
     (case rc_ring l of
        [] \<Rightarrow>
          if rc_observed_anything l \<and> since < rc_max_observed_lsn l then TooOld else Fresh []
      | oldest # _ \<Rightarrow>
          if saturating_add64 since 1 < envelope_lsn oldest then TooOld
          else Fresh (filter (\<lambda>e. since < envelope_lsn e) (rc_ring l)))"

definition replay_floor :: "ring_change_log \<Rightarrow> nat" where
  "replay_floor l = (case rc_ring l of [] \<Rightarrow> 1 | oldest # _ \<Rightarrow> envelope_lsn oldest)"

definition frontier :: "ring_change_log \<Rightarrow> nat option" where
  "frontier l = (if rc_observed_anything l then Some (rc_max_observed_lsn l) else None)"

section \<open>The node\<close>

datatype cluster_error = WireMismatch | OntologyMismatch | HmacFailed | ClusterStorage string

record feed_health =
  fh_epoch :: nat
  fh_ready :: bool
  fh_failures :: nat

record cluster_node =
  cn_node_id :: string
  cn_fp :: "byte list"
  cn_hmac_key :: "byte list"
  cn_sent :: "invalidation_envelope list"
  cn_change_log :: ring_change_log
  cn_feed_health :: feed_health

definition new_node :: "string \<Rightarrow> byte list \<Rightarrow> byte list \<Rightarrow> cluster_node" where
  "new_node node_id fp key =
     \<lparr>cn_node_id = node_id, cn_fp = fp, cn_hmac_key = key, cn_sent = [], cn_change_log = new_ring,
      cn_feed_health = \<lparr>fh_epoch = 0, fh_ready = False, fh_failures = 0\<rparr>\<rparr>"

definition with_replay_capacity :: "nat \<Rightarrow> cluster_node \<Rightarrow> cluster_node" where
  "with_replay_capacity cap n = n\<lparr>cn_change_log := with_capacity cap\<rparr>"

record wire_codec =
  wc_json :: json_encoders
  wc_encode :: "invalidation_envelope \<Rightarrow> byte list"
  wc_mac :: mac_fn

definition envelope :: "wire_codec \<Rightarrow> cluster_node \<Rightarrow> invalidation \<Rightarrow> invalidation_envelope" where
  "envelope w n nv =
     sign_invalidation_envelope (wc_mac w) (wc_encode w) (cn_hmac_key n)
       \<lparr>en_wire_version = WIRE_VERSION, en_ontology_fingerprint = cn_fp n, en_emitter_node_id = cn_node_id n,
        en_inv = Some (invalidation_to_pb (wc_json w) nv), en_hmac = []\<rparr>"

definition verify_hmac :: "wire_codec \<Rightarrow> cluster_node \<Rightarrow> invalidation_envelope \<Rightarrow> cluster_error + unit" where
  "verify_hmac w n env =
     (if \<not> verify_invalidation_envelope (wc_mac w) (wc_encode w) (cn_hmac_key n) env then Inl HmacFailed else Inr ())"

definition admit_envelope :: "wire_codec \<Rightarrow> cluster_node \<Rightarrow> invalidation_envelope \<Rightarrow> cluster_error + unit" where
  "admit_envelope w n env =
     (if en_wire_version env \<noteq> WIRE_VERSION then Inl WireMismatch
      else
        (case admit_peer (en_ontology_fingerprint env) (cn_fp n) of
           Inl _ \<Rightarrow> Inl OntologyMismatch
         | Inr _ \<Rightarrow> verify_hmac w n env))"

definition publish_envelope :: "invalidation_envelope \<Rightarrow> cluster_node \<Rightarrow> cluster_node" where
  "publish_envelope env n = n\<lparr>cn_change_log := append_log env (cn_change_log n), cn_sent := cn_sent n @ [env]\<rparr>"

definition admit_and_publish ::
    "wire_codec \<Rightarrow> invalidation_envelope \<Rightarrow> cluster_node \<Rightarrow> (cluster_error + unit) \<times> cluster_node" where
  "admit_and_publish w env n =
     (case admit_envelope w n env of Inl e \<Rightarrow> (Inl e, n) | Inr _ \<Rightarrow> (Inr (), publish_envelope env n))"

definition saturating_succ :: "nat \<Rightarrow> nat" where
  "saturating_succ k = saturating_add64 k 1"

definition mark_feed_ready :: "cluster_node \<Rightarrow> cluster_node" where
  "mark_feed_ready n =
     n\<lparr>cn_feed_health := (cn_feed_health n)\<lparr>fh_epoch := saturating_succ (fh_epoch (cn_feed_health n)), fh_ready := True\<rparr>\<rparr>"

definition mark_feed_failed :: "cluster_node \<Rightarrow> cluster_node" where
  "mark_feed_failed n =
     n\<lparr>cn_feed_health :=
        (cn_feed_health n)\<lparr>fh_ready := False, fh_failures := saturating_succ (fh_failures (cn_feed_health n))\<rparr>\<rparr>"

text \<open>One subscription: its items in order, ended by the stream, a decode error or a refusal.\<close>

fun consume_feed_epoch ::
    "wire_codec \<Rightarrow> (storage_error + invalidation) list \<Rightarrow> cluster_node \<Rightarrow> (cluster_error + unit) \<times> cluster_node" where
  "consume_feed_epoch w [] n = (Inr (), mark_feed_failed n)"
| "consume_feed_epoch w (Inl e # items) n = (Inr (), mark_feed_failed n)"
| "consume_feed_epoch w (Inr nv # items) n =
     (case admit_and_publish w (envelope w n nv) n of
        (Inl e, n1) \<Rightarrow> (Inl e, n1)
      | (Inr _, n1) \<Rightarrow> consume_feed_epoch w items n1)"

section \<open>The contract of a change log\<close>

text \<open>
  What the trait promises of any implementation, stated against the list of everything ever
  appended: a fresh answer is exactly what came after the number asked for, a refusal is never
  given to a subscriber that is not behind, and resuming from the floor is never refused.
\<close>

definition ascending :: "invalidation_envelope list \<Rightarrow> bool" where
  "ascending es \<longleftrightarrow> sorted_wrt (<) (map envelope_lsn es) \<and> (\<forall>e\<in>set es. envelope_lsn e < 2 ^ 64)"

locale change_log =
  fixes represents :: "invalidation_envelope list \<Rightarrow> 'l \<Rightarrow> bool"
    and append :: "invalidation_envelope \<Rightarrow> 'l \<Rightarrow> 'l"
    and replay :: "nat \<Rightarrow> 'l \<Rightarrow> replay"
    and floor :: "'l \<Rightarrow> nat"
    and front :: "'l \<Rightarrow> nat option"
  assumes append_represents: "represents es l \<Longrightarrow> ascending (es @ [e]) \<Longrightarrow> represents (es @ [e]) (append e l)"
    and replay_fresh: "represents es l \<Longrightarrow> replay s l = Fresh out \<Longrightarrow> out = filter (\<lambda>e. s < envelope_lsn e) es"
    and replay_refused: "represents es l \<Longrightarrow> replay s l = TooOld \<Longrightarrow> \<exists>e\<in>set es. s < envelope_lsn e"
    and floor_replays: "represents es l \<Longrightarrow> floor l \<le> s + 1 \<Longrightarrow> replay s l \<noteq> TooOld"
    and front_last: "represents es l \<Longrightarrow> front l = (if es = [] then None else Some (envelope_lsn (last es)))"
begin

lemma appends_represent:
  "represents es l \<Longrightarrow> ascending (es @ news) \<Longrightarrow> represents (es @ news) (fold append news l)"
proof (induction news arbitrary: es l)
  case (Cons e news)
  have "ascending (es @ [e])" using Cons.prems(2) by (auto simp: ascending_def sorted_wrt_append)
  with Cons.prems(1) have "represents (es @ [e]) (append e l)" by (rule append_represents)
  with Cons.IH [of "es @ [e]"] Cons.prems(2) show ?case by simp
qed simp

text \<open>A subscriber that has applied everything up to its number is complete after one replay.\<close>

lemma resume_complete:
  assumes "represents es l" "ascending es" "replay s l = Fresh out"
  shows "filter (\<lambda>e. envelope_lsn e \<le> s) es @ out = es"
proof -
  have "filter (\<lambda>e. envelope_lsn e \<le> s) es @ filter (\<lambda>e. s < envelope_lsn e) es = es"
    if "sorted_wrt (<) (map envelope_lsn es)" for es
    using that
  proof (induction es)
    case (Cons e es)
    show ?case
    proof (cases "envelope_lsn e \<le> s")
      case False
      with Cons.prems have "filter (\<lambda>e. envelope_lsn e \<le> s) es = []" by (auto simp: filter_empty_conv)
      moreover from Cons.prems False have "filter (\<lambda>e. s < envelope_lsn e) es = es" by (auto simp: filter_id_conv)
      ultimately show ?thesis using False by simp
    qed (use Cons in simp)
  qed simp
  with assms(2) replay_fresh [OF assms(1,3)] show ?thesis by (simp add: ascending_def)
qed

end

definition ring_of :: "invalidation_envelope list \<Rightarrow> ring_change_log \<Rightarrow> bool" where
  "ring_of es l \<longleftrightarrow>
     (\<exists>dropped. es = dropped @ rc_ring l) \<and> (rc_ring l = [] \<longrightarrow> es = []) \<and> ascending es \<and>
     0 < rc_cap l \<and> length (rc_ring l) \<le> rc_cap l \<and>
     rc_observed_anything l = (es \<noteq> []) \<and>
     rc_max_observed_lsn l = (if es = [] then 0 else envelope_lsn (last es))"

lemma ring_of_empty: "ring_of [] (with_capacity cap)"
  by (simp add: ring_of_def with_capacity_def ascending_def)

lemma ring_of_append:
  assumes r: "ring_of es l" and up: "ascending (es @ [e])"
  shows "ring_of (es @ [e]) (append_log e l)"
proof -
  from r obtain d where d: "es = d @ rc_ring l" by (auto simp: ring_of_def)
  let ?ring = "if length (rc_ring l) = rc_cap l then tl (rc_ring l) else rc_ring l"
  have "\<exists>d'. es = d' @ ?ring"
  proof (cases "rc_ring l")
    case (Cons x xs)
    have "es = (d @ [x]) @ xs" using d Cons by simp
    then show ?thesis using d Cons by (auto simp del: append_assoc)
  qed (use d in auto)
  moreover have "length ?ring + 1 \<le> rc_cap l" using r by (auto simp: ring_of_def)
  moreover have "max (rc_max_observed_lsn l) (envelope_lsn e) = envelope_lsn e"
  proof (cases "es = []")
    case True
    then show ?thesis using r by (simp add: ring_of_def)
  next
    case False
    then have "envelope_lsn (last es) < envelope_lsn e"
      using up last_in_set [OF False] by (simp add: ascending_def sorted_wrt_append)
    with False r show ?thesis by (simp add: ring_of_def)
  qed
  ultimately show ?thesis using r up unfolding ring_of_def append_log_def by (auto simp: Let_def)
qed

lemma ring_oldest:
  assumes "ring_of es l" "rc_ring l = x # xs"
  shows "envelope_lsn x \<le> s + 1 \<Longrightarrow> filter (\<lambda>e. s < envelope_lsn e) es = filter (\<lambda>e. s < envelope_lsn e) (x # xs)"
    and "x \<in> set es" "envelope_lsn x < 2 ^ 64"
proof -
  from assms obtain d where es: "es = d @ x # xs" by (auto simp: ring_of_def)
  from assms have "ascending es" by (simp add: ring_of_def)
  then have "\<forall>e\<in>set d. envelope_lsn e < envelope_lsn x" "envelope_lsn x < 2 ^ 64"
    unfolding es by (auto simp: ascending_def sorted_wrt_append)
  then show "filter (\<lambda>e. s < envelope_lsn e) es = filter (\<lambda>e. s < envelope_lsn e) (x # xs)" if "envelope_lsn x \<le> s + 1"
    using that unfolding es by (fastforce simp: filter_empty_conv)
  show "x \<in> set es" "envelope_lsn x < 2 ^ 64" using es \<open>envelope_lsn x < 2 ^ 64\<close> by simp_all
qed

lemma saturating_guard: "b < 2 ^ 64 \<Longrightarrow> saturating_add64 s 1 < b \<longleftrightarrow> s + 1 < b"
  by (auto simp: saturating_add64_def)

interpretation ring_log: change_log ring_of append_log replay_since replay_floor frontier
proof
  fix es l e s out
  show "ring_of es l \<Longrightarrow> ascending (es @ [e]) \<Longrightarrow> ring_of (es @ [e]) (append_log e l)" by (rule ring_of_append)
  show "ring_of es l \<Longrightarrow> replay_since s l = Fresh out \<Longrightarrow> out = filter (\<lambda>e. s < envelope_lsn e) es"
  proof (cases "rc_ring l")
    case (Cons x xs)
    assume r: "ring_of es l" and f: "replay_since s l = Fresh out"
    have "envelope_lsn x \<le> s + 1"
      using f Cons saturating_guard [OF ring_oldest(3) [OF r Cons], of s] by (auto simp: replay_since_def split: if_splits)
    from ring_oldest(1) [OF r Cons this] f Cons show ?thesis by (auto simp: replay_since_def split: if_splits)
  qed (auto simp: replay_since_def ring_of_def split: if_splits)
  show "ring_of es l \<Longrightarrow> replay_since s l = TooOld \<Longrightarrow> \<exists>e\<in>set es. s < envelope_lsn e"
  proof (cases "rc_ring l")
    case (Cons x xs)
    assume r: "ring_of es l" and f: "replay_since s l = TooOld"
    have "s < envelope_lsn x"
      using f Cons saturating_guard [OF ring_oldest(3) [OF r Cons], of s] by (auto simp: replay_since_def split: if_splits)
    with ring_oldest(2) [OF r Cons] show ?thesis by blast
  qed (auto simp: replay_since_def ring_of_def split: if_splits)
  show "ring_of es l \<Longrightarrow> replay_floor l \<le> s + 1 \<Longrightarrow> replay_since s l \<noteq> TooOld"
  proof (cases "rc_ring l")
    case (Cons x xs)
    assume r: "ring_of es l" and "replay_floor l \<le> s + 1"
    with Cons saturating_guard [OF ring_oldest(3) [OF r Cons], of s] show ?thesis
      by (simp add: replay_since_def replay_floor_def)
  qed (auto simp: replay_since_def ring_of_def)
  show "ring_of es l \<Longrightarrow> frontier l = (if es = [] then None else Some (envelope_lsn (last es)))"
    by (simp add: frontier_def ring_of_def)
qed

section \<open>The node over the log\<close>

lemma envelope_lsn_envelope [simp]: "envelope_lsn (envelope w n nv) = lsn_of nv"
  by (cases nv) (simp_all add: envelope_lsn_def envelope_def sign_invalidation_envelope_def)

lemma envelope_publish [simp]: "envelope w (publish_envelope env n) = envelope w n"
  by (simp add: envelope_def publish_envelope_def fun_eq_iff)

lemma envelope_admitted:
  assumes "length (cn_fp n) = 32" "\<And>m. wc_mac w (cn_hmac_key n) m \<noteq> []"
  shows "admit_envelope w n (envelope w n nv) = Inr ()"
  using assms
  by (simp add: admit_envelope_def envelope_def sign_invalidation_envelope_def admit_peer_def verify_hmac_def
      verify_invalidation_envelope_def unsigned_envelope_bytes_def Let_def)

lemma consume_all:
  assumes "length (cn_fp n) = 32" "\<And>m. wc_mac w (cn_hmac_key n) m \<noteq> []"
  shows "consume_feed_epoch w (map Inr nvs) n =
    (Inr (), mark_feed_failed (fold publish_envelope (map (envelope w n) nvs) n))"
  using assms
proof (induction nvs arbitrary: n)
  case (Cons nv nvs)
  have "cn_fp (publish_envelope env n) = cn_fp n" "cn_hmac_key (publish_envelope env n) = cn_hmac_key n" for env
    by (simp_all add: publish_envelope_def)
  with Cons envelope_admitted [of n w nv] show ?case by (simp add: admit_and_publish_def)
qed simp

lemma publish_fold:
  "cn_change_log (fold publish_envelope es n) = fold append_log es (cn_change_log n)"
  "cn_sent (fold publish_envelope es n) = cn_sent n @ es"
  by (induction es arbitrary: n) (simp_all add: publish_envelope_def)

section \<open>Properties\<close>

text \<open>
  C24: No silent gaps, from the store to a reconnecting subscriber.  When a node has consumed the
  feed of a consistent store, it has sent the signed form of every event in order; a subscriber
  that asks for everything after a number gets exactly the events above it, or is told to reseed,
  and it is told so only when it is behind; asking from the reported floor is never refused.\<close>

theorem feed_replay_complete:
  assumes "graph_ok st" "s_lsn st < 2 ^ 64" "length fp = 32" "\<And>m. wc_mac w key m \<noteq> []"
    and "consume_feed_epoch w (map Inr (s_feed st)) (with_replay_capacity cap (new_node i fp key)) = (res, n)"
  shows "res = Inr () \<and> cn_sent n = map (envelope w (new_node i fp key)) (s_feed st) \<and>
    (\<forall>since out. replay_since since (cn_change_log n) = Fresh out \<longrightarrow>
       out = map (envelope w (new_node i fp key)) (filter (\<lambda>nv. since < lsn_of nv) (s_feed st))) \<and>
    (\<forall>since. replay_since since (cn_change_log n) = TooOld \<longrightarrow> (\<exists>nv\<in>set (s_feed st). since < lsn_of nv)) \<and>
    (\<forall>since. replay_floor (cn_change_log n) \<le> since + 1 \<longrightarrow> replay_since since (cn_change_log n) \<noteq> TooOld)"
proof -
  let ?n = "with_replay_capacity cap (new_node i fp key)"
  let ?es = "map (envelope w ?n) (s_feed st)"
  have env: "envelope w ?n = envelope w (new_node i fp key)"
    by (simp add: envelope_def with_replay_capacity_def fun_eq_iff)
  have "consume_feed_epoch w (map Inr (s_feed st)) ?n = (Inr (), mark_feed_failed (fold publish_envelope ?es ?n))"
    by (rule consume_all) (simp_all add: with_replay_capacity_def new_node_def assms(3,4))
  with assms(5) have n: "res = Inr ()" "n = mark_feed_failed (fold publish_envelope ?es ?n)" by simp_all
  have log: "cn_change_log n = fold append_log ?es (with_capacity cap)" "cn_sent n = ?es"
    unfolding n by (simp_all add: mark_feed_failed_def publish_fold) (simp_all add: with_replay_capacity_def new_node_def)
  have "feed_ok (s_lsn st) (s_feed st)" using assms(1) by (simp add: graph_ok_def)
  then have "ascending ?es" using assms(2) by (auto simp: ascending_def feed_ok_def comp_def)
  then have r: "ring_of ?es (cn_change_log n)"
    using ring_log.appends_represent [OF ring_of_empty, of ?es cap] unfolding log by simp
  have flt: "filter (\<lambda>e. s < envelope_lsn e) ?es = map (envelope w (new_node i fp key)) (filter (\<lambda>nv. s < lsn_of nv) (s_feed st))" for s
    unfolding env by (simp add: filter_map comp_def)
  have "\<exists>nv\<in>set (s_feed st). s < lsn_of nv" if "replay_since s (cn_change_log n) = TooOld" for s
    using ring_log.replay_refused [OF r that] by auto
  moreover have "out = map (envelope w (new_node i fp key)) (filter (\<lambda>nv. s < lsn_of nv) (s_feed st))"
    if "replay_since s (cn_change_log n) = Fresh out" for s out
    using ring_log.replay_fresh [OF r that] unfolding flt .
  ultimately show ?thesis
    using n(1) log(2) ring_log.floor_replays [OF r] unfolding env by blast
qed

definition sample_codec :: wire_codec where
  "sample_codec = \<lparr>wc_json = \<lparr>je_memory = \<lambda>_. [], je_relationship = \<lambda>_. [], je_discovery = \<lambda>_. []\<rparr>,
     wc_encode = \<lambda>_. [1], wc_mac = \<lambda>k m. 1 # k @ m\<rparr>"

theorem feed_replay_complete_witness:
  "\<exists>n. consume_feed_epoch sample_codec (map Inr (s_feed sample_store))
       (with_replay_capacity 1 (new_node ''n'' (replicate 32 0) [])) = (Inr (), n) \<and>
     cn_sent n = map (envelope sample_codec (new_node ''n'' (replicate 32 0) [])) (s_feed sample_store)"
proof -
  obtain res n where run: "consume_feed_epoch sample_codec (map Inr (s_feed sample_store))
      (with_replay_capacity 1 (new_node ''n'' (replicate 32 0) [])) = (res, n)" by force
  have "s_lsn sample_store < 2 ^ 64" by simp
  from feed_replay_complete [OF sample_store_ok this _ _ run] run show ?thesis
    by (simp add: sample_codec_def)
qed

text \<open>
  C25: Only admitted envelopes are published.  An envelope passes exactly when it has this wire
  version, this node's 32-byte ontology fingerprint and a non-empty signature that is the MAC of
  its other fields under the cluster key; a refused one leaves the node as it is, and the node's
  own envelopes pass.\<close>

theorem admission_exact:
  assumes "length (cn_fp n) = 32"
  shows "(fst (admit_and_publish w env n) = Inr () \<longleftrightarrow>
      en_wire_version env = WIRE_VERSION \<and> en_ontology_fingerprint env = cn_fp n \<and> en_hmac env \<noteq> [] \<and>
      en_hmac env = wc_mac w (cn_hmac_key n) (unsigned_envelope_bytes (wc_encode w) env)) \<and>
    (fst (admit_and_publish w env n) \<noteq> Inr () \<longrightarrow> snd (admit_and_publish w env n) = n) \<and>
    (fst (admit_and_publish w env n) = Inr () \<longrightarrow>
      cn_sent (snd (admit_and_publish w env n)) = cn_sent n @ [env]) \<and>
    ((\<forall>m. wc_mac w (cn_hmac_key n) m \<noteq> []) \<longrightarrow> fst (admit_and_publish w (envelope w n nv) n) = Inr ())"
  using assms envelope_admitted [of n w nv]
  by (auto simp: admit_and_publish_def admit_envelope_def admit_peer_def verify_hmac_def publish_envelope_def
      verify_invalidation_envelope_def Let_def split: sum.split)

theorem admission_exact_witness:
  "fst (admit_and_publish sample_codec (envelope sample_codec (new_node ''n'' (replicate 32 0) []) (VisibilityAdvance 4))
     (new_node ''n'' (replicate 32 0) [])) = Inr ()"
proof -
  let ?n = "new_node ''n'' (replicate 32 0) []"
  have "length (cn_fp ?n) = 32" by (simp add: new_node_def)
  moreover have "\<forall>m. wc_mac sample_codec (cn_hmac_key ?n) m \<noteq> []" by (simp add: sample_codec_def)
  ultimately show ?thesis using admission_exact by blast
qed

end
