(* ===== verification/Client_Wal.thy ===== *)
theory Client_Wal
  imports Mem_System Cluster_Feed
begin

text \<open>
  The offline write buffer of the client (\<open>exocortex-client/src/wal.rs\<close>): framed entries in an
  ordered \<open>sled\<close> tree under their big-endian sequence numbers.  The tree and the JSON codec of an
  entry are parameters; sequence numbers and byte counts are \<open>u64\<close>, so that sums saturate or are
  checked as the code has it.
\<close>

section \<open>Entries\<close>

datatype wal_state = WalPending | WalSynced nat | WalFailed

record wal_entry =
  we_local_lsn :: nat
  we_session_id :: string
  we_memories :: "memory_draft list"
  we_memory_ids :: "memory_id list"
  we_state :: wal_state
  we_batch_id :: string
  we_draft_keys :: "string list"
  we_org :: string
  we_user :: string
  we_tags :: "string list list"

datatype wal_error = WalIo string | WalCorrupt nat string | WalFull nat nat

section \<open>The tree\<close>

text \<open>
  \<open>sled::Tree\<close>: items are read one by one and each may fail; \<open>tr_rows\<close> is what the tree holds.\<close>

record 't tree_api =
  tr_rows :: "'t \<Rightarrow> (byte list \<times> byte list) list"
  tr_iter :: "'t \<Rightarrow> (string + byte list \<times> byte list) list"
  tr_get :: "byte list \<Rightarrow> 't \<Rightarrow> string + byte list option"
  tr_last :: "'t \<Rightarrow> string + (byte list \<times> byte list) option"
  tr_insert :: "byte list \<Rightarrow> byte list \<Rightarrow> 't \<Rightarrow> (string + unit) \<times> 't"
  tr_apply_batch :: "(byte list \<times> byte list) list \<Rightarrow> 't \<Rightarrow> (string + unit) \<times> 't"
  tr_flush :: "'t \<Rightarrow> (string + unit) \<times> 't"

definition insert_rows :: "('k::linorder \<times> 'v) list \<Rightarrow> ('k \<times> 'v) list \<Rightarrow> ('k \<times> 'v) list" where
  "insert_rows kvs rows = fold (\<lambda>(k, v). bt_insert k v) kvs rows"

text \<open>
  What is relied on: rows in key order, reads that succeed read the rows, a write that succeeds
  took effect, a write that fails left the rows or took effect, and a batch is atomic.\<close>

definition tree_laws :: "'t tree_api \<Rightarrow> bool" where
  "tree_laws tr \<longleftrightarrow>
     (\<forall>t. bt_ok (tr_rows tr t)) \<and>
     (\<forall>t. tr_iter tr t = map Inr (tr_rows tr t) \<or>
          (\<exists>n e rest. tr_iter tr t = map Inr (take n (tr_rows tr t)) @ Inl e # rest)) \<and>
     (\<forall>k t v. tr_get tr k t = Inr v \<longrightarrow> v = map_of (tr_rows tr t) k) \<and>
     (\<forall>t v. tr_last tr t = Inr v \<longrightarrow> v = last_opt (tr_rows tr t)) \<and>
     (\<forall>k v t r t'. tr_insert tr k v t = (r, t') \<longrightarrow>
        tr_rows tr t' = bt_insert k v (tr_rows tr t) \<or> r \<noteq> Inr () \<and> tr_rows tr t' = tr_rows tr t) \<and>
     (\<forall>kvs t r t'. tr_apply_batch tr kvs t = (r, t') \<longrightarrow>
        tr_rows tr t' = insert_rows kvs (tr_rows tr t) \<or> r \<noteq> Inr () \<and> tr_rows tr t' = tr_rows tr t) \<and>
     (\<forall>t r t'. tr_flush tr t = (r, t') \<longrightarrow> tr_rows tr t' = tr_rows tr t)"

record wal_json =
  wj_to_vec :: "wal_entry \<Rightarrow> string + byte list"
  wj_from_slice :: "byte list \<Rightarrow> string + wal_entry"

text \<open>What \<open>serde_json\<close> writes of an entry it reads back.\<close>

definition json_laws :: "wal_json \<Rightarrow> bool" where
  "json_laws js \<longleftrightarrow> (\<forall>e j. wj_to_vec js e = Inr j \<longrightarrow> wj_from_slice js j = Inr e)"

section \<open>The codec\<close>

definition WAL_CODEC_VERSION :: byte where "WAL_CODEC_VERSION = 1"

definition be_value :: "byte list \<Rightarrow> nat" where
  "be_value bs = foldl (\<lambda>a b. a * 256 + unat b) 0 bs"

definition encode_entry :: "wal_json \<Rightarrow> wal_entry \<Rightarrow> string + byte list" where
  "encode_entry js e =
     and_then (wj_to_vec js e) (\<lambda>json. Inr (WAL_CODEC_VERSION # be_bytes 4 (length json mod 2 ^ 32) @ json))"

definition decode_entry :: "wal_json \<Rightarrow> byte list \<Rightarrow> string + wal_entry" where
  "decode_entry js bytes =
     (if bytes = [] \<or> hd bytes \<noteq> WAL_CODEC_VERSION
      then Inl (''unknown wal codec version '' @ debug_bytes bytes)
      else if length bytes < 5 then Inl ''short wal entry''
      else
        (let declared = be_value (take 4 (drop 1 bytes));
             json = drop 5 bytes
         in if length json \<noteq> declared
            then Inl (''wal entry length mismatch: declared '' @ show_nat declared @ '', actual '' @ show_nat (length json))
            else wj_from_slice js json))"

definition key_to_lsn :: "byte list \<Rightarrow> wal_error + nat" where
  "key_to_lsn key =
     (if length key \<noteq> 8 then Inl (WalCorrupt 0 (''invalid '' @ show_nat (length key) @ ''-byte sled key''))
      else Inr (be_value key))"

definition decode_at :: "wal_json \<Rightarrow> nat \<Rightarrow> byte list \<Rightarrow> wal_error + wal_entry" where
  "decode_at js lsn raw = (case decode_entry js raw of Inl detail \<Rightarrow> Inl (WalCorrupt lsn detail) | Inr e \<Rightarrow> Inr e)"

section \<open>The log\<close>

record 't wal =
  w_tree :: 't
  w_max_bytes :: nat
  w_gate_poisoned :: bool

definition WAL_MAX_BYTES :: nat where "WAL_MAX_BYTES = 100 * 1024 * 1024"

definition io :: "string + 'a \<Rightarrow> wal_error + 'a" where
  "io r = (case r of Inl e \<Rightarrow> Inl (WalIo e) | Inr x \<Rightarrow> Inr x)"

fun sum_bytes :: "(string + byte list \<times> byte list) list \<Rightarrow> nat \<Rightarrow> wal_error + nat" where
  "sum_bytes [] used = Inr used"
| "sum_bytes (item # items) used =
     and_then (io item) (\<lambda>(_, v). sum_bytes items (saturating_add64 used (length v + 16)))"

definition used_bytes :: "'t tree_api \<Rightarrow> 't wal \<Rightarrow> wal_error + nat" where
  "used_bytes tr w = sum_bytes (tr_iter tr (w_tree w)) 0"

definition next_wal_lsn :: "'t tree_api \<Rightarrow> 't wal \<Rightarrow> wal_error + nat" where
  "next_wal_lsn tr w =
     and_then (io (tr_last tr (w_tree w))) (\<lambda>last.
       (case last of
          None \<Rightarrow> Inr 1
        | Some (key, _) \<Rightarrow>
            and_then (key_to_lsn key) (\<lambda>n.
              if n + 1 < 2 ^ 64 then Inr (n + 1) else Inl (WalIo ''WAL local LSN space is exhausted''))))"

definition flush_tree :: "'t tree_api \<Rightarrow> (string + unit) \<times> 't \<Rightarrow> (string + unit) \<times> 't" where
  "flush_tree tr written =
     (case written of (Inl e, t) \<Rightarrow> (Inl e, t) | (Inr _, t) \<Rightarrow> tr_flush tr t)"

definition insert_entry_locked ::
    "'t tree_api \<Rightarrow> wal_json \<Rightarrow> wal_entry \<Rightarrow> 't wal \<Rightarrow> (wal_error + nat) \<times> 't wal" where
  "insert_entry_locked tr js entry w =
     (case and_then (next_wal_lsn tr w) (\<lambda>lsn.
           and_then (io (encode_entry js (entry\<lparr>we_local_lsn := lsn\<rparr>))) (\<lambda>bytes.
           and_then (used_bytes tr w) (\<lambda>used.
             if w_max_bytes w < saturating_add64 used (length bytes) then Inl (WalFull used (w_max_bytes w))
             else Inr (lsn, bytes)))) of
        Inl e \<Rightarrow> (Inl e, w)
      | Inr (lsn, bytes) \<Rightarrow>
          (case flush_tree tr (tr_insert tr (be_bytes 8 lsn) bytes (w_tree w)) of
             (Inl e, t) \<Rightarrow> (Inl (WalIo e), w\<lparr>w_tree := t\<rparr>)
           | (Inr _, t) \<Rightarrow> (Inr lsn, w\<lparr>w_tree := t\<rparr>)))"

definition gated :: "'t wal \<Rightarrow> (wal_error + nat) \<times> 't wal \<Rightarrow> (wal_error + nat) \<times> 't wal" where
  "gated w result =
     (if w_gate_poisoned w then (Inl (WalIo ''WAL append serialization mutex is poisoned''), w) else result)"

definition insert_entry :: "'t tree_api \<Rightarrow> wal_json \<Rightarrow> wal_entry \<Rightarrow> 't wal \<Rightarrow> (wal_error + nat) \<times> 't wal" where
  "insert_entry tr js entry w = gated w (insert_entry_locked tr js entry w)"

definition pending_entry ::
    "string \<Rightarrow> memory_draft list \<Rightarrow> memory_id list \<Rightarrow> string \<Rightarrow> string list \<Rightarrow> string list list \<Rightarrow> string \<Rightarrow> string \<Rightarrow>
     wal_entry" where
  "pending_entry session memories ids batch_id keys tags org user =
     \<lparr>we_local_lsn = 0, we_session_id = session, we_memories = memories, we_memory_ids = ids,
      we_state = WalPending, we_batch_id = batch_id, we_draft_keys = keys, we_org = org, we_user = user, we_tags = tags\<rparr>"

definition append_batch_full ::
    "'t tree_api \<Rightarrow> wal_json \<Rightarrow> string \<Rightarrow> memory_draft list \<Rightarrow> memory_id list \<Rightarrow> string \<Rightarrow> string list \<Rightarrow>
     string list list \<Rightarrow> string \<Rightarrow> string \<Rightarrow> 't wal \<Rightarrow> (wal_error + nat) \<times> 't wal" where
  "append_batch_full tr js session memories ids batch_id keys tags org user w =
     insert_entry tr js (pending_entry session memories ids batch_id keys tags org user) w"

definition append_batch ::
    "'t tree_api \<Rightarrow> wal_json \<Rightarrow> string \<Rightarrow> memory_draft list \<Rightarrow> memory_id list \<Rightarrow> 't wal \<Rightarrow>
     (wal_error + nat) \<times> 't wal" where
  "append_batch tr js session memories ids w = append_batch_full tr js session memories ids [] [] [] [] [] w"

text \<open>The scan for a batch id: the first entry that has it, or the first failure.\<close>

fun find_batch :: "wal_json \<Rightarrow> string \<Rightarrow> (string + byte list \<times> byte list) list \<Rightarrow> wal_error + nat option" where
  "find_batch js batch_id [] = Inr None"
| "find_batch js batch_id (item # items) =
     and_then (io item) (\<lambda>(key, raw).
     and_then (key_to_lsn key) (\<lambda>lsn.
     and_then (decode_at js lsn raw) (\<lambda>e.
       if we_batch_id e = batch_id then Inr (Some lsn) else find_batch js batch_id items)))"

definition append_entry_idempotent ::
    "'t tree_api \<Rightarrow> wal_json \<Rightarrow> wal_entry \<Rightarrow> 't wal \<Rightarrow> (wal_error + nat) \<times> 't wal" where
  "append_entry_idempotent tr js entry w =
     gated w
       (case (if we_batch_id entry = [] then Inr None else find_batch js (we_batch_id entry) (tr_iter tr (w_tree w))) of
          Inl e \<Rightarrow> (Inl e, w)
        | Inr (Some lsn) \<Rightarrow> (Inr lsn, w)
        | Inr None \<Rightarrow> insert_entry_locked tr js entry w)"

definition append_batch_full_idempotent ::
    "'t tree_api \<Rightarrow> wal_json \<Rightarrow> string \<Rightarrow> memory_draft list \<Rightarrow> memory_id list \<Rightarrow> string \<Rightarrow> string list \<Rightarrow>
     string list list \<Rightarrow> string \<Rightarrow> string \<Rightarrow> 't wal \<Rightarrow> (wal_error + nat) \<times> 't wal" where
  "append_batch_full_idempotent tr js session memories ids batch_id keys tags org user w =
     append_entry_idempotent tr js (pending_entry session memories ids batch_id keys tags org user) w"

definition append_imported :: "'t tree_api \<Rightarrow> wal_json \<Rightarrow> wal_entry \<Rightarrow> 't wal \<Rightarrow> (wal_error + nat) \<times> 't wal" where
  "append_imported tr js entry w = insert_entry tr js (entry\<lparr>we_local_lsn := 0\<rparr>) w"

text \<open>The rows of an import: the numbers are assigned from the next one on, and the sizes add up.\<close>

fun import_rows ::
    "wal_json \<Rightarrow> nat \<Rightarrow> wal_entry list \<Rightarrow> nat \<Rightarrow> wal_error + (byte list \<times> byte list) list \<times> nat" where
  "import_rows js lsn [] encoded = Inr ([], encoded)"
| "import_rows js lsn (e # es) encoded =
     (if 2 ^ 64 \<le> lsn then Inl (WalIo ''WAL local LSN overflow during import'')
      else
        and_then (io (encode_entry js (e\<lparr>we_local_lsn := lsn\<rparr>))) (\<lambda>bytes.
        and_then (import_rows js (lsn + 1) es (saturating_add64 encoded (length bytes + 16))) (\<lambda>(rows, all_encoded).
          Inr ((be_bytes 8 lsn, bytes) # rows, all_encoded))))"

definition append_imported_batch ::
    "'t tree_api \<Rightarrow> wal_json \<Rightarrow> wal_entry list \<Rightarrow> 't wal \<Rightarrow> (wal_error + nat) \<times> 't wal" where
  "append_imported_batch tr js entries w =
     (if entries = [] then (Inr 0, w)
      else
        gated w
          (case and_then (next_wal_lsn tr w) (\<lambda>first.
                and_then (import_rows js first entries 0) (\<lambda>(rows, encoded).
                and_then (used_bytes tr w) (\<lambda>used.
                  if w_max_bytes w < saturating_add64 used encoded then Inl (WalFull used (w_max_bytes w))
                  else Inr (first, rows)))) of
             Inl e \<Rightarrow> (Inl e, w)
           | Inr (first, rows) \<Rightarrow>
               (case flush_tree tr (tr_apply_batch tr rows (w_tree w)) of
                  (Inl e, t) \<Rightarrow> (Inl (WalIo e), w\<lparr>w_tree := t\<rparr>)
                | (Inr _, t) \<Rightarrow> (Inr first, w\<lparr>w_tree := t\<rparr>))))"

definition near_full :: "'t tree_api \<Rightarrow> 't wal \<Rightarrow> wal_error + bool" where
  "near_full tr w =
     and_then (used_bytes tr w) (\<lambda>used. Inr (min (w_max_bytes w * 9) (2 ^ 64 - 1) \<le> min (used * 10) (2 ^ 64 - 1)))"

fun decode_items :: "wal_json \<Rightarrow> (string + byte list \<times> byte list) list \<Rightarrow> wal_error + wal_entry list" where
  "decode_items js [] = Inr []"
| "decode_items js (item # items) =
     and_then (io item) (\<lambda>(key, raw).
     and_then (key_to_lsn key) (\<lambda>lsn.
     and_then (decode_at js lsn raw) (\<lambda>e.
     and_then (decode_items js items) (\<lambda>es. Inr (e # es)))))"

definition decoded_entries :: "'t tree_api \<Rightarrow> wal_json \<Rightarrow> 't wal \<Rightarrow> wal_error + wal_entry list" where
  "decoded_entries tr js w = decode_items js (tr_iter tr (w_tree w))"

definition wal_entries :: "'t tree_api \<Rightarrow> wal_json \<Rightarrow> 't wal \<Rightarrow> wal_error + wal_entry list" where
  "wal_entries tr js w = decoded_entries tr js w"

definition pending_entries :: "'t tree_api \<Rightarrow> wal_json \<Rightarrow> 't wal \<Rightarrow> wal_error + wal_entry list" where
  "pending_entries tr js w =
     and_then (decoded_entries tr js w) (\<lambda>es. Inr (filter (\<lambda>e. we_state e = WalPending) es))"

definition pending_count :: "'t tree_api \<Rightarrow> wal_json \<Rightarrow> 't wal \<Rightarrow> wal_error + nat" where
  "pending_count tr js w =
     and_then (decoded_entries tr js w) (\<lambda>es. Inr (length (filter (\<lambda>e. we_state e = WalPending) es)))"

definition wal_entry_at :: "'t tree_api \<Rightarrow> wal_json \<Rightarrow> nat \<Rightarrow> 't wal \<Rightarrow> wal_error + wal_entry option" where
  "wal_entry_at tr js lsn w =
     and_then (io (tr_get tr (be_bytes 8 lsn) (w_tree w))) (\<lambda>raw.
       (case raw of None \<Rightarrow> Inr None | Some bytes \<Rightarrow> and_then (decode_at js lsn bytes) (\<lambda>e. Inr (Some e))))"

fun collect_partitions :: "wal_entry list \<Rightarrow> (string \<times> string) list \<Rightarrow> (string \<times> string) list" where
  "collect_partitions [] seen = seen"
| "collect_partitions (e # es) seen =
     (if we_org e = [] \<or> (we_org e, we_user e) \<in> set seen then collect_partitions es seen
      else collect_partitions es (seen @ [(we_org e, we_user e)]))"

definition partitions :: "'t tree_api \<Rightarrow> wal_json \<Rightarrow> 't wal \<Rightarrow> wal_error + (string \<times> string) list" where
  "partitions tr js w = and_then (decoded_entries tr js w) (\<lambda>es. Inr (collect_partitions es []))"

definition pending_and_partitions ::
    "'t tree_api \<Rightarrow> wal_json \<Rightarrow> 't wal \<Rightarrow> wal_error + nat \<times> (string \<times> string) list" where
  "pending_and_partitions tr js w =
     and_then (decoded_entries tr js w) (\<lambda>es.
       Inr (length (filter (\<lambda>e. we_state e = WalPending) es), collect_partitions es []))"

record tail_row =
  tw_local_lsn :: nat
  tw_recorded_at :: string
  tw_pending :: bool
  tw_batch_id :: string
  tw_memory_count :: nat
  tw_draft_keys :: "string list"

text \<open>\<open>stamp\<close> is \<open>to_rfc3339\<close>; a key of another width reads as number 0.\<close>

definition tail_row_of :: "wal_json \<Rightarrow> (instant \<Rightarrow> string) \<Rightarrow> byte list \<times> byte list \<Rightarrow> tail_row" where
  "tail_row_of js stamp row =
     (let lsn = (if length (fst row) = 8 then be_value (fst row) else 0)
      in case decode_entry js (snd row) of
           Inr e \<Rightarrow>
             \<lparr>tw_local_lsn = lsn,
              tw_recorded_at = (case we_memories e of [] \<Rightarrow> ''unknown'' | m # _ \<Rightarrow> stamp (c_timestamp (d_context m))),
              tw_pending = (we_state e = WalPending), tw_batch_id = we_batch_id e,
              tw_memory_count = length (we_memories e), tw_draft_keys = we_draft_keys e\<rparr>
         | Inl err \<Rightarrow>
             \<lparr>tw_local_lsn = lsn, tw_recorded_at = ''undecodable'', tw_pending = True,
              tw_batch_id = ''decode error: '' @ err, tw_memory_count = 0, tw_draft_keys = []\<rparr>)"

definition tail :: "'t tree_api \<Rightarrow> wal_json \<Rightarrow> (instant \<Rightarrow> string) \<Rightarrow> nat \<Rightarrow> 't wal \<Rightarrow> tail_row list" where
  "tail tr js stamp n w =
     take n (List.map_filter (\<lambda>item. case item of Inl _ \<Rightarrow> None | Inr row \<Rightarrow> Some (tail_row_of js stamp row))
               (rev (tr_iter tr (w_tree w))))"

definition update_state ::
    "'t tree_api \<Rightarrow> wal_json \<Rightarrow> nat \<Rightarrow> (wal_entry \<Rightarrow> wal_entry) \<Rightarrow> 't wal \<Rightarrow> (wal_error + unit) \<times> 't wal" where
  "update_state tr js lsn f w =
     (case and_then (io (tr_get tr (be_bytes 8 lsn) (w_tree w))) (\<lambda>raw.
           and_then (ok_or raw (WalIo (''no wal entry '' @ show_nat lsn))) (\<lambda>bytes.
           and_then (io (decode_entry js bytes)) (\<lambda>e. io (encode_entry js (f e))))) of
        Inl e \<Rightarrow> (Inl e, w)
      | Inr bytes \<Rightarrow>
          (case tr_insert tr (be_bytes 8 lsn) bytes (w_tree w) of (r, t) \<Rightarrow> (io r, w\<lparr>w_tree := t\<rparr>)))"

definition mark_synced :: "'t tree_api \<Rightarrow> wal_json \<Rightarrow> nat \<Rightarrow> nat \<Rightarrow> 't wal \<Rightarrow> (wal_error + unit) \<times> 't wal" where
  "mark_synced tr js lsn backend_lsn w = update_state tr js lsn (\<lambda>e. e\<lparr>we_state := WalSynced backend_lsn\<rparr>) w"

definition mark_failed :: "'t tree_api \<Rightarrow> wal_json \<Rightarrow> nat \<Rightarrow> 't wal \<Rightarrow> (wal_error + unit) \<times> 't wal" where
  "mark_failed tr js lsn w = update_state tr js lsn (\<lambda>e. e\<lparr>we_state := WalFailed\<rparr>) w"

section \<open>Numbers as keys\<close>

lemma be_bytes_Suc: "be_bytes (Suc n) v = be_bytes n (v div 256) @ [word_of_nat (v mod 256)]"
  by (simp add: be_bytes_def)

lemma length_be_bytes [simp]: "length (be_bytes n v) = n"
  by (simp add: be_bytes_def)

lemma be_value_snoc [simp]: "be_value (bs @ [b]) = be_value bs * 256 + unat b"
  by (simp add: be_value_def)

lemma be_value_be_bytes: "be_value (be_bytes n v) = v mod 256 ^ n"
proof (induction n arbitrary: v)
  case 0
  show ?case by (simp add: be_bytes_def be_value_def)
next
  case (Suc n)
  have "v mod (256 * 256 ^ n) = 256 * (v div 256 mod 256 ^ n) + v mod 256" by (rule mod_mult2_eq)
  then show ?case by (simp add: be_bytes_Suc Suc unat_byte_of_nat mult.commute)
qed

lemma less_snoc:
  "length xs = length ys \<Longrightarrow> xs @ [a :: 'a::linorder] < ys @ [b] \<longleftrightarrow> xs < ys \<or> xs = ys \<and> a < b"
  by (induction xs ys rule: list_induct2) auto

lemma div_mod_less: "(v :: nat) < w \<longleftrightarrow> v div 256 < w div 256 \<or> v div 256 = w div 256 \<and> v mod 256 < w mod 256"
proof (cases "v div 256 = w div 256")
  case True
  then have "v < w \<longleftrightarrow> 256 * (w div 256) + v mod 256 < 256 * (w div 256) + w mod 256" by (metis mult_div_mod_eq)
  also have "\<dots> \<longleftrightarrow> v mod 256 < w mod 256" by (rule nat_add_left_cancel_less)
  finally show ?thesis using True by simp
next
  case False
  then show ?thesis using div_le_mono [of v w 256] div_le_mono [of w v 256] by linarith
qed

lemma be_bytes_eq: "v < 256 ^ n \<Longrightarrow> w < 256 ^ n \<Longrightarrow> be_bytes n v = be_bytes n w \<longleftrightarrow> v = w"
  by (metis be_value_be_bytes mod_less)

lemma be_bytes_less: "v < 256 ^ n \<Longrightarrow> w < 256 ^ n \<Longrightarrow> be_bytes n v < be_bytes n w \<longleftrightarrow> v < w"
proof (induction n arbitrary: v w)
  case (Suc n)
  then have s: "v div 256 < 256 ^ n" "w div 256 < 256 ^ n" by (simp_all add: less_mult_imp_div_less mult.commute)
  note eq = be_bytes_eq [OF s]
  have "(word_of_nat (v mod 256) :: byte) < word_of_nat (w mod 256) \<longleftrightarrow> v mod 256 < w mod 256"
    by (simp add: word_less_nat_alt unat_byte_of_nat)
  then show ?case unfolding be_bytes_Suc less_snoc [OF trans [OF length_be_bytes length_be_bytes [symmetric]]] eq
    using Suc.IH [OF s] div_mod_less [of v w] by simp
qed (simp add: be_bytes_def)

definition lsn_fits :: "nat \<Rightarrow> bool" where
  "lsn_fits n \<longleftrightarrow> n < 2 ^ 64"

lemma key_to_lsn_key [simp]: "lsn_fits n \<Longrightarrow> key_to_lsn (be_bytes 8 n) = Inr n"
  by (simp add: key_to_lsn_def be_value_be_bytes lsn_fits_def)

lemma key_eq: "lsn_fits m \<Longrightarrow> lsn_fits n \<Longrightarrow> be_bytes 8 m = be_bytes 8 n \<longleftrightarrow> m = n"
  by (rule be_bytes_eq) (simp_all add: lsn_fits_def)

lemma key_less: "lsn_fits m \<Longrightarrow> lsn_fits n \<Longrightarrow> be_bytes 8 m < be_bytes 8 n \<longleftrightarrow> m < n"
  by (rule be_bytes_less) (simp_all add: lsn_fits_def)

section \<open>The codec round trip\<close>

lemma decode_encode:
  assumes "json_laws js" "encode_entry js e = Inr bytes" "length bytes < 2 ^ 32"
  shows "decode_entry js bytes = Inr e"
proof -
  from assms(2) obtain json where j: "wj_to_vec js e = Inr json"
    and b: "bytes = WAL_CODEC_VERSION # be_bytes 4 (length json mod 2 ^ 32) @ json"
    by (auto simp: encode_entry_def and_then_Inr)
  have len: "length json < 2 ^ 32" using assms(3) b by simp
  then have "be_value (be_bytes 4 (length json mod 2 ^ 32)) = length json" by (simp add: be_value_be_bytes)
  with j b assms(1) show ?thesis by (simp add: decode_entry_def json_laws_def)
qed

section \<open>The log a tree holds\<close>

definition entry_row :: "wal_json \<Rightarrow> byte list \<times> byte list \<Rightarrow> wal_entry \<Rightarrow> bool" where
  "entry_row js row e \<longleftrightarrow>
     lsn_fits (we_local_lsn e) \<and> fst row = be_bytes 8 (we_local_lsn e) \<and> decode_entry js (snd row) = Inr e"

definition wal_log :: "'t tree_api \<Rightarrow> wal_json \<Rightarrow> 't wal \<Rightarrow> wal_entry list \<Rightarrow> bool" where
  "wal_log tr js w es \<longleftrightarrow> list_all2 (entry_row js) (tr_rows tr (w_tree w)) es"

lemma list_all2_member: "list_all2 P xs ys \<Longrightarrow> x \<in> set xs \<Longrightarrow> \<exists>y\<in>set ys. P x y"
  by (induction xs ys rule: list_all2_induct) auto

lemma io_Inr [simp]: "io r = Inr x \<longleftrightarrow> r = Inr x"
  by (cases r) (auto simp: io_def)

lemma ok_or_some: "ok_or v e = Inr x \<longleftrightarrow> v = Some x"
  by (cases v) auto

lemma bt_insert_last: "\<forall>row\<in>set rows. fst row < k \<Longrightarrow> bt_insert k v rows = rows @ [(k, v)]"
  by (induction k v rows rule: bt_insert.induct) auto

lemma bt_insert_present:
  "bt_ok rows \<Longrightarrow> k \<in> fst ` set rows \<Longrightarrow> bt_insert k v rows = map (\<lambda>row. if fst row = k then (k, v) else row) rows"
proof (induction k v rows rule: bt_insert.induct)
  case (2 k v a b m)
  have later: "\<forall>row\<in>set m. a < fst row" and ok: "bt_ok m" using "2.prems"(1) by (auto simp: bt_ok_def)
  consider "k = a" | "a < k" "k \<in> fst ` set m" using "2.prems"(2) later by fastforce
  then show ?case
  proof cases
    case 1
    with later have "map (\<lambda>row. if fst row = k then (k, v) else row) m = m" by (intro map_idI) auto
    with 1 show ?thesis by simp
  next
    case 2
    then have "\<not> k < a" "k \<noteq> a" by auto
    with "2.IH" ok 2 show ?thesis by simp
  qed
qed simp

lemma tree_lawsD:
  assumes "tree_laws tr"
  shows "bt_ok (tr_rows tr t)"
    and "tr_iter tr t = map Inr (tr_rows tr t) \<or>
           (\<exists>n e rest. tr_iter tr t = map Inr (take n (tr_rows tr t)) @ Inl e # rest)"
    and "tr_get tr k t = Inr v \<Longrightarrow> v = map_of (tr_rows tr t) k"
    and "tr_last tr t = Inr v' \<Longrightarrow> v' = last_opt (tr_rows tr t)"
    and "tr_insert tr k b t = (r, t') \<Longrightarrow>
           tr_rows tr t' = bt_insert k b (tr_rows tr t) \<or> r \<noteq> Inr () \<and> tr_rows tr t' = tr_rows tr t"
    and "tr_apply_batch tr kvs t = (r, t') \<Longrightarrow>
           tr_rows tr t' = insert_rows kvs (tr_rows tr t) \<or> r \<noteq> Inr () \<and> tr_rows tr t' = tr_rows tr t"
    and "tr_flush tr t = (r, t') \<Longrightarrow> tr_rows tr t' = tr_rows tr t"
  using assms unfolding tree_laws_def by blast+

lemma log_sorted:
  assumes "tree_laws tr" "wal_log tr js w es"
  shows "sorted_wrt (<) (map we_local_lsn es)" "\<forall>e\<in>set es. lsn_fits (we_local_lsn e)"
proof -
  let ?rows = "tr_rows tr (w_tree w)"
  have "sorted_wrt (<) (map fst ?rows)" using tree_lawsD(1) [OF assms(1)] by (simp add: bt_ok_def)
  moreover have "list_all2 (entry_row js) ?rows es" using assms(2) by (simp add: wal_log_def)
  ultimately have all: "length ?rows = length es" "\<forall>i<length es. entry_row js (?rows ! i) (es ! i)"
      "\<forall>i j. i < j \<longrightarrow> j < length es \<longrightarrow> fst (?rows ! i) < fst (?rows ! j)"
    by (auto simp: sorted_wrt_iff_nth_less list_all2_conv_all_nth)
  then show "\<forall>e\<in>set es. lsn_fits (we_local_lsn e)" by (auto simp: in_set_conv_nth entry_row_def)
  show "sorted_wrt (<) (map we_local_lsn es)" unfolding sorted_wrt_iff_nth_less
  proof (intro allI impI)
    fix i j
    assume "i < j" "j < length (map we_local_lsn es)"
    with all(2) [rule_format, of i] all(2) [rule_format, of j] all(3) [rule_format, of i j]
    show "map we_local_lsn es ! i < map we_local_lsn es ! j" by (simp add: entry_row_def key_less)
  qed
qed

lemma next_after_log:
  assumes "tree_laws tr" "wal_log tr js w es" "next_wal_lsn tr w = Inr lsn"
  shows "lsn_fits lsn" "\<forall>e\<in>set es. we_local_lsn e < lsn" "lsn = (case last_opt es of None \<Rightarrow> 1 | Some e \<Rightarrow> we_local_lsn e + 1)"
proof -
  let ?rows = "tr_rows tr (w_tree w)"
  have all: "list_all2 (entry_row js) ?rows es" using assms(2) by (simp add: wal_log_def)
  have "lsn_fits lsn \<and> lsn = (case last_opt es of None \<Rightarrow> 1 | Some e \<Rightarrow> we_local_lsn e + 1)"
  proof (cases es rule: rev_cases)
    case Nil
    with all assms(3) show ?thesis using tree_lawsD(4) [OF assms(1), of "w_tree w"]
      by (auto simp: next_wal_lsn_def and_then_Inr io_def lsn_fits_def split: sum.splits)
  next
    case (snoc es' e)
    with all obtain rows' row where r: "?rows = rows' @ [row]" "entry_row js row e"
      by (auto simp: list_all2_append2 list_all2_Cons2)
    with assms(3) snoc show ?thesis using tree_lawsD(4) [OF assms(1), of "w_tree w"]
      by (cases row) (auto simp: next_wal_lsn_def and_then_Inr io_def entry_row_def lsn_fits_def [of "Suc _"] split: sum.splits if_splits)
  qed
  moreover have "\<forall>e\<in>set es. we_local_lsn e < (case last_opt es of None \<Rightarrow> 1 | Some e \<Rightarrow> we_local_lsn e + 1)"
    using log_sorted(1) [OF assms(1,2)] by (cases es rule: rev_cases) (auto simp: sorted_wrt_append less_Suc_eq)
  ultimately show "lsn_fits lsn" "\<forall>e\<in>set es. we_local_lsn e < lsn"
    "lsn = (case last_opt es of None \<Rightarrow> 1 | Some e \<Rightarrow> we_local_lsn e + 1)" by blast+
qed

section \<open>Operations on the log\<close>

text \<open>The next entry of a log: its number is above every number in it.\<close>

definition next_entry :: "wal_entry list \<Rightarrow> wal_entry \<Rightarrow> nat \<Rightarrow> wal_entry list" where
  "next_entry es entry lsn = es @ [entry\<lparr>we_local_lsn := lsn\<rparr>]"

lemma log_append:
  assumes "tree_laws tr" "wal_log tr js w es" "lsn_fits lsn" "\<forall>e\<in>set es. we_local_lsn e < lsn"
    and "decode_entry js bytes = Inr (entry\<lparr>we_local_lsn := lsn\<rparr>)"
    and "tr_rows tr t' = bt_insert (be_bytes 8 lsn) bytes (tr_rows tr (w_tree w))"
  shows "wal_log tr js (w\<lparr>w_tree := t'\<rparr>) (next_entry es entry lsn)"
proof -
  let ?rows = "tr_rows tr (w_tree w)"
  have all: "list_all2 (entry_row js) ?rows es" using assms(2) by (simp add: wal_log_def)
  have "\<forall>row\<in>set ?rows. fst row < be_bytes 8 lsn"
  proof
    fix row
    assume "row \<in> set ?rows"
    from list_all2_member [OF all this] obtain e where "e \<in> set es" "entry_row js row e" by blast
    with assms(3,4) show "fst row < be_bytes 8 lsn" by (simp add: entry_row_def key_less)
  qed
  from bt_insert_last [OF this] assms(3,5,6) all show ?thesis
    by (simp add: wal_log_def next_entry_def entry_row_def list_all2_appendI)
qed

lemma within_budget:
  assumes "w_max_bytes w < 2 ^ 32" "\<not> w_max_bytes w < saturating_add64 used n"
  shows "n < 2 ^ 32"
  using assms by (auto simp: saturating_add64_def)

definition number_after :: "wal_entry list \<Rightarrow> nat" where
  "number_after es = (if es = [] then 1 else we_local_lsn (last es) + 1)"

lemma insert_entry_exact:
  assumes tr: "tree_laws tr" and js: "json_laws js" and log: "wal_log tr js w es" and max: "w_max_bytes w < 2 ^ 32"
    and run: "insert_entry_locked tr js entry w = (r, w')"
  shows "w_max_bytes w' = w_max_bytes w \<and> w_gate_poisoned w' = w_gate_poisoned w \<and>
    ((\<exists>err. r = Inl err) \<and> w' = w \<or>
     (\<forall>e\<in>set es. we_local_lsn e < number_after es) \<and>
       (r = Inr (number_after es) \<and> wal_log tr js w' (next_entry es entry (number_after es)) \<or>
        (\<exists>m. r = Inl (WalIo m)) \<and> (wal_log tr js w' es \<or> wal_log tr js w' (next_entry es entry (number_after es)))))"
proof (cases "and_then (next_wal_lsn tr w) (\<lambda>lsn.
           and_then (io (encode_entry js (entry\<lparr>we_local_lsn := lsn\<rparr>))) (\<lambda>bytes.
           and_then (used_bytes tr w) (\<lambda>used.
             if w_max_bytes w < saturating_add64 used (length bytes) then Inl (WalFull used (w_max_bytes w))
             else Inr (lsn, bytes))))")
  case (Inl e)
  with run log show ?thesis by (auto simp: insert_entry_locked_def)
next
  case (Inr lb)
  then obtain lsn bytes used where lb: "lb = (lsn, bytes)" "next_wal_lsn tr w = Inr lsn"
      "encode_entry js (entry\<lparr>we_local_lsn := lsn\<rparr>) = Inr bytes"
      "\<not> w_max_bytes w < saturating_add64 used (length bytes)"
    by (auto simp: and_then_Inr split: if_splits)
  note nx = next_after_log [OF tr log lb(2)]
  have num: "lsn = number_after es" using nx(3) by (simp add: number_after_def last_opt_def split: list.split)
  note dec = decode_encode [OF js lb(3) within_budget [OF max lb(4)]]
  obtain r1 t1 where ins: "tr_insert tr (be_bytes 8 lsn) bytes (w_tree w) = (r1, t1)"
    by (cases "tr_insert tr (be_bytes 8 lsn) bytes (w_tree w)")
  obtain r2 t2 where fl: "flush_tree tr (r1, t1) = (r2, t2)" by (cases "flush_tree tr (r1, t1)")
  have same: "tr_rows tr t2 = tr_rows tr t1" "r2 = Inr () \<Longrightarrow> r1 = Inr ()"
    using fl tree_lawsD(7) [OF tr, of t1] by (auto simp: flush_tree_def split: sum.splits)
  have out: "w' = w\<lparr>w_tree := t2\<rparr>" "r = (case r2 of Inl e \<Rightarrow> Inl (WalIo e) | Inr _ \<Rightarrow> Inr lsn)"
    using run Inr lb(1) ins fl by (auto simp: insert_entry_locked_def split: sum.splits)
  from tree_lawsD(5) [OF tr ins] same consider
      "tr_rows tr t2 = bt_insert (be_bytes 8 lsn) bytes (tr_rows tr (w_tree w))"
    | "r2 \<noteq> Inr ()" "tr_rows tr t2 = tr_rows tr (w_tree w)" by auto
  then show ?thesis
  proof cases
    case 1
    from log_append [OF tr log nx(1,2) dec 1] nx(2) out num show ?thesis by (cases r2) auto
  next
    case 2
    then have "wal_log tr js w' es" using log by (simp add: wal_log_def out)
    with 2(1) out nx(2) num show ?thesis by (cases r2) auto
  qed
qed

lemma insert_entry_log:
  assumes "tree_laws tr" "json_laws js" "wal_log tr js w es" "w_max_bytes w < 2 ^ 32"
    and "insert_entry_locked tr js entry w = (r, w')"
  shows "w_max_bytes w' = w_max_bytes w \<and> w_gate_poisoned w' = w_gate_poisoned w \<and>
    (wal_log tr js w' es \<and> (\<exists>err. r = Inl err) \<or>
     (\<exists>lsn. (\<forall>e\<in>set es. we_local_lsn e < lsn) \<and> wal_log tr js w' (next_entry es entry lsn) \<and>
        (r = Inr lsn \<or> (\<exists>err. r = Inl err))))"
  using insert_entry_exact [OF assms] assms(3) by blast

lemma log_entry:
  assumes "tree_laws tr" "wal_log tr js w es" "lsn_fits lsn" "map_of (tr_rows tr (w_tree w)) (be_bytes 8 lsn) = Some bytes"
  shows "\<exists>e\<in>set es. we_local_lsn e = lsn \<and> decode_entry js bytes = Inr e"
proof -
  from list_all2_member [OF assms(2) [unfolded wal_log_def] map_of_SomeD [OF assms(4)]]
  obtain e where "e \<in> set es" "entry_row js (be_bytes 8 lsn, bytes) e" by blast
  with assms(3) show ?thesis by (auto simp: entry_row_def key_eq)
qed

text \<open>Rewriting the entry of a number.\<close>

definition rewrite_entry :: "nat \<Rightarrow> (wal_entry \<Rightarrow> wal_entry) \<Rightarrow> wal_entry list \<Rightarrow> wal_entry list" where
  "rewrite_entry lsn f es = map (\<lambda>e. if we_local_lsn e = lsn then f e else e) es"

lemma log_rewrite:
  assumes tr: "tree_laws tr" and log: "wal_log tr js w es" and lsn: "lsn_fits lsn"
    and old: "map_of (tr_rows tr (w_tree w)) (be_bytes 8 lsn) = Some bytes" "decode_entry js bytes = Inr e"
    and new: "decode_entry js bytes' = Inr (f e)" "we_local_lsn (f e) = lsn"
    and rows: "tr_rows tr t' = bt_insert (be_bytes 8 lsn) bytes' (tr_rows tr (w_tree w))"
  shows "wal_log tr js (w\<lparr>w_tree := t'\<rparr>) (rewrite_entry lsn f es)"
proof -
  let ?rows = "tr_rows tr (w_tree w)"
  have all: "length ?rows = length es" "\<forall>i<length es. entry_row js (?rows ! i) (es ! i)"
    using log by (simp_all add: wal_log_def list_all2_conv_all_nth)
  have ok: "bt_ok ?rows" by (rule tree_lawsD(1) [OF tr])
  have "be_bytes 8 lsn \<in> fst ` set ?rows" using map_of_SomeD [OF old(1)] by force
  note eq = bt_insert_present [OF ok this, of bytes']
  have "entry_row js (if fst (?rows ! i) = be_bytes 8 lsn then (be_bytes 8 lsn, bytes') else ?rows ! i)
      (if we_local_lsn (es ! i) = lsn then f (es ! i) else es ! i)" if i: "i < length es" for i
  proof (cases "we_local_lsn (es ! i) = lsn")
    case True
    with all i have row: "entry_row js (?rows ! i) (es ! i)" "fst (?rows ! i) = be_bytes 8 lsn" by (auto simp: entry_row_def)
    have "map_of ?rows (fst (?rows ! i)) = Some (snd (?rows ! i))"
      using all(1) i by (intro map_of_is_SomeI bt_ok_distinct [OF ok]) (auto intro: nth_mem)
    with row old have "es ! i = e" by (simp add: entry_row_def)
    with True row new lsn show ?thesis by (simp add: entry_row_def)
  next
    case False
    with all i lsn show ?thesis by (auto simp: entry_row_def key_eq)
  qed
  with all show ?thesis by (simp add: wal_log_def rows eq rewrite_entry_def list_all2_conv_all_nth)
qed

lemma update_state_log:
  assumes tr: "tree_laws tr" and js: "json_laws js" and log: "wal_log tr js w es" and lsn: "lsn_fits lsn"
    and f: "\<And>e. we_local_lsn (f e) = we_local_lsn e"
    and short: "\<And>e bytes. e \<in> set es \<Longrightarrow> encode_entry js (f e) = Inr bytes \<Longrightarrow> length bytes < 2 ^ 32"
    and run: "update_state tr js lsn f w = (r, w')"
  shows "w_max_bytes w' = w_max_bytes w \<and> w_gate_poisoned w' = w_gate_poisoned w \<and>
    (wal_log tr js w' es \<and> r \<noteq> Inr () \<or> wal_log tr js w' (rewrite_entry lsn f es))"
proof (cases "and_then (io (tr_get tr (be_bytes 8 lsn) (w_tree w))) (\<lambda>raw.
           and_then (ok_or raw (WalIo (''no wal entry '' @ show_nat lsn))) (\<lambda>bytes.
           and_then (io (decode_entry js bytes)) (\<lambda>e. io (encode_entry js (f e)))))")
  case (Inl e)
  with run log show ?thesis by (auto simp: update_state_def)
next
  case (Inr bytes')
  then obtain bytes e where g: "tr_get tr (be_bytes 8 lsn) (w_tree w) = Inr (Some bytes)" "decode_entry js bytes = Inr e"
      "encode_entry js (f e) = Inr bytes'"
    by (auto simp: and_then_Inr ok_or_some)
  have old: "map_of (tr_rows tr (w_tree w)) (be_bytes 8 lsn) = Some bytes" using tree_lawsD(3) [OF tr g(1)] by simp
  from log_entry [OF tr log lsn this] g(2) have e: "e \<in> set es" "we_local_lsn e = lsn" by auto
  note dec = decode_encode [OF js g(3) short [OF e(1) g(3)]]
  obtain r1 t1 where ins: "tr_insert tr (be_bytes 8 lsn) bytes' (w_tree w) = (r1, t1)"
    by (cases "tr_insert tr (be_bytes 8 lsn) bytes' (w_tree w)")
  have out: "w' = w\<lparr>w_tree := t1\<rparr>" "r = io r1" using run Inr ins by (auto simp: update_state_def)
  from tree_lawsD(5) [OF tr ins] show ?thesis
  proof
    assume rows: "tr_rows tr t1 = bt_insert (be_bytes 8 lsn) bytes' (tr_rows tr (w_tree w))"
    have "we_local_lsn (f e) = lsn" using f e(2) by simp
    from log_rewrite [where f = f, OF tr log lsn old g(2) dec this rows] show ?thesis by (simp add: out)
  next
    assume "r1 \<noteq> Inr () \<and> tr_rows tr t1 = tr_rows tr (w_tree w)"
    with log show ?thesis by (auto simp: wal_log_def out io_def split: sum.splits)
  qed
qed

lemma find_batch_log:
  "list_all2 (entry_row js) rows es \<Longrightarrow>
     find_batch js b (map Inr rows @ rest) =
       (case find (\<lambda>e. we_batch_id e = b) es of Some e \<Rightarrow> Inr (Some (we_local_lsn e)) | None \<Rightarrow> find_batch js b rest)"
  by (induction rows es rule: list_all2_induct) (auto simp: entry_row_def io_def decode_at_def)

lemma find_batch_tree:
  assumes tr: "tree_laws tr" and log: "wal_log tr js w es"
    and found: "find_batch js b (tr_iter tr (w_tree w)) = Inr r"
  shows "r = map_option we_local_lsn (find (\<lambda>e. we_batch_id e = b) es)"
proof -
  let ?rows = "tr_rows tr (w_tree w)"
  have all: "list_all2 (entry_row js) ?rows es" using log by (simp add: wal_log_def)
  from tree_lawsD(2) [OF tr, of "w_tree w"] show ?thesis
  proof (elim disjE exE)
    assume "tr_iter tr (w_tree w) = map Inr ?rows"
    with find_batch_log [OF all, of b "[]"] found show ?thesis by (auto split: option.splits)
  next
    fix n e rest
    assume it: "tr_iter tr (w_tree w) = map Inr (take n ?rows) @ Inl e # rest"
    have "list_all2 (entry_row js) (take n ?rows) (take n es)" by (rule list_all2_takeI [OF all])
    from find_batch_log [OF this, of b "Inl e # rest"] found it obtain x
      where x: "find (\<lambda>e. we_batch_id e = b) (take n es) = Some x" "r = Some (we_local_lsn x)"
      by (auto simp: io_def split: option.splits)
    have "find (\<lambda>e. we_batch_id e = b) (take n es @ drop n es) = Some x" using x(1) by (auto simp: find_Some_iff nth_append)
    with x(2) show ?thesis by simp
  qed
qed

text \<open>Imports: consecutive numbers from the next one on.\<close>

fun number_entries :: "nat \<Rightarrow> wal_entry list \<Rightarrow> wal_entry list" where
  "number_entries lsn [] = []"
| "number_entries lsn (e # es) = e\<lparr>we_local_lsn := lsn\<rparr> # number_entries (lsn + 1) es"

lemma import_rows_total: "import_rows js lsn es encoded = Inr (rows, full) \<Longrightarrow> encoded < 2 ^ 64 \<Longrightarrow> encoded \<le> full"
proof (induction js lsn es encoded arbitrary: rows full rule: import_rows.induct)
  case (2 js lsn e es encoded)
  from "2.prems"(1) obtain bytes rows' where b: "\<not> 2 ^ 64 \<le> lsn" "encode_entry js (e\<lparr>we_local_lsn := lsn\<rparr>) = Inr bytes"
      "import_rows js (lsn + 1) es (saturating_add64 encoded (length bytes + 16)) = Inr (rows', full)"
    by (auto simp: and_then_Inr split: if_splits)
  have "saturating_add64 encoded (length bytes + 16) < 2 ^ 64" by (simp add: saturating_add64_def)
  from "2.IH" [OF b(1) b(3) this] "2.prems"(2) show ?case by (simp add: saturating_add64_def)
qed simp

lemma import_rows_log:
  "import_rows js lsn es encoded = Inr (rows, full) \<Longrightarrow> json_laws js \<Longrightarrow> full < 2 ^ 32 \<Longrightarrow> encoded < 2 ^ 64 \<Longrightarrow>
     list_all2 (entry_row js) rows (number_entries lsn es)"
proof (induction js lsn es encoded arbitrary: rows full rule: import_rows.induct)
  case (2 js lsn e es encoded)
  from "2.prems"(1) obtain bytes rows' where b: "\<not> 2 ^ 64 \<le> lsn" "encode_entry js (e\<lparr>we_local_lsn := lsn\<rparr>) = Inr bytes"
      "import_rows js (lsn + 1) es (saturating_add64 encoded (length bytes + 16)) = Inr (rows', full)"
      "rows = (be_bytes 8 lsn, bytes) # rows'"
    by (auto simp: and_then_Inr split: if_splits)
  have sat: "saturating_add64 encoded (length bytes + 16) < 2 ^ 64" by (simp add: saturating_add64_def)
  have "length bytes < 2 ^ 32" using import_rows_total [OF b(3) sat] "2.prems"(3) by (auto simp: saturating_add64_def)
  from decode_encode [OF "2.prems"(2) b(2) this] "2.IH" [OF b(1) b(3) "2.prems"(2,3) sat] b(1,4) show ?case
    by (simp add: entry_row_def lsn_fits_def)
qed simp

lemma number_entries_bounds: "e \<in> set (number_entries lsn es) \<Longrightarrow> lsn \<le> we_local_lsn e"
  by (induction lsn es rule: number_entries.induct) auto

lemma number_entries_sorted: "sorted_wrt (<) (map we_local_lsn (number_entries lsn es))"
  by (induction lsn es rule: number_entries.induct) (auto dest: number_entries_bounds)

lemma insert_rows_append: "sorted_wrt (<) (map fst (rows0 @ rows)) \<Longrightarrow> insert_rows rows rows0 = rows0 @ rows"
proof (induction rows arbitrary: rows0)
  case (Cons row rows)
  obtain k v where row: "row = (k, v)" by (cases row)
  have "\<forall>r\<in>set rows0. fst r < k" using Cons.prems by (auto simp: row sorted_wrt_append)
  from bt_insert_last [OF this] Cons.IH [of "rows0 @ [(k, v)]"] Cons.prems show ?case by (simp add: insert_rows_def row)
qed (simp add: insert_rows_def)

lemma rows_sorted:
  assumes "list_all2 (entry_row js) rows es" "sorted_wrt (<) (map we_local_lsn es)"
  shows "sorted_wrt (<) (map fst rows)"
proof -
  have all: "length rows = length es" "\<forall>i<length es. entry_row js (rows ! i) (es ! i)"
    using assms(1) by (simp_all add: list_all2_conv_all_nth)
  show ?thesis unfolding sorted_wrt_iff_nth_less
  proof (intro allI impI)
    fix i j
    assume ij: "i < j" "j < length (map fst rows)"
    with assms(2) all(1) have "we_local_lsn (es ! i) < we_local_lsn (es ! j)" by (simp add: sorted_wrt_iff_nth_less)
    with ij all(1) all(2) [rule_format, of i] all(2) [rule_format, of j]
    show "map fst rows ! i < map fst rows ! j" by (simp add: entry_row_def key_less)
  qed
qed

lemma import_log:
  assumes tr: "tree_laws tr" and js: "json_laws js" and log: "wal_log tr js w es" and max: "w_max_bytes w < 2 ^ 32"
    and run: "append_imported_batch tr js entries w = (r, w')"
  shows "w_max_bytes w' = w_max_bytes w \<and> w_gate_poisoned w' = w_gate_poisoned w \<and>
    (wal_log tr js w' es \<and> (entries \<noteq> [] \<longrightarrow> (\<exists>err. r = Inl err)) \<or>
     (\<exists>lsn. (\<forall>e\<in>set es. we_local_lsn e < lsn) \<and> wal_log tr js w' (es @ number_entries lsn entries)))"
proof (cases "entries = [] \<or> w_gate_poisoned w")
  case True
  with run log show ?thesis by (auto simp: append_imported_batch_def gated_def split: if_splits)
next
  case False
  let ?plan = "and_then (next_wal_lsn tr w) (\<lambda>first.
                and_then (import_rows js first entries 0) (\<lambda>(rows, encoded).
                and_then (used_bytes tr w) (\<lambda>used.
                  if w_max_bytes w < saturating_add64 used encoded then Inl (WalFull used (w_max_bytes w))
                  else Inr (first, rows))))"
  show ?thesis
  proof (cases ?plan)
    case (Inl e)
    with run log False show ?thesis by (auto simp: append_imported_batch_def gated_def)
  next
    case (Inr fr)
    then obtain lsn rows encoded used where p: "fr = (lsn, rows)" "next_wal_lsn tr w = Inr lsn"
        "import_rows js lsn entries 0 = Inr (rows, encoded)" "\<not> w_max_bytes w < saturating_add64 used encoded"
      by (auto simp: and_then_Inr split: if_splits)
    note nx = next_after_log [OF tr log p(2)]
    have all: "list_all2 (entry_row js) (tr_rows tr (w_tree w) @ rows) (es @ number_entries lsn entries)"
      using import_rows_log [OF p(3) js within_budget [OF max p(4)]] log by (simp add: wal_log_def list_all2_appendI)
    have "sorted_wrt (<) (map we_local_lsn (es @ number_entries lsn entries))"
      using log_sorted(1) [OF tr log] nx(2) number_entries_sorted [of lsn entries]
      by (fastforce simp: sorted_wrt_append dest: number_entries_bounds)
    note ins = insert_rows_append [OF rows_sorted [OF all this]]
    obtain r1 t1 where ap: "tr_apply_batch tr rows (w_tree w) = (r1, t1)" by (cases "tr_apply_batch tr rows (w_tree w)")
    obtain r2 t2 where fl: "flush_tree tr (r1, t1) = (r2, t2)" by (cases "flush_tree tr (r1, t1)")
    have same: "tr_rows tr t2 = tr_rows tr t1" "r2 = Inr () \<Longrightarrow> r1 = Inr ()"
      using fl tree_lawsD(7) [OF tr, of t1] by (auto simp: flush_tree_def split: sum.splits)
    have out: "w' = w\<lparr>w_tree := t2\<rparr>" "r = (case r2 of Inl e \<Rightarrow> Inl (WalIo e) | Inr _ \<Rightarrow> Inr lsn)"
      using run Inr p(1) ap fl False by (auto simp: append_imported_batch_def gated_def split: sum.splits)
    from tree_lawsD(6) [OF tr ap] same consider "tr_rows tr t2 = insert_rows rows (tr_rows tr (w_tree w))"
      | "r2 \<noteq> Inr ()" "tr_rows tr t2 = tr_rows tr (w_tree w)" by auto
    then show ?thesis
    proof cases
      case 1
      with ins all nx(2) show ?thesis by (auto simp: wal_log_def out)
    next
      case 2
      then have "wal_log tr js w' es" using log by (simp add: wal_log_def out)
      with 2(1) out show ?thesis by (cases r2) auto
    qed
  qed
qed

section \<open>The life of a log\<close>

text \<open>Entries stay where they are; only their states change, and new ones come after them.\<close>

definition log_keeps :: "wal_entry list \<Rightarrow> wal_entry list \<Rightarrow> bool" where
  "log_keeps es es' \<longleftrightarrow>
     (\<exists>ys zs. es' = ys @ zs \<and> list_all2 (\<lambda>e e'. e'\<lparr>we_state := we_state e\<rparr> = e) es ys)"

definition wal_ok :: "'t tree_api \<Rightarrow> wal_json \<Rightarrow> 't wal \<Rightarrow> bool" where
  "wal_ok tr js w \<longleftrightarrow> tree_laws tr \<and> json_laws js \<and> w_max_bytes w < 2 ^ 32 \<and> (\<exists>es. wal_log tr js w es)"

definition wal_kept :: "'t tree_api \<Rightarrow> wal_json \<Rightarrow> 't wal \<Rightarrow> 't wal \<Rightarrow> bool" where
  "wal_kept tr js w w' \<longleftrightarrow> (\<forall>es. wal_log tr js w es \<longrightarrow> (\<exists>es'. wal_log tr js w' es' \<and> log_keeps es es'))"

definition fresh_wal :: "'t tree_api \<Rightarrow> wal_json \<Rightarrow> 't wal \<Rightarrow> bool" where
  "fresh_wal tr js w \<longleftrightarrow>
     tree_laws tr \<and> json_laws js \<and> w_max_bytes w < 2 ^ 32 \<and> tr_rows tr (w_tree w) = [] \<and> \<not> w_gate_poisoned w"

text \<open>A change of state is not checked against the budget: the frame has to stay below 4 GiB.\<close>

inductive wal_step :: "'t tree_api \<Rightarrow> wal_json \<Rightarrow> 't wal \<Rightarrow> 't wal \<Rightarrow> bool" for tr js where
  wp_append: "wal_step tr js w (snd (insert_entry tr js entry w))"
| wp_append_idempotent: "wal_step tr js w (snd (append_entry_idempotent tr js entry w))"
| wp_import: "wal_step tr js w (snd (append_imported_batch tr js entries w))"
| wp_state: "lsn_fits lsn \<Longrightarrow>
     (\<And>es e bytes. wal_log tr js w es \<Longrightarrow> e \<in> set es \<Longrightarrow> encode_entry js (e\<lparr>we_state := s\<rparr>) = Inr bytes \<Longrightarrow>
        length bytes < 2 ^ 32) \<Longrightarrow>
     wal_step tr js w (snd (update_state tr js lsn (\<lambda>e. e\<lparr>we_state := s\<rparr>) w))"

lemma log_keeps_refl [simp]: "log_keeps es es"
  unfolding log_keeps_def by (intro exI [of _ es] exI [of _ "[]"]) (simp add: list_all2_same)

lemma log_keeps_append: "log_keeps es (es @ zs)"
  unfolding log_keeps_def by (intro exI [of _ es] exI [of _ zs]) (simp add: list_all2_same)

lemma log_keeps_state: "log_keeps es (rewrite_entry lsn (\<lambda>e. e\<lparr>we_state := s\<rparr>) es)"
  unfolding log_keeps_def
  by (intro exI [of _ "rewrite_entry lsn (\<lambda>e. e\<lparr>we_state := s\<rparr>) es"] exI [of _ "[]"])
    (simp add: rewrite_entry_def list_all2_conv_all_nth)

lemma log_keeps_trans:
  assumes "log_keeps a b" "log_keeps b c"
  shows "log_keeps a c"
proof -
  let ?R = "\<lambda>e e'. e'\<lparr>we_state := we_state e\<rparr> = e"
  have R: "?R x z" if "?R x y" "?R y z" for x y z :: wal_entry
  proof -
    from that(1) have "x = y\<lparr>we_state := we_state x\<rparr>" by simp
    moreover from that(2) have "y = z\<lparr>we_state := we_state y\<rparr>" by simp
    ultimately have "x = z\<lparr>we_state := we_state y, we_state := we_state x\<rparr>" by metis
    then show ?thesis by simp
  qed
  from assms obtain ys zs us vs where 1: "b = ys @ zs" "list_all2 ?R a ys" "c = us @ vs" "list_all2 ?R b us"
    by (auto simp: log_keeps_def)
  from 1(1,4) obtain us1 us2 where u: "us = us1 @ us2" "list_all2 ?R ys us1" by (auto simp: list_all2_append1)
  have "list_all2 ?R a us1" using R 1(2) u(2) by (rule list_all2_trans)
  with 1(3) u(1) show ?thesis unfolding log_keeps_def by (intro exI [of _ us1] exI [of _ "us2 @ vs"]) simp
qed

lemma log_keeps_find:
  assumes "log_keeps es es'" "find (\<lambda>e. we_batch_id e = b) es = Some e"
  shows "\<exists>e'. find (\<lambda>e. we_batch_id e = b) es' = Some e' \<and> we_local_lsn e' = we_local_lsn e"
proof -
  from assms(1) obtain ys zs where k: "es' = ys @ zs" "list_all2 (\<lambda>e e'. e'\<lparr>we_state := we_state e\<rparr> = e) es ys"
    by (auto simp: log_keeps_def)
  from k(2) assms(2) have "\<exists>e'. find (\<lambda>e. we_batch_id e = b) ys = Some e' \<and> we_local_lsn e' = we_local_lsn e"
  proof (induction rule: list_all2_induct)
    case (Cons x xs y ys)
    have "we_batch_id y = we_batch_id x" "we_local_lsn y = we_local_lsn x"
      using Cons.hyps(1) by (metis wal_entry.select_convs(1,6) wal_entry.surjective wal_entry.update_convs(5))+
    with Cons show ?case by (auto split: if_splits)
  qed simp
  moreover have "find P (ys @ zs) = find P ys" if "find P ys = Some x" for P x
    using that by (induction ys) (auto split: if_splits)
  ultimately show ?thesis by (auto simp: k(1))
qed

lemma idempotent_cases:
  assumes tr: "tree_laws tr" and log: "wal_log tr js w es" and run: "append_entry_idempotent tr js entry w = (r, w')"
  obtains err where "r = Inl err" "w' = w"
  | e where "find (\<lambda>x. we_batch_id x = we_batch_id entry) es = Some e" "we_batch_id entry \<noteq> []"
      "r = Inr (we_local_lsn e)" "w' = w"
  | "we_batch_id entry = [] \<or> find (\<lambda>x. we_batch_id x = we_batch_id entry) es = None"
      "insert_entry_locked tr js entry w = (r, w')"
proof -
  have f: "x = map_option we_local_lsn (find (\<lambda>x. we_batch_id x = we_batch_id entry) es)"
    if "find_batch js (we_batch_id entry) (tr_iter tr (w_tree w)) = Inr x" for x
    using find_batch_tree [OF tr log that] .
  show ?thesis
  proof (cases "w_gate_poisoned w")
    case True
    with run that(1) show ?thesis by (auto simp: append_entry_idempotent_def gated_def)
  next
    case open_gate: False
    show ?thesis
    proof (cases "we_batch_id entry = []")
      case True
      with run open_gate that(3) show ?thesis by (simp add: append_entry_idempotent_def gated_def)
    next
      case False
      show ?thesis
      proof (cases "find_batch js (we_batch_id entry) (tr_iter tr (w_tree w))")
        case (Inl err)
        with run open_gate False that(1) show ?thesis by (auto simp: append_entry_idempotent_def gated_def)
      next
        case (Inr x)
        with run open_gate False f [OF Inr] that(2,3) show ?thesis
          by (cases "find (\<lambda>x. we_batch_id x = we_batch_id entry) es")
            (auto simp: append_entry_idempotent_def gated_def)
      qed
    qed
  qed
qed

lemma step_keeps:
  assumes ok: "wal_ok tr js w" and step: "wal_step tr js w w'"
  shows "wal_ok tr js w' \<and> wal_kept tr js w w'"
proof -
  from ok have laws: "tree_laws tr" "json_laws js" "w_max_bytes w < 2 ^ 32" by (simp_all add: wal_ok_def)
  have one: "w_max_bytes w' = w_max_bytes w \<and> (\<exists>es'. wal_log tr js w' es' \<and> log_keeps es es')" if log: "wal_log tr js w es" for es
    using step
  proof cases
    case (wp_append entry)
    obtain r w1 where run: "insert_entry_locked tr js entry w = (r, w1)" by (cases "insert_entry_locked tr js entry w")
    with insert_entry_log [OF laws(1,2) log laws(3) run] log_keeps_append log wp_append show ?thesis
      by (auto simp: insert_entry_def gated_def next_entry_def)
  next
    case (wp_append_idempotent entry)
    obtain r where run: "append_entry_idempotent tr js entry w = (r, w')"
      using wp_append_idempotent by (cases "append_entry_idempotent tr js entry w") auto
    from laws(1) log run show ?thesis
    proof (cases rule: idempotent_cases)
      case 3
      from insert_entry_log [OF laws(1,2) log laws(3) this(2)] log_keeps_append show ?thesis
        by (auto simp: next_entry_def)
    qed (use log in auto)
  next
    case (wp_import entries)
    obtain r where run: "append_imported_batch tr js entries w = (r, w')"
      using wp_import by (cases "append_imported_batch tr js entries w") auto
    from import_log [OF laws(1,2) log laws(3) run] log_keeps_append show ?thesis by auto
  next
    case (wp_state lsn s)
    obtain r where run: "update_state tr js lsn (\<lambda>e. e\<lparr>we_state := s\<rparr>) w = (r, w')"
      using wp_state by (cases "update_state tr js lsn (\<lambda>e. e\<lparr>we_state := s\<rparr>) w") auto
    have "w_max_bytes w' = w_max_bytes w \<and> w_gate_poisoned w' = w_gate_poisoned w \<and>
        (wal_log tr js w' es \<and> r \<noteq> Inr () \<or> wal_log tr js w' (rewrite_entry lsn (\<lambda>e. e\<lparr>we_state := s\<rparr>) es))"
      using wp_state(3) [OF log] by (intro update_state_log [OF laws(1,2) log wp_state(2) _ _ run]) simp_all
    then show ?thesis using log_keeps_state by auto
  qed
  with ok show ?thesis by (auto simp: wal_ok_def wal_kept_def)
qed

interpretation offline: keeping_system "fresh_wal tr js" "wal_step tr js" "wal_ok tr js" "wal_kept tr js"
proof
  fix s t u
  show "fresh_wal tr js s \<Longrightarrow> wal_ok tr js s" by (auto simp: fresh_wal_def wal_ok_def wal_log_def)
  show "wal_ok tr js s \<Longrightarrow> wal_step tr js s t \<Longrightarrow> wal_ok tr js t" using step_keeps by blast
  show "wal_ok tr js s \<Longrightarrow> wal_step tr js s t \<Longrightarrow> wal_kept tr js s t" using step_keeps by blast
  show "wal_kept tr js s s" unfolding wal_kept_def using log_keeps_refl by blast
  show "wal_kept tr js s t \<Longrightarrow> wal_kept tr js t u \<Longrightarrow> wal_kept tr js s u"
    unfolding wal_kept_def using log_keeps_trans by meson
qed

lemma appended_entry_read:
  assumes tr: "tree_laws tr" and log: "wal_log tr js w (es @ [e])" and above: "\<forall>x\<in>set es. we_local_lsn x < we_local_lsn e"
    and found: "wal_entry_at tr js (we_local_lsn e) w = Inr found"
  shows "found = Some e"
proof -
  let ?lsn = "we_local_lsn e"
  have fits: "lsn_fits ?lsn" using log_sorted(2) [OF tr log] by simp
  have "be_bytes 8 ?lsn \<in> fst ` set (tr_rows tr (w_tree w))"
    using log by (auto simp: wal_log_def list_all2_append2 list_all2_Cons2 entry_row_def image_iff)
  then obtain bytes where b: "map_of (tr_rows tr (w_tree w)) (be_bytes 8 ?lsn) = Some bytes"
    by (metis map_of_eq_None_iff not_None_eq)
  from log_entry [OF tr log fits b] above have dec: "decode_entry js bytes = Inr e" by auto
  from found obtain raw where raw: "tr_get tr (be_bytes 8 ?lsn) (w_tree w) = Inr raw"
    by (auto simp: wal_entry_at_def and_then_Inr)
  with tree_lawsD(3) [OF tr raw] b found dec show ?thesis by (simp add: wal_entry_at_def io_def decode_at_def)
qed

text \<open>
  C28: The tree implements an append-only log. Whatever was appended, retried, imported or settled
  before, from a fresh tree on, the tree holds a log in which numbers strictly increase and every
  entry decodes under its own number. An append that succeeds answers with the number after the
  last one, or 1 on an empty log, adds exactly its entry under it at the end, and reading that
  number gives the entry back. An append that fails changes nothing, or it failed in the tree: then
  the log is as before or has that entry at the end, since a write may land before a flush fails.\<close>

theorem wal_append_refines:
  assumes "fresh_wal tr js w0" "(wal_step tr js)\<^sup>*\<^sup>* w0 w" "insert_entry tr js entry w = (r, w')"
  shows "\<exists>es. wal_log tr js w es \<and> sorted_wrt (<) (map we_local_lsn es) \<and>
    (case r of
       Inr lsn \<Rightarrow> lsn = number_after es \<and> wal_log tr js w' (es @ [entry\<lparr>we_local_lsn := lsn\<rparr>]) \<and>
         (\<forall>e\<in>set es. we_local_lsn e < lsn) \<and>
         (\<forall>found. wal_entry_at tr js lsn w' = Inr found \<longrightarrow> found = Some (entry\<lparr>we_local_lsn := lsn\<rparr>))
     | Inl err \<Rightarrow> w' = w \<or>
         (\<exists>m. err = WalIo m) \<and>
         (wal_log tr js w' es \<or> wal_log tr js w' (es @ [entry\<lparr>we_local_lsn := number_after es\<rparr>])))"
proof -
  have ok: "wal_ok tr js w" by (rule offline.reach_ok [OF assms(1,2)])
  then obtain es where laws: "tree_laws tr" "json_laws js" "w_max_bytes w < 2 ^ 32" and log: "wal_log tr js w es"
    by (auto simp: wal_ok_def)
  note sorted = log_sorted(1) [OF laws(1) log]
  show ?thesis
  proof (cases "w_gate_poisoned w")
    case True
    with assms(3) log sorted show ?thesis by (auto simp: insert_entry_def gated_def)
  next
    case False
    with assms(3) have run: "insert_entry_locked tr js entry w = (r, w')" by (simp add: insert_entry_def gated_def)
    note out = insert_entry_exact [OF laws(1,2) log laws(3) run, unfolded next_entry_def]
    show ?thesis
    proof (cases r)
      case (Inl err)
      with out log sorted show ?thesis by (intro exI [of _ es]) auto
    next
      case (Inr lsn)
      with out have w': "lsn = number_after es" "wal_log tr js w' (es @ [entry\<lparr>we_local_lsn := lsn\<rparr>])"
        "\<forall>e\<in>set es. we_local_lsn e < lsn" by auto
      with appended_entry_read [OF laws(1) w'(2)] Inr log sorted show ?thesis by (intro exI [of _ es]) auto
    qed
  qed
qed

text \<open>
  C29: A batch id is written once. An append that succeeded under a batch id is found again by every
  later append under that id, whatever was appended, imported or settled in between: it answers
  with the first number and changes nothing.\<close>

theorem wal_append_once:
  assumes "wal_ok tr js w" "we_batch_id entry \<noteq> []" "append_entry_idempotent tr js entry w = (Inr lsn, w1)"
    and "(wal_step tr js)\<^sup>*\<^sup>* w1 w2" "we_batch_id entry2 = we_batch_id entry"
    and "append_entry_idempotent tr js entry2 w2 = (Inr lsn2, w3)"
  shows "lsn2 = lsn \<and> w3 = w2"
proof -
  let ?P = "\<lambda>x. we_batch_id x = we_batch_id entry"
  from assms(1) obtain es where laws: "tree_laws tr" "json_laws js" "w_max_bytes w < 2 ^ 32" and log: "wal_log tr js w es"
    by (auto simp: wal_ok_def)
  have ok1: "wal_ok tr js w1" using step_keeps [OF assms(1) wp_append_idempotent [of tr js w entry]] assms(3) by simp
  have "\<exists>es1 e. wal_log tr js w1 es1 \<and> find ?P es1 = Some e \<and> we_local_lsn e = lsn"
    using laws(1) log assms(3)
  proof (cases rule: idempotent_cases)
    case (2 e)
    with log show ?thesis by auto
  next
    case 3
    with assms(2) have none: "find ?P es = None" by simp
    have "find ?P (es @ [entry\<lparr>we_local_lsn := lsn\<rparr>]) = Some (entry\<lparr>we_local_lsn := lsn\<rparr>)"
      using none by (induction es) auto
    moreover from insert_entry_log [OF laws(1,2) log laws(3) 3(2)]
    have "wal_log tr js w1 (es @ [entry\<lparr>we_local_lsn := lsn\<rparr>])" by (auto simp: next_entry_def)
    ultimately show ?thesis by fastforce
  qed simp
  then obtain es1 e where e: "wal_log tr js w1 es1" "find ?P es1 = Some e" "we_local_lsn e = lsn" by blast
  from offline.run_kept [OF assms(4) ok1] e(1) obtain es2 where es2: "wal_log tr js w2 es2" "log_keeps es1 es2"
    by (auto simp: wal_kept_def)
  from log_keeps_find [OF es2(2) e(2)] obtain e' where e': "find ?P es2 = Some e'" "we_local_lsn e' = lsn" using e(3) by auto
  from laws(1) es2(1) assms(6) show ?thesis
    by (cases rule: idempotent_cases) (use e' assms(2,5) in auto)
qed

section \<open>The budget\<close>

definition row_bytes :: "(byte list \<times> byte list) list \<Rightarrow> nat" where
  "row_bytes rows = sum_list (map (\<lambda>row. length (snd row) + 16) rows)"

lemma sum_bytes_rows:
  "used < 2 ^ 64 \<Longrightarrow> sum_bytes (map Inr rows) used = Inr (min (used + row_bytes rows) (2 ^ 64 - 1))"
  by (induction rows arbitrary: used) (auto simp: row_bytes_def io_def saturating_add64_def)

lemma sum_bytes_error: "\<exists>err. sum_bytes (map Inr rows @ Inl e # rest) used = Inl err"
  by (induction rows arbitrary: used) (auto simp: io_def)

lemma used_bytes_rows:
  assumes "tree_laws tr" "used_bytes tr w = Inr used"
  shows "used = min (row_bytes (tr_rows tr (w_tree w))) (2 ^ 64 - 1)"
  using tree_lawsD(2) [OF assms(1), of "w_tree w"]
proof (elim disjE exE)
  assume "tr_iter tr (w_tree w) = map Inr (tr_rows tr (w_tree w))"
  with assms(2) show ?thesis by (simp add: used_bytes_def sum_bytes_rows)
next
  fix n e rest
  assume "tr_iter tr (w_tree w) = map Inr (take n (tr_rows tr (w_tree w))) @ Inl e # rest"
  with assms(2) sum_bytes_error [of "take n (tr_rows tr (w_tree w))" e rest 0] show ?thesis by (auto simp: used_bytes_def)
qed

lemma row_bytes_insert: "row_bytes (bt_insert k v rows) \<le> row_bytes rows + length v + 16"
  by (induction k v rows rule: bt_insert.induct) (auto simp: row_bytes_def)

text \<open>
  C30: The budget holds up to the overhead of one row. After an append that succeeds, the bytes the log
  accounts for are at most sixteen more than the configured maximum: the check adds the frame of
  the new entry to what is in use, and the overhead of sixteen bytes that the accounting adds per
  row comes on top of it.\<close>

theorem wal_budget_bound:
  assumes "wal_ok tr js w" "insert_entry tr js entry w = (Inr lsn, w')" "used_bytes tr w' = Inr used"
  shows "used \<le> w_max_bytes w + 16"
proof -
  from assms(1) have tr: "tree_laws tr" and max: "w_max_bytes w < 2 ^ 32" by (simp_all add: wal_ok_def)
  from assms(2) have "insert_entry_locked tr js entry w = (Inr lsn, w')"
    by (auto simp: insert_entry_def gated_def split: if_splits)
  then obtain bytes used0 t where p: "used_bytes tr w = Inr used0" "\<not> w_max_bytes w < saturating_add64 used0 (length bytes)"
      "flush_tree tr (tr_insert tr (be_bytes 8 lsn) bytes (w_tree w)) = (Inr (), t)" "w' = w\<lparr>w_tree := t\<rparr>"
    by (auto simp: insert_entry_locked_def and_then_Inr split: sum.splits prod.splits if_splits)
  then obtain t1 where ins: "tr_insert tr (be_bytes 8 lsn) bytes (w_tree w) = (Inr (), t1)" "tr_flush tr t1 = (Inr (), t)"
    by (auto simp: flush_tree_def split: prod.splits sum.splits)
  have rows: "tr_rows tr t = bt_insert (be_bytes 8 lsn) bytes (tr_rows tr (w_tree w))"
    using tree_lawsD(5) [OF tr ins(1)] tree_lawsD(7) [OF tr ins(2)] by simp
  have "row_bytes (tr_rows tr (w_tree w)) + length bytes \<le> w_max_bytes w"
    using p(2) max used_bytes_rows [OF tr p(1)] by (auto simp: saturating_add64_def)
  then show ?thesis
    using used_bytes_rows [OF tr assms(3)] row_bytes_insert [of "be_bytes 8 lsn" bytes "tr_rows tr (w_tree w)"] rows p(4)
    by simp
qed

section \<open>A log at work\<close>

definition list_tree :: "(byte list \<times> byte list) list tree_api" where
  "list_tree =
     \<lparr>tr_rows = (\<lambda>t. if bt_ok t then t else []), tr_iter = (\<lambda>t. map Inr (if bt_ok t then t else [])),
      tr_get = (\<lambda>k t. Inr (map_of (if bt_ok t then t else []) k)), tr_last = (\<lambda>t. Inr (last_opt (if bt_ok t then t else []))),
      tr_insert = (\<lambda>k v t. (Inr (), bt_insert k v (if bt_ok t then t else []))),
      tr_apply_batch = (\<lambda>kvs t. (Inr (), insert_rows kvs (if bt_ok t then t else []))), tr_flush = (\<lambda>t. (Inr (), t))\<rparr>"

lemma bt_ok_insert_rows: "bt_ok rows \<Longrightarrow> bt_ok (insert_rows kvs rows)"
  by (induction kvs arbitrary: rows) (auto simp: insert_rows_def)

lemma list_tree_laws: "tree_laws list_tree"
  unfolding tree_laws_def list_tree_def by (auto simp: bt_ok_insert_rows)

definition sample_wal_entry :: wal_entry where
  "sample_wal_entry = pending_entry ''s'' [] [] ''b'' [] [] ''acme'' ''ann''"

text \<open>A codec that knows two entries.\<close>

definition sample_json :: wal_json where
  "sample_json =
     \<lparr>wj_to_vec = (\<lambda>e. if e = sample_wal_entry\<lparr>we_local_lsn := 1\<rparr> then Inr [1]
                       else if e = sample_wal_entry\<lparr>we_local_lsn := 2\<rparr> then Inr [2] else Inl ''unknown''),
      wj_from_slice = (\<lambda>j. if j = [1] then Inr (sample_wal_entry\<lparr>we_local_lsn := 1\<rparr>)
                           else if j = [2] then Inr (sample_wal_entry\<lparr>we_local_lsn := 2\<rparr>) else Inl ''unknown'')\<rparr>"

lemma sample_json_laws: "json_laws sample_json"
  by (auto simp: json_laws_def sample_json_def split: if_splits)

definition sample_wal :: "(byte list \<times> byte list) list wal" where
  "sample_wal = \<lparr>w_tree = [], w_max_bytes = 6, w_gate_poisoned = False\<rparr>"

definition sample_frame :: "byte list" where
  "sample_frame = WAL_CODEC_VERSION # be_bytes 4 1 @ [1]"

definition sample_wal_written :: "(byte list \<times> byte list) list wal" where
  "sample_wal_written = sample_wal\<lparr>w_tree := [(be_bytes 8 1, sample_frame)]\<rparr>"

lemma sample_fresh: "fresh_wal list_tree sample_json sample_wal"
  by (simp add: fresh_wal_def list_tree_laws sample_json_laws sample_wal_def) (simp add: list_tree_def)

lemma sample_wal_ok: "wal_ok list_tree sample_json sample_wal"
  by (rule offline.init_ok [OF sample_fresh])

lemma sample_encoded: "encode_entry sample_json (sample_wal_entry\<lparr>we_local_lsn := 1\<rparr>) = Inr sample_frame"
  by (simp add: encode_entry_def sample_json_def sample_frame_def)

lemma sample_append: "insert_entry list_tree sample_json sample_wal_entry sample_wal = (Inr 1, sample_wal_written)"
proof -
  have "next_wal_lsn list_tree sample_wal = Inr 1" by (simp add: next_wal_lsn_def list_tree_def sample_wal_def io_def)
  moreover have "used_bytes list_tree sample_wal = Inr 0" by (simp add: used_bytes_def list_tree_def sample_wal_def)
  ultimately show ?thesis using sample_encoded
    by (simp add: insert_entry_def gated_def insert_entry_locked_def sample_wal_written_def io_def flush_tree_def)
      (simp add: sample_wal_def list_tree_def saturating_add64_def sample_frame_def)
qed

theorem wal_append_refines_witness:
  "wal_log list_tree sample_json sample_wal_written [sample_wal_entry\<lparr>we_local_lsn := 1\<rparr>]"
proof -
  have empty: "es = []" if "wal_log list_tree sample_json sample_wal es" for es
    using that by (simp add: wal_log_def list_tree_def sample_wal_def)
  from wal_append_refines [OF sample_fresh rtranclp.rtrancl_refl sample_append] obtain es where
    "wal_log list_tree sample_json sample_wal es"
    "wal_log list_tree sample_json sample_wal_written (es @ [sample_wal_entry\<lparr>we_local_lsn := 1\<rparr>])" by auto
  with empty show ?thesis by fastforce
qed

theorem wal_append_once_witness:
  "append_entry_idempotent list_tree sample_json sample_wal_entry sample_wal_written = (Inr 1, sample_wal_written)"
proof -
  have first: "append_entry_idempotent list_tree sample_json sample_wal_entry sample_wal = (Inr 1, sample_wal_written)"
    using sample_append
    by (simp add: append_entry_idempotent_def insert_entry_def gated_def) (simp add: list_tree_def sample_wal_def)
  have b: "we_batch_id sample_wal_entry \<noteq> []" by (simp add: sample_wal_entry_def pending_entry_def)
  obtain r w3 where again: "append_entry_idempotent list_tree sample_json sample_wal_entry sample_wal_written = (r, w3)"
    by (cases "append_entry_idempotent list_tree sample_json sample_wal_entry sample_wal_written")
  have r: "r = Inr 1"
  proof -
    have "key_to_lsn (be_bytes 8 1) = Inr 1" by (rule key_to_lsn_key) (simp add: lsn_fits_def)
    moreover have "decode_entry sample_json sample_frame = Inr (sample_wal_entry\<lparr>we_local_lsn := 1\<rparr>)"
      by (rule decode_encode [OF sample_json_laws sample_encoded]) (simp add: sample_frame_def)
    ultimately show ?thesis using again
      by (auto simp: append_entry_idempotent_def gated_def sample_wal_written_def sample_wal_def list_tree_def io_def
          decode_at_def bt_ok_def sample_wal_entry_def pending_entry_def)
  qed
  from wal_append_once [OF sample_wal_ok b first rtranclp.rtrancl_refl refl again [unfolded r]] again r show ?thesis by simp
qed

theorem wal_budget_bound_witness:
  "used_bytes list_tree sample_wal_written = Inr 22 \<and> (22 :: nat) \<le> w_max_bytes sample_wal + 16 \<and> w_max_bytes sample_wal < 22"
proof -
  have used: "used_bytes list_tree sample_wal_written = Inr 22"
    by (simp add: used_bytes_def list_tree_def sample_wal_written_def sample_wal_def bt_ok_def sample_frame_def io_def
        saturating_add64_def)
  from wal_budget_bound [OF sample_wal_ok sample_append used] used show ?thesis by (simp add: sample_wal_def)
qed

end
