(* ===== verification/Ingest_Rules.thy ===== *)
theory Ingest_Rules
  imports Wire Validator Mem_Reads
begin

text \<open>
  The rules of the ingest service that judge one draft at a time
  (\<open>exocortex-ingest/src/service.rs\<close>, \<open>entities.rs\<close>, \<open>demand.rs\<close>, with
  \<open>exocortex-wire/src/limits.rs\<close>): resource limits, time stamps, rights, the registered
  source, memory drafts and relationship drafts.  Third-party code is collected in one record
  of parameters, \<open>ingest_env\<close>: the hash and MAC functions, the Protobuf encoders, the
  calendar conversion of \<open>chrono\<close>, Unicode lower case, the regular-expression matcher, JSON,
  and the floating-point cosine.
\<close>

record ingest_env =
  iv_blake3 :: "byte list \<Rightarrow> byte list"
  iv_sha256 :: "byte list \<Rightarrow> byte list"
  iv_mac :: mac_fn
  iv_enc_batch :: "ingest_batch \<Rightarrow> byte list"
  iv_enc_memory :: "memory_draft_pb \<Rightarrow> byte list"
  iv_enc_relationship :: "relationship_draft_pb \<Rightarrow> byte list"
  iv_enc_snapshot :: "snapshot_info_pb \<Rightarrow> byte list"
  iv_enc_registration :: "register_source_request \<Rightarrow> byte list"
  iv_from_timestamp :: "int \<Rightarrow> nat \<Rightarrow> instant option"
  iv_lowercase :: "string \<Rightarrow> string"
  iv_captures :: "nat \<Rightarrow> nat \<Rightarrow> string \<Rightarrow> string list"
  iv_batch_key_json :: "ingest_batch_key \<Rightarrow> string"
  iv_cosine :: "f32 list \<Rightarrow> f32 list \<Rightarrow> f32"
  iv_compat_text :: "compatibility_error \<Rightarrow> string"

section \<open>Acknowledgements\<close>

datatype reject_code =
    RejUnknown | IncompatibleOntology | UnknownSource | UnknownMemoryType | RejUnknownKind
  | RejInvalidTypeTriple | RejVisibilityWidening | MissingExternalKey | DuplicateBatch
  | BadChecksum | Unauthorized | RateLimited | ComputedKindRejected | InvalidExternalKey
  | ResourceLimitExceeded | SourceRewound | SchemaDrift | ProjectionBoundExceeded

text \<open>The derived \<open>Debug\<close> form.\<close>

fun reject_debug :: "reject_code \<Rightarrow> string" where
  "reject_debug RejUnknown = ''Unknown''"
| "reject_debug IncompatibleOntology = ''IncompatibleOntology''"
| "reject_debug UnknownSource = ''UnknownSource''"
| "reject_debug UnknownMemoryType = ''UnknownMemoryType''"
| "reject_debug RejUnknownKind = ''UnknownKind''"
| "reject_debug RejInvalidTypeTriple = ''InvalidTypeTriple''"
| "reject_debug RejVisibilityWidening = ''VisibilityWidening''"
| "reject_debug MissingExternalKey = ''MissingExternalKey''"
| "reject_debug DuplicateBatch = ''DuplicateBatch''"
| "reject_debug BadChecksum = ''BadChecksum''"
| "reject_debug Unauthorized = ''Unauthorized''"
| "reject_debug RateLimited = ''RateLimited''"
| "reject_debug ComputedKindRejected = ''ComputedKindRejected''"
| "reject_debug InvalidExternalKey = ''InvalidExternalKey''"
| "reject_debug ResourceLimitExceeded = ''ResourceLimitExceeded''"
| "reject_debug SourceRewound = ''SourceRewound''"
| "reject_debug SchemaDrift = ''SchemaDrift''"
| "reject_debug ProjectionBoundExceeded = ''ProjectionBoundExceeded''"

record reject_row =
  rj_draft_key :: string
  rj_code :: reject_code
  rj_detail :: string

record similar_to_hint =
  sh_draft_key :: string
  sh_existing_memory_id :: string
  sh_existing_title :: string
  sh_suggestion :: string

record ingest_ack =
  ak_batch_id :: string
  ak_accepted :: u32
  ak_rejected :: u32
  ak_rejections :: "reject_row list"
  ak_assigned_lsn :: nat
  ak_similar_to :: "similar_to_hint list"

definition ack_reject_all :: "ingest_batch \<Rightarrow> reject_code \<Rightarrow> string \<Rightarrow> ingest_ack" where
  "ack_reject_all batch code detail =
     \<lparr>ak_batch_id = ibt_batch_id batch, ak_accepted = 0,
      ak_rejected = word_of_nat (length (ibt_memories batch) + length (ibt_relationships batch)),
      ak_rejections =
        map (\<lambda>m. \<lparr>rj_draft_key = md_draft_key m, rj_code = code, rj_detail = detail\<rparr>) (ibt_memories batch)
        @ map (\<lambda>r. \<lparr>rj_draft_key = rd_from_draft_key r @ ''->'' @ rd_to_draft_key r, rj_code = code,
                    rj_detail = detail\<rparr>) (ibt_relationships batch),
      ak_assigned_lsn = 0, ak_similar_to = []\<rparr>"

definition reject_rows :: "ingest_batch \<Rightarrow> reject_row list \<Rightarrow> ingest_ack" where
  "reject_rows batch rejections =
     (ack_reject_all batch RejUnknown ''atomic batch rejected'')\<lparr>ak_rejections := rejections\<rparr>"

text \<open>\<open>kernel_error_to_reject\<close>: exhaustive over the kernel's errors.\<close>

fun kernel_error_to_reject :: "kernel_error \<Rightarrow> reject_code" where
  "kernel_error_to_reject (VisibilityWidening _ _ _) = RejVisibilityWidening"
| "kernel_error_to_reject (UnknownKind _) = RejUnknownKind"
| "kernel_error_to_reject (InvalidTypeTriple _ _) = RejInvalidTypeTriple"
| "kernel_error_to_reject _ = RejUnknown"

section \<open>Resource limits\<close>

definition MAX_MEMORY_CONTENT_BYTES :: nat where "MAX_MEMORY_CONTENT_BYTES = 64 * 1024"
definition MAX_TAGS_PER_MEMORY :: nat where "MAX_TAGS_PER_MEMORY = 32"
definition MAX_TAG_BYTES :: nat where "MAX_TAG_BYTES = 128"
definition MAX_TAG_BYTES_PER_MEMORY :: nat where "MAX_TAG_BYTES_PER_MEMORY = 2048"
definition MAX_MEMORIES_PER_BATCH :: nat where "MAX_MEMORIES_PER_BATCH = 256"
definition MAX_EDGES_PER_BATCH :: nat where "MAX_EDGES_PER_BATCH = 64"

definition validate_memory_fields :: "string \<Rightarrow> string list \<Rightarrow> string + unit" where
  "validate_memory_fields content tags =
     (if MAX_MEMORY_CONTENT_BYTES < length content then Inl ''memory content exceeds 65536 UTF-8 bytes''
      else if MAX_TAGS_PER_MEMORY < length tags then Inl ''memory has more than 32 tags''
      else if list_ex (\<lambda>tag. MAX_TAG_BYTES < length tag) tags then Inl ''tag exceeds 128 UTF-8 bytes''
      else if MAX_TAG_BYTES_PER_MEMORY < sum_list (map length tags) then Inl ''aggregate tag bytes exceed 2048''
      else Inr ())"

fun validate_each_memory :: "memory_draft_pb list \<Rightarrow> string + unit" where
  "validate_each_memory [] = Inr ()"
| "validate_each_memory (m # ms) =
     and_then (validate_memory_fields (md_content m) (md_tags m)) (\<lambda>_. validate_each_memory ms)"

definition validate_batch_resources :: "memory_draft_pb list \<Rightarrow> relationship_draft_pb list \<Rightarrow> string + unit" where
  "validate_batch_resources memories edges =
     (if MAX_MEMORIES_PER_BATCH < length memories then Inl ''batch has more than 256 memories''
      else if MAX_EDGES_PER_BATCH < length edges then Inl ''batch has more than 64 relationships''
      else validate_each_memory memories)"

section \<open>Time stamps and rights\<close>

record batch_times =
  bt_observed_at :: instant
  bt_recorded_at :: instant

definition checked_timestamp :: "ingest_env \<Rightarrow> timestamp_pb \<Rightarrow> reject_code + instant" where
  "checked_timestamp env t =
     (if ts_nanos t < 0 \<or> 1000000000 \<le> ts_nanos t then Inl RejUnknown
      else ok_or (iv_from_timestamp env (ts_seconds t) (nat (ts_nanos t))) RejUnknown)"

definition timestamp_or :: "ingest_env \<Rightarrow> timestamp_pb option \<Rightarrow> instant \<Rightarrow> reject_code + instant" where
  "timestamp_or env t dflt = (case t of None \<Rightarrow> Inr dflt | Some value \<Rightarrow> checked_timestamp env value)"

definition batch_times_of :: "ingest_env \<Rightarrow> instant \<Rightarrow> ingest_batch \<Rightarrow> reject_code + batch_times" where
  "batch_times_of env now batch =
     and_then (timestamp_or env (ibt_recorded_at batch) now) (\<lambda>recorded.
     and_then (timestamp_or env (ibt_observed_at batch) recorded) (\<lambda>observed.
       Inr \<lparr>bt_observed_at = observed, bt_recorded_at = recorded\<rparr>))"

text \<open>A claim that trims to nothing is no claim; a stamp \<open>chrono\<close> refuses becomes its default, the epoch.\<close>

definition non_blank :: "string \<Rightarrow> string option" where
  "non_blank s = (if trim_str s = [] then None else Some (trim_str s))"

definition kernel_rights :: "ingest_env \<Rightarrow> rights_pb \<Rightarrow> rights" where
  "kernel_rights env r =
     \<lparr>rt_licence = non_blank (rp_licence r), rt_consent_basis = non_blank (rp_consent_basis r),
      rt_retention_until = map_option (\<lambda>stamp.
        (case iv_from_timestamp env (ts_seconds stamp) (nat (ts_nanos stamp mod 2 ^ 32)) of
           None \<Rightarrow> 0 | Some t \<Rightarrow> t)) (rp_retention_until r),
      rt_redacted = rp_redacted r\<rparr>"

section \<open>Registered sources\<close>

record stored_projection =
  sp_selector :: string
  sp_fields :: "(string \<times> string \<times> string) list"
  sp_columns :: "(string \<times> string) list"
  sp_schema_hash :: string
  sp_mapping_version :: u32
  sp_max_rows_per_window :: nat
  sp_max_graph_share_percent :: u32

record source_entry =
  se_ceiling :: visibility
  se_kind :: producer_kind
  se_flavor :: string
  se_projection :: "stored_projection option"
  se_default_rights :: "rights option"

definition vis_from_i32 :: "int \<Rightarrow> reject_code + visibility" where
  "vis_from_i32 v =
     (if v = 0 then Inr Private else if v = 1 then Inr Project else if v = 2 then Inr Team
      else if v = 3 then Inr Org else if v = 4 then Inr Public else Inl RejVisibilityWidening)"

definition wire_kind_to_kernel :: "int \<Rightarrow> producer_kind option" where
  "wire_kind_to_kernel v =
     (if v = 1 then Some CodingAgent else if v = 2 then Some ResearchAgent
      else if v = 3 then Some DocsAdapter else if v = 4 then Some AnalyticsAdapter
      else if v = 5 then Some Custom else if v = 6 then Some ExtractedKind
      else if v = 7 then Some SaaSAdapter else None)"

definition strip_prefix :: "string \<Rightarrow> string \<Rightarrow> string option" where
  "strip_prefix p s = (if prefix p s then Some (drop (length p) s) else None)"

definition session_uri_id :: "string \<Rightarrow> string option" where
  "session_uri_id uri =
     (case strip_prefix ''session://'' uri of None \<Rightarrow> None | Some i \<Rightarrow> if i = [] then None else Some i)"

definition session_id_of :: "string \<Rightarrow> string \<Rightarrow> string option" where
  "session_id_of source_uri source_flavor =
     (if source_flavor \<noteq> ''session'' then None else session_uri_id source_uri)"


section \<open>Tags and entities\<close>

definition normalize_tag :: "ingest_env \<Rightarrow> string \<Rightarrow> string option" where
  "normalize_tag env tag =
     (let normalized = iv_lowercase env (trim_str tag) in if normalized = [] then None else Some normalized)"

fun normalize_tags_onto :: "ingest_env \<Rightarrow> string list \<Rightarrow> string list \<Rightarrow> string list" where
  "normalize_tags_onto env out [] = out"
| "normalize_tags_onto env out (t # ts) =
     (case normalize_tag env t of
        None \<Rightarrow> normalize_tags_onto env out ts
      | Some n \<Rightarrow> normalize_tags_onto env (if n \<in> set out then out else out @ [n]) ts)"

definition normalize_tags :: "ingest_env \<Rightarrow> string list \<Rightarrow> string list" where
  "normalize_tags env tags = normalize_tags_onto env [] tags"

text \<open>The extraction table: type names in declaration order with their number of patterns.\<close>

definition pattern_table :: "(string \<times> nat) list" where
  "pattern_table =
     [(''File'', 1), (''Function'', 2), (''Class'', 1), (''Error'', 2), (''Technology'', 1), (''Concept'', 1),
      (''Person'', 1), (''Project'', 1), (''Command'', 1), (''Package'', 1), (''Url'', 1), (''Variable'', 1)]"

definition trim_end :: "string list \<Rightarrow> string \<Rightarrow> string" where
  "trim_end ws s = rev (strip_front (map rev ws) (rev s))"

definition canonicalize :: "ingest_env \<Rightarrow> string \<Rightarrow> string \<Rightarrow> string" where
  "canonicalize env type_name raw =
     (if type_name = ''Function'' then trim_end [''()''] raw
      else if type_name = ''Technology'' \<or> type_name = ''Concept'' \<or> type_name = ''Project'' then iv_lowercase env raw
      else if type_name = ''Url'' then trim_end [''.'', '',''] raw
      else raw)"

fun push_unseen :: "u8 \<Rightarrow> f32 \<Rightarrow> string list \<Rightarrow> (u8 \<times> string \<times> f32) list \<Rightarrow> (u8 \<times> string \<times> f32) list" where
  "push_unseen t conf [] out = out"
| "push_unseen t conf (c # cs) out =
     push_unseen t conf cs (if list_ex (\<lambda>(t', c', _). t' = t \<and> c' = c) out then out else out @ [(t, c, conf)])"

definition extract_of_type ::
    "ingest_env \<Rightarrow> string \<Rightarrow> nat \<Rightarrow> (u8 \<times> string \<times> f32) list \<Rightarrow> (u8 \<times> string \<times> f32) list" where
  "extract_of_type env text i out =
     (let (type_name, patterns) = pattern_table ! i;
          hits = map trim_str (concat (map (\<lambda>p. iv_captures env i p text) [0..<patterns]))
      in push_unseen (word_of_nat i) (if 1 < length hits then 0x3F19999A else 0x3F733333)
           (map (canonicalize env type_name) hits) out)"

text \<open>\<open>[_].join(" ")\<close>.\<close>

fun join_words :: "string list \<Rightarrow> string" where
  "join_words [] = []"
| "join_words [w] = w"
| "join_words (w # ws) = w @ '' '' @ join_words ws"

text \<open>\<open>dedup_by\<close> on a key: of neighbours with one key the first stays.\<close>

fun dedup_on :: "('a \<Rightarrow> 'k) \<Rightarrow> 'a list \<Rightarrow> 'a list" where
  "dedup_on k (x # y # zs) = (if k x = k y then dedup_on k (x # zs) else x # dedup_on k (y # zs))"
| "dedup_on k xs = xs"

definition extract_entities :: "ingest_env \<Rightarrow> string \<Rightarrow> string list \<Rightarrow> (u8 \<times> string \<times> f32) list" where
  "extract_entities env content tags =
     (let text = content @ '' '' @ join_words tags
      in dedup_on (\<lambda>(t, n, _). (t, n)) (sort_key (\<lambda>(t, n, _). (t, n)) (fold (extract_of_type env text) [0..<length pattern_table] [])))"

instantiation entity_id :: linorder
begin

definition less_eq_entity_id :: "entity_id \<Rightarrow> entity_id \<Rightarrow> bool" where
  "less_eq_entity_id a b = (eid_bytes a \<le> eid_bytes b)"

definition less_entity_id :: "entity_id \<Rightarrow> entity_id \<Rightarrow> bool" where
  "less_entity_id a b = (eid_bytes a < eid_bytes b)"

instance
  by standard (auto simp: less_eq_entity_id_def less_entity_id_def intro: entity_id.expand)

end

text \<open>\<open>sort\<close> then \<open>dedup\<close>.\<close>

definition sort_dedup :: "'a::linorder list \<Rightarrow> 'a list" where
  "sort_dedup xs = remdups_adj (sort xs)"

definition entity_ids :: "ingest_env \<Rightarrow> string \<Rightarrow> string \<Rightarrow> string list \<Rightarrow> entity_id list" where
  "entity_ids env org content tags =
     sort_dedup (map (\<lambda>(t, name, _). from_parts (iv_blake3 env) org t name) (extract_entities env content tags))"

definition attach_entities :: "ingest_env \<Rightarrow> string \<Rightarrow> memory \<Rightarrow> memory" where
  "attach_entities env org m =
     (let ids = entity_ids env org (m_content m) (m_tags m);
          ids' =
            (case m_provenance m of
               ExternalSnapshot s \<Rightarrow>
                 (if xk_table_uuid (xs_external_key s) \<noteq> []
                  then ids @ [entity_from_external (iv_blake3 env) org
                                (str_bytes (xk_table_uuid (xs_external_key s))) (xk_logical_pk (xs_external_key s))]
                  else ids)
             | _ \<Rightarrow> ids)
      in m\<lparr>m_context := (m_context m)\<lparr>c_entities := sort_dedup ids'\<rparr>\<rparr>)"

section \<open>One memory draft\<close>

record ingest_rules =
  ir_ontology :: ontology
  ir_extractor_org :: string
  ir_allow_personal_scopes :: bool

abbreviation F01_HALF :: f01 where "F01_HALF \<equiv> F01 0x3F000000"
abbreviation F01_BASE :: f01 where "F01_BASE \<equiv> F01 0x3F4CCCCD"

text \<open>\<open>as_str().filter(|id| !id.is_empty())\<close>.\<close>

definition non_empty :: "string \<Rightarrow> string option" where
  "non_empty s = (if s = [] then None else Some s)"

record draft_scope =
  ds_tenant_id :: "string option"
  ds_user_id :: "string option"
  ds_project_id :: "string option"
  ds_team_id :: "string option"

definition client_metadata :: "ingest_batch \<Rightarrow> client_metadata_pb option" where
  "client_metadata batch =
     (case ibt_producer batch of None \<Rightarrow> None | Some p \<Rightarrow> pi_client_metadata p)"

definition requested_project :: "ingest_batch \<Rightarrow> string option" where
  "requested_project batch =
     (case client_metadata batch of None \<Rightarrow> None | Some m \<Rightarrow> non_empty (cm_project_id m))"

definition requested_team :: "ingest_batch \<Rightarrow> string option" where
  "requested_team batch =
     (case client_metadata batch of None \<Rightarrow> None | Some m \<Rightarrow> non_empty (cm_team_id m))"

definition scope_of ::
    "ingest_rules \<Rightarrow> ingest_batch \<Rightarrow> visibility \<Rightarrow> visibility_context option \<Rightarrow> reject_code + draft_scope" where
  "scope_of rules batch vis who =
     (case who of
        None \<Rightarrow> Inr \<lparr>ds_tenant_id = None, ds_user_id = None, ds_project_id = None, ds_team_id = None\<rparr>
      | Some p \<Rightarrow>
        if vc_max_visibility p < vis then Inl RejVisibilityWidening
        else if \<not> ir_allow_personal_scopes rules \<and> vis = Project
          \<and> \<not> is_some_and (\<lambda>i. i \<in> set (vc_project_ids p)) (requested_project batch)
        then Inl RejVisibilityWidening
        else if \<not> ir_allow_personal_scopes rules \<and> vis = Team
          \<and> \<not> is_some_and (\<lambda>i. i \<in> set (vc_team_ids p)) (requested_team batch)
        then Inl RejVisibilityWidening
        else Inr \<lparr>ds_tenant_id = Some (vc_org_id p), ds_user_id = Some (vc_user_id p),
                  ds_project_id = requested_project batch, ds_team_id = requested_team batch\<rparr>)"

definition context_of :: "instant \<Rightarrow> string option \<Rightarrow> draft_scope \<Rightarrow> memory_context" where
  "context_of timestamp session scope =
     \<lparr>c_timestamp = timestamp, c_project_id = ds_project_id scope, c_project_path = None,
      c_team_id = ds_team_id scope, c_tenant_id = ds_tenant_id scope, c_session_id = session,
      c_user_id = ds_user_id scope, c_created_by = None, c_files_involved = [], c_languages = [],
      c_frameworks = [], c_technologies = [], c_git_commit = None, c_git_branch = None,
      c_working_directory = None, c_entities = [], c_additional_metadata = ''null''\<rparr>"

definition snapshot_provenance ::
    "ingest_batch \<Rightarrow> memory_draft_pb \<Rightarrow> batch_times \<Rightarrow> external_snapshot" where
  "snapshot_provenance batch m at =
     \<lparr>xs_source_uri = ibt_source_uri batch,
      xs_snapshot_id = (case ibt_snapshot batch of None \<Rightarrow> [] | Some s \<Rightarrow> si_snapshot_id s),
      xs_schema_hash = (case ibt_snapshot batch of None \<Rightarrow> replicate 32 0 | Some s \<Rightarrow> si_schema_hash s),
      xs_observed_at = bt_observed_at at,
      xs_external_key =
        (case md_external_key m of
           None \<Rightarrow> \<lparr>xk_table_uuid = [], xk_logical_pk = [], xk_mapping_version = 0\<rparr>
         | Some k \<Rightarrow> \<lparr>xk_table_uuid = hex (xkp_table_uuid k), xk_logical_pk = str_bytes (xkp_logical_pk k),
                       xk_mapping_version = xkp_mapping_version k\<rparr>),
      xs_producer_id = ibt_producer_id batch\<rparr>"

definition draft_memory_id :: "ingest_env \<Rightarrow> ingest_batch \<Rightarrow> memory_draft_pb \<Rightarrow> memory_id \<Rightarrow> memory_id" where
  "draft_memory_id env batch m fresh =
     (case md_external_key m of
        None \<Rightarrow> fresh
      | Some k \<Rightarrow> from_external (iv_blake3 env) (ibt_org_id batch) (ibt_source_uri batch) (xkp_table_uuid k)
                    (str_bytes (xkp_logical_pk k)) (xkp_mapping_version k))"

definition draft_rights :: "ingest_env \<Rightarrow> memory_draft_pb \<Rightarrow> source_entry \<Rightarrow> rights option" where
  "draft_rights env m source =
     (case md_rights m of Some r \<Rightarrow> Some (kernel_rights env r) | None \<Rightarrow> se_default_rights source)"

text \<open>
  The memory a draft becomes, once its checks have passed.  \<open>fresh\<close> is the id
  \<open>MemoryId::new_v7\<close> draws.
\<close>

definition drafted_memory ::
    "ingest_env \<Rightarrow> ingest_rules \<Rightarrow> memory_id \<Rightarrow> ingest_batch \<Rightarrow> memory_draft_pb \<Rightarrow> bool \<Rightarrow> source_entry \<Rightarrow>
     batch_times \<Rightarrow> u8 \<Rightarrow> visibility \<Rightarrow> draft_scope \<Rightarrow> instant \<Rightarrow> instant option \<Rightarrow> memory" where
  "drafted_memory env rules fresh batch m snapshot source at mt vis scope valid_from valid_until =
     attach_entities env (ir_extractor_org rules)
       \<lparr>m_id = draft_memory_id env batch m fresh, m_memory_type = mt, m_title = md_title m,
        m_content = md_content m, m_summary = None, m_tags = normalize_tags env (md_tags m),
        m_visibility = vis,
        m_provenance =
          (if snapshot then ExternalSnapshot (snapshot_provenance batch m at)
           else Asserted (ibt_producer_id batch) (Some (se_kind source))),
        m_context = context_of (bt_observed_at at)
          (session_id_of (ibt_source_uri batch) (se_flavor source)) scope,
        m_importance = F01_HALF, m_confidence = F01_BASE, m_effectiveness = None, m_usage_count = 0,
        m_valid_from = valid_from, m_valid_until = valid_until, m_recorded_at = bt_recorded_at at,
        m_invalidated_by = None, m_embedding = None, m_lsn = new_local 0,
        m_rights = draft_rights env m source\<rparr>"

definition validate_memory ::
    "ingest_env \<Rightarrow> ingest_rules \<Rightarrow> instant \<Rightarrow> memory_id \<Rightarrow> ingest_batch \<Rightarrow> memory_draft_pb \<Rightarrow> bool \<Rightarrow>
     source_entry \<Rightarrow> batch_times \<Rightarrow> visibility_context option \<Rightarrow> reject_code + memory" where
  "validate_memory env rules now fresh batch m snapshot source at who =
     and_then (ok_or (hm_get (o_memory_type_by_name (ir_ontology rules)) (md_memory_type m)) UnknownMemoryType) (\<lambda>mt.
     and_then (vis_from_i32 (md_visibility m)) (\<lambda>vis.
     and_then (scope_of rules batch vis who) (\<lambda>scope.
       (case validate_draft (ir_ontology rules)
               \<lparr>d_memory_type = mt, d_title = md_title m, d_content = md_content m, d_summary = None,
                d_visibility = vis, d_context = context_of now None scope, d_edge_hints = [],
                d_external_key = None\<rparr>
               \<lparr>sc_source = ''ingest'', sc_ceiling = se_ceiling source\<rparr> of
          Inl e \<Rightarrow> Inl (kernel_error_to_reject e)
        | Inr _ \<Rightarrow>
          if snapshot \<and> md_external_key m = None then Inl MissingExternalKey
          else if is_some_and (\<lambda>k. length (xkp_table_uuid k) \<noteq> 16) (md_external_key m) then Inl InvalidExternalKey
          else if is_some_and (\<lambda>s. length (si_schema_hash s) \<noteq> 32) (ibt_snapshot batch) then Inl InvalidExternalKey
          else
            and_then (timestamp_or env (md_valid_from m) (bt_recorded_at at)) (\<lambda>valid_from.
            and_then (case md_valid_until m of
                        None \<Rightarrow> Inr None
                      | Some t \<Rightarrow> and_then (checked_timestamp env t) (\<lambda>v. Inr (Some v))) (\<lambda>valid_until.
              if is_some_and (\<lambda>u. u < valid_from) valid_until then Inl RejUnknown
              else if is_some_and (\<lambda>r. is_some_and (\<lambda>u. u < valid_from) (rt_retention_until r))
                        (draft_rights env m source)
              then Inl RejUnknown
              else Inr (drafted_memory env rules fresh batch m snapshot source at mt vis scope
                          valid_from valid_until)))))))"


section \<open>One relationship draft\<close>

record demand_event =
  de_key :: string
  de_org :: string

definition demand_triple_key :: "string \<Rightarrow> string \<Rightarrow> string \<Rightarrow> string" where
  "demand_triple_key kind_name from_label to_label = kind_name @ ''/'' @ from_label @ ''->'' @ to_label"

definition unknown_kind_key :: "string \<Rightarrow> string" where
  "unknown_kind_key kind_name = kind_name @ ''/<unknown>''"

definition type_label :: "ontology \<Rightarrow> u8 \<Rightarrow> string" where
  "type_label onto t =
     (if unat t < length (o_memory_type_names onto) then o_memory_type_names onto ! unat t
      else ''type:'' @ show_nat (unat t))"

definition kind_label :: "ontology \<Rightarrow> rel_kind_id \<Rightarrow> string" where
  "kind_label onto k =
     (case hm_get (o_kinds_by_id onto) k of
        Some meta \<Rightarrow> k_display_name meta
      | None \<Rightarrow> ''kind:'' @ show_nat (unat (kind_code k)))"

definition f32_finite :: "f32 \<Rightarrow> bool" where
  "f32_finite v = (f32_magnitude v < 0x7F800000)"

definition unit_score :: "f32 \<Rightarrow> bool" where
  "unit_score v = (f32_finite v \<and> f32_le f32_zero v \<and> f32_le v f32_one)"

definition target_key :: "relationship_draft_pb \<Rightarrow> reject_code + string" where
  "target_key r =
     (if rd_to_memory_id r = []
      then (if rd_to_draft_key r = [] then Inl RejInvalidTypeTriple else Inr (rd_to_draft_key r))
      else (if rd_to_draft_key r \<noteq> [] then Inl RejInvalidTypeTriple else Inr (rd_to_memory_id r)))"

definition default_strength :: "ontology \<Rightarrow> rel_kind_id \<Rightarrow> f32" where
  "default_strength onto k =
     (case hm_get (o_kinds_by_id onto) k of Some meta \<Rightarrow> k_default_strength meta | None \<Rightarrow> 0x3F4CCCCD)"

definition drafted_relationship ::
    "ingest_env \<Rightarrow> ontology \<Rightarrow> ingest_batch \<Rightarrow> relationship_draft_pb \<Rightarrow> memory \<Rightarrow> memory \<Rightarrow> rel_kind_id \<Rightarrow>
     visibility \<Rightarrow> producer_kind \<Rightarrow> batch_times \<Rightarrow> relationship" where
  "drafted_relationship env onto batch r from_mem to_mem kind vis producer at =
     \<lparr>r_id = derive (iv_blake3 env) (m_id from_mem) kind (m_id to_mem) None, r_kind = kind,
      r_from = m_id from_mem, r_to = m_id to_mem, r_visibility = vis,
      r_provenance =
        (if ibt_snapshot batch \<noteq> None then m_provenance from_mem
         else Asserted (ibt_producer_id batch) (Some producer)),
      r_properties =
        \<lparr>rp_strength = (if f32_eq (rd_strength r) f32_zero then default_strength onto kind else rd_strength r),
         rp_confidence = (if f32_eq (rd_confidence r) f32_zero then default_strength onto kind else rd_confidence r),
         rp_context = None, rp_evidence_count = 1, rp_success_rate = None, rp_validation_count = 0,
         rp_counter_evidence_count = 0, rp_last_validated = bt_recorded_at at\<rparr>,
      r_description = None,
      r_bidirectional = is_some_and k_bidirectional (hm_get (o_kinds_by_id onto) kind),
      r_valid_from = bt_recorded_at at, r_valid_until = None, r_recorded_at = bt_recorded_at at,
      r_invalidated_by = None, r_lsn = new_local 0\<rparr>"

text \<open>The verdict, and the ontology-demand events recorded on the way to it.\<close>

definition validate_relationship ::
    "ingest_env \<Rightarrow> ontology \<Rightarrow> ingest_batch \<Rightarrow> relationship_draft_pb \<Rightarrow> (string, memory) hmap \<Rightarrow> visibility \<Rightarrow>
     producer_kind \<Rightarrow> batch_times \<Rightarrow> demand_event list \<times> (reject_code + relationship)" where
  "validate_relationship env onto batch r draft_ids ceiling producer at =
     (case hm_get draft_ids (rd_from_draft_key r) of
        None \<Rightarrow> ([], Inl RejInvalidTypeTriple)
      | Some from_mem \<Rightarrow>
        (case and_then (target_key r) (\<lambda>k. ok_or (hm_get draft_ids k) RejInvalidTypeTriple) of
           Inl e \<Rightarrow> ([], Inl e)
         | Inr to_mem \<Rightarrow>
           (case kind_id onto (rd_kind r) of
              None \<Rightarrow> ([\<lparr>de_key = unknown_kind_key (rd_kind r), de_org = ibt_org_id batch\<rparr>], Inl RejUnknownKind)
            | Some kind \<Rightarrow>
              if is_some_and k_computed_only (hm_get (o_kinds_by_id onto) kind) then ([], Inl ComputedKindRejected)
              else
                (case vis_from_i32 (rd_visibility r) of
                   Inl e \<Rightarrow> ([], Inl e)
                 | Inr _ \<Rightarrow>
                   (let vis = relationship_visibility (m_visibility from_mem) (m_visibility to_mem) in
                    if \<not> within vis ceiling then ([], Inl RejVisibilityWidening)
                    else
                      (case validate_triple onto (m_memory_type from_mem) kind (m_memory_type to_mem) of
                         Inl e \<Rightarrow>
                           ((case e of
                               InvalidTypeTriple _ _ \<Rightarrow>
                                 [\<lparr>de_key = demand_triple_key (kind_label onto kind) (type_label onto (m_memory_type from_mem))
                                              (type_label onto (m_memory_type to_mem)),
                                   de_org = ibt_org_id batch\<rparr>]
                             | _ \<Rightarrow> []), Inl (kernel_error_to_reject e))
                       | Inr _ \<Rightarrow>
                         if \<not> unit_score (rd_strength r) \<or> \<not> unit_score (rd_confidence r) then ([], Inl RejUnknown)
                         else ([], Inr (drafted_relationship env onto batch r from_mem to_mem kind vis producer at))))))))"

section \<open>What a validated draft satisfies\<close>

lemma vis_from_i32_Inr: "vis_from_i32 v = Inr w \<longleftrightarrow> v = int (vis_rank w)"
  by (cases w) (auto simp: vis_from_i32_def)

lemma is_some_and_iff: "is_some_and p v \<longleftrightarrow> (\<exists>x. v = Some x \<and> p x)"
  by (cases v) (auto simp: is_some_and_def)

lemma ok_or_Inr: "ok_or v e = Inr x \<longleftrightarrow> v = Some x"
  by (cases v) auto

lemma case_err_Inr: "(case r of Inl e \<Rightarrow> Inl (f e) | Inr x \<Rightarrow> g x) = Inr y \<longleftrightarrow> (\<exists>x. r = Inr x \<and> g x = Inr y)"
  by (cases r) auto

lemma guard_Inr: "(if c then Inl e else r) = Inr y \<longleftrightarrow> \<not> c \<and> r = Inr y"
  by auto

text \<open>How a chain of checks can succeed.\<close>

lemmas result_Inr = and_then_Inr ok_or_Inr case_err_Inr guard_Inr

text \<open>What stays of the drafted record when its entities are attached.\<close>

lemma attach_entities_same [simp]:
  "m_id (attach_entities env org m) = m_id m"
  "m_memory_type (attach_entities env org m) = m_memory_type m"
  "m_title (attach_entities env org m) = m_title m"
  "m_content (attach_entities env org m) = m_content m"
  "m_tags (attach_entities env org m) = m_tags m"
  "m_visibility (attach_entities env org m) = m_visibility m"
  "m_provenance (attach_entities env org m) = m_provenance m"
  "m_confidence (attach_entities env org m) = m_confidence m"
  "m_valid_from (attach_entities env org m) = m_valid_from m"
  "m_valid_until (attach_entities env org m) = m_valid_until m"
  "m_rights (attach_entities env org m) = m_rights m"
  "m_embedding (attach_entities env org m) = m_embedding m"
  "c_tenant_id (m_context (attach_entities env org m)) = c_tenant_id (m_context m)"
  "c_user_id (m_context (attach_entities env org m)) = c_user_id (m_context m)"
  "c_project_id (m_context (attach_entities env org m)) = c_project_id (m_context m)"
  "c_team_id (m_context (attach_entities env org m)) = c_team_id (m_context m)"
  by (simp_all add: attach_entities_def Let_def)

text \<open>
  What the service promises of a memory row it accepted for a principal under a source: the row
  stays within the ceiling of its source and of its author, belongs to the author's
  organisation and user, and a project or team row names a project or team of the author.
\<close>

definition row_authorised ::
    "ingest_rules \<Rightarrow> source_entry \<Rightarrow> visibility_context option \<Rightarrow> memory \<Rightarrow> bool" where
  "row_authorised rules source who m \<longleftrightarrow>
     m_visibility m \<le> se_ceiling source \<and>
     m_memory_type m \<in> snd ` set (o_memory_type_by_name (ir_ontology rules)) \<and>
     m_title m \<noteq> [] \<and> chars_count (m_title m) \<le> 200 \<and> m_content m \<noteq> [] \<and>
     (\<forall>u. m_valid_until m = Some u \<longrightarrow> m_valid_from m \<le> u) \<and>
     (\<forall>r u. m_rights m = Some r \<longrightarrow> rt_retention_until r = Some u \<longrightarrow> m_valid_from m \<le> u) \<and>
     (case who of
        None \<Rightarrow> c_tenant_id (m_context m) = None \<and> c_user_id (m_context m) = None
      | Some p \<Rightarrow>
          m_visibility m \<le> vc_max_visibility p \<and>
          c_tenant_id (m_context m) = Some (vc_org_id p) \<and> c_user_id (m_context m) = Some (vc_user_id p) \<and>
          (\<not> ir_allow_personal_scopes rules \<longrightarrow>
             (m_visibility m = Project \<longrightarrow> (\<exists>i\<in>set (vc_project_ids p). c_project_id (m_context m) = Some i)) \<and>
             (m_visibility m = Team \<longrightarrow> (\<exists>i\<in>set (vc_team_ids p). c_team_id (m_context m) = Some i))))"

lemma context_of_sel [simp]:
  "c_tenant_id (context_of t s sc) = ds_tenant_id sc" "c_user_id (context_of t s sc) = ds_user_id sc"
  "c_project_id (context_of t s sc) = ds_project_id sc" "c_team_id (context_of t s sc) = ds_team_id sc"
  "c_additional_metadata (context_of t s sc) = ''null''" "c_session_id (context_of t s sc) = s"
  by (simp_all add: context_of_def)

lemma hm_get_value: "hm_get m k = Some v \<Longrightarrow> v \<in> snd ` set m"
  unfolding hm_get_def by (drule map_of_SomeD) force

lemma validate_memory_authorised:
  assumes "validate_memory env rules now fresh batch m snapshot source at who = Inr row"
  shows "row_authorised rules source who row"
proof -
  from assms obtain mt vis scope vf vu where
      mt: "hm_get (o_memory_type_by_name (ir_ontology rules)) (md_memory_type m) = Some mt"
    and scope: "scope_of rules batch vis who = Inr scope"
    and ok: "validate_draft (ir_ontology rules)
         \<lparr>d_memory_type = mt, d_title = md_title m, d_content = md_content m, d_summary = None,
          d_visibility = vis, d_context = context_of now None scope, d_edge_hints = [], d_external_key = None\<rparr>
         \<lparr>sc_source = ''ingest'', sc_ceiling = se_ceiling source\<rparr> = Inr ()"
    and vu: "\<not> is_some_and (\<lambda>u. u < vf) vu"
    and ret: "\<not> is_some_and (\<lambda>r. is_some_and (\<lambda>u. u < vf) (rt_retention_until r)) (draft_rights env m source)"
    and row: "row = drafted_memory env rules fresh batch m snapshot source at mt vis scope vf vu"
    unfolding validate_memory_def result_Inr by auto
  note ok' = ok [unfolded validate_draft_accepts, simplified]
  show ?thesis
    using mt scope ok' vu ret
    unfolding row_authorised_def row drafted_memory_def
    by (auto simp: is_some_and_iff scope_of_def not_less dest: hm_get_value split: option.splits if_splits)
qed


text \<open>What the service promises of an edge between two memories it knows.\<close>

definition edge_authorised :: "ontology \<Rightarrow> visibility \<Rightarrow> memory \<Rightarrow> memory \<Rightarrow> relationship \<Rightarrow> bool" where
  "edge_authorised onto ceiling f t r \<longleftrightarrow>
     r_from r = m_id f \<and> r_to r = m_id t \<and>
     r_visibility r = min (m_visibility f) (m_visibility t) \<and> r_visibility r \<le> ceiling \<and>
     (\<exists>name. kind_id onto name = Some (r_kind r)) \<and>
     \<not> is_some_and k_computed_only (hm_get (o_kinds_by_id onto) (r_kind r)) \<and>
     (\<exists>ts. hm_get (o_triples_by_kind onto) (r_kind r) = Some ts \<and>
        (\<exists>tr\<in>set ts. permits tr (m_memory_type f) (m_memory_type t)))"

lemma snd_case_option: "snd (case v of None \<Rightarrow> a | Some x \<Rightarrow> f x) = (case v of None \<Rightarrow> snd a | Some x \<Rightarrow> snd (f x))"
  by (cases v) auto

lemma snd_case_sum: "snd (case v of Inl e \<Rightarrow> f e | Inr x \<Rightarrow> g x) = (case v of Inl e \<Rightarrow> snd (f e) | Inr x \<Rightarrow> snd (g x))"
  by (cases v) auto

lemma case_none_Inr: "(case v of None \<Rightarrow> Inl e | Some x \<Rightarrow> g x) = Inr y \<longleftrightarrow> (\<exists>x. v = Some x \<and> g x = Inr y)"
  by (cases v) auto

lemma validate_relationship_Inr:
  assumes "snd (validate_relationship env onto batch r draft_ids ceiling producer at) = Inr rel"
  obtains f t key kind where
    "hm_get draft_ids (rd_from_draft_key r) = Some f" "target_key r = Inr key" "hm_get draft_ids key = Some t"
    "kind_id onto (rd_kind r) = Some kind"
    "\<not> is_some_and k_computed_only (hm_get (o_kinds_by_id onto) kind)"
    "relationship_visibility (m_visibility f) (m_visibility t) \<le> ceiling"
    "validate_triple onto (m_memory_type f) kind (m_memory_type t) = Inr ()"
    "unit_score (rd_strength r)" "unit_score (rd_confidence r)"
    "rel = drafted_relationship env onto batch r f t kind
       (relationship_visibility (m_visibility f) (m_visibility t)) producer at"
  using assms that
  unfolding validate_relationship_def Let_def snd_case_option snd_case_sum if_distrib [of snd] snd_conv
    case_none_Inr result_Inr within_iff
  by auto

lemma drafted_relationship_sel [simp]:
  "r_from (drafted_relationship env onto batch r f t kind vis producer at) = m_id f"
  "r_to (drafted_relationship env onto batch r f t kind vis producer at) = m_id t"
  "r_kind (drafted_relationship env onto batch r f t kind vis producer at) = kind"
  "r_visibility (drafted_relationship env onto batch r f t kind vis producer at) = vis"
  by (simp_all add: drafted_relationship_def)

lemma validate_relationship_authorised:
  assumes "snd (validate_relationship env onto batch r draft_ids ceiling producer at) = Inr rel"
  shows "\<exists>f\<in>set (hm_values draft_ids). \<exists>t\<in>set (hm_values draft_ids). edge_authorised onto ceiling f t rel"
  using assms
proof (rule validate_relationship_Inr)
  fix f t key kind
  assume *: "hm_get draft_ids (rd_from_draft_key r) = Some f" "hm_get draft_ids key = Some t"
    "kind_id onto (rd_kind r) = Some kind"
    "\<not> is_some_and k_computed_only (hm_get (o_kinds_by_id onto) kind)"
    "relationship_visibility (m_visibility f) (m_visibility t) \<le> ceiling"
    "validate_triple onto (m_memory_type f) kind (m_memory_type t) = Inr ()"
    "rel = drafted_relationship env onto batch r f t kind
       (relationship_visibility (m_visibility f) (m_visibility t)) producer at"
  from hm_get_value [OF *(1)] hm_get_value [OF *(2)]
  have "f \<in> set (hm_values draft_ids)" "t \<in> set (hm_values draft_ids)" by (simp_all add: hm_values_def)
  moreover have "edge_authorised onto ceiling f t rel"
    using *(3-7) by (auto simp: edge_authorised_def relationship_visibility_def validate_triple_ok)
  ultimately show ?thesis by blast
qed

lemma normalize_tags_onto_distinct: "distinct out \<Longrightarrow> distinct (normalize_tags_onto env out ts)"
  by (induction env out ts rule: normalize_tags_onto.induct) (auto split: option.splits)

lemma normalize_tags_distinct: "distinct (normalize_tags env ts)"
  by (simp add: normalize_tags_def normalize_tags_onto_distinct)

lemma sort_dedup_sorted: "sorted (sort_dedup xs)"
  by (simp add: sort_dedup_def sorted_remdups_adj)

lemma set_sort_dedup [simp]: "set (sort_dedup xs) = set xs"
  by (simp add: sort_dedup_def)

lemma sorted_remdups_adj_distinct: "sorted (xs :: 'a::linorder list) \<Longrightarrow> distinct (remdups_adj xs)"
  by (induction xs rule: remdups_adj.induct) (auto simp: order.antisym)

lemma sort_dedup_distinct: "distinct (sort_dedup xs)"
  by (simp add: sort_dedup_def sorted_remdups_adj_distinct)

text \<open>
  the resource gate admits exactly the batches within every ceiling: at most 256 memories and 64
  edges, and per memory at most 64 KiB of content, 32 tags, 128 bytes a tag and 2048 bytes of tags.\<close>

theorem resources_exact:
  "validate_batch_resources ms es = Inr () \<longleftrightarrow>
     length ms \<le> 256 \<and> length es \<le> 64 \<and>
     (\<forall>m\<in>set ms. length (md_content m) \<le> 65536 \<and> length (md_tags m) \<le> 32 \<and>
        (\<forall>t\<in>set (md_tags m). length t \<le> 128) \<and> sum_list (map length (md_tags m)) \<le> 2048)"
proof -
  have "validate_each_memory ms = Inr () \<longleftrightarrow> (\<forall>m\<in>set ms. validate_memory_fields (md_content m) (md_tags m) = Inr ())"
    by (induction ms) (auto simp: and_then_def split: sum.splits)
  then show ?thesis
    by (auto simp: validate_batch_resources_def validate_memory_fields_def MAX_MEMORIES_PER_BATCH_def
        MAX_EDGES_PER_BATCH_def MAX_MEMORY_CONTENT_BYTES_def MAX_TAGS_PER_MEMORY_def MAX_TAG_BYTES_def
        MAX_TAG_BYTES_PER_MEMORY_def list_ex_iff not_less split: if_splits)
qed

end
