(* ===== verification/Ingest_Registry.thy ===== *)
theory Ingest_Registry
  imports Ingest_Rules Mem_System
begin

text \<open>
  The state of the ingest server and the registration of sources
  (\<open>exocortex-ingest/src/service.rs\<close>: \<open>IngestServer\<close>, \<open>register_source\<close>,
  \<open>registered_source\<close>, with \<open>exocortex-wire/src/projection.rs\<close>).  The two bounded
  registries are values of the \<open>lru\<close> crate, which is a parameter here: its operations are
  the fields of \<open>lru_api\<close> and what its documentation says of them is \<open>lru_laws\<close>.  The
  server runs over the in-memory store.
\<close>

section \<open>Bounded registries\<close>

record ('k, 'v, 'c) lru_api =
  lru_get :: "'k \<Rightarrow> 'c \<Rightarrow> 'v option \<times> 'c"
  lru_put :: "'k \<Rightarrow> 'v \<Rightarrow> 'c \<Rightarrow> 'c"
  lru_peek :: "'k \<Rightarrow> 'c \<Rightarrow> 'v option"
  lru_entries :: "'c \<Rightarrow> ('k \<times> 'v) list"

text \<open>
  A lookup answers what is held and changes the recency only; an insertion holds the new value
  and may drop other entries, but never changes one.
\<close>

definition lru_laws :: "('k, 'v, 'c) lru_api \<Rightarrow> bool" where
  "lru_laws api \<longleftrightarrow>
     (\<forall>k c. fst (lru_get api k c) = lru_peek api k c) \<and>
     (\<forall>k k' c. lru_peek api k' (snd (lru_get api k c)) = lru_peek api k' c) \<and>
     (\<forall>k v c. lru_peek api k (lru_put api k v c) = Some v) \<and>
     (\<forall>k k' v c. k' \<noteq> k \<longrightarrow> lru_peek api k' (lru_put api k v c) \<in> {None, lru_peek api k' c})"

type_synonym source_key = "string \<times> string \<times> string"

record ('c, 'd) registries =
  rg_sources :: "(source_key, source_entry, 'c) lru_api"
  rg_seen :: "(source_key, ingest_ack, 'd) lru_api"

definition registry_laws :: "('c, 'd) registries \<Rightarrow> bool" where
  "registry_laws rg \<longleftrightarrow> lru_laws (rg_sources rg) \<and> lru_laws (rg_seen rg)"

section \<open>The server\<close>

record admin_source_policy =
  ap_ceiling :: visibility
  ap_kind :: producer_kind
  ap_signing_key :: "byte list"

record embedder =
  eb_model_id :: string
  eb_model_version :: string
  eb_embed_batch :: "string list \<Rightarrow> string + f32 list list"

record recent_embedding =
  re_org :: string
  re_id :: memory_id
  re_memory_type :: u8
  re_title :: string
  re_content_exact :: string
  re_visibility :: visibility
  re_project_id :: "string option"
  re_team_id :: "string option"
  re_user_id :: "string option"
  re_embedding :: embedding

record grouping_rule =
  gr_flavor :: string
  gr_key_of :: "ingest_batch \<Rightarrow> string option"
  gr_node_type :: string
  gr_edge_kind :: string

record ('c, 'd) ingest_server =
  sv_store :: store
  sv_ontology :: ontology
  sv_default_producer_key :: "byte list option"
  sv_org_guard :: "string option"
  sv_sources :: 'c
  sv_sources_file :: "(source_key \<times> source_entry) list option"
  sv_source_registry_error :: "string option"
  sv_seen_batches :: 'd
  sv_embedder :: "embedder option"
  sv_extractor_org :: string
  sv_admin_policies :: "(source_key, admin_source_policy) hmap"
  sv_require_admin_policy :: bool
  sv_require_request_principal :: bool
  sv_allow_personal_scopes :: bool
  sv_recent :: "recent_embedding list"
  sv_similarity_seeding :: bool
  sv_submit_permits :: nat
  sv_grouping_rules :: "grouping_rule list"
  sv_demand :: "demand_event list"
  sv_seen_snapshots :: "(source_key, string list) hmap"

datatype grpc_status =
    Unauthenticated string | PermissionDenied string | InvalidArgument string
  | FailedPrecondition string | InternalStatus string

fun status_message :: "grpc_status \<Rightarrow> string" where
  "status_message (Unauthenticated m) = m"
| "status_message (PermissionDenied m) = m"
| "status_message (InvalidArgument m) = m"
| "status_message (FailedPrecondition m) = m"
| "status_message (InternalStatus m) = m"

definition producer_key ::
    "('c, 'd) ingest_server \<Rightarrow> string \<Rightarrow> string \<Rightarrow> string \<Rightarrow> grpc_status + byte list" where
  "producer_key sv org source producer =
     (case hm_get (sv_admin_policies sv) (org, source, producer) of
        Some policy \<Rightarrow> Inr (ap_signing_key policy)
      | None \<Rightarrow>
        ok_or (sv_default_producer_key sv) (PermissionDenied ''producer has no administrator signing policy''))"

definition producer_auth_key :: "('c, 'd) ingest_server \<Rightarrow> ingest_batch \<Rightarrow> grpc_status + byte list" where
  "producer_auth_key sv b =
     (case ibt_producer b of
        None \<Rightarrow> Inl (Unauthenticated ''no producer'')
      | Some producer \<Rightarrow>
        if pi_hmac_signature producer = [] then Inl (Unauthenticated ''missing hmac'')
        else producer_key sv (ibt_org_id b) (ibt_source_uri b) (ibt_producer_id b))"

definition request_principal ::
    "('c, 'd) ingest_server \<Rightarrow> visibility_context option \<Rightarrow> grpc_status + visibility_context option" where
  "request_principal sv who =
     (if sv_require_request_principal sv \<and> who = None
      then Inl (Unauthenticated ''request has no authenticated principal'') else Inr who)"

section \<open>Projections\<close>

text \<open>The UTF-8 bytes of the dash in the messages.\<close>

definition em_dash :: string where
  "em_dash = bytes_str [0xE2, 0x80, 0x94]"

definition schema_preimage :: "(string \<times> string) list \<Rightarrow> byte list" where
  "schema_preimage columns =
     concat (map (\<lambda>(name, data_type). str_bytes name @ [0] @ str_bytes data_type @ [0]) (sort columns))"

definition schema_hash_hex :: "ingest_env \<Rightarrow> (string \<times> string) list \<Rightarrow> string" where
  "schema_hash_hex env columns = hex (iv_sha256 env (schema_preimage columns))"

definition projection_required :: "string \<Rightarrow> bool" where
  "projection_required flavor = (flavor \<in> {''iceberg'', ''delta'', ''parquet-dir'', ''cdc-postgres''})"

definition incoming_projection :: "ingest_env \<Rightarrow> projection_descriptor_pb \<Rightarrow> stored_projection" where
  "incoming_projection env d =
     (let columns = map (\<lambda>c. (sc_name c, sc_data_type c)) (pd_source_schema d)
      in \<lparr>sp_selector = pd_selector d,
          sp_fields = map (\<lambda>f. (pf_source_field f, pf_memory_type f, pf_kind f)) (pd_fields d),
          sp_columns = columns, sp_schema_hash = schema_hash_hex env columns,
          sp_mapping_version = pd_mapping_version d,
          sp_max_rows_per_window = (case pd_bounds d of None \<Rightarrow> 0 | Some b \<Rightarrow> pb_max_rows_per_window b),
          sp_max_graph_share_percent = (case pd_bounds d of None \<Rightarrow> 0 | Some b \<Rightarrow> pb_max_graph_share_percent b)\<rparr>)"

fun columns_kept :: "(string \<times> string) list \<Rightarrow> (string \<times> string) list \<Rightarrow> grpc_status + unit" where
  "columns_kept [] new = Inr ()"
| "columns_kept ((name, data_type) # previous) new =
     (case find (\<lambda>(new_name, _). new_name = name) new of
        None \<Rightarrow>
          Inl (FailedPrecondition (''mapped-adjacent column `'' @ name
            @ ''` was removed or renamed '' @ em_dash @ '' fail closed until the mapping is re-authored''))
      | Some (_, new_type) \<Rightarrow>
          if new_type \<noteq> data_type
          then Inl (FailedPrecondition (''column `'' @ name @ ''` was retyped ('' @ data_type @ '' -> '' @ new_type
            @ '') '' @ em_dash @ '' fail closed until the mapping is re-authored''))
          else columns_kept previous new)"

fun fields_declared :: "(string \<times> string \<times> string) list \<Rightarrow> (string \<times> string) list \<Rightarrow> grpc_status + unit" where
  "fields_declared [] columns = Inr ()"
| "fields_declared ((source_field, _, _) # fs) columns =
     (if list_ex (\<lambda>(name, _). name = source_field) columns then fields_declared fs columns
      else Inl (FailedPrecondition (''projection maps a field absent from the declared source schema (indistinguishable from a removed or renamed column ''
        @ em_dash @ '' fail closed)'')))"

text \<open>The projection to store, and whether the registration extends the stored schema.\<close>

definition accept_projection ::
    "ingest_env \<Rightarrow> string \<Rightarrow> projection_descriptor_pb option \<Rightarrow> stored_projection option \<Rightarrow>
     grpc_status + (stored_projection option \<times> stored_projection option)" where
  "accept_projection env flavor descriptor existing =
     (if projection_required flavor then
        (case descriptor of
           None \<Rightarrow> Inl (InvalidArgument ''table-shaped source requires a declared projection: selector, field mapping, source schema, bounds (adapter-contract D21-a)'')
         | Some d \<Rightarrow>
           (let incoming = incoming_projection env d in
            and_then (fields_declared (sp_fields incoming) (sp_columns incoming)) (\<lambda>_.
              (case existing of
                 None \<Rightarrow> Inr (Some incoming, None)
               | Some previous \<Rightarrow>
                 if incoming \<noteq> previous then
                   (if sp_mapping_version incoming \<le> sp_mapping_version previous
                    then Inl (FailedPrecondition ''projection change requires a mapping_version bump (D21-a)'')
                    else and_then (columns_kept (sp_columns previous) (sp_columns incoming))
                           (\<lambda>_. Inr (Some incoming, Some incoming)))
                 else Inr (Some incoming, None)))))
      else Inr (None, None))"

section \<open>Registration\<close>

definition effective_ceiling ::
    "bool \<Rightarrow> visibility \<Rightarrow> admin_source_policy option \<Rightarrow> source_entry option \<Rightarrow> grpc_status + visibility" where
  "effective_ceiling require_admin requested admin existing =
     (case admin of
        Some a \<Rightarrow>
          if ap_ceiling a < requested
          then Inl (PermissionDenied ''requested ceiling exceeds the admin-configured value (R-I3)'')
          else Inr (ap_ceiling a)
      | None \<Rightarrow>
          if require_admin then Inl (PermissionDenied ''source has no administrator-provisioned ceiling (R-I3)'')
          else Inr (case existing of None \<Rightarrow> requested | Some entry \<Rightarrow> se_ceiling entry))"

definition effective_kind ::
    "producer_kind \<Rightarrow> admin_source_policy option \<Rightarrow> source_entry option \<Rightarrow> producer_kind" where
  "effective_kind declared admin existing =
     (case admin of
        Some a \<Rightarrow> ap_kind a
      | None \<Rightarrow> (case existing of Some entry \<Rightarrow> se_kind entry | None \<Rightarrow> declared))"

text \<open>The entry a registration stores, and the extended projection to audit.\<close>

definition registered_entry ::
    "ingest_env \<Rightarrow> ('c, 'd) ingest_server \<Rightarrow> register_source_request \<Rightarrow> visibility \<Rightarrow> producer_kind \<Rightarrow>
     admin_source_policy option \<Rightarrow> source_entry option \<Rightarrow>
     grpc_status + (source_entry \<times> stored_projection option)" where
  "registered_entry env sv r requested declared_kind admin existing =
     and_then (effective_ceiling (sv_require_admin_policy sv) requested admin existing) (\<lambda>ceiling.
       if is_some_and (\<lambda>entry. se_flavor entry \<noteq> rr_source_flavor r) existing
       then Inl (FailedPrecondition ''source_flavor differs from the existing registration'')
       else
         and_then (accept_projection env (rr_source_flavor r) (rr_projection r)
                     (case existing of None \<Rightarrow> None | Some entry \<Rightarrow> se_projection entry)) (\<lambda>(projection, extended).
           Inr (\<lparr>se_ceiling = ceiling, se_kind = effective_kind declared_kind admin existing,
                 se_flavor = (case existing of None \<Rightarrow> rr_source_flavor r | Some entry \<Rightarrow> se_flavor entry),
                 se_projection = projection,
                 se_default_rights =
                   (case existing of
                      Some previous \<Rightarrow> se_default_rights previous
                    | None \<Rightarrow> map_option (kernel_rights env) (rr_default_rights r))\<rparr>, extended)))"

definition extension_audit :: "ingest_env \<Rightarrow> store \<Rightarrow> instant \<Rightarrow> source_key \<Rightarrow> stored_projection \<Rightarrow> audit_event" where
  "extension_audit env st now key p =
     (let (org, uri, producer) = key in
      \<lparr>ae_action = ''schema_extended'', ae_actor = producer, ae_org_id = org,
       ae_input_digest = iv_blake3 env (str_bytes
         (uri @ ''|'' @ sp_schema_hash p @ ''|'' @ show_nat (unat (sp_mapping_version p)))),
       ae_output_ids = [], ae_fingerprint = o_fingerprint (s_ontology st), ae_lease_epoch = None,
       ae_recorded_at = now\<rparr>)"

text \<open>The checks that precede the change of the registry.\<close>

definition registration_request ::
    "ingest_env \<Rightarrow> ('c, 'd) ingest_server \<Rightarrow> visibility_context option \<Rightarrow> register_source_request \<Rightarrow>
     grpc_status + (visibility \<times> producer_kind)" where
  "registration_request env sv who0 r =
     and_then (request_principal sv who0) (\<lambda>who.
     and_then (producer_key sv (rr_org_id r) (rr_source_uri r) (rr_producer_id r)) (\<lambda>key.
       if \<not> verify_registration (iv_mac env) (iv_enc_registration env) key r
       then Inl (Unauthenticated ''registration requires a valid producer HMAC (R-I8)'')
       else if is_some_and (\<lambda>guard. rr_org_id r \<noteq> guard) (sv_org_guard sv)
       then Inl (InvalidArgument ''org does not match this node'')
       else if is_some_and (\<lambda>p. vc_org_id p \<noteq> rr_org_id r) who
       then Inl (PermissionDenied ''authenticated principal cannot register another org'')
       else if sv_source_registry_error sv \<noteq> None
       then Inl (FailedPrecondition ''source registry unavailable'')
       else
         (case vis_from_i32 (rr_ceiling r) of
            Inl _ \<Rightarrow> Inl (InvalidArgument ''unknown source ceiling discriminant'')
          | Inr requested \<Rightarrow>
            if is_some_and (\<lambda>p. vc_max_visibility p < requested) who
            then Inl (PermissionDenied ''requested source ceiling exceeds authenticated principal'')
            else
              and_then (ok_or (wire_kind_to_kernel (rr_producer_kind r))
                          (InvalidArgument ''producer_kind must be a declared ProducerKind (D8)'')) (\<lambda>declared.
                if declared = Unspecified
                then Inl (InvalidArgument ''producer_kind UNSPECIFIED is rejected: every producer declares what it is (D8)'')
                else Inr (requested, declared)))))"

text \<open>
  \<open>io_ok\<close> says whether the durable replacement of the registry file succeeds.  The registry
  is replaced only after it did.
\<close>

definition register_source ::
    "ingest_env \<Rightarrow> ('c, 'd) registries \<Rightarrow> instant \<Rightarrow> bool \<Rightarrow> visibility_context option \<Rightarrow>
     register_source_request \<Rightarrow> ('c, 'd) ingest_server \<Rightarrow> (grpc_status + visibility) \<times> ('c, 'd) ingest_server" where
  "register_source env rg now io_ok who r sv =
     (case registration_request env sv who r of
        Inl e \<Rightarrow> (Inl e, sv)
      | Inr (requested, declared) \<Rightarrow>
        (let key = (rr_org_id r, rr_source_uri r, rr_producer_id r);
             (existing, candidate) = lru_get (rg_sources rg) key (sv_sources sv)
         in case registered_entry env sv r requested declared (hm_get (sv_admin_policies sv) key) existing of
              Inl e \<Rightarrow> (Inl e, sv)
            | Inr (entry, extended) \<Rightarrow>
              (let candidate' = lru_put (rg_sources rg) key entry candidate;
                   persisted = (sv_sources_file sv \<noteq> None \<longrightarrow> io_ok)
               in if \<not> persisted then (Inl (InternalStatus ''source registry persistence failed''), sv)
                  else
                    (let sv1 = sv\<lparr>sv_sources := candidate',
                                  sv_sources_file :=
                                    map_option (\<lambda>_. lru_entries (rg_sources rg) candidate') (sv_sources_file sv)\<rparr>
                     in case extended of
                          None \<Rightarrow> (Inr (se_ceiling entry), sv1)
                        | Some p \<Rightarrow>
                          (case append_audit now (extension_audit env (sv_store sv1) now key p) (sv_store sv1) of
                             (Inl _, st) \<Rightarrow> (Inl (InternalStatus ''schema-extension audit append failed''), sv1\<lparr>sv_store := st\<rparr>)
                           | (Inr _, st) \<Rightarrow> (Inr (se_ceiling entry), sv1\<lparr>sv_store := st\<rparr>))))))"


section \<open>The registered source of a batch\<close>

abbreviation source_key_of :: "ingest_batch \<Rightarrow> source_key" where
  "source_key_of b \<equiv> (ibt_org_id b, ibt_source_uri b, ibt_producer_id b)"

definition rewound :: "string list \<Rightarrow> string \<Rightarrow> bool" where
  "rewound history snapshot_id =
     (case last_opt history of None \<Rightarrow> False | Some newest \<Rightarrow> snapshot_id \<noteq> newest \<and> snapshot_id \<in> set history)"

definition projection_verdict ::
    "('c, 'd) ingest_server \<Rightarrow> ingest_batch \<Rightarrow> stored_projection \<Rightarrow> ingest_ack + unit" where
  "projection_verdict sv batch p =
     (let rows = length (ibt_memories batch) in
      if 0 < sp_max_rows_per_window p \<and> sp_max_rows_per_window p < rows
      then Inl (ack_reject_all batch ProjectionBoundExceeded
             (''batch carries '' @ show_nat rows @ '' rows; the declared max_rows_per_window is ''
              @ show_nat (sp_max_rows_per_window p)))
      else
        (case ibt_snapshot batch of
           None \<Rightarrow> Inr ()
         | Some s \<Rightarrow>
           if map ascii_lower (hex (si_schema_hash s)) \<noteq> map ascii_lower (sp_schema_hash p)
           then Inl (ack_reject_all batch SchemaDrift
                  (''snapshot schema_hash differs from the registered mapping '' @ em_dash
                   @ '' re-register the projection deliberately with a bumped mapping_version''))
           else
             (case hm_get (sv_seen_snapshots sv) (source_key_of batch) of
                None \<Rightarrow> Inr ()
              | Some history \<Rightarrow>
                if rewound history (si_snapshot_id s)
                then Inl (ack_reject_all batch SourceRewound
                       (''snapshot '' @ si_snapshot_id s @ '' was already superseded by '' @ last history @ '' ''
                        @ em_dash @ '' the source was rewound and needs an operator''))
                else Inr ())))"

definition source_verdict ::
    "('c, 'd) ingest_server \<Rightarrow> ingest_batch \<Rightarrow> source_entry option \<Rightarrow> ingest_ack + source_entry" where
  "source_verdict sv batch found =
     and_then (ok_or found (ack_reject_all batch UnknownSource ''producer not registered'')) (\<lambda>source.
       (case vis_from_i32 (ibt_ceiling batch) of
          Inl _ \<Rightarrow> Inl (ack_reject_all batch UnknownSource ''unknown source ceiling discriminant'')
        | Inr requested \<Rightarrow>
          if requested \<noteq> se_ceiling source
          then Inl (ack_reject_all batch UnknownSource ''ceiling mismatch (R-I3)'')
          else if is_some_and (\<lambda>s. si_source_flavor s \<noteq> se_flavor source) (ibt_snapshot batch)
          then Inl (ack_reject_all batch UnknownSource ''snapshot source_flavor differs from the registered source'')
          else
            (case se_projection source of
               None \<Rightarrow> Inr source
             | Some p \<Rightarrow> and_then (projection_verdict sv batch p) (\<lambda>_. Inr source))))"

definition registered_source ::
    "('c, 'd) registries \<Rightarrow> ingest_batch \<Rightarrow> ('c, 'd) ingest_server \<Rightarrow>
     (ingest_ack + source_entry) \<times> ('c, 'd) ingest_server" where
  "registered_source rg batch sv =
     (if sv_source_registry_error sv \<noteq> None
      then (Inl (ack_reject_all batch UnknownSource ''source registry unavailable''), sv)
      else
        (let (found, sources) = lru_get (rg_sources rg) (source_key_of batch) (sv_sources sv)
         in (source_verdict sv batch found, sv\<lparr>sv_sources := sources\<rparr>)))"

section \<open>Lemmas on registration\<close>

lemma columns_kept_Inr:
  "columns_kept old new = Inr () \<Longrightarrow> (name, ty) \<in> set old \<Longrightarrow>
     find (\<lambda>(n, _). n = name) new = Some (name, ty)"
proof (induction old new rule: columns_kept.induct)
  case (2 n t previous new)
  then obtain m u where f: "find (\<lambda>(new_name, _). new_name = n) new = Some (m, u)" and "u = t"
      and rest: "columns_kept previous new = Inr ()"
    by (auto split: option.splits if_splits)
  moreover have "m = n" using f by (auto simp: find_Some_iff)
  ultimately show ?case using 2 by (cases "(name, ty) = (n, t)") auto
qed simp

lemma accept_projection_Inr:
  assumes "accept_projection env flavor descriptor (Some p) = Inr (q, ext)" "projection_required flavor"
  shows "\<exists>n. q = Some n \<and> (n = p \<and> ext = None \<or> ext = Some n \<and> sp_mapping_version p < sp_mapping_version n \<and>
    (\<forall>(name, ty)\<in>set (sp_columns p). find (\<lambda>(c, _). c = name) (sp_columns n) = Some (name, ty)))"
  using assms
  by (auto simp: accept_projection_def Let_def result_Inr not_le columns_kept_Inr split: option.splits if_splits)

lemma registration_request_Inr:
  assumes "registration_request env sv who r = Inr (requested, declared)"
  shows "rr_ceiling r = int (vis_rank requested)" "declared \<noteq> Unspecified"
    "\<forall>p. who = Some p \<longrightarrow> vc_org_id p = rr_org_id r \<and> requested \<le> vc_max_visibility p"
    "\<exists>key. producer_key sv (rr_org_id r) (rr_source_uri r) (rr_producer_id r) = Inr key \<and>
       verify_registration (iv_mac env) (iv_enc_registration env) key r"
    "wire_kind_to_kernel (rr_producer_kind r) = Some declared"
proof -
  obtain key where key: "producer_key sv (rr_org_id r) (rr_source_uri r) (rr_producer_id r) = Inr key"
      "verify_registration (iv_mac env) (iv_enc_registration env) key r"
    and rest: "vis_from_i32 (rr_ceiling r) = Inr requested" "declared \<noteq> Unspecified"
      "wire_kind_to_kernel (rr_producer_kind r) = Some declared"
      "\<not> is_some_and (\<lambda>p. vc_org_id p \<noteq> rr_org_id r) who"
      "\<not> is_some_and (\<lambda>p. vc_max_visibility p < requested) who"
    using assms unfolding registration_request_def result_Inr request_principal_def
    by (auto split: if_splits)
  then show "rr_ceiling r = int (vis_rank requested)" "declared \<noteq> Unspecified"
    "\<forall>p. who = Some p \<longrightarrow> vc_org_id p = rr_org_id r \<and> requested \<le> vc_max_visibility p"
    "\<exists>key. producer_key sv (rr_org_id r) (rr_source_uri r) (rr_producer_id r) = Inr key \<and>
       verify_registration (iv_mac env) (iv_enc_registration env) key r"
    "wire_kind_to_kernel (rr_producer_kind r) = Some declared"
    by (auto simp: vis_from_i32_Inr is_some_and_iff not_less)
qed


lemma register_source_Inr:
  assumes "register_source env rg now io_ok who r sv = (Inr c, sv')"
    and "key = (rr_org_id r, rr_source_uri r, rr_producer_id r)"
  obtains requested declared entry ext where
    "registration_request env sv who r = Inr (requested, declared)"
    "registered_entry env sv r requested declared (hm_get (sv_admin_policies sv) key)
       (fst (lru_get (rg_sources rg) key (sv_sources sv))) = Inr (entry, ext)"
    "c = se_ceiling entry"
    "sv_sources sv' = lru_put (rg_sources rg) key entry (snd (lru_get (rg_sources rg) key (sv_sources sv)))"
    "sv_store sv' = (case ext of None \<Rightarrow> sv_store sv
       | Some p \<Rightarrow> snd (append_audit now (extension_audit env (sv_store sv) now key p) (sv_store sv)))"
proof -
  from assms(1) obtain requested declared where
    req: "registration_request env sv who r = Inr (requested, declared)"
    by (auto simp: register_source_def split: sum.splits prod.splits)
  obtain ex cand where g: "lru_get (rg_sources rg) key (sv_sources sv) = (ex, cand)" by (cases "lru_get (rg_sources rg) key (sv_sources sv)")
  from assms req g obtain entry ext where
    ent: "registered_entry env sv r requested declared (hm_get (sv_admin_policies sv) key) ex = Inr (entry, ext)"
    by (auto simp: register_source_def Let_def split: sum.splits prod.splits)
  show thesis
    using assms req g ent
    by (intro that [OF req, of entry ext])
      (auto simp: register_source_def Let_def append_audit_def next_lsn_def split: option.splits if_splits)
qed

lemma registered_entry_Inr:
  assumes "registered_entry env sv r requested declared admin existing = Inr (entry, ext)"
  shows "effective_ceiling (sv_require_admin_policy sv) requested admin existing = Inr (se_ceiling entry)"
    "se_kind entry = effective_kind declared admin existing"
    "se_flavor entry = rr_source_flavor r" "\<forall>old. existing = Some old \<longrightarrow> se_flavor old = rr_source_flavor r"
    "accept_projection env (rr_source_flavor r) (rr_projection r)
       (case existing of None \<Rightarrow> None | Some old \<Rightarrow> se_projection old) = Inr (se_projection entry, ext)"
    "\<forall>old. existing = Some old \<longrightarrow> se_default_rights entry = se_default_rights old"
  using assms by (auto simp: registered_entry_def result_Inr is_some_and_iff split: option.splits prod.splits)

lemma effective_ceiling_Inr:
  assumes "effective_ceiling require_admin requested admin existing = Inr c"
  shows "\<forall>a. admin = Some a \<longrightarrow> requested \<le> ap_ceiling a \<and> c = ap_ceiling a"
    "admin = None \<Longrightarrow> \<not> require_admin \<and> c = (case existing of None \<Rightarrow> requested | Some old \<Rightarrow> se_ceiling old)"
  using assms by (auto simp: effective_ceiling_def not_less split: option.splits if_splits)

lemma lru_lawsD:
  assumes "lru_laws api"
  shows "fst (lru_get api k c) = lru_peek api k c"
    "lru_peek api k' (snd (lru_get api k c)) = lru_peek api k' c"
    "lru_peek api k (lru_put api k v c) = Some v"
    "k' \<noteq> k \<Longrightarrow> lru_peek api k' (lru_put api k v c) \<in> {None, lru_peek api k' c}"
  using assms unfolding lru_laws_def by blast+

text \<open>
  What a registration may store under a key, given the administrator's policy and what was
  stored before.
\<close>

definition entry_follows ::
    "admin_source_policy option \<Rightarrow> source_entry option \<Rightarrow> register_source_request \<Rightarrow> visibility_context option \<Rightarrow>
     source_entry \<Rightarrow> bool" where
  "entry_follows admin old r who entry \<longleftrightarrow>
     (case admin of
        Some a \<Rightarrow> se_ceiling entry = ap_ceiling a \<and> se_kind entry = ap_kind a
      | None \<Rightarrow>
        (case old of
           Some o' \<Rightarrow> se_ceiling entry = se_ceiling o' \<and> se_kind entry = se_kind o'
         | None \<Rightarrow> rr_ceiling r = int (vis_rank (se_ceiling entry)) \<and>
             wire_kind_to_kernel (rr_producer_kind r) = Some (se_kind entry) \<and>
             (\<forall>p. who = Some p \<longrightarrow> se_ceiling entry \<le> vc_max_visibility p))) \<and>
     (\<forall>o'. old = Some o' \<longrightarrow>
        se_flavor entry = se_flavor o' \<and> se_default_rights entry = se_default_rights o' \<and>
        (\<forall>p. se_projection o' = Some p \<longrightarrow> projection_required (se_flavor o') \<longrightarrow>
           (\<exists>n. se_projection entry = Some n \<and>
              (n = p \<or> sp_mapping_version p < sp_mapping_version n \<and>
                (\<forall>(name, ty)\<in>set (sp_columns p).
                   find (\<lambda>(c, _). c = name) (sp_columns n) = Some (name, ty))))))"

lemma registered_entry_follows:
  assumes req: "registration_request env sv who r = Inr (requested, declared)"
    and ent: "registered_entry env sv r requested declared admin old = Inr (entry, ext)"
  shows "entry_follows admin old r who entry"
proof -
  note e = registered_entry_Inr [OF ent]
  note q = registration_request_Inr [OF req]
  have "\<exists>n. se_projection entry = Some n \<and> (n = p \<or> sp_mapping_version p < sp_mapping_version n \<and>
      (\<forall>(name, ty)\<in>set (sp_columns p). find (\<lambda>(c, _). c = name) (sp_columns n) = Some (name, ty)))"
    if "old = Some o'" "se_projection o' = Some p" "projection_required (se_flavor o')" for o' p
  proof -
    from that e(4,5) have "accept_projection env (rr_source_flavor r) (rr_projection r) (Some p) = Inr (se_projection entry, ext)"
      and "projection_required (rr_source_flavor r)" by auto
    from accept_projection_Inr [OF this] show ?thesis by blast
  qed
  with e(2,3,4,6) q(1,3,5) effective_ceiling_Inr [OF e(1)]
  show ?thesis unfolding entry_follows_def effective_kind_def
    by (auto split: option.splits)
qed


section \<open>Properties\<close>

text \<open>
  C8: Registration follows the administrator and the first registration.  A request that succeeds
  was signed with the key of its producer; what is then stored under its key has the
  administrator's ceiling and kind where a policy exists, otherwise those stored before,
  otherwise the requested ceiling, which does not exceed the principal's.  The flavor and the
  default rights never change, and a stored projection is replaced only by one with a higher
  mapping version that keeps every declared column with its type.  Other sources keep their
  entries or are evicted, and the graph is untouched but for one audit row when the schema was
  extended.  A request that fails changes nothing.\<close>

theorem registration_authority:
  assumes laws: "lru_laws (rg_sources rg)"
    and step: "register_source env rg now io_ok who r sv = (res, sv')"
    and key: "key = (rr_org_id r, rr_source_uri r, rr_producer_id r)"
  shows "case res of
     Inl _ \<Rightarrow> sv' = sv
   | Inr c \<Rightarrow>
       (\<exists>k. producer_key sv (rr_org_id r) (rr_source_uri r) (rr_producer_id r) = Inr k \<and>
          verify_registration (iv_mac env) (iv_enc_registration env) k r) \<and>
       (\<exists>entry. lru_peek (rg_sources rg) key (sv_sources sv') = Some entry \<and> se_ceiling entry = c \<and>
          entry_follows (hm_get (sv_admin_policies sv) key) (lru_peek (rg_sources rg) key (sv_sources sv)) r who entry) \<and>
       (\<forall>other. other \<noteq> key \<longrightarrow>
          lru_peek (rg_sources rg) other (sv_sources sv') \<in> {None, lru_peek (rg_sources rg) other (sv_sources sv)}) \<and>
       (sv_store sv' = sv_store sv \<or>
          (\<exists>p. sv_store sv' = snd (append_audit now (extension_audit env (sv_store sv) now key p) (sv_store sv))))"
proof (cases res)
  case (Inl e)
  with step show ?thesis
    by (auto simp: register_source_def Let_def append_audit_def next_lsn_def
        split: sum.splits prod.splits if_splits option.splits)
next
  case (Inr c)
  from step Inr have "register_source env rg now io_ok who r sv = (Inr c, sv')" by simp
  from this key show ?thesis
  proof (rule register_source_Inr)
    fix requested declared entry ext
    assume req: "registration_request env sv who r = Inr (requested, declared)"
      and ent: "registered_entry env sv r requested declared (hm_get (sv_admin_policies sv) key)
         (fst (lru_get (rg_sources rg) key (sv_sources sv))) = Inr (entry, ext)"
      and c: "c = se_ceiling entry"
      and src: "sv_sources sv' = lru_put (rg_sources rg) key entry (snd (lru_get (rg_sources rg) key (sv_sources sv)))"
      and st: "sv_store sv' = (case ext of None \<Rightarrow> sv_store sv
         | Some p \<Rightarrow> snd (append_audit now (extension_audit env (sv_store sv) now key p) (sv_store sv)))"
    note law = lru_lawsD [OF laws]
    have "entry_follows (hm_get (sv_admin_policies sv) key) (lru_peek (rg_sources rg) key (sv_sources sv)) r who entry"
      using registered_entry_follows [OF req ent] by (simp add: law(1))
    moreover have "lru_peek (rg_sources rg) key (sv_sources sv') = Some entry" by (simp add: src law(3))
    moreover have "\<forall>other. other \<noteq> key \<longrightarrow>
        lru_peek (rg_sources rg) other (sv_sources sv') \<in> {None, lru_peek (rg_sources rg) other (sv_sources sv)}"
      using law(4) [of _ key entry "snd (lru_get (rg_sources rg) key (sv_sources sv))"] law(2) by (simp add: src)
    moreover have "sv_store sv' = sv_store sv \<or>
        (\<exists>p. sv_store sv' = snd (append_audit now (extension_audit env (sv_store sv) now key p) (sv_store sv)))"
      using st by (auto split: option.splits)
    ultimately show ?thesis using Inr c registration_request_Inr(4) [OF req] by auto
  qed
qed

section \<open>A concrete server\<close>

text \<open>An unbounded registry: an association list.\<close>

definition list_lru :: "('k, 'v, ('k \<times> 'v) list) lru_api" where
  "list_lru = \<lparr>lru_get = (\<lambda>k c. (hm_get c k, c)), lru_put = hm_insert, lru_peek = (\<lambda>k c. hm_get c k),
               lru_entries = (\<lambda>c. c)\<rparr>"

lemma list_lru_laws: "lru_laws list_lru"
  by (simp add: lru_laws_def list_lru_def)

definition sample_env :: ingest_env where
  "sample_env =
     \<lparr>iv_blake3 = (\<lambda>b. b), iv_sha256 = (\<lambda>b. b), iv_mac = (\<lambda>k m. [1]), iv_enc_batch = (\<lambda>_. []),
      iv_enc_memory = (\<lambda>_. []), iv_enc_relationship = (\<lambda>_. []), iv_enc_snapshot = (\<lambda>_. []),
      iv_enc_registration = (\<lambda>_. []), iv_from_timestamp = (\<lambda>s n. Some (s * 1000000000 + int n)),
      iv_lowercase = map ascii_lower, iv_captures = (\<lambda>_ _ _. []),
      iv_batch_key_json = (\<lambda>k. ib_org_id k @ ''/'' @ ib_producer_id k @ ''/'' @ ib_batch_id k),
      iv_cosine = (\<lambda>a b. if a = b then f32_one else f32_zero), iv_compat_text = (\<lambda>_. ''incompatible ontology'')\<rparr>"

definition sample_registries ::
    "((source_key \<times> source_entry) list, (source_key \<times> ingest_ack) list) registries" where
  "sample_registries = \<lparr>rg_sources = list_lru, rg_seen = list_lru\<rparr>"

definition sample_server ::
    "store \<Rightarrow> ((source_key \<times> source_entry) list, (source_key \<times> ingest_ack) list) ingest_server" where
  "sample_server st =
     \<lparr>sv_store = st, sv_ontology = s_ontology st, sv_default_producer_key = Some [7], sv_org_guard = None,
      sv_sources = [], sv_sources_file = None, sv_source_registry_error = None, sv_seen_batches = [],
      sv_embedder = None, sv_extractor_org = ''acme'', sv_admin_policies = [], sv_require_admin_policy = False,
      sv_require_request_principal = False, sv_allow_personal_scopes = False, sv_recent = [],
      sv_similarity_seeding = False, sv_submit_permits = 64, sv_grouping_rules = [], sv_demand = [],
      sv_seen_snapshots = []\<rparr>"

definition sample_registration :: register_source_request where
  "sample_registration =
     \<lparr>rr_org_id = ''acme'', rr_source_uri = ''session://s1'', rr_producer_id = ''p'', rr_ceiling = 3,
      rr_source_flavor = ''session'',
      rr_producer = Some \<lparr>pi_node_id = ''n'', pi_agent_id = [], pi_adapter_id = [], pi_hmac_signature = [1],
                          pi_client_metadata = None\<rparr>,
      rr_producer_kind = 1, rr_projection = None, rr_default_rights = None\<rparr>"

abbreviation sample_source_key :: source_key where
  "sample_source_key \<equiv> (''acme'', ''session://s1'', ''p'')"

definition sample_entry :: source_entry where
  "sample_entry = \<lparr>se_ceiling = Org, se_kind = CodingAgent, se_flavor = ''session'', se_projection = None,
                   se_default_rights = None\<rparr>"

lemma sample_registered:
  "register_source sample_env sample_registries 0 True None sample_registration (sample_server st) =
     (Inr Org, (sample_server st)\<lparr>sv_sources := [(sample_source_key, sample_entry)]\<rparr>)"
  by (simp add: register_source_def registration_request_def request_principal_def producer_key_def
      verify_registration_def unsigned_registration_bytes_def vis_from_i32_def wire_kind_to_kernel_def
      registered_entry_def effective_ceiling_def effective_kind_def accept_projection_def projection_required_def
      is_some_and_def sample_env_def sample_registries_def sample_server_def sample_registration_def
      sample_entry_def list_lru_def hm_insert_def)

theorem registration_authority_witness:
  "\<exists>entry. lru_peek (rg_sources sample_registries) sample_source_key
       (sv_sources (snd (register_source sample_env sample_registries 0 True None sample_registration
          (sample_server (new_store sample_ontology))))) = Some entry \<and> se_ceiling entry = Org"
proof -
  have "lru_laws (rg_sources sample_registries)" by (simp add: sample_registries_def list_lru_laws)
  moreover have "sample_source_key =
      (rr_org_id sample_registration, rr_source_uri sample_registration, rr_producer_id sample_registration)"
    by (simp add: sample_registration_def)
  ultimately show ?thesis
    using registration_authority [OF _ sample_registered [of "new_store sample_ontology"]]
    by (auto simp: sample_registered)
qed

end
