(* ===== verification/Ingest_Service.thy ===== *)
theory Ingest_Service
  imports Ingest_Registry
begin

text \<open>
  The submit pipeline (\<open>exocortex-ingest/src/service.rs\<close>, \<open>grouping.rs\<close>): admission,
  replay, validation of a whole batch, embedding, materialisation of grouping nodes, inverses
  and confidence floors, the idempotent commit with its effect, hints and similarity seeding.
  A request is one step on the server; \<open>fresh\<close> gives the random ids of its drafts and
  \<open>clock\<close> the instants of its storage attempts.
\<close>

section \<open>Admission\<close>

definition ontology_matches :: "ingest_env \<Rightarrow> ('c, 'd) ingest_server \<Rightarrow> ingest_batch \<Rightarrow> string + unit" where
  "ontology_matches env sv b =
     (case admit_producer_batch (ibt_ontology_fingerprint b) (sv_ontology sv)
             (recognized_ontology_fingerprints (sv_store sv)) of
        Inl e \<Rightarrow> Inl (iv_compat_text env e)
      | Inr _ \<Rightarrow> Inr ())"

definition batch_checksum :: "ingest_env \<Rightarrow> ingest_batch \<Rightarrow> string" where
  "batch_checksum env = canonical_checksum (iv_blake3 env) (iv_enc_memory env) (iv_enc_relationship env) (iv_enc_snapshot env)"

text \<open>The permit is returned when the request ends; the count is what other requests leave free.\<close>

definition admit_batch :: "ingest_env \<Rightarrow> ('c, 'd) ingest_server \<Rightarrow> ingest_batch \<Rightarrow> ingest_ack + unit" where
  "admit_batch env sv batch =
     (case producer_auth_key sv batch of
        Inl error \<Rightarrow> Inl (ack_reject_all batch Unauthorized (status_message error))
      | Inr key \<Rightarrow>
        (case validate_batch_resources (ibt_memories batch) (ibt_relationships batch) of
           Inl detail \<Rightarrow> Inl (ack_reject_all batch ResourceLimitExceeded detail)
         | Inr _ \<Rightarrow>
           if sv_submit_permits sv = 0
           then Inl (ack_reject_all batch RateLimited ''concurrent ingestion limit reached'')
           else if \<not> verify_signature (iv_mac env) (iv_enc_batch env) key batch
           then Inl (ack_reject_all batch Unauthorized ''hmac verification failed'')
           else if ibt_checksum batch \<noteq> batch_checksum env batch
           then Inl (ack_reject_all batch BadChecksum ''checksum mismatch'')
           else
             (case ontology_matches env sv batch of
                Inl detail \<Rightarrow> Inl (ack_reject_all batch IncompatibleOntology detail)
              | Inr _ \<Rightarrow>
                if is_some_and (\<lambda>guard. ibt_org_id batch \<noteq> guard) (sv_org_guard sv)
                then Inl (ack_reject_all batch UnknownSource ''org does not match this node'')
                else Inr ())))"

definition replay_row :: reject_row where
  "replay_row = \<lparr>rj_draft_key = [], rj_code = DuplicateBatch, rj_detail = ''idempotent replay''\<rparr>"

abbreviation seen_key_of :: "ingest_batch \<Rightarrow> source_key" where
  "seen_key_of b \<equiv> (ibt_org_id b, ibt_producer_id b, ibt_batch_id b)"

definition replay_ack ::
    "('c, 'd) registries \<Rightarrow> ingest_batch \<Rightarrow> ('c, 'd) ingest_server \<Rightarrow> ingest_ack option \<times> ('c, 'd) ingest_server" where
  "replay_ack rg batch sv =
     (let (found, seen) = lru_get (rg_seen rg) (seen_key_of batch) (sv_seen_batches sv)
      in (map_option (\<lambda>ack. ack\<lparr>ak_rejections := [replay_row]\<rparr>) found, sv\<lparr>sv_seen_batches := seen\<rparr>))"

definition remember_ack ::
    "('c, 'd) registries \<Rightarrow> ingest_batch \<Rightarrow> ingest_ack \<Rightarrow> ('c, 'd) ingest_server \<Rightarrow> ('c, 'd) ingest_server" where
  "remember_ack rg batch ack sv =
     sv\<lparr>sv_seen_batches := lru_put (rg_seen rg) (seen_key_of batch) ack (sv_seen_batches sv)\<rparr>"

section \<open>Storage calls\<close>

definition contains_str :: "string \<Rightarrow> string \<Rightarrow> bool" where
  "contains_str p s = list_ex (prefix p) (suffixes s)"

definition transient_error :: "ingest_env \<Rightarrow> storage_error \<Rightarrow> bool" where
  "transient_error env e =
     (case e of Backend message \<Rightarrow> contains_str ''connect'' (iv_lowercase env message) | _ \<Rightarrow> False)"

definition MAX_ATTEMPTS :: nat where
  "MAX_ATTEMPTS = 6"

text \<open>The first argument counts the attempts left; a call learns how many follow it.\<close>

fun storage_retry ::
    "ingest_env \<Rightarrow> nat \<Rightarrow> (nat \<Rightarrow> store \<Rightarrow> 'a outcome) \<Rightarrow> store \<Rightarrow> (grpc_status + 'a) \<times> store" where
  "storage_retry env 0 call st = (Inl (InternalStatus ''internal storage error''), st)"
| "storage_retry env (Suc n) call st =
     (case call n st of
        (Inr v, st') \<Rightarrow> (Inr v, st')
      | (Inl e, st') \<Rightarrow>
          if transient_error env e \<and> 0 < n then storage_retry env n call st'
          else (Inl (InternalStatus ''internal storage error''), st'))"

section \<open>Validation of a batch\<close>

record validated_batch =
  vb_memories :: "memory list"
  vb_relationships :: "relationship list"
  vb_loaded :: "(memory_id, memory) hmap"

definition rules_of :: "('c, 'd) ingest_server \<Rightarrow> ingest_rules" where
  "rules_of sv = \<lparr>ir_ontology = sv_ontology sv, ir_extractor_org = sv_extractor_org sv,
                  ir_allow_personal_scopes = sv_allow_personal_scopes sv\<rparr>"

text \<open>The verdict on every memory draft, in order.\<close>

definition memory_verdicts ::
    "ingest_env \<Rightarrow> ingest_rules \<Rightarrow> instant \<Rightarrow> (nat \<Rightarrow> memory_id) \<Rightarrow> ingest_batch \<Rightarrow> source_entry \<Rightarrow> batch_times \<Rightarrow>
     visibility_context option \<Rightarrow> (memory_draft_pb \<times> (reject_code + memory)) list" where
  "memory_verdicts env rules now fresh batch source at who =
     map (\<lambda>(i, d). (d, validate_memory env rules now (fresh i) batch d (ibt_snapshot batch \<noteq> None) source at who))
       (enumerate 0 (ibt_memories batch))"

fun accepted_of :: "('x \<times> ('e + 'a)) list \<Rightarrow> 'a list" where
  "accepted_of [] = []"
| "accepted_of ((_, Inr a) # vs) = a # accepted_of vs"
| "accepted_of ((_, Inl _) # vs) = accepted_of vs"

fun rejected_of :: "('x \<times> ('e + 'a)) list \<Rightarrow> ('x \<times> 'e) list" where
  "rejected_of [] = []"
| "rejected_of ((_, Inr _) # vs) = rejected_of vs"
| "rejected_of ((x, Inl e) # vs) = (x, e) # rejected_of vs"

fun draft_ids_of :: "(memory_draft_pb \<times> (reject_code + memory)) list \<Rightarrow> (string, memory) hmap \<Rightarrow> (string, memory) hmap" where
  "draft_ids_of [] ids = ids"
| "draft_ids_of ((d, Inr m) # vs) ids = draft_ids_of vs (hm_insert (md_draft_key d) m ids)"
| "draft_ids_of ((d, Inl _) # vs) ids = draft_ids_of vs ids"

definition code_row :: "string \<Rightarrow> reject_code \<Rightarrow> reject_row" where
  "code_row key code = \<lparr>rj_draft_key = key, rj_code = code, rj_detail = reject_debug code\<rparr>"

text \<open>Existing memories named as targets: their edge, the id as written and as parsed.\<close>

definition external_targets :: "ingest_batch \<Rightarrow> (string \<times> string \<times> memory_id) list" where
  "external_targets batch =
     List.map_filter (\<lambda>r.
       if rd_to_memory_id r = [] then None
       else map_option (\<lambda>i. (rd_from_draft_key r, rd_to_memory_id r, i)) (parse_hex (rd_to_memory_id r)))
       (ibt_relationships batch)"

definition malformed_targets :: "ingest_batch \<Rightarrow> reject_row list" where
  "malformed_targets batch =
     List.map_filter (\<lambda>r.
       if rd_to_memory_id r = [] \<or> parse_hex (rd_to_memory_id r) \<noteq> None then None
       else Some \<lparr>rj_draft_key = rd_from_draft_key r @ ''->#'' @ rd_to_memory_id r, rj_code = RejInvalidTypeTriple,
                  rj_detail = ''to_memory_id `'' @ rd_to_memory_id r @ ''` is not a 32-hex memory id''\<rparr>)
       (ibt_relationships batch)"

fun resolve_targets ::
    "visibility_context option \<Rightarrow> (memory_id, memory) hmap \<Rightarrow> (string \<times> string \<times> memory_id) list \<Rightarrow>
     (string, memory) hmap \<Rightarrow> reject_row list \<Rightarrow> (string, memory) hmap \<times> reject_row list" where
  "resolve_targets who loaded [] ids rej = (ids, rej)"
| "resolve_targets who loaded ((from_key, encoded, i) # ts) ids rej =
     (case hm_get loaded i of
        Some target \<Rightarrow>
          if is_some_and (\<lambda>vc. \<not> memory_visible target vc) who
          then resolve_targets who loaded ts ids
                 (rej @ [\<lparr>rj_draft_key = from_key @ ''->#'' @ encoded, rj_code = RejVisibilityWidening,
                         rj_detail = ''to_memory_id `'' @ encoded @ ''` is outside the authenticated membership''\<rparr>])
          else resolve_targets who loaded ts (hm_insert encoded target ids) rej
      | None \<Rightarrow>
          resolve_targets who loaded ts ids
            (rej @ [\<lparr>rj_draft_key = from_key @ ''->#'' @ encoded, rj_code = RejInvalidTypeTriple,
                    rj_detail = ''to_memory_id `'' @ encoded @ ''` does not exist''\<rparr>]))"

definition edge_row_key :: "relationship_draft_pb \<Rightarrow> string" where
  "edge_row_key r =
     (if rd_to_memory_id r = [] then rd_from_draft_key r @ ''->'' @ rd_to_draft_key r
      else rd_from_draft_key r @ ''->#'' @ rd_to_memory_id r)"

definition load_targets ::
    "ingest_env \<Rightarrow> memory_id list \<Rightarrow> store \<Rightarrow> (grpc_status + (memory_id, memory) hmap) \<times> store" where
  "load_targets env ids st =
     (case storage_retry env MAX_ATTEMPTS (\<lambda>_. get_memories ids) st of
        (Inl e, st') \<Rightarrow> (Inl e, st')
      | (Inr ms, st') \<Rightarrow> (Inr (fold (\<lambda>m. hm_insert (m_id m) m) ms []), st'))"

text \<open>The edges, once every memory and every target stands.\<close>

definition validate_edges ::
    "ingest_env \<Rightarrow> ('c, 'd) ingest_server \<Rightarrow> ingest_batch \<Rightarrow> source_entry \<Rightarrow> batch_times \<Rightarrow> (string, memory) hmap \<Rightarrow>
     demand_event list \<times> (relationship_draft_pb \<times> (reject_code + relationship)) list" where
  "validate_edges env sv batch source at ids =
     (let verdicts = map (\<lambda>r. (r, validate_relationship env (sv_ontology sv) batch r ids (se_ceiling source)
                                    (se_kind source) at)) (ibt_relationships batch)
      in (concat (map (\<lambda>(_, v). fst v) verdicts), map (\<lambda>(r, v). (r, snd v)) verdicts))"

definition validate_batch ::
    "ingest_env \<Rightarrow> instant \<Rightarrow> (nat \<Rightarrow> memory_id) \<Rightarrow> ingest_batch \<Rightarrow> source_entry \<Rightarrow> visibility_context option \<Rightarrow>
     ('c, 'd) ingest_server \<Rightarrow> (grpc_status + (ingest_ack + validated_batch)) \<times> ('c, 'd) ingest_server" where
  "validate_batch env now fresh batch source who sv =
     (case batch_times_of env now batch of
        Inl code \<Rightarrow> (Inr (Inl (ack_reject_all batch code ''malformed or out-of-range temporal coordinate'')), sv)
      | Inr at \<Rightarrow>
        (let verdicts = memory_verdicts env (rules_of sv) now fresh batch source at who in
         if rejected_of verdicts \<noteq> []
         then (Inr (Inl (reject_rows batch (map (\<lambda>(d, c). code_row (md_draft_key d) c) (rejected_of verdicts)))), sv)
         else
           (let targets = external_targets batch in
            case load_targets env (sort_dedup (map (\<lambda>(_, _, i). i) targets)) (sv_store sv) of
              (Inl e, st) \<Rightarrow> (Inl e, sv\<lparr>sv_store := st\<rparr>)
            | (Inr loaded, st) \<Rightarrow>
              (let sv1 = sv\<lparr>sv_store := st\<rparr>;
                   (ids, rej) = resolve_targets who loaded targets (draft_ids_of verdicts []) (malformed_targets batch)
               in if rej \<noteq> [] then (Inr (Inl (reject_rows batch rej)), sv1)
                  else
                    (let (events, edges) = validate_edges env sv1 batch source at ids;
                         sv2 = sv1\<lparr>sv_demand := sv_demand sv1 @ events\<rparr>
                     in if rejected_of edges \<noteq> []
                        then (Inr (Inl (reject_rows batch (map (\<lambda>(r, c). code_row (edge_row_key r) c) (rejected_of edges)))), sv2)
                        else (Inr (Inr \<lparr>vb_memories = accepted_of verdicts, vb_relationships = accepted_of edges,
                                        vb_loaded = loaded\<rparr>), sv2))))))"


section \<open>Embedding\<close>

definition embed_texts :: "embedder option \<Rightarrow> string list \<Rightarrow> string + f32 list list" where
  "embed_texts embedder texts =
     (case embedder of
        None \<Rightarrow> Inl ''no embedder configured''
      | Some e \<Rightarrow>
        if texts = [] then Inr []
        else
          (case eb_embed_batch e texts of
             Inl error \<Rightarrow> Inl error
           | Inr vectors \<Rightarrow>
             if length vectors = length texts then Inr vectors
             else Inl (''embedder returned '' @ show_nat (length vectors) @ '' vectors for ''
                       @ show_nat (length texts) @ '' texts'')))"

definition stamp_embeddings :: "embedder option \<Rightarrow> f32 list list \<Rightarrow> memory list \<Rightarrow> memory list" where
  "stamp_embeddings embedder vectors ms =
     (let model = \<lparr>em_name = (case embedder of None \<Rightarrow> [] | Some e \<Rightarrow> eb_model_id e),
                   em_version = (case embedder of None \<Rightarrow> [] | Some e \<Rightarrow> eb_model_version e)\<rparr>
      in map (\<lambda>(m, v). m\<lparr>m_embedding := Some \<lparr>e_model = model, e_vector = v\<rparr>\<rparr>) (zip ms vectors)
         @ drop (length vectors) ms)"

definition embedding_text :: "memory \<Rightarrow> string" where
  "embedding_text m = m_title m @ [char_of (10 :: nat)] @ m_content m"

definition embed_memories :: "embedder option \<Rightarrow> memory list \<Rightarrow> memory list" where
  "embed_memories embedder ms =
     (if ms = [] then ms
      else
        (case embed_texts embedder (map embedding_text ms) of
           Inl _ \<Rightarrow> ms
         | Inr vectors \<Rightarrow> stamp_embeddings embedder vectors ms))"

section \<open>Grouping\<close>

definition session_rule :: grouping_rule where
  "session_rule = \<lparr>gr_flavor = ''session'', gr_key_of = (\<lambda>b. session_uri_id (ibt_source_uri b)),
                   gr_node_type = ''Conversation'', gr_edge_kind = ''InSession''\<rparr>"

definition grouping_key :: "ingest_batch \<Rightarrow> string \<Rightarrow> grouping_rule list \<Rightarrow> (grouping_rule \<times> string) option" where
  "grouping_key batch flavor rules =
     (case find (\<lambda>rule. gr_flavor rule = flavor) rules of
        None \<Rightarrow> None
      | Some rule \<Rightarrow> map_option (\<lambda>key. (rule, key)) (gr_key_of rule batch))"

definition grouping_preimage :: "string \<Rightarrow> string \<Rightarrow> string \<Rightarrow> byte list" where
  "grouping_preimage org flavor key =
     str_bytes ''exocortex-grouping-v1'' @ framed64 (str_bytes org) @ framed64 (str_bytes flavor) @ framed64 (str_bytes key)"

text \<open>\<open>chars().take(n)\<close>: whole code points of a UTF-8 string.\<close>

fun take_chars :: "nat \<Rightarrow> string \<Rightarrow> string" where
  "take_chars n [] = []"
| "take_chars n (c # s) =
     (if starts_char (c # s) then (if n = 0 then [] else c # take_chars (n - 1) s) else c # take_chars n s)"

definition grouping_node :: "ingest_env \<Rightarrow> ontology \<Rightarrow> string \<Rightarrow> grouping_rule \<Rightarrow> string \<Rightarrow> instant \<Rightarrow> memory option" where
  "grouping_node env onto org rule key now =
     map_option (\<lambda>mt.
       \<lparr>m_id = MemoryId (take 16 (iv_blake3 env (grouping_preimage org (gr_flavor rule) key))),
        m_memory_type = mt, m_title = ''Session '' @ take_chars 8 key,
        m_content = ''Backend grouping node ('' @ gr_flavor rule @ '') for '' @ key, m_summary = None, m_tags = [],
        m_visibility = Project, m_provenance = Derived (''grouping:'' @ gr_flavor rule) [],
        m_context = context_of now (Some key)
          \<lparr>ds_tenant_id = None, ds_user_id = None, ds_project_id = None, ds_team_id = None\<rparr>,
        m_importance = F01_HALF, m_confidence = F01_BASE, m_effectiveness = None, m_usage_count = 0,
        m_valid_from = now, m_valid_until = None, m_recorded_at = now, m_invalidated_by = None,
        m_embedding = None, m_lsn = new_local 0, m_rights = None\<rparr>)
       (memory_type_id onto (gr_node_type rule))"

definition grouping_edge ::
    "ingest_env \<Rightarrow> ontology \<Rightarrow> grouping_rule \<Rightarrow> memory \<Rightarrow> memory \<Rightarrow> instant \<Rightarrow> relationship option" where
  "grouping_edge env onto rule member node now =
     map_option (\<lambda>kind.
       \<lparr>r_id = derive (iv_blake3 env) (m_id member) kind (m_id node) None, r_kind = kind,
        r_from = m_id member, r_to = m_id node,
        r_visibility = relationship_visibility (m_visibility member) (m_visibility node),
        r_provenance = Derived (''grouping:'' @ gr_flavor rule) [],
        r_properties =
          \<lparr>rp_strength = default_strength onto kind, rp_confidence = 0x3F4CCCCD, rp_context = None,
           rp_evidence_count = 1, rp_success_rate = None, rp_validation_count = 0,
           rp_counter_evidence_count = 0, rp_last_validated = now\<rparr>,
        r_description = None, r_bidirectional = False, r_valid_from = now, r_valid_until = None,
        r_recorded_at = now, r_invalidated_by = None, r_lsn = new_local 0\<rparr>)
       (kind_id onto (gr_edge_kind rule))"

definition scoped_node :: "memory list \<Rightarrow> memory \<Rightarrow> memory" where
  "scoped_node producers node =
     (case producers of
        [] \<Rightarrow> node
      | scope # _ \<Rightarrow>
        node\<lparr>m_visibility := (case narrowest_visibility (map m_visibility producers) of
                                 None \<Rightarrow> m_visibility scope | Some v \<Rightarrow> v),
             m_context := (m_context node)\<lparr>c_tenant_id := c_tenant_id (m_context scope),
               c_user_id := c_user_id (m_context scope), c_project_id := c_project_id (m_context scope),
               c_team_id := c_team_id (m_context scope)\<rparr>\<rparr>)"

definition materialize_grouping ::
    "ingest_env \<Rightarrow> ('c, 'd) ingest_server \<Rightarrow> instant \<Rightarrow> ingest_batch \<Rightarrow> string \<Rightarrow> memory list \<Rightarrow>
     memory list \<times> relationship list \<times> u32" where
  "materialize_grouping env sv now batch flavor producers =
     (case grouping_key batch flavor (sv_grouping_rules sv) of
        None \<Rightarrow> ([], [], 0)
      | Some (rule, key) \<Rightarrow>
        (case grouping_node env (sv_ontology sv) (ibt_org_id batch) rule key now of
           None \<Rightarrow> ([], [], 0)
         | Some node0 \<Rightarrow>
           (let node = scoped_node producers node0
            in ([node],
                List.map_filter (\<lambda>m. grouping_edge env (sv_ontology sv) rule m node now) producers, 1))))"

fun push_inverses ::
    "(byte list \<Rightarrow> byte list) \<Rightarrow> ontology \<Rightarrow> relationship list \<Rightarrow> relationship_id list \<Rightarrow> relationship list" where
  "push_inverses h onto [] ids = []"
| "push_inverses h onto (r # rs) ids =
     (case materialize_inverse h onto r of
        None \<Rightarrow> push_inverses h onto rs ids
      | Some nv \<Rightarrow>
        if r_id nv \<in> set ids then push_inverses h onto rs ids
        else nv # push_inverses h onto rs (r_id nv # ids))"

definition materialize_inverses :: "(byte list \<Rightarrow> byte list) \<Rightarrow> ontology \<Rightarrow> relationship list \<Rightarrow> relationship list" where
  "materialize_inverses h onto rs = rs @ push_inverses h onto rs (map r_id rs)"

section \<open>Rows of a commit\<close>

record commit_rows =
  cw_memories :: "memory list"
  cw_relationships :: "relationship list"
  cw_producer_memories :: "memory list"
  cw_grouping_nodes_created :: u32
  cw_accepted :: u32

text \<open>\<open>derived_confidence(true, 0, 0)\<close>: the floor of a superseded row.\<close>

definition confidence_floor :: f01 where
  "confidence_floor = F01 0x3DCCCCCD"

definition score_greater :: "f01 \<Rightarrow> f01 \<Rightarrow> bool" where
  "score_greater a b = (f32_le (f01_get b) (f01_get a) \<and> \<not> f32_le (f01_get a) (f01_get b))"

definition lower_confidence :: "memory \<Rightarrow> memory" where
  "lower_confidence m =
     (if score_greater (m_confidence m) confidence_floor then m\<lparr>m_confidence := confidence_floor\<rparr> else m)"

definition supersedes :: "ontology \<Rightarrow> relationship \<Rightarrow> bool" where
  "supersedes onto r =
     is_some_and (\<lambda>k. k_display_name k = ''Replaces'' \<or> k_display_name k = ''Contradicts'')
       (hm_get (o_kinds_by_id onto) (r_kind r))"

definition supersession_targets :: "ontology \<Rightarrow> relationship list \<Rightarrow> memory_id list" where
  "supersession_targets onto rs = remdups (map r_to (filter (supersedes onto) rs))"

definition stale_rows :: "(memory_id, memory) hmap \<Rightarrow> memory list \<Rightarrow> memory_id list \<Rightarrow> memory list" where
  "stale_rows loaded producers targets =
     List.map_filter (\<lambda>t.
       if list_ex (\<lambda>m. m_id m = t) producers then None
       else
         (case hm_get loaded t of
            None \<Rightarrow> None
          | Some stale \<Rightarrow>
            if score_greater (m_confidence stale) confidence_floor
            then Some (stale\<lparr>m_confidence := confidence_floor\<rparr>) else None)) targets"

definition materialize_commit_rows ::
    "ingest_env \<Rightarrow> ('c, 'd) ingest_server \<Rightarrow> instant \<Rightarrow> ingest_batch \<Rightarrow> string \<Rightarrow> validated_batch \<Rightarrow> commit_rows" where
  "materialize_commit_rows env sv now batch flavor v =
     (let targets = supersession_targets (sv_ontology sv) (vb_relationships v);
          producers = map (\<lambda>m. if m_id m \<in> set targets then lower_confidence m else m) (vb_memories v);
          (nodes, edges, created) = materialize_grouping env sv now batch flavor producers
      in \<lparr>cw_memories = producers @ stale_rows (vb_loaded v) producers targets @ nodes,
          cw_relationships = materialize_inverses (iv_blake3 env) (sv_ontology sv) (vb_relationships v @ edges),
          cw_producer_memories = producers, cw_grouping_nodes_created = created,
          cw_accepted = word_of_nat (length (vb_memories v) + length (vb_relationships v))\<rparr>)"


section \<open>The post-ingest effect\<close>

definition region_of :: "ingest_batch \<Rightarrow> memory \<Rightarrow> region_key" where
  "region_of batch m =
     \<lparr>rk_org = ibt_org_id batch,
      rk_project = (case c_project_id (m_context m) of None \<Rightarrow> ''*'' | Some p \<Rightarrow> p),
      rk_memory_type = m_memory_type m\<rparr>"

definition count_memory :: "region_key \<Rightarrow> (region_key, u32 \<times> u32) hmap \<Rightarrow> (region_key, u32 \<times> u32) hmap" where
  "count_memory k regions =
     (let (ms, rs) = (case hm_get regions k of None \<Rightarrow> (0, 0) | Some c \<Rightarrow> c) in hm_insert k (ms + 1, rs) regions)"

definition count_relationship :: "region_key \<Rightarrow> (region_key, u32 \<times> u32) hmap \<Rightarrow> (region_key, u32 \<times> u32) hmap" where
  "count_relationship k regions =
     (let (ms, rs) = (case hm_get regions k of None \<Rightarrow> (0, 0) | Some c \<Rightarrow> c) in hm_insert k (ms, rs + 1) regions)"

definition region_counts :: "ingest_batch \<Rightarrow> commit_rows \<Rightarrow> (region_key, u32 \<times> u32) hmap" where
  "region_counts batch rows =
     (let memory_regions = fold (\<lambda>m. hm_insert (m_id m) (region_of batch m)) (cw_producer_memories rows) [];
          counted = fold (\<lambda>m. count_memory (region_of batch m)) (cw_producer_memories rows) []
      in fold (\<lambda>r regions. (case hm_get memory_regions (r_from r) of None \<Rightarrow> regions | Some k \<Rightarrow> count_relationship k regions))
           (cw_relationships rows) counted)"

definition region_deltas :: "ingest_batch \<Rightarrow> commit_rows \<Rightarrow> ingest_region_delta list" where
  "region_deltas batch rows =
     sort_key (\<lambda>d. (rk_org (rd_region d), rk_project (rd_region d), rk_memory_type (rd_region d)))
       (map (\<lambda>(k, ms, rs). \<lparr>rd_region = k, rd_memories = ms, rd_relationships = rs\<rparr>) (region_counts batch rows))"

definition post_ingest_effect_of :: "ingest_env \<Rightarrow> ingest_batch \<Rightarrow> commit_rows \<Rightarrow> ingest_batch_key \<Rightarrow> post_ingest_effect" where
  "post_ingest_effect_of env batch rows key =
     \<lparr>pe_effect_id = iv_batch_key_json env key,
      pe_session_memory_ids =
        (if prefix ''session://'' (ibt_source_uri batch) then map m_id (cw_producer_memories rows) else []),
      pe_region_deltas = region_deltas batch rows\<rparr>"

section \<open>The commit\<close>

definition batch_key_of :: "ingest_batch \<Rightarrow> ingest_batch_key" where
  "batch_key_of b = \<lparr>ib_org_id = ibt_org_id b, ib_producer_id = ibt_producer_id b, ib_batch_id = ibt_batch_id b\<rparr>"

definition duplicate_ack :: "ingest_batch \<Rightarrow> settled_ingest_batch \<Rightarrow> ingest_ack" where
  "duplicate_ack batch settled =
     \<lparr>ak_batch_id = ibt_batch_id batch, ak_accepted = sb_accepted settled, ak_rejected = sb_rejected settled,
      ak_rejections = [replay_row], ak_assigned_lsn = sb_assigned_lsn settled, ak_similar_to = []\<rparr>"

definition commit_rows_op ::
    "ingest_env \<Rightarrow> (nat \<Rightarrow> instant) \<Rightarrow> ingest_batch \<Rightarrow> commit_rows \<Rightarrow> store \<Rightarrow>
     (grpc_status + (ingest_ack + nat \<times> u32)) \<times> store" where
  "commit_rows_op env clock batch rows st =
     (let key = batch_key_of batch;
          effect = post_ingest_effect_of env batch rows key
      in case storage_retry env MAX_ATTEMPTS
           (\<lambda>n. commit_ingest_batch_with_effect (iv_blake3 env) (clock n) key (cw_memories rows)
                  (cw_relationships rows) (cw_accepted rows) effect) st of
           (Inl e, st') \<Rightarrow> (Inl e, st')
         | (Inr (Committed _ settled), st') \<Rightarrow> (Inr (Inr (sb_assigned_lsn settled, cw_accepted rows)), st')
         | (Inr (Duplicate settled), st') \<Rightarrow> (Inr (Inl (duplicate_ack batch settled)), st'))"

section \<open>Hints and similarity seeding\<close>

definition RECENT_RING_LEN :: nat where "RECENT_RING_LEN = 512"
definition SIMILAR_HINT_THRESHOLD :: f32 where "SIMILAR_HINT_THRESHOLD = 0x3F6B851F"
definition SIMILAR_TO_SEED_THRESHOLD :: f32 where "SIMILAR_TO_SEED_THRESHOLD = 0x3F59999A"

definition f32_lt :: "f32 \<Rightarrow> f32 \<Rightarrow> bool" where
  "f32_lt a b = (\<not> f32_nan a \<and> \<not> f32_nan b \<and> f32_rank a < f32_rank b)"

definition hint_visible :: "recent_embedding \<Rightarrow> memory_context \<Rightarrow> bool" where
  "hint_visible e draft =
     (case re_visibility e of
        Public \<Rightarrow> True
      | Org \<Rightarrow> True
      | Project \<Rightarrow> is_some_and (\<lambda>p. c_project_id draft = Some p) (re_project_id e)
      | Team \<Rightarrow> is_some_and (\<lambda>t. c_team_id draft = Some t) (re_team_id e)
      | Private \<Rightarrow> re_user_id e \<noteq> None \<and> re_user_id e = c_user_id draft)"

definition content_exact :: "ingest_env \<Rightarrow> memory \<Rightarrow> string" where
  "content_exact env m = hex (iv_blake3 env (str_bytes (embedding_text m)))"

definition comparable :: "recent_embedding \<Rightarrow> string \<Rightarrow> embedding \<Rightarrow> bool" where
  "comparable e org emb =
     (re_org e = org \<and> e_model (re_embedding e) = e_model emb
      \<and> length (e_vector (re_embedding e)) = length (e_vector emb))"

fun best_match ::
    "ingest_env \<Rightarrow> string \<Rightarrow> memory_context \<Rightarrow> embedding \<Rightarrow> recent_embedding list \<Rightarrow>
     (f32 \<times> recent_embedding) option \<Rightarrow> (f32 \<times> recent_embedding) option" where
  "best_match env org draft emb [] best = best"
| "best_match env org draft emb (e # ring) best =
     (if \<not> comparable e org emb \<or> \<not> hint_visible e draft then best_match env org draft emb ring best
      else
        (let c = iv_cosine env (e_vector emb) (e_vector (re_embedding e)) in
         if f32_le SIMILAR_HINT_THRESHOLD c \<and> (case best of None \<Rightarrow> True | Some (bc, _) \<Rightarrow> f32_lt bc c)
         then best_match env org draft emb ring (Some (c, e))
         else best_match env org draft emb ring best))"

definition hint_for :: "ingest_env \<Rightarrow> string \<Rightarrow> recent_embedding list \<Rightarrow> string \<times> memory \<Rightarrow> similar_to_hint option" where
  "hint_for env org ring keyed =
     (let (key, m) = keyed in
      case m_embedding m of
        None \<Rightarrow> None
      | Some emb \<Rightarrow>
        map_option (\<lambda>(_, e).
          \<lparr>sh_draft_key = key, sh_existing_memory_id = hex (mid_bytes (re_id e)), sh_existing_title = re_title e,
           sh_suggestion =
             (if re_memory_type e \<noteq> m_memory_type m then ''contradicts''
              else if re_content_exact e = content_exact env m then ''duplicate'' else ''replaces'')\<rparr>)
          (best_match env org (m_context m) emb ring None))"

definition ring_entry :: "ingest_env \<Rightarrow> string \<Rightarrow> memory \<Rightarrow> recent_embedding option" where
  "ring_entry env org m =
     map_option (\<lambda>emb.
       \<lparr>re_org = org, re_id = m_id m, re_memory_type = m_memory_type m, re_title = m_title m,
        re_content_exact = content_exact env m, re_visibility = m_visibility m,
        re_project_id = c_project_id (m_context m), re_team_id = c_team_id (m_context m),
        re_user_id = c_user_id (m_context m), re_embedding = emb\<rparr>) (m_embedding m)"

definition admit_ring :: "recent_embedding list \<Rightarrow> recent_embedding list \<Rightarrow> recent_embedding list" where
  "admit_ring ring new = drop (length (ring @ new) - RECENT_RING_LEN) (ring @ new)"

definition similar_to_hints ::
    "ingest_env \<Rightarrow> string \<Rightarrow> (string \<times> memory) list \<Rightarrow> recent_embedding list \<Rightarrow>
     similar_to_hint list \<times> recent_embedding list" where
  "similar_to_hints env org committed ring =
     (List.map_filter (hint_for env org ring) committed,
      admit_ring ring (List.map_filter (\<lambda>(_, m). ring_entry env org m) committed))"

definition f32_clamp01 :: "f32 \<Rightarrow> f32" where
  "f32_clamp01 c = (if f32_lt c f32_zero then f32_zero else if f32_lt f32_one c then f32_one else c)"

definition seed_edge :: "ingest_env \<Rightarrow> instant \<Rightarrow> rel_kind_id \<Rightarrow> memory \<Rightarrow> recent_embedding \<Rightarrow> f32 \<Rightarrow> relationship" where
  "seed_edge env now kind m e c =
     \<lparr>r_id = derive (iv_blake3 env) (m_id m) kind (re_id e) None, r_kind = kind, r_from = m_id m, r_to = re_id e,
      r_visibility = relationship_visibility (m_visibility m) (re_visibility e),
      r_provenance = Computed SimilarityCosine SIMILAR_TO_SEED_THRESHOLD,
      r_properties =
        \<lparr>rp_strength = f32_clamp01 c, rp_confidence = f32_clamp01 c, rp_context = None, rp_evidence_count = 1,
         rp_success_rate = None, rp_validation_count = 0, rp_counter_evidence_count = 0, rp_last_validated = now\<rparr>,
      r_description = None, r_bidirectional = True, r_valid_from = now, r_valid_until = None,
      r_recorded_at = now, r_invalidated_by = None, r_lsn = new_local 0\<rparr>"

definition seed_edges_of :: "ingest_env \<Rightarrow> instant \<Rightarrow> string \<Rightarrow> rel_kind_id \<Rightarrow> recent_embedding list \<Rightarrow> memory \<Rightarrow> relationship list" where
  "seed_edges_of env now org kind ring m =
     (case m_embedding m of
        None \<Rightarrow> []
      | Some emb \<Rightarrow>
        List.map_filter (\<lambda>e.
          if \<not> comparable e org emb \<or> re_id e = m_id m \<or> re_memory_type e \<noteq> m_memory_type m then None
          else
            (let c = iv_cosine env (e_vector emb) (e_vector (re_embedding e)) in
             if f32_le SIMILAR_TO_SEED_THRESHOLD c \<and> f32_lt c SIMILAR_HINT_THRESHOLD
             then Some (seed_edge env now kind m e c) else None)) ring)"

definition seed_similarity_edges ::
    "ingest_env \<Rightarrow> instant \<Rightarrow> string \<Rightarrow> commit_rows \<Rightarrow> ('c, 'd) ingest_server \<Rightarrow> ('c, 'd) ingest_server" where
  "seed_similarity_edges env now org rows sv =
     (case kind_id (sv_ontology sv) ''SimilarTo'' of
        None \<Rightarrow> sv
      | Some kind \<Rightarrow>
        (let edges = concat (map (seed_edges_of env now org kind (sv_recent sv)) (cw_producer_memories rows))
         in if edges = [] then sv
            else sv\<lparr>sv_store := snd (upsert_batch (iv_blake3 env) now [] edges (sv_store sv))\<rparr>))"

section \<open>Requests\<close>

definition SNAPSHOT_HISTORY :: nat where "SNAPSHOT_HISTORY = 16"

definition push_snapshot :: "string \<Rightarrow> string list \<Rightarrow> string list" where
  "push_snapshot i history =
     (if last_opt history = Some i then history
      else if SNAPSHOT_HISTORY < length (history @ [i]) then tl (history @ [i]) else history @ [i])"

definition remember_snapshot :: "ingest_batch \<Rightarrow> ('c, 'd) ingest_server \<Rightarrow> ('c, 'd) ingest_server" where
  "remember_snapshot batch sv =
     (case ibt_snapshot batch of
        None \<Rightarrow> sv
      | Some s \<Rightarrow>
        sv\<lparr>sv_seen_snapshots :=
          hm_insert (source_key_of batch)
            (push_snapshot (si_snapshot_id s) (hist_of (sv_seen_snapshots sv) (source_key_of batch)))
            (sv_seen_snapshots sv)\<rparr>)"

definition finish_commit ::
    "ingest_env \<Rightarrow> ingest_batch \<Rightarrow> commit_rows \<Rightarrow> nat \<Rightarrow> u32 \<Rightarrow> ('c, 'd) ingest_server \<Rightarrow>
     ingest_ack \<times> ('c, 'd) ingest_server" where
  "finish_commit env batch rows assigned accepted sv =
     (let sv1 = remember_snapshot batch sv;
          keyed = zip (map md_draft_key (ibt_memories batch)) (cw_producer_memories rows);
          (hints, ring) = similar_to_hints env (ibt_org_id batch) keyed (sv_recent sv1)
      in (\<lparr>ak_batch_id = ibt_batch_id batch, ak_accepted = accepted, ak_rejected = 0, ak_rejections = [],
           ak_assigned_lsn = assigned, ak_similar_to = hints\<rparr>, sv1\<lparr>sv_recent := ring\<rparr>))"

definition foreign_org :: "visibility_context option \<Rightarrow> ingest_batch \<Rightarrow> bool" where
  "foreign_org who batch = is_some_and (\<lambda>vc. vc_org_id vc \<noteq> ibt_org_id batch) who"

text \<open>From validated rows to the acknowledgement.\<close>

definition commit_validated ::
    "ingest_env \<Rightarrow> ('c, 'd) registries \<Rightarrow> instant \<Rightarrow> (nat \<Rightarrow> instant) \<Rightarrow> ingest_batch \<Rightarrow> source_entry \<Rightarrow> validated_batch \<Rightarrow>
     ('c, 'd) ingest_server \<Rightarrow> (grpc_status + ingest_ack) \<times> ('c, 'd) ingest_server" where
  "commit_validated env rg now clock batch source v sv =
     (let v' = v\<lparr>vb_memories := embed_memories (sv_embedder sv) (vb_memories v)\<rparr>;
          rows = materialize_commit_rows env sv now batch (se_flavor source) v'
      in case commit_rows_op env clock batch rows (sv_store sv) of
           (Inl e, st) \<Rightarrow> (Inl e, sv\<lparr>sv_store := st\<rparr>)
         | (Inr (Inl ack), st) \<Rightarrow> (Inr ack, remember_ack rg batch ack (sv\<lparr>sv_store := st\<rparr>))
         | (Inr (Inr (assigned, accepted)), st) \<Rightarrow>
           (let sv1 = sv\<lparr>sv_store := st\<rparr>;
                sv2 = (if sv_similarity_seeding sv1 then seed_similarity_edges env now (ibt_org_id batch) rows sv1 else sv1);
                (ack, sv3) = finish_commit env batch rows assigned accepted sv2
            in (Inr ack, remember_ack rg batch ack sv3)))"

definition submit ::
    "ingest_env \<Rightarrow> ('c, 'd) registries \<Rightarrow> instant \<Rightarrow> (nat \<Rightarrow> memory_id) \<Rightarrow> (nat \<Rightarrow> instant) \<Rightarrow> visibility_context option \<Rightarrow>
     ingest_batch \<Rightarrow> ('c, 'd) ingest_server \<Rightarrow> (grpc_status + ingest_ack) \<times> ('c, 'd) ingest_server" where
  "submit env rg now fresh clock who0 batch sv =
     (case request_principal sv who0 of
        Inl e \<Rightarrow> (Inl e, sv)
      | Inr who \<Rightarrow>
        if foreign_org who batch
        then (Inl (PermissionDenied ''authenticated principal cannot write another org''), sv)
        else
          (case admit_batch env sv batch of
             Inl ack \<Rightarrow> (Inr ack, sv)
           | Inr _ \<Rightarrow>
             (case replay_ack rg batch sv of
                (Some replay, sv1) \<Rightarrow> (Inr replay, sv1)
              | (None, sv1) \<Rightarrow>
                (case registered_source rg batch sv1 of
                   (Inl ack, sv2) \<Rightarrow> (Inr ack, sv2)
                 | (Inr source, sv2) \<Rightarrow>
                   (case validate_batch env now fresh batch source who sv2 of
                      (Inl e, sv3) \<Rightarrow> (Inl e, sv3)
                    | (Inr (Inl ack), sv3) \<Rightarrow> (Inr ack, sv3)
                    | (Inr (Inr v), sv3) \<Rightarrow> commit_validated env rg now clock batch source v sv3)))))"

definition preflight_batch ::
    "ingest_env \<Rightarrow> ('c, 'd) registries \<Rightarrow> instant \<Rightarrow> (nat \<Rightarrow> memory_id) \<Rightarrow> visibility_context option \<Rightarrow>
     ingest_batch \<Rightarrow> ('c, 'd) ingest_server \<Rightarrow> (grpc_status + ingest_ack) \<times> ('c, 'd) ingest_server" where
  "preflight_batch env rg now fresh who batch sv =
     (case admit_batch env sv batch of
        Inl ack \<Rightarrow> (Inr ack, sv)
      | Inr _ \<Rightarrow>
        (case registered_source rg batch sv of
           (Inl ack, sv1) \<Rightarrow> (Inr ack, sv1)
         | (Inr source, sv1) \<Rightarrow>
           (case validate_batch env now fresh batch source who sv1 of
              (Inl e, sv2) \<Rightarrow> (Inl e, sv2)
            | (Inr (Inl ack), sv2) \<Rightarrow> (Inr ack, sv2)
            | (Inr (Inr v), sv2) \<Rightarrow>
              (Inr \<lparr>ak_batch_id = ibt_batch_id batch,
                    ak_accepted = word_of_nat (length (vb_memories v) + length (vb_relationships v)),
                    ak_rejected = 0, ak_rejections = [], ak_assigned_lsn = 0, ak_similar_to = []\<rparr>, sv2))))"

definition preflight ::
    "ingest_env \<Rightarrow> ('c, 'd) registries \<Rightarrow> instant \<Rightarrow> (nat \<Rightarrow> memory_id) \<Rightarrow> visibility_context option \<Rightarrow>
     ingest_batch \<Rightarrow> ('c, 'd) ingest_server \<Rightarrow> (grpc_status + ingest_ack) \<times> ('c, 'd) ingest_server" where
  "preflight env rg now fresh who0 batch sv =
     (case request_principal sv who0 of
        Inl e \<Rightarrow> (Inl e, sv)
      | Inr who \<Rightarrow>
        if foreign_org who batch
        then (Inl (PermissionDenied ''authenticated principal cannot preflight another org''), sv)
        else preflight_batch env rg now fresh who batch sv)"


section \<open>What storage calls do\<close>

text \<open>Two stores that differ at most in the failure switches of the test harness.\<close>

definition quiet :: "store \<Rightarrow> store \<Rightarrow> bool" where
  "quiet st st' \<longleftrightarrow>
     (\<exists>b c. st' = st\<lparr>s_fail_next_batch_read := b, s_fail_next_ingest_commit := c\<rparr>)"

lemma quiet_refl [simp]: "quiet st st"
  unfolding quiet_def
  by (intro exI [of _ "s_fail_next_batch_read st"] exI [of _ "s_fail_next_ingest_commit st"]) simp

lemma quiet_trans [trans]: "quiet a b \<Longrightarrow> quiet b c \<Longrightarrow> quiet a c"
  unfolding quiet_def by (elim exE) (hypsubst, simp, blast)

lemma quiet_read [simp]: "quiet st (st\<lparr>s_fail_next_batch_read := b\<rparr>)"
  unfolding quiet_def by (intro exI [of _ b] exI [of _ "s_fail_next_ingest_commit st"]) simp

lemma quiet_commit [simp]: "quiet st (st\<lparr>s_fail_next_ingest_commit := b\<rparr>)"
  unfolding quiet_def by (intro exI [of _ "s_fail_next_batch_read st"] exI [of _ b]) simp

lemma quiet_frame:
  assumes "quiet st st'"
  shows "s_memories st' = s_memories st" "s_rels st' = s_rels st" "s_feed st' = s_feed st"
    "s_lsn st' = s_lsn st" "s_settled_ingest st' = s_settled_ingest st" "s_ontology st' = s_ontology st"
    "s_ingest_effects st' = s_ingest_effects st" "s_recognized st' = s_recognized st"
    "s_audits st' = s_audits st" "memory_history st' i = memory_history st i"
    "relationship_history st' e = relationship_history st e"
  using assms by (auto simp: quiet_def memory_history_def relationship_history_def)

definition current_rows :: "store \<Rightarrow> memory_id list \<Rightarrow> memory list" where
  "current_rows st ids = List.map_filter (\<lambda>i. Option.bind (hm_get (s_memories st) i) last_opt) ids"

lemma retry_get:
  "storage_retry env n (\<lambda>_. get_memories ids) st = (r, st') \<Longrightarrow>
     quiet st st' \<and> (\<forall>ms. r = Inr ms \<longrightarrow> ms = current_rows st ids)"
proof (induction n arbitrary: st)
  case (Suc n)
  show ?case
  proof (cases "s_fail_next_batch_read st")
    case True
    let ?st = "st\<lparr>s_fail_next_batch_read := False\<rparr>"
    have "storage_retry env n (\<lambda>_. get_memories ids) ?st = (r, st') \<or> (\<exists>e. r = Inl e) \<and> st' = ?st"
    proof -
      from True have "get_memories ids st = (Inl (Backend ''sentinel backend credential=secret''), ?st)"
        by (simp add: get_memories_def)
      with Suc.prems show ?thesis by (auto split: if_splits)
    qed
    then show ?thesis
    proof
      assume "storage_retry env n (\<lambda>_. get_memories ids) ?st = (r, st')"
      from Suc.IH [OF this] show ?thesis using quiet_trans [OF quiet_read] by (auto simp: current_rows_def)
    qed auto
  next
    case False
    with Suc.prems show ?thesis by (auto simp: get_memories_def current_rows_def)
  qed
qed auto

lemma load_targets_frame:
  assumes "load_targets env ids st = (r, st')"
  shows "quiet st st'" "\<forall>l. r = Inr l \<longrightarrow> l = fold (\<lambda>m. hm_insert (m_id m) m) (current_rows st ids) []"
  using assms retry_get [of env MAX_ATTEMPTS ids st]
  by (auto simp: load_targets_def split: prod.splits sum.splits)

lemma commit_published_failed: "commit_published h t key ms rs acc eff st = (Inl e, st') \<Longrightarrow> st' = st"
  unfolding commit_published_eq upsert_batch_eq by (auto split: option.splits prod.splits sum.splits)

lemma retry_commit:
  "storage_retry env n (\<lambda>k. commit_ingest_batch_with_effect h (clock k) key ms rs acc eff) st = (r, st') \<Longrightarrow>
     (\<exists>e. r = Inl e) \<and> quiet st st' \<or>
     (\<exists>t out st0. r = Inr out \<and> quiet st st0 \<and> commit_published h t key ms rs acc (Some eff) st0 = (Inr out, st'))"
proof (induction n arbitrary: st)
  case (Suc n)
  let ?call = "\<lambda>k. commit_ingest_batch_with_effect h (clock k) key ms rs acc eff"
  obtain r1 st1 where c: "?call n st = (r1, st1)" by (cases "?call n st")
  show ?case
  proof (cases r1)
    case (Inr out)
    then have ok: "\<not> s_fail_next_ingest_commit st" using c by (auto simp: commit_ingest_batch_with_effect_def)
    with c Inr have "commit_published h (clock n) key ms rs acc (Some eff) st = (Inr out, st1)"
      by (simp add: commit_with_effect_eq)
    with Suc.prems c Inr show ?thesis using quiet_refl by fastforce
  next
    case (Inl e)
    have q: "quiet st st1"
    proof (cases "s_fail_next_ingest_commit st")
      case True
      with c show ?thesis by (auto simp: commit_ingest_batch_with_effect_def)
    next
      case False
      with c Inl commit_published_failed [of h "clock n" key ms rs acc "Some eff" st e st1] show ?thesis
        by (simp add: commit_with_effect_eq)
    qed
    from Suc.prems c Inl have "storage_retry env n ?call st1 = (r, st') \<or> (\<exists>e. r = Inl e) \<and> st' = st1"
      by (auto split: if_splits)
    then show ?thesis
    proof
      assume "storage_retry env n ?call st1 = (r, st')"
      from Suc.IH [OF this] show ?thesis using quiet_trans [OF q] by blast
    qed (use q in auto)
  qed
qed auto


section \<open>What validation establishes\<close>

lemma accepted_all: "rejected_of vs = [] \<Longrightarrow> map snd vs = map Inr (accepted_of vs)"
  by (induction vs rule: accepted_of.induct) auto

lemma accepted_mem: "a \<in> set (accepted_of vs) \<longleftrightarrow> (\<exists>x. (x, Inr a) \<in> set vs)"
  by (induction vs rule: accepted_of.induct) auto

lemma accepted_length: "rejected_of vs = [] \<Longrightarrow> length (accepted_of vs) = length vs"
  by (induction vs rule: accepted_of.induct) auto

lemma hm_values_insert: "set (hm_values (hm_insert k v m)) \<subseteq> insert v (set (hm_values m))"
  by (induction m) (auto simp: hm_values_def hm_insert_def)

lemma draft_ids_values: "set (hm_values (draft_ids_of vs ids)) \<subseteq> set (accepted_of vs) \<union> set (hm_values ids)"
proof (induction vs ids rule: draft_ids_of.induct)
  case (2 d m vs ids)
  then show ?case using hm_values_insert [of "md_draft_key d" m ids] by auto
qed auto

lemma resolve_targets_values:
  "resolve_targets who loaded ts ids rej = (ids', rej') \<Longrightarrow>
     set (hm_values ids') \<subseteq> set (hm_values ids) \<union>
       {m. m \<in> set (hm_values loaded) \<and> (\<forall>vc. who = Some vc \<longrightarrow> memory_visible m vc)}"
proof (induction who loaded ts ids rej rule: resolve_targets.induct)
  case (2 who loaded from_key encoded i ts ids rej)
  show ?case
  proof (cases "hm_get loaded i")
    case None
    with 2 show ?thesis by simp
  next
    case (Some target)
    then have t: "target \<in> set (hm_values loaded)" using hm_get_value [of loaded i target] by (simp add: hm_values_def)
    show ?thesis
    proof (cases "is_some_and (\<lambda>vc. \<not> memory_visible target vc) who")
      case True
      with 2 Some show ?thesis by simp
    next
      case False
      then have vis: "\<forall>vc. who = Some vc \<longrightarrow> memory_visible target vc" by (auto simp: is_some_and_iff)
      from 2 Some False have "set (hm_values ids') \<subseteq> set (hm_values (hm_insert encoded target ids)) \<union>
          {m. m \<in> set (hm_values loaded) \<and> (\<forall>vc. who = Some vc \<longrightarrow> memory_visible m vc)}" by simp
      with t vis hm_values_insert [of encoded target ids] show ?thesis by blast
    qed
  qed
qed simp

text \<open>What a validated batch is: every draft has its row, every row is authorised.\<close>

definition batch_authorised ::
    "ingest_rules \<Rightarrow> source_entry \<Rightarrow> visibility_context option \<Rightarrow> ingest_batch \<Rightarrow> validated_batch \<Rightarrow> bool" where
  "batch_authorised rules source who batch v \<longleftrightarrow>
     length (vb_memories v) = length (ibt_memories batch) \<and>
     length (vb_relationships v) = length (ibt_relationships batch) \<and>
     (\<forall>m\<in>set (vb_memories v). row_authorised rules source who m) \<and>
     (\<forall>r\<in>set (vb_relationships v). \<exists>f t.
        edge_authorised (ir_ontology rules) (se_ceiling source) f t r \<and>
        {f, t} \<subseteq> set (vb_memories v) \<union>
          {m\<in>set (hm_values (vb_loaded v)). \<forall>vc. who = Some vc \<longrightarrow> memory_visible m vc})"

lemma validate_batch_frame:
  assumes "validate_batch env now fresh batch source who sv = (res, sv')"
  shows "\<exists>st d. sv' = sv\<lparr>sv_store := st, sv_demand := d\<rparr> \<and> quiet (sv_store sv) st"
proof -
  let ?Q = "\<lambda>sv'. \<exists>st d. sv' = sv\<lparr>sv_store := st, sv_demand := d\<rparr> \<and> quiet (sv_store sv) st"
  have same: "?Q sv" by (rule exI [of _ "sv_store sv"], rule exI [of _ "sv_demand sv"]) simp
  have stored: "?Q (sv\<lparr>sv_store := st\<rparr>)" if "quiet (sv_store sv) st" for st
    using that by (intro exI [of _ st] exI [of _ "sv_demand sv"]) simp
  let ?ts = "external_targets batch"
  let ?keys = "sort_dedup (map (\<lambda>(_, _, i). i) ?ts)"
  obtain r st where l: "load_targets env ?keys (sv_store sv) = (r, st)" by (cases "load_targets env ?keys (sv_store sv)")
  note q = load_targets_frame(1) [OF l]
  show ?thesis
  proof (cases "batch_times_of env now batch")
    case (Inl code)
    with assms same show ?thesis by (simp add: validate_batch_def)
  next
    case (Inr at)
    let ?vs = "memory_verdicts env (rules_of sv) now fresh batch source at who"
    show ?thesis
    proof (cases "rejected_of ?vs = [] \<and> (\<exists>loaded. r = Inr loaded)")
      case False
      with assms Inr l have "sv' = sv \<or> sv' = sv\<lparr>sv_store := st\<rparr>"
        by (cases r) (auto simp: validate_batch_def Let_def split: if_splits)
      with same stored [OF q] show ?thesis by blast
    next
      case True
      then obtain loaded where r: "r = Inr loaded" by blast
      obtain ids rej where res: "resolve_targets who loaded ?ts (draft_ids_of ?vs []) (malformed_targets batch) = (ids, rej)"
        by (cases "resolve_targets who loaded ?ts (draft_ids_of ?vs []) (malformed_targets batch)")
      obtain ev ed where e: "validate_edges env (sv\<lparr>sv_store := st\<rparr>) batch source at ids = (ev, ed)"
        by (cases "validate_edges env (sv\<lparr>sv_store := st\<rparr>) batch source at ids")
      from assms Inr l True r res e have "sv' = sv\<lparr>sv_store := st\<rparr> \<or> sv' = sv\<lparr>sv_store := st, sv_demand := sv_demand sv @ ev\<rparr>"
        by (auto simp: validate_batch_def Let_def split: if_splits)
      with stored [OF q] q show ?thesis by blast
    qed
  qed
qed

lemma validate_batch_loaded:
  assumes "validate_batch env now fresh batch source who sv = (Inr (Inr v), sv')"
  obtains at ids events edges where
    "batch_times_of env now batch = Inr at"
    "rejected_of (memory_verdicts env (rules_of sv) now fresh batch source at who) = []"
    "vb_memories v = accepted_of (memory_verdicts env (rules_of sv) now fresh batch source at who)"
    "set (hm_values ids) \<subseteq> set (vb_memories v) \<union>
       {m\<in>set (hm_values (vb_loaded v)). \<forall>vc. who = Some vc \<longrightarrow> memory_visible m vc}"
    "edges = map (\<lambda>r. (r, snd (validate_relationship env (sv_ontology sv) batch r ids (se_ceiling source)
                                    (se_kind source) at))) (ibt_relationships batch)"
    "rejected_of edges = []" "vb_relationships v = accepted_of edges"
    "vb_loaded v = fold (\<lambda>m. hm_insert (m_id m) m)
       (current_rows (sv_store sv) (sort_dedup (map (\<lambda>(_, _, i). i) (external_targets batch)))) []"
proof -
  from assms obtain at where at: "batch_times_of env now batch = Inr at"
    by (auto simp: validate_batch_def split: sum.splits)
  let ?vs = "memory_verdicts env (rules_of sv) now fresh batch source at who"
  let ?ts = "external_targets batch"
  let ?keys = "sort_dedup (map (\<lambda>(_, _, i). i) ?ts)"
  from assms at have rej: "rejected_of ?vs = []"
    by (auto simp: validate_batch_def Let_def split: if_splits)
  obtain r st where l: "load_targets env ?keys (sv_store sv) = (r, st)" by (cases "load_targets env ?keys (sv_store sv)")
  from assms at rej l obtain loaded where r: "r = Inr loaded"
    by (auto simp: validate_batch_def Let_def split: sum.splits)
  obtain ids tr where res: "resolve_targets who loaded ?ts (draft_ids_of ?vs []) (malformed_targets batch) = (ids, tr)"
    by (cases "resolve_targets who loaded ?ts (draft_ids_of ?vs []) (malformed_targets batch)")
  define edges where "edges = map (\<lambda>r. (r, snd (validate_relationship env (sv_ontology sv) batch r ids (se_ceiling source)
      (se_kind source) at))) (ibt_relationships batch)"
  have e: "snd (validate_edges env (sv\<lparr>sv_store := st\<rparr>) batch source at ids) = edges"
    by (simp add: validate_edges_def Let_def edges_def)
  from assms at rej l r res have run: "tr = []" "rejected_of edges = []"
    "v = \<lparr>vb_memories = accepted_of ?vs, vb_relationships = accepted_of edges, vb_loaded = loaded\<rparr>"
    unfolding validate_batch_def Let_def e [symmetric]
    by (auto split: if_splits prod.splits)
  have none: "set (hm_values ([] :: (string, memory) hmap)) = {}" by (simp add: hm_values_def)
  from draft_ids_values [of ?vs "[]", unfolded none] resolve_targets_values [OF res]
  have "set (hm_values ids) \<subseteq> set (accepted_of ?vs) \<union>
      {m\<in>set (hm_values loaded). \<forall>vc. who = Some vc \<longrightarrow> memory_visible m vc}"
    by blast
  with at rej run load_targets_frame(2) [OF l] r show thesis
    by (intro that [of at ids edges]) (simp_all add: edges_def)
qed

lemma validate_batch_authorised:
  assumes "validate_batch env now fresh batch source who sv = (Inr (Inr v), sv')"
  shows "batch_authorised (rules_of sv) source who batch v"
  using assms
proof (rule validate_batch_loaded)
  fix at ids events edges
  let ?vs = "memory_verdicts env (rules_of sv) now fresh batch source at who"
  assume vs: "rejected_of ?vs = []" "vb_memories v = accepted_of ?vs"
    and ids: "set (hm_values ids) \<subseteq> set (vb_memories v) \<union>
       {m\<in>set (hm_values (vb_loaded v)). \<forall>vc. who = Some vc \<longrightarrow> memory_visible m vc}"
    and edges: "edges = map (\<lambda>r. (r, snd (validate_relationship env (sv_ontology sv) batch r ids (se_ceiling source)
        (se_kind source) at))) (ibt_relationships batch)"
    and rs: "rejected_of edges = []" "vb_relationships v = accepted_of edges"
  have "length (vb_memories v) = length (ibt_memories batch)"
    using accepted_length [OF vs(1)] by (simp add: vs(2) memory_verdicts_def)
  moreover have "length (vb_relationships v) = length (ibt_relationships batch)"
    using accepted_length [OF rs(1)] by (simp add: rs(2) edges)
  moreover have "\<forall>m\<in>set (vb_memories v). row_authorised (rules_of sv) source who m"
    using validate_memory_authorised by (fastforce simp: vs(2) accepted_mem memory_verdicts_def)
  moreover have "\<exists>f t. edge_authorised (ir_ontology (rules_of sv)) (se_ceiling source) f t r \<and>
      {f, t} \<subseteq> set (vb_memories v) \<union>
          {m\<in>set (hm_values (vb_loaded v)). \<forall>vc. who = Some vc \<longrightarrow> memory_visible m vc}"
    if "r \<in> set (vb_relationships v)" for r
  proof -
    from that obtain d where "snd (validate_relationship env (sv_ontology sv) batch d ids (se_ceiling source)
        (se_kind source) at) = Inr r"
      by (auto simp: rs(2) accepted_mem edges)
    from validate_relationship_authorised [OF this] ids show ?thesis by (fastforce simp: rules_of_def)
  qed
  ultimately show ?thesis by (simp add: batch_authorised_def)
qed

end
