(* ===== verification/Ingest_System.thy ===== *)
theory Ingest_System
  imports Ingest_Service
begin

text \<open>
  The ingest server as a state machine over its store: what one request does, the invariant
  that every request, registration, preflight and backend operation keeps, and the properties
  of whole runs.
\<close>

section \<open>One request\<close>

lemma replay_ack_eq:
  "replay_ack rg batch sv =
     (map_option (\<lambda>ack. ack\<lparr>ak_rejections := [replay_row]\<rparr>)
        (fst (lru_get (rg_seen rg) (seen_key_of batch) (sv_seen_batches sv))),
      sv\<lparr>sv_seen_batches := snd (lru_get (rg_seen rg) (seen_key_of batch) (sv_seen_batches sv))\<rparr>)"
  by (simp add: replay_ack_def case_prod_beta)

lemma registered_source_eq:
  "registered_source rg batch sv =
     (if sv_source_registry_error sv \<noteq> None
      then (Inl (ack_reject_all batch UnknownSource ''source registry unavailable''), sv)
      else
        (source_verdict sv batch (fst (lru_get (rg_sources rg) (source_key_of batch) (sv_sources sv))),
         sv\<lparr>sv_sources := snd (lru_get (rg_sources rg) (source_key_of batch) (sv_sources sv))\<rparr>))"
  by (simp add: registered_source_def case_prod_beta)

text \<open>The server after lookups and validation: recency, demand and the failure switches may differ.\<close>

definition browsed :: "('c, 'd) registries \<Rightarrow> ('c, 'd) ingest_server \<Rightarrow> ('c, 'd) ingest_server \<Rightarrow> bool" where
  "browsed rg sv sv' \<longleftrightarrow>
     (\<exists>st d c s. sv' = sv\<lparr>sv_store := st, sv_demand := d, sv_sources := c, sv_seen_batches := s\<rparr> \<and>
        quiet (sv_store sv) st \<and>
        (lru_laws (rg_sources rg) \<longrightarrow> (\<forall>k. lru_peek (rg_sources rg) k c = lru_peek (rg_sources rg) k (sv_sources sv))) \<and>
        (lru_laws (rg_seen rg) \<longrightarrow> (\<forall>k. lru_peek (rg_seen rg) k s = lru_peek (rg_seen rg) k (sv_seen_batches sv))))"

lemma browsed_refl [simp]: "browsed rg sv sv"
  unfolding browsed_def
  by (intro exI [of _ "sv_store sv"] exI [of _ "sv_demand sv"] exI [of _ "sv_sources sv"]
      exI [of _ "sv_seen_batches sv"]) simp

lemma browsed_trans: "browsed rg a b \<Longrightarrow> browsed rg b c \<Longrightarrow> browsed rg a c"
  unfolding browsed_def by (elim exE conjE) (hypsubst, simp, blast intro: quiet_trans)

lemma browsed_replay: "browsed rg sv (snd (replay_ack rg batch sv))"
  unfolding browsed_def replay_ack_eq
  by (intro exI [of _ "sv_store sv"] exI [of _ "sv_demand sv"] exI [of _ "sv_sources sv"]
      exI [of _ "snd (lru_get (rg_seen rg) (seen_key_of batch) (sv_seen_batches sv))"]) (simp add: lru_lawsD)

lemma browsed_registered: "browsed rg sv (snd (registered_source rg batch sv))"
proof (cases "sv_source_registry_error sv = None")
  case True
  then show ?thesis unfolding browsed_def registered_source_eq
    by (intro exI [of _ "sv_store sv"] exI [of _ "sv_demand sv"] exI [of _ "sv_seen_batches sv"]
        exI [of _ "snd (lru_get (rg_sources rg) (source_key_of batch) (sv_sources sv))"]) (simp add: lru_lawsD)
qed (simp add: registered_source_eq)

lemma browsed_validate:
  assumes "validate_batch env now fresh batch source who sv = (res, sv')"
  shows "browsed rg sv sv'"
proof -
  from validate_batch_frame [OF assms] obtain st d where
    "sv' = sv\<lparr>sv_store := st, sv_demand := d\<rparr>" "quiet (sv_store sv) st" by blast
  then show ?thesis unfolding browsed_def
    by (intro exI [of _ st] exI [of _ d] exI [of _ "sv_sources sv"] exI [of _ "sv_seen_batches sv"]) simp
qed

lemma browsed_frame:
  assumes "browsed rg sv sv'"
  shows "quiet (sv_store sv) (sv_store sv')" "sv_ontology sv' = sv_ontology sv" "rules_of sv' = rules_of sv"
    "sv_recent sv' = sv_recent sv" "sv_seen_snapshots sv' = sv_seen_snapshots sv" "sv_embedder sv' = sv_embedder sv"
    "sv_grouping_rules sv' = sv_grouping_rules sv" "sv_similarity_seeding sv' = sv_similarity_seeding sv"
    "sv_admin_policies sv' = sv_admin_policies sv"
    "lru_laws (rg_sources rg) \<Longrightarrow> lru_peek (rg_sources rg) k (sv_sources sv') = lru_peek (rg_sources rg) k (sv_sources sv)"
    "lru_laws (rg_seen rg) \<Longrightarrow> lru_peek (rg_seen rg) k' (sv_seen_batches sv') = lru_peek (rg_seen rg) k' (sv_seen_batches sv)"
  using assms by (auto simp: browsed_def rules_of_def simp del: split_paired_All)

lemma source_verdict_cong: "sv_seen_snapshots sv' = sv_seen_snapshots sv \<Longrightarrow> source_verdict sv' batch f = source_verdict sv batch f"
proof -
  assume e: "sv_seen_snapshots sv' = sv_seen_snapshots sv"
  have "projection_verdict sv' batch p = projection_verdict sv batch p" for p by (simp only: projection_verdict_def e)
  then show ?thesis by (simp only: source_verdict_def)
qed

lemma request_principal_Inr: "request_principal sv who0 = Inr who \<Longrightarrow> who = who0"
  by (auto simp: request_principal_def split: if_splits)

subsection \<open>Refusals are not replays\<close>

text \<open>
  An answer that takes nothing: no row is accepted or hinted, no row claims a replay, and a batch
  with memories is told at least one reason.\<close>

definition refusal :: "ingest_batch \<Rightarrow> ingest_ack \<Rightarrow> bool" where
  "refusal batch ack \<longleftrightarrow>
     ak_accepted ack = 0 \<and> ak_similar_to ack = [] \<and> (\<forall>row\<in>set (ak_rejections ack). rj_code row \<noteq> DuplicateBatch) \<and>
     (ibt_memories batch \<noteq> [] \<longrightarrow> ak_rejections ack \<noteq> [])"

lemma refusal_not_replay: "refusal batch ack \<Longrightarrow> replay_row \<notin> set (ak_rejections ack)"
  by (auto simp: refusal_def replay_row_def)

lemma reject_all_fresh: "code \<noteq> DuplicateBatch \<Longrightarrow> refusal b (ack_reject_all b code d)"
  by (auto simp: ack_reject_all_def refusal_def)

lemma kernel_reject_fresh [simp]: "kernel_error_to_reject e \<noteq> DuplicateBatch"
  by (cases e) auto

lemma checked_timestamp_fresh: "checked_timestamp env t \<noteq> Inl DuplicateBatch"
  by (auto simp: checked_timestamp_def ok_or_def split: option.splits)

lemma timestamp_or_fresh: "timestamp_or env t d \<noteq> Inl DuplicateBatch"
  by (auto simp: timestamp_or_def checked_timestamp_fresh split: option.splits)

lemma and_then_Inl: "and_then r f = Inl e \<longleftrightarrow> r = Inl e \<or> (\<exists>x. r = Inr x \<and> f x = Inl e)"
  by (cases r) auto

lemma vis_fresh: "vis_from_i32 v \<noteq> Inl DuplicateBatch"
  by (simp add: vis_from_i32_def)

lemma batch_times_fresh: "batch_times_of env now batch \<noteq> Inl DuplicateBatch"
  by (auto simp: batch_times_of_def and_then_Inl timestamp_or_fresh)

lemma scope_fresh: "scope_of rules batch vis who \<noteq> Inl DuplicateBatch"
  by (auto simp: scope_of_def split: option.splits)

lemma validate_memory_fresh: "validate_memory env rules now fresh batch m snapshot source at who \<noteq> Inl DuplicateBatch"
  by (auto simp: validate_memory_def and_then_Inl timestamp_or_fresh checked_timestamp_fresh vis_fresh scope_fresh
      ok_or_def split: option.splits sum.splits if_splits)

lemma target_key_fresh: "target_key r \<noteq> Inl DuplicateBatch"
  by (simp add: target_key_def)

lemma validate_relationship_fresh:
  "snd (validate_relationship env onto batch r ids ceiling producer at) \<noteq> Inl DuplicateBatch"
proof -
  have "and_then (target_key r) (\<lambda>k. ok_or (hm_get ids k) RejInvalidTypeTriple) \<noteq> Inl DuplicateBatch"
    by (auto simp: and_then_Inl target_key_fresh ok_or_def split: option.splits)
  then show ?thesis
    unfolding validate_relationship_def Let_def snd_case_option snd_case_sum if_distrib [of snd] snd_conv
    by (auto simp: vis_fresh split: option.splits sum.splits)
qed

lemma rejected_mem: "(x, e) \<in> set (rejected_of vs) \<longleftrightarrow> (x, Inl e) \<in> set vs"
  by (induction vs rule: rejected_of.induct) auto

lemma code_rows_fresh:
  "(\<And>x c. (x, c) \<in> set vs \<Longrightarrow> c \<noteq> DuplicateBatch) \<Longrightarrow> vs \<noteq> [] \<Longrightarrow>
     refusal batch (reject_rows batch (map (\<lambda>(x, c). code_row (f x) c) vs))"
  by (auto simp: reject_rows_def ack_reject_all_def code_row_def refusal_def)

lemma resolve_targets_fresh:
  "resolve_targets who loaded ts ids rej = (ids', rej') \<Longrightarrow> \<forall>row\<in>set rej. rj_code row \<noteq> DuplicateBatch \<Longrightarrow>
     \<forall>row\<in>set rej'. rj_code row \<noteq> DuplicateBatch"
  by (induction who loaded ts ids rej rule: resolve_targets.induct)
    (auto split: option.splits if_splits)

lemma malformed_fresh: "\<forall>row\<in>set (malformed_targets batch). rj_code row \<noteq> DuplicateBatch"
  by (auto simp: malformed_targets_def map_filter_def)

lemma validate_batch_fresh:
  assumes "validate_batch env now fresh batch source who sv = (Inr (Inl ack), sv')"
  shows "refusal batch ack"
proof (cases "batch_times_of env now batch")
  case (Inl code)
  with assms batch_times_fresh [of env now batch] show ?thesis
    by (auto simp: validate_batch_def reject_all_fresh)
next
  case (Inr at)
  let ?vs = "memory_verdicts env (rules_of sv) now fresh batch source at who"
  let ?ts = "external_targets batch"
  obtain r st where l: "load_targets env (sort_dedup (map (\<lambda>(_, _, i). i) ?ts)) (sv_store sv) = (r, st)"
    by (cases "load_targets env (sort_dedup (map (\<lambda>(_, _, i). i) ?ts)) (sv_store sv)")
  show ?thesis
  proof (cases "rejected_of ?vs = []")
    case False
    with assms Inr have "ack = reject_rows batch (map (\<lambda>(d, c). code_row (md_draft_key d) c) (rejected_of ?vs))"
      by (auto simp: validate_batch_def)
    moreover have "c \<noteq> DuplicateBatch" if "(d, c) \<in> set (rejected_of ?vs)" for d c
      using that by (auto simp: rejected_mem memory_verdicts_def) (metis validate_memory_fresh)
    ultimately show ?thesis using False by (simp add: code_rows_fresh)
  next
    case True
    from assms Inr True l obtain loaded where r: "r = Inr loaded"
      by (cases r) (auto simp: validate_batch_def Let_def)
    obtain ids tr where res: "resolve_targets who loaded ?ts (draft_ids_of ?vs []) (malformed_targets batch) = (ids, tr)"
      by (cases "resolve_targets who loaded ?ts (draft_ids_of ?vs []) (malformed_targets batch)")
    obtain ev ed where e: "validate_edges env (sv\<lparr>sv_store := st\<rparr>) batch source at ids = (ev, ed)"
      by (cases "validate_edges env (sv\<lparr>sv_store := st\<rparr>) batch source at ids")
    from assms Inr True l r res e consider "tr \<noteq> []" "ack = reject_rows batch tr"
      | "rejected_of ed \<noteq> []" "ack = reject_rows batch (map (\<lambda>(r, c). code_row (edge_row_key r) c) (rejected_of ed))"
      by (auto simp: validate_batch_def Let_def split: if_splits)
    then show ?thesis
    proof cases
      case 1
      with resolve_targets_fresh [OF res malformed_fresh] show ?thesis by (simp add: reject_rows_def ack_reject_all_def refusal_def)
    next
      case 2
      moreover have "c \<noteq> DuplicateBatch" if "(d, c) \<in> set (rejected_of ed)" for d c
        using that e by (auto simp: rejected_mem validate_edges_def Let_def) (metis validate_relationship_fresh)
      ultimately show ?thesis by (simp add: code_rows_fresh)
    qed
  qed
qed

lemma admit_batch_fresh: "admit_batch env sv batch = Inl ack \<Longrightarrow> refusal batch ack"
  by (auto simp: admit_batch_def reject_all_fresh split: sum.splits if_splits)

lemma projection_verdict_fresh: "projection_verdict sv batch p = Inl ack \<Longrightarrow> refusal batch ack"
  by (auto simp: projection_verdict_def Let_def reject_all_fresh split: option.splits if_splits)

lemma source_verdict_fresh: "source_verdict sv batch f = Inl ack \<Longrightarrow> refusal batch ack"
  by (auto simp: source_verdict_def and_then_Inl reject_all_fresh projection_verdict_fresh ok_or_def
      split: option.splits sum.splits if_splits)

lemma registered_source_fresh:
  "registered_source rg batch sv = (Inl ack, sv') \<Longrightarrow> refusal batch ack"
  by (auto simp: registered_source_eq reject_all_fresh dest: source_verdict_fresh split: if_splits)

subsection \<open>How a request ends\<close>

lemma submit_cases [consumes 1, case_names refused replayed committing]:
  assumes "submit env rg now fresh clock who batch sv = (res, sv')"
  obtains
    "browsed rg sv sv'" "\<And>ack. res = Inr ack \<Longrightarrow> refusal batch ack"
  | remembered where "browsed rg sv sv'" "admit_batch env sv batch = Inr ()"
      "fst (lru_get (rg_seen rg) (seen_key_of batch) (sv_seen_batches sv)) = Some remembered"
      "res = Inr (remembered\<lparr>ak_rejections := [replay_row]\<rparr>)"
  | source v sv2 sv3 where "browsed rg sv sv2" "browsed rg sv sv3" "\<not> foreign_org who batch" "admit_batch env sv batch = Inr ()"
      "fst (lru_get (rg_seen rg) (seen_key_of batch) (sv_seen_batches sv)) = None"
      "source_verdict sv batch (fst (lru_get (rg_sources rg) (source_key_of batch) (sv_sources sv))) = Inr source"
      "validate_batch env now fresh batch source who sv2 = (Inr (Inr v), sv3)"
      "commit_validated env rg now clock batch source v sv3 = (res, sv')"
proof -
  consider e where "request_principal sv who = Inl e" | "request_principal sv who = Inr who"
    using request_principal_Inr [of sv who] by (cases "request_principal sv who") auto
  then show thesis
  proof cases
    case 1
    with assms show thesis by (intro that(1)) (auto simp: submit_def)
  next
    case 2
    show thesis
    proof (cases "foreign_org who batch \<or> admit_batch env sv batch \<noteq> Inr ()")
      case True
      with assms 2 admit_batch_fresh [of env sv batch] show thesis
        by (intro that(1)) (auto simp: submit_def split: if_splits sum.splits)
    next
      case False
      then have ok: "\<not> foreign_org who batch" "admit_batch env sv batch = Inr ()" by auto
      define sv1 where "sv1 = snd (replay_ack rg batch sv)"
      obtain r2 sv2 where r2: "registered_source rg batch sv1 = (r2, sv2)" by (cases "registered_source rg batch sv1")
      have b1: "browsed rg sv sv1" unfolding sv1_def by (rule browsed_replay)
      have b2: "browsed rg sv sv2" using browsed_trans [OF b1 browsed_registered [of rg sv1 batch]] r2 by simp
      show thesis
      proof (cases "fst (lru_get (rg_seen rg) (seen_key_of batch) (sv_seen_batches sv))")
        case (Some remembered)
        with assms 2 ok b1 show thesis by (intro that(2)) (auto simp: submit_def replay_ack_eq sv1_def)
      next
        case None
        have run: "(res, sv') = (case r2 of Inl ack \<Rightarrow> (Inr ack, sv2)
            | Inr source \<Rightarrow> (case validate_batch env now fresh batch source who sv2 of
                (Inl e, sv3) \<Rightarrow> (Inl e, sv3) | (Inr (Inl ack), sv3) \<Rightarrow> (Inr ack, sv3)
              | (Inr (Inr v), sv3) \<Rightarrow> commit_validated env rg now clock batch source v sv3))"
        proof -
          from None have "replay_ack rg batch sv = (None, sv1)" by (simp add: replay_ack_eq sv1_def)
          with assms 2 ok r2 show ?thesis by (simp add: submit_def split: sum.splits)
        qed
        show thesis
        proof (cases r2)
          case (Inl ack)
          with run b2 registered_source_fresh [of rg batch sv1] r2 show thesis by (intro that(1)) auto
        next
          case (Inr source)
          have sv: "source_verdict sv batch (fst (lru_get (rg_sources rg) (source_key_of batch) (sv_sources sv))) = Inr source"
          proof -
            have "source_verdict sv1 batch f = source_verdict sv batch f" for f
              by (rule source_verdict_cong) (simp add: sv1_def replay_ack_eq)
            moreover have "sv_sources sv1 = sv_sources sv" by (simp add: sv1_def replay_ack_eq)
            ultimately show ?thesis using r2 Inr by (auto simp: registered_source_eq split: if_splits)
          qed
          obtain r3 sv3 where v: "validate_batch env now fresh batch source who sv2 = (r3, sv3)"
            by (cases "validate_batch env now fresh batch source who sv2")
          have b3: "browsed rg sv sv3" using browsed_trans [OF b2 browsed_validate [OF v]] .
          consider e where "r3 = Inl e" | ack where "r3 = Inr (Inl ack)" | v where "r3 = Inr (Inr v)"
            by (metis sumE)
          then show thesis
          proof cases
            case (2 ack)
            with run Inr v b3 validate_batch_fresh [of env now fresh batch source who sv2] show thesis by (intro that(1)) auto
          next
            case (3 vb)
            with run Inr v b2 b3 ok None sv show thesis by (intro that(3) [of sv2 sv3 source vb]) auto
          qed (use run Inr v b3 in \<open>auto intro: that(1)\<close>)
        qed
      qed
    qed
  qed
qed


section \<open>Requests as runs of storage operations\<close>

lemma retry_run:
  assumes "\<And>k st. write_step h digest json st (snd (call k st))"
  shows "(write_step h digest json)\<^sup>*\<^sup>* st (snd (storage_retry env n call st))"
proof (induction n arbitrary: st)
  case (Suc n)
  obtain r st1 where c: "call n st = (r, st1)" by (cases "call n st")
  have one: "write_step h digest json st st1" using assms [of st n] c by simp
  have "snd (storage_retry env (Suc n) call st) \<in> {st1, snd (storage_retry env n call st1)}"
    using c by (cases r) auto
  with one Suc.IH [of st1] show ?case by (auto intro: converse_rtranclp_into_rtranclp)
qed simp

lemma load_targets_run: "(write_step h digest json)\<^sup>*\<^sup>* st (snd (load_targets env ids st))"
proof -
  have "snd (load_targets env ids st) = snd (storage_retry env MAX_ATTEMPTS (\<lambda>_. get_memories ids) st)"
    by (simp add: load_targets_def split: prod.splits sum.splits)
  then show ?thesis using retry_run [of h digest json "\<lambda>_. get_memories ids"] ws_get_memories by metis
qed

lemma validate_batch_run:
  "(write_step h digest json)\<^sup>*\<^sup>* (sv_store sv) (sv_store (snd (validate_batch env now fresh batch source who sv)))"
proof -
  let ?ids = "sort_dedup (map (\<lambda>(_, _, i). i) (external_targets batch))"
  obtain r st where l: "load_targets env ?ids (sv_store sv) = (r, st)" by (cases "load_targets env ?ids (sv_store sv)")
  have "sv_store (snd (validate_batch env now fresh batch source who sv)) \<in> {sv_store sv, st}"
    unfolding validate_batch_def Let_def l by (simp split: sum.splits prod.splits)
  with load_targets_run [of h digest json "sv_store sv" env ?ids] l show ?thesis by auto
qed

lemma commit_rows_run: "(write_step (iv_blake3 env) digest json)\<^sup>*\<^sup>* st (snd (commit_rows_op env clock batch rows st))"
proof -
  let ?call = "\<lambda>n. commit_ingest_batch_with_effect (iv_blake3 env) (clock n) (batch_key_of batch) (cw_memories rows)
      (cw_relationships rows) (cw_accepted rows) (post_ingest_effect_of env batch rows (batch_key_of batch))"
  have "snd (commit_rows_op env clock batch rows st) = snd (storage_retry env MAX_ATTEMPTS ?call st)"
    by (simp add: commit_rows_op_def Let_def split: prod.splits sum.splits ingest_commit_outcome.splits)
  then show ?thesis using retry_run [of "iv_blake3 env" digest json ?call] ws_commit_effect by metis
qed

lemma finish_commit_store [simp]: "sv_store (snd (finish_commit env batch rows n a sv)) = sv_store sv"
  by (simp add: finish_commit_def Let_def remember_snapshot_def split: prod.splits option.splits)

lemma remember_ack_store [simp]: "sv_store (remember_ack rg batch ack sv) = sv_store sv"
  by (simp add: remember_ack_def)

lemma seed_run:
  "(write_step (iv_blake3 env) digest json)\<^sup>*\<^sup>* (sv_store sv) (sv_store (seed_similarity_edges env now org rows sv))"
  by (auto simp: seed_similarity_edges_def Let_def split: option.split intro: ws_batch)

lemma commit_validated_run:
  "(write_step (iv_blake3 env) digest json)\<^sup>*\<^sup>* (sv_store sv)
     (sv_store (snd (commit_validated env rg now clock batch source v sv)))"
proof -
  let ?rows = "materialize_commit_rows env sv now batch (se_flavor source)
      (v\<lparr>vb_memories := embed_memories (sv_embedder sv) (vb_memories v)\<rparr>)"
  obtain r st where c: "commit_rows_op env clock batch ?rows (sv_store sv) = (r, st)"
    by (cases "commit_rows_op env clock batch ?rows (sv_store sv)")
  have run: "(write_step (iv_blake3 env) digest json)\<^sup>*\<^sup>* (sv_store sv) st"
    using commit_rows_run [of env digest json "sv_store sv" clock batch ?rows] c by simp
  have "sv_store (snd (commit_validated env rg now clock batch source v sv)) = st \<or>
      sv_store (snd (commit_validated env rg now clock batch source v sv)) =
        sv_store (seed_similarity_edges env now (ibt_org_id batch) ?rows (sv\<lparr>sv_store := st\<rparr>))"
    unfolding commit_validated_def Let_def c
    by (auto simp: case_prod_beta split: sum.splits)
  with run seed_run [of env digest json "sv\<lparr>sv_store := st\<rparr>" now "ibt_org_id batch" ?rows] show ?thesis
    by (auto intro: rtranclp_trans)
qed

lemma replay_store [simp]: "sv_store (snd (replay_ack rg batch sv)) = sv_store sv"
  by (simp add: replay_ack_eq)

lemma registered_store [simp]: "sv_store (snd (registered_source rg batch sv)) = sv_store sv"
  by (simp add: registered_source_eq)

lemma judge_run:
  assumes "validate_batch env now fresh batch source who sv = (r, sv')"
  shows "(write_step h digest json)\<^sup>*\<^sup>* (sv_store sv) (sv_store sv')"
  using validate_batch_run [of h digest json sv env now fresh batch source who] assms by simp

lemma submit_run:
  "(write_step (iv_blake3 env) digest json)\<^sup>*\<^sup>* (sv_store sv) (sv_store (snd (submit env rg now fresh clock who batch sv)))"
proof -
  obtain r1 sv1 where r1: "replay_ack rg batch sv = (r1, sv1)" by (cases "replay_ack rg batch sv")
  obtain r2 sv2 where r2: "registered_source rg batch sv1 = (r2, sv2)" by (cases "registered_source rg batch sv1")
  have st: "sv_store sv1 = sv_store sv" "sv_store sv2 = sv_store sv"
    using replay_store [of rg batch sv] registered_store [of rg batch sv1] r1 r2 by auto
  have deep: "(write_step (iv_blake3 env) digest json)\<^sup>*\<^sup>* (sv_store sv)
      (sv_store (snd (case validate_batch env now fresh batch source who sv2 of
                (Inl e, sv3) \<Rightarrow> (Inl e, sv3) | (Inr (Inl ack), sv3) \<Rightarrow> (Inr ack, sv3)
              | (Inr (Inr v), sv3) \<Rightarrow> commit_validated env rg now clock batch source v sv3)))" for source who
  proof -
    obtain r3 sv3 where v: "validate_batch env now fresh batch source who sv2 = (r3, sv3)"
      by (cases "validate_batch env now fresh batch source who sv2")
    have "(write_step (iv_blake3 env) digest json)\<^sup>*\<^sup>* (sv_store sv) (sv_store sv3)"
      using judge_run [OF v, of "iv_blake3 env" digest json] st by simp
    then show ?thesis
      using rtranclp_trans [OF _ commit_validated_run [of env digest json sv3 rg now clock batch source]]
      by (auto simp: v split: sum.split)
  qed
  show ?thesis
    using deep st by (auto simp: submit_def r1 r2 split: sum.split option.split)
qed

lemma preflight_run:
  "(write_step (iv_blake3 env) digest json)\<^sup>*\<^sup>* (sv_store sv) (sv_store (snd (preflight env rg now fresh who batch sv)))"
proof -
  obtain r2 sv2 where r2: "registered_source rg batch sv = (r2, sv2)" by (cases "registered_source rg batch sv")
  then have st: "sv_store sv2 = sv_store sv" using registered_store [of rg batch sv] by simp
  have "sv_store (snd (preflight env rg now fresh who batch sv)) \<in>
      insert (sv_store sv) ((\<lambda>source. sv_store (snd (validate_batch env now fresh batch source who sv2))) ` UNIV)"
    using st request_principal_Inr [of sv who]
    by (auto simp: preflight_def preflight_batch_def r2 case_prod_beta split: sum.split)
  then show ?thesis using validate_batch_run [of "iv_blake3 env" digest json sv2] st by auto
qed


section \<open>How a commit ends\<close>

lemma commit_rows_cases [consumes 1, case_names failed duplicate committed]:
  assumes "commit_rows_op env clock batch rows st = (r, st')"
  obtains e where "r = Inl e" "quiet st st'"
  | s where "r = Inr (Inl (duplicate_ack batch s))" "quiet st st'"
      "hm_get (s_settled_ingest st) (batch_key_of batch) = Some s"
  | t recs st0 st1 where "quiet st st0" "hm_get (s_settled_ingest st) (batch_key_of batch) = None"
      "upsert_batch (iv_blake3 env) t (cw_memories rows) (cw_relationships rows) st0 = (Inr recs, st1)"
      "r = Inr (Inr (last_record_lsn recs, cw_accepted rows))"
      "st' = settle (batch_key_of batch) (settlement (cw_accepted rows) recs)
         (Some (post_ingest_effect_of env batch rows (batch_key_of batch))) st1"
proof -
  let ?key = "batch_key_of batch"
  let ?eff = "post_ingest_effect_of env batch rows ?key"
  let ?call = "\<lambda>n. commit_ingest_batch_with_effect (iv_blake3 env) (clock n) ?key (cw_memories rows)
      (cw_relationships rows) (cw_accepted rows) ?eff"
  obtain q st2 where c: "storage_retry env MAX_ATTEMPTS ?call st = (q, st2)" by (cases "storage_retry env MAX_ATTEMPTS ?call st")
  from retry_commit [OF c] consider e where "q = Inl e" "quiet st st2"
    | t out st0 where "q = Inr out" "quiet st st0"
        "commit_published (iv_blake3 env) t ?key (cw_memories rows) (cw_relationships rows) (cw_accepted rows) (Some ?eff) st0 = (Inr out, st2)"
    by blast
  then show thesis
  proof cases
    case 1
    with assms c show thesis by (intro that(1)) (auto simp: commit_rows_op_def Let_def)
  next
    case (2 t out st0)
    note settled = quiet_frame(5) [OF 2(2)]
    show thesis
    proof (cases "hm_get (s_settled_ingest st) ?key")
      case (Some s)
      with 2 settled have "out = Duplicate s" "st2 = st0" by (auto simp: commit_published_eq)
      with assms c 2 Some show thesis by (intro that(2) [of s]) (auto simp: commit_rows_op_def Let_def)
    next
      case None
      obtain u st1 where u: "upsert_batch (iv_blake3 env) t (cw_memories rows) (cw_relationships rows) st0 = (u, st1)"
        by (cases "upsert_batch (iv_blake3 env) t (cw_memories rows) (cw_relationships rows) st0")
      with 2 None settled obtain recs where "u = Inr recs" "out = Committed recs (settlement (cw_accepted rows) recs)"
          "st2 = settle ?key (settlement (cw_accepted rows) recs) (Some ?eff) st1"
        by (auto simp: commit_published_eq split: option.splits sum.splits)
      with assms c 2 None u show thesis
        by (intro that(3) [of st0 t recs st1]) (auto simp: commit_rows_op_def Let_def settlement_def)
    qed
  qed
qed

lemma seed_frame [simp]:
  "sv_sources (seed_similarity_edges env now org rows sv) = sv_sources sv"
  "sv_seen_batches (seed_similarity_edges env now org rows sv) = sv_seen_batches sv"
  "sv_recent (seed_similarity_edges env now org rows sv) = sv_recent sv"
  "sv_seen_snapshots (seed_similarity_edges env now org rows sv) = sv_seen_snapshots sv"
  by (auto simp: seed_similarity_edges_def Let_def split: option.split)

lemma seed_settled [simp]:
  "s_settled_ingest (sv_store (seed_similarity_edges env now org rows sv)) = s_settled_ingest (sv_store sv)"
proof -
  have "s_settled_ingest (snd (upsert_batch h t ms rs st)) = s_settled_ingest st" for h t ms rs st
    using upsert_batch_frame(2) [of h t ms rs st] by (metis prod.collapse)
  then show ?thesis by (auto simp: seed_similarity_edges_def Let_def split: option.split)
qed

lemma finish_commit_frame:
  "sv_sources (snd (finish_commit env batch rows n a sv)) = sv_sources sv"
  "sv_seen_batches (snd (finish_commit env batch rows n a sv)) = sv_seen_batches sv"
  "sv_seen_snapshots (snd (finish_commit env batch rows n a sv)) = sv_seen_snapshots (remember_snapshot batch sv)"
  "sv_recent (snd (finish_commit env batch rows n a sv)) =
     snd (similar_to_hints env (ibt_org_id batch) (zip (map md_draft_key (ibt_memories batch)) (cw_producer_memories rows)) (sv_recent sv))"
  "fst (finish_commit env batch rows n a sv) =
     \<lparr>ak_batch_id = ibt_batch_id batch, ak_accepted = a, ak_rejected = 0, ak_rejections = [], ak_assigned_lsn = n,
      ak_similar_to = fst (similar_to_hints env (ibt_org_id batch)
        (zip (map md_draft_key (ibt_memories batch)) (cw_producer_memories rows)) (sv_recent sv))\<rparr>"
  by (simp_all add: finish_commit_def Let_def remember_snapshot_def case_prod_beta split: option.splits)

text \<open>The rows a validated batch commits.\<close>

definition rows_of ::
    "ingest_env \<Rightarrow> ('c, 'd) ingest_server \<Rightarrow> instant \<Rightarrow> ingest_batch \<Rightarrow> source_entry \<Rightarrow> validated_batch \<Rightarrow> commit_rows" where
  "rows_of env sv now batch source v =
     materialize_commit_rows env sv now batch (se_flavor source)
       (v\<lparr>vb_memories := embed_memories (sv_embedder sv) (vb_memories v)\<rparr>)"

lemma commit_validated_cases [consumes 1, case_names failed duplicate committed]:
  assumes "commit_validated env rg now clock batch source v sv = (res, sv')"
  obtains e st where "res = Inl e" "sv' = sv\<lparr>sv_store := st\<rparr>" "quiet (sv_store sv) st"
  | s st where "res = Inr (duplicate_ack batch s)" "quiet (sv_store sv) st"
      "hm_get (s_settled_ingest (sv_store sv)) (batch_key_of batch) = Some s"
      "sv' = remember_ack rg batch (duplicate_ack batch s) (sv\<lparr>sv_store := st\<rparr>)"
  | ack t recs st0 st1 st2 where "res = Inr ack" "quiet (sv_store sv) st0"
      "hm_get (s_settled_ingest (sv_store sv)) (batch_key_of batch) = None"
      "upsert_batch (iv_blake3 env) t (cw_memories (rows_of env sv now batch source v))
         (cw_relationships (rows_of env sv now batch source v)) st0 = (Inr recs, st1)"
      "st2 = settle (batch_key_of batch) (settlement (cw_accepted (rows_of env sv now batch source v)) recs)
         (Some (post_ingest_effect_of env batch (rows_of env sv now batch source v) (batch_key_of batch))) st1"
      "ack = fst (finish_commit env batch (rows_of env sv now batch source v) (last_record_lsn recs)
         (cw_accepted (rows_of env sv now batch source v)) sv)"
      "sv_store sv' \<in> {st2, sv_store (seed_similarity_edges env now (ibt_org_id batch) (rows_of env sv now batch source v)
         (sv\<lparr>sv_store := st2\<rparr>))}"
      "sv_sources sv' = sv_sources sv"
      "sv_seen_batches sv' = lru_put (rg_seen rg) (seen_key_of batch) ack (sv_seen_batches sv)"
      "sv_recent sv' = snd (similar_to_hints env (ibt_org_id batch)
         (zip (map md_draft_key (ibt_memories batch)) (cw_producer_memories (rows_of env sv now batch source v))) (sv_recent sv))"
      "sv_seen_snapshots sv' = sv_seen_snapshots (remember_snapshot batch sv)"
proof -
  let ?rows = "rows_of env sv now batch source v"
  obtain r st where c: "commit_rows_op env clock batch ?rows (sv_store sv) = (r, st)"
    by (cases "commit_rows_op env clock batch ?rows (sv_store sv)")
  have run: "(res, sv') = (case (r, st) of (Inl e, st) \<Rightarrow> (Inl e, sv\<lparr>sv_store := st\<rparr>)
         | (Inr (Inl ack), st) \<Rightarrow> (Inr ack, remember_ack rg batch ack (sv\<lparr>sv_store := st\<rparr>))
         | (Inr (Inr (assigned, accepted)), st) \<Rightarrow>
           (let sv1 = sv\<lparr>sv_store := st\<rparr>;
                sv2 = (if sv_similarity_seeding sv1 then seed_similarity_edges env now (ibt_org_id batch) ?rows sv1 else sv1);
                (ack, sv3) = finish_commit env batch ?rows assigned accepted sv2
            in (Inr ack, remember_ack rg batch ack sv3)))"
    using assms c unfolding commit_validated_def rows_of_def Let_def by simp
  from c show thesis
  proof (cases rule: commit_rows_cases)
    case (failed e)
    with run show thesis by (intro that(1)) auto
  next
    case (duplicate s)
    with run show thesis by (intro that(2)) auto
  next
    case (committed t recs st0 st1)
    let ?sv1 = "sv\<lparr>sv_store := st\<rparr>"
    let ?sv2 = "if sv_similarity_seeding ?sv1 then seed_similarity_edges env now (ibt_org_id batch) ?rows ?sv1 else ?sv1"
    let ?fin = "finish_commit env batch ?rows (last_record_lsn recs) (cw_accepted ?rows)"
    from run committed(4) have out: "res = Inr (fst (?fin ?sv2))" "sv' = remember_ack rg batch (fst (?fin ?sv2)) (snd (?fin ?sv2))"
      by (simp_all add: Let_def case_prod_beta)
    have rec: "sv_recent ?sv2 = sv_recent sv" "sv_seen_batches ?sv2 = sv_seen_batches sv" "sv_sources ?sv2 = sv_sources sv"
      "sv_seen_snapshots (remember_snapshot batch ?sv2) = sv_seen_snapshots (remember_snapshot batch sv)"
      by (auto simp: remember_snapshot_def split: option.split)
    have ack: "fst (?fin ?sv2) = fst (?fin sv)" by (simp only: finish_commit_frame(5) rec(1))
    show thesis
      by (rule that(3) [OF _ committed(1,2,3) refl refl])
        (use out committed(5) rec in \<open>auto simp: ack remember_ack_def finish_commit_frame\<close>)
  qed
qed


section \<open>The server as a state machine\<close>

inductive service_step ::
    "ingest_env \<Rightarrow> ('c, 'd) registries \<Rightarrow> (byte list \<Rightarrow> byte list) \<Rightarrow> (discovery_record list \<Rightarrow> string + byte list) \<Rightarrow>
     ('c, 'd) ingest_server \<Rightarrow> ('c, 'd) ingest_server \<Rightarrow> bool"
  for env rg digest json where
  sv_submit: "service_step env rg digest json sv (snd (submit env rg now fresh clock who batch sv))"
| sv_preflight: "service_step env rg digest json sv (snd (preflight env rg now fresh who batch sv))"
| sv_register: "service_step env rg digest json sv (snd (register_source env rg now io_ok who r sv))"
| sv_backend: "store_step (iv_blake3 env) digest json (sv_store sv) st \<Longrightarrow>
     service_step env rg digest json sv (sv\<lparr>sv_store := st\<rparr>)"

text \<open>
  The invariant: a consistent store, remembered acknowledgements that agree with the
  settlements on record, and bounded recency structures.
\<close>

definition seen_ok :: "('c, 'd) registries \<Rightarrow> 'd \<Rightarrow> store \<Rightarrow> bool" where
  "seen_ok rg seen st \<longleftrightarrow>
     (\<forall>org producer batch ack. lru_peek (rg_seen rg) (org, producer, batch) seen = Some ack \<longrightarrow>
        (\<exists>s. hm_get (s_settled_ingest st) \<lparr>ib_org_id = org, ib_producer_id = producer, ib_batch_id = batch\<rparr> = Some s \<and>
           ak_accepted ack = sb_accepted s \<and> ak_rejected ack = sb_rejected s \<and> ak_assigned_lsn ack = sb_assigned_lsn s))"

definition server_ok :: "('c, 'd) registries \<Rightarrow> ('c, 'd) ingest_server \<Rightarrow> bool" where
  "server_ok rg sv \<longleftrightarrow>
     registry_laws rg \<and> store_ok (sv_store sv) \<and> seen_ok rg (sv_seen_batches sv) (sv_store sv) \<and>
     length (sv_recent sv) \<le> RECENT_RING_LEN \<and>
     (\<forall>k. length (hist_of (sv_seen_snapshots sv) k) \<le> SNAPSHOT_HISTORY)"

definition initial_server :: "('c, 'd) registries \<Rightarrow> ('c, 'd) ingest_server \<Rightarrow> bool" where
  "initial_server rg sv \<longleftrightarrow>
     registry_laws rg \<and> initial (sv_store sv) \<and> (\<forall>k. lru_peek (rg_seen rg) k (sv_seen_batches sv) = None) \<and>
     sv_recent sv = [] \<and> sv_seen_snapshots sv = []"

lemma seen_ok_kept: "seen_ok rg seen st \<Longrightarrow> kept st st' \<Longrightarrow> seen_ok rg seen st'"
  unfolding seen_ok_def kept_def by (meson)

lemma seen_ok_cong: "seen_ok rg seen st \<Longrightarrow> (\<And>k. lru_peek (rg_seen rg) k seen' = lru_peek (rg_seen rg) k seen) \<Longrightarrow> seen_ok rg seen' st"
  by (simp add: seen_ok_def)

lemma seen_ok_put:
  assumes "lru_laws (rg_seen rg)" "seen_ok rg seen st"
    and "hm_get (s_settled_ingest st) (batch_key_of batch) = Some s"
    and "ak_accepted ack = sb_accepted s" "ak_rejected ack = sb_rejected s" "ak_assigned_lsn ack = sb_assigned_lsn s"
  shows "seen_ok rg (lru_put (rg_seen rg) (seen_key_of batch) ack seen) st"
  unfolding seen_ok_def
proof (intro allI impI)
  fix org producer i a
  assume p: "lru_peek (rg_seen rg) (org, producer, i) (lru_put (rg_seen rg) (seen_key_of batch) ack seen) = Some a"
  show "\<exists>s. hm_get (s_settled_ingest st) \<lparr>ib_org_id = org, ib_producer_id = producer, ib_batch_id = i\<rparr> = Some s \<and>
      ak_accepted a = sb_accepted s \<and> ak_rejected a = sb_rejected s \<and> ak_assigned_lsn a = sb_assigned_lsn s"
  proof (cases "(org, producer, i) = seen_key_of batch")
    case True
    with p lru_lawsD(3) [OF assms(1)] have "a = ack" by simp
    with True assms(3-6) show ?thesis by (auto simp: batch_key_of_def)
  next
    case False
    with p lru_lawsD(4) [OF assms(1), of "(org, producer, i)" "seen_key_of batch" ack seen]
    have "lru_peek (rg_seen rg) (org, producer, i) seen = Some a" by auto
    with assms(2) show ?thesis by (simp add: seen_ok_def)
  qed
qed

lemma write_run_keeps:
  assumes "store_ok st" "(write_step h digest json)\<^sup>*\<^sup>* st st'"
  shows "store_ok st'" "kept st st'" "grows st st'"
proof -
  from assms(2) have run: "(store_step h digest json)\<^sup>*\<^sup>* st st'"
    by (rule rtranclp_mono [THEN predicate2D, rotated]) (auto intro: ss_write)
  show "store_ok st'" using backend.run_ok [OF run assms(1)] .
  show "kept st st'" using backend.run_kept [OF run assms(1)] .
  show "grows st st'" using appends.run_kept [OF assms(2,1)] .
qed

lemma store_ok_quiet:
  assumes "quiet st st'" "store_ok st" shows "store_ok st'"
proof -
  have "tables st' = tables st" using assms(1) by (auto simp: quiet_def tables_def)
  from keeps_tables [OF this] assms show ?thesis by (auto simp: quiet_def store_ok_def keeps_def graph_ok_def)
qed

lemma admit_ring_bound: "length (admit_ring ring new) \<le> RECENT_RING_LEN"
  by (simp add: admit_ring_def)

lemma push_snapshot_bound: "length h \<le> SNAPSHOT_HISTORY \<Longrightarrow> length (push_snapshot i h) \<le> SNAPSHOT_HISTORY"
  by (simp add: push_snapshot_def)

lemma remember_snapshot_bound:
  assumes "\<forall>k. length (hist_of (sv_seen_snapshots sv) k) \<le> SNAPSHOT_HISTORY"
  shows "length (hist_of (sv_seen_snapshots (remember_snapshot batch sv)) k) \<le> SNAPSHOT_HISTORY"
proof (cases "ibt_snapshot batch")
  case (Some s)
  let ?h = "hist_of (sv_seen_snapshots sv) (source_key_of batch)"
  have "hist_of (hm_insert (source_key_of batch) v m) k = (if k = source_key_of batch then v else hist_of m k)"
    for v and m :: "(source_key, string list) hmap" by (simp add: hist_of_def)
  with Some assms push_snapshot_bound [of ?h] show ?thesis
    by (simp add: remember_snapshot_def del: split_paired_All)
qed (simp add: remember_snapshot_def assms)

lemma server_ok_browsed:
  assumes "server_ok rg sv" "browsed rg sv sv'" "store_ok (sv_store sv')"
  shows "server_ok rg sv'"
proof -
  have "seen_ok rg (sv_seen_batches sv') (sv_store sv)"
    using assms browsed_frame(11) [OF assms(2)] by (auto simp: server_ok_def registry_laws_def intro: seen_ok_cong)
  then have "seen_ok rg (sv_seen_batches sv') (sv_store sv')"
    using quiet_frame(5) [OF browsed_frame(1) [OF assms(2)]] by (simp add: seen_ok_def)
  with assms browsed_frame(4,5) [OF assms(2)] show ?thesis by (simp add: server_ok_def)
qed

lemma server_ok_commit:
  assumes ok: "server_ok rg sv" and run: "commit_validated env rg now clock batch source v sv = (res, sv')"
  shows "server_ok rg sv'"
proof -
  from ok have st: "store_ok (sv_store sv')" and k: "kept (sv_store sv) (sv_store sv')"
    using write_run_keeps [OF _ commit_validated_run [of env id "\<lambda>_. Inr []" sv rg now clock batch source v]] run
    by (auto simp: server_ok_def)
  from ok k have seen: "seen_ok rg (sv_seen_batches sv) (sv_store sv')" and laws: "lru_laws (rg_seen rg)"
    by (auto simp: server_ok_def registry_laws_def intro: seen_ok_kept)
  from run show ?thesis
  proof (cases rule: commit_validated_cases)
    case (failed e st')
    with ok st seen show ?thesis by (simp add: server_ok_def)
  next
    case (duplicate s st')
    then have "hm_get (s_settled_ingest (sv_store sv')) (batch_key_of batch) = Some s"
      using quiet_frame(5) [OF duplicate(2)] by simp
    from seen_ok_put [OF laws seen this, of "duplicate_ack batch s"] ok st duplicate show ?thesis
      by (simp add: server_ok_def remember_ack_def duplicate_ack_def)
  next
    case (committed ack t recs st0 st1 st2)
    let ?s = "settlement (cw_accepted (rows_of env sv now batch source v)) recs"
    have "hm_get (s_settled_ingest (sv_store sv')) (batch_key_of batch) = Some ?s"
      using committed(5,7) by auto
    from seen_ok_put [OF laws seen this, of ack] committed(6)
    have "seen_ok rg (sv_seen_batches sv') (sv_store sv')"
      by (simp add: committed(9) finish_commit_frame settlement_def)
    moreover have "length (sv_recent sv') \<le> RECENT_RING_LEN"
      by (simp add: committed(10) similar_to_hints_def admit_ring_bound)
    moreover have "\<forall>k. length (hist_of (sv_seen_snapshots sv') k) \<le> SNAPSHOT_HISTORY"
      using ok remember_snapshot_bound [of sv batch] by (simp add: committed(11) server_ok_def)
    ultimately show ?thesis using ok st by (simp add: server_ok_def)
  qed
qed

lemma server_ok_submit:
  assumes "server_ok rg sv" shows "server_ok rg (snd (submit env rg now fresh clock who batch sv))"
proof -
  obtain res sv' where run: "submit env rg now fresh clock who batch sv = (res, sv')"
    by (cases "submit env rg now fresh clock who batch sv")
  have st: "store_ok (sv_store sv')"
    using write_run_keeps(1) [OF _ submit_run [of env id "\<lambda>_. Inr []" sv rg now fresh clock who batch]] assms run
    by (simp add: server_ok_def)
  from run show ?thesis
  proof (cases rule: submit_cases)
    case (committing source v sv2 sv3)
    have "store_ok (sv_store sv3)"
      using store_ok_quiet [OF browsed_frame(1) [OF committing(2)]] assms by (simp add: server_ok_def)
    from server_ok_browsed [OF assms committing(2) this] server_ok_commit [OF _ committing(8)] run
    show ?thesis by simp
  qed (use server_ok_browsed assms st run in auto)
qed


lemma browsed_preflight: "browsed rg sv (snd (preflight env rg now fresh who batch sv))"
proof -
  obtain r1 sv1 where r1: "registered_source rg batch sv = (r1, sv1)" by (cases "registered_source rg batch sv")
  have b1: "browsed rg sv sv1" using browsed_registered [of rg sv batch] r1 by simp
  have b2: "browsed rg sv (snd (validate_batch env now fresh batch source w sv1))" for source w
    using browsed_trans [OF b1 browsed_validate] by (metis prod.collapse)
  show ?thesis using b1 b2
    by (auto simp: preflight_def preflight_batch_def r1 case_prod_beta split: sum.split)
qed

lemma server_ok_preflight:
  assumes "server_ok rg sv" shows "server_ok rg (snd (preflight env rg now fresh who batch sv))"
proof -
  note browsed_preflight [of rg sv env now fresh who batch]
  moreover have "store_ok (sv_store (snd (preflight env rg now fresh who batch sv)))"
    using write_run_keeps(1) [OF _ preflight_run [of env id "\<lambda>_. Inr []" sv rg now fresh who batch]] assms
    by (simp add: server_ok_def)
  ultimately show ?thesis using server_ok_browsed assms by blast
qed

lemma register_store:
  "sv_store (snd (register_source env rg now io_ok who r sv)) = sv_store sv \<or>
   (\<exists>a. sv_store (snd (register_source env rg now io_ok who r sv)) = snd (append_audit now a (sv_store sv)))"
proof -
  obtain res sv' where run: "register_source env rg now io_ok who r sv = (res, sv')"
    by (cases "register_source env rg now io_ok who r sv")
  show ?thesis
  proof (cases res)
    case (Inl e)
    with run show ?thesis
      by (auto simp: register_source_def Let_def append_audit_def next_lsn_def
          split: sum.splits prod.splits if_splits option.splits)
  next
    case (Inr c)
    have "sv_store sv' = sv_store sv \<or> (\<exists>a. sv_store sv' = snd (append_audit now a (sv_store sv)))"
      using run unfolding Inr by (rule register_source_Inr [OF _ refl]) (auto split: option.splits)
    with run show ?thesis by simp
  qed
qed

lemma register_frame:
  "sv_seen_batches (snd (register_source env rg now io_ok who r sv)) = sv_seen_batches sv"
  "sv_recent (snd (register_source env rg now io_ok who r sv)) = sv_recent sv"
  "sv_seen_snapshots (snd (register_source env rg now io_ok who r sv)) = sv_seen_snapshots sv"
  by (auto simp: register_source_def Let_def append_audit_def next_lsn_def split: sum.split prod.split option.split)

lemma register_run:
  "(write_step h digest json)\<^sup>*\<^sup>* (sv_store sv) (sv_store (snd (register_source env rg now io_ok who r sv)))"
  using register_store [of env rg now io_ok who r sv] ws_append_audit by (auto intro: r_into_rtranclp)

lemma service_step_store:
  assumes "service_step env rg digest json sv sv'"
  shows "(store_step (iv_blake3 env) digest json)\<^sup>*\<^sup>* (sv_store sv) (sv_store sv')"
proof -
  have up: "(store_step (iv_blake3 env) digest json)\<^sup>*\<^sup>* st st'"
    if "(write_step (iv_blake3 env) digest json)\<^sup>*\<^sup>* st st'" for st st'
    using that by (rule rtranclp_mono [THEN predicate2D, rotated]) (auto intro: ss_write)
  from assms show ?thesis
    by cases (auto intro: up submit_run preflight_run register_run)
qed

lemma service_step_ok:
  assumes "server_ok rg sv" "service_step env rg digest json sv sv'"
  shows "server_ok rg sv'"
  using assms(2)
proof cases
  case (sv_register now io_ok who r)
  have "store_ok (sv_store sv')" "kept (sv_store sv) (sv_store sv')"
    using write_run_keeps [OF _ register_run [of "iv_blake3 env" digest json sv env rg now io_ok who r]] assms(1) sv_register
    by (auto simp: server_ok_def)
  with assms(1) sv_register register_frame [of env rg now io_ok who r sv] show ?thesis
    by (auto simp: server_ok_def intro: seen_ok_kept)
next
  case (sv_backend st)
  have "store_ok st" "kept (sv_store sv) st"
    using backend.step_ok backend.step_kept sv_backend(2) assms(1) by (auto simp: server_ok_def)
  with assms(1) sv_backend show ?thesis by (auto simp: server_ok_def intro: seen_ok_kept)
qed (use assms(1) server_ok_submit server_ok_preflight in auto)

interpretation service:
  keeping_system "initial_server rg" "service_step env rg digest json" "server_ok rg"
    "\<lambda>s t. kept (sv_store s) (sv_store t)"
proof
  fix s t u
  show "initial_server rg s \<Longrightarrow> server_ok rg s"
    by (auto simp: initial_server_def server_ok_def seen_ok_def initial_ok)
  show "server_ok rg s \<Longrightarrow> service_step env rg digest json s t \<Longrightarrow> server_ok rg t" by (rule service_step_ok)
  show "server_ok rg s \<Longrightarrow> service_step env rg digest json s t \<Longrightarrow> kept (sv_store s) (sv_store t)"
    using backend.run_kept [OF service_step_store] unfolding server_ok_def by blast
  show "kept (sv_store s) (sv_store s)" by simp
  show "kept (sv_store s) (sv_store t) \<Longrightarrow> kept (sv_store t) (sv_store u) \<Longrightarrow> kept (sv_store s) (sv_store u)"
    by (rule kept_trans)
qed

end
