(* ===== verification/Ingest_Samples.thy ===== *)
theory Ingest_Samples
  imports Ingest_System
begin

text \<open>
  A small deployment the witnesses of the ingest service run on: an ontology with one memory
  type and one supersession kind, a registered session source, a principal and a batch of one draft.
\<close>

definition sample_types :: ontology where
  "sample_types =
     \<lparr>o_packs = [], o_kinds_by_id = [], o_triples_by_kind = [], o_memory_type_by_name = [(''Task'', 0)],
      o_entity_type_by_name = [], o_memory_type_names = [''Task''], o_entity_type_names = [],
      o_fingerprint = zeros32, o_build_fingerprint = zeros32,
      o_summary = o_summary (bare_onto (sample_summary ''Task''))\<rparr>"

definition sample_principal :: visibility_context where
  "sample_principal = \<lparr>vc_user_id = ''ann'', vc_org_id = ''acme'', vc_project_ids = [''apollo''], vc_team_ids = [],
                       vc_max_visibility = Org\<rparr>"

definition sample_draft :: memory_draft_pb where
  "sample_draft =
     \<lparr>md_draft_key = ''d1'', md_id = [], md_memory_type = ''Task'', md_title = ''t'', md_content = ''c'', md_tags = [],
      md_visibility = 3, md_valid_from = None, md_valid_until = None, md_external_key = None, md_rights = None\<rparr>"

definition unsigned_sample :: ingest_batch where
  "unsigned_sample =
     \<lparr>ibt_org_id = ''acme'', ibt_source_uri = ''session://s1'', ibt_producer_id = ''p'', ibt_batch_id = ''b1'',
      ibt_mapping_version = [], ibt_ontology_fingerprint = zeros32, ibt_ceiling = 3, ibt_checksum = [],
      ibt_observed_at = None, ibt_recorded_at = None, ibt_snapshot = None, ibt_memories = [sample_draft],
      ibt_relationships = [],
      ibt_producer = Some \<lparr>pi_node_id = ''n'', pi_agent_id = [], pi_adapter_id = [], pi_hmac_signature = [1],
                           pi_client_metadata = None\<rparr>\<rparr>"

definition sample_batch :: ingest_batch where
  "sample_batch = unsigned_sample\<lparr>ibt_checksum := batch_checksum sample_env unsigned_sample\<rparr>"

definition sample_serving ::
    "((source_key \<times> source_entry) list, (source_key \<times> ingest_ack) list) ingest_server" where
  "sample_serving = (sample_server (new_store sample_types))\<lparr>sv_sources := [(sample_source_key, sample_entry)]\<rparr>"

definition sample_memory_row :: memory where
  "sample_memory_row =
     drafted_memory sample_env (rules_of sample_serving) (MemoryId [9]) sample_batch sample_draft False sample_entry
       \<lparr>bt_observed_at = 5, bt_recorded_at = 5\<rparr> 0 Org
       \<lparr>ds_tenant_id = Some ''acme'', ds_user_id = Some ''ann'', ds_project_id = None, ds_team_id = None\<rparr> 5 None"

lemma sample_batch_sel [simp]:
  "ibt_org_id sample_batch = ''acme''" "ibt_source_uri sample_batch = ''session://s1''"
  "ibt_producer_id sample_batch = ''p''" "ibt_batch_id sample_batch = ''b1''" "ibt_ceiling sample_batch = 3"
  "ibt_ontology_fingerprint sample_batch = zeros32" "ibt_observed_at sample_batch = None"
  "ibt_recorded_at sample_batch = None" "ibt_snapshot sample_batch = None" "ibt_memories sample_batch = [sample_draft]"
  "ibt_relationships sample_batch = []" "ibt_producer sample_batch = ibt_producer unsigned_sample"
  by (simp_all add: sample_batch_def unsigned_sample_def)

lemma sample_checksum: "ibt_checksum sample_batch = batch_checksum sample_env sample_batch"
  by (simp add: batch_checksum_def canonical_checksum_def checksum_preimage_def) (simp add: sample_batch_def
      batch_checksum_def canonical_checksum_def checksum_preimage_def unsigned_sample_def)

lemma sample_serving_sel [simp]:
  "sv_store sample_serving = new_store sample_types" "sv_ontology sample_serving = sample_types"
  "sv_default_producer_key sample_serving = Some [7]" "sv_org_guard sample_serving = None"
  "sv_sources sample_serving = [(sample_source_key, sample_entry)]" "sv_source_registry_error sample_serving = None"
  "sv_seen_batches sample_serving = []" "sv_embedder sample_serving = None" "sv_admin_policies sample_serving = []"
  "sv_require_request_principal sample_serving = False" "sv_allow_personal_scopes sample_serving = False"
  "sv_recent sample_serving = []" "sv_similarity_seeding sample_serving = False" "sv_submit_permits sample_serving = 64"
  "sv_grouping_rules sample_serving = []" "sv_demand sample_serving = []" "sv_seen_snapshots sample_serving = []"
  by (simp_all add: sample_serving_def sample_server_def new_store_def build_def)

lemma sample_serving_initial: "initial_server sample_registries sample_serving"
  by (auto simp: initial_server_def initial_def new_store_def registry_laws_def sample_registries_def list_lru_laws)
    (simp_all add: list_lru_def)

lemma sample_serving_ok: "server_ok sample_registries sample_serving"
  using sample_serving_initial by (auto simp: initial_server_def server_ok_def seen_ok_def initial_ok)

lemma sample_admitted: "admit_batch sample_env sample_serving sample_batch = Inr ()"
proof -
  have "zeros32 \<in> set (recognized_ontology_fingerprints (new_store sample_types))"
    by (simp add: recognized_ontology_fingerprints_def new_store_def build_def sample_types_def)
  then show ?thesis
    by (simp add: admit_batch_def producer_auth_key_def producer_key_def validate_batch_resources_def sample_draft_def
        validate_memory_fields_def MAX_MEMORIES_PER_BATCH_def MAX_EDGES_PER_BATCH_def MAX_MEMORY_CONTENT_BYTES_def
        MAX_TAGS_PER_MEMORY_def MAX_TAG_BYTES_PER_MEMORY_def verify_signature_def unsigned_sample_def sample_checksum
        ontology_matches_def admit_producer_batch_def zeros32_def) (simp add: sample_env_def is_some_and_def)
qed

lemma sample_sourced:
  "registered_source sample_registries sample_batch sample_serving = (Inr sample_entry, sample_serving)"
proof -
  have "sample_serving\<lparr>sv_sources := [(sample_source_key, sample_entry)]\<rparr> = sample_serving" by (simp add: sample_serving_def)
  then show ?thesis
    by (simp add: registered_source_eq source_verdict_def sample_registries_def list_lru_def hm_get_def
        sample_entry_def vis_from_i32_def is_some_and_def)
qed

lemma sample_unseen: "replay_ack sample_registries sample_batch sample_serving = (None, sample_serving)"
  by (simp add: replay_ack_eq sample_registries_def list_lru_def hm_get_def)

lemma sample_row_valid:
  "validate_memory sample_env (rules_of sample_serving) 5 (MemoryId [9]) sample_batch sample_draft False sample_entry
     \<lparr>bt_observed_at = 5, bt_recorded_at = 5\<rparr> (Some sample_principal) = Inr sample_memory_row"
proof -
  have "requested_project sample_batch = None" "requested_team sample_batch = None"
    by (simp_all add: requested_project_def requested_team_def client_metadata_def unsigned_sample_def)
  then have "scope_of (rules_of sample_serving) sample_batch Org (Some sample_principal) =
      Inr \<lparr>ds_tenant_id = Some ''acme'', ds_user_id = Some ''ann'', ds_project_id = None, ds_team_id = None\<rparr>"
    by (simp add: scope_of_def sample_principal_def)
  moreover have "draft_rights sample_env sample_draft sample_entry = None"
    by (simp add: draft_rights_def sample_draft_def sample_entry_def)
  moreover have "hm_get (o_memory_type_by_name (ir_ontology (rules_of sample_serving))) (md_memory_type sample_draft) = Some 0"
    by (simp add: rules_of_def sample_types_def sample_draft_def hm_get_def)
  moreover have "vis_from_i32 (md_visibility sample_draft) = Inr Org" by (simp add: sample_draft_def vis_from_i32_def)
  moreover have "validate_draft (ir_ontology (rules_of sample_serving))
      \<lparr>d_memory_type = 0, d_title = md_title sample_draft, d_content = md_content sample_draft, d_summary = None,
       d_visibility = Org, d_context = context_of 5 None
         \<lparr>ds_tenant_id = Some ''acme'', ds_user_id = Some ''ann'', ds_project_id = None, ds_team_id = None\<rparr>,
       d_edge_hints = [], d_external_key = None\<rparr> \<lparr>sc_source = ''ingest'', sc_ceiling = se_ceiling sample_entry\<rparr> = Inr ()"
    by (simp add: validate_draft_def sample_draft_def sample_entry_def within_def chars_count_def starts_char_def)
  moreover have "md_external_key sample_draft = None" "md_valid_from sample_draft = None" "md_valid_until sample_draft = None"
    by (simp_all add: sample_draft_def)
  ultimately show ?thesis
    by (simp add: validate_memory_def sample_memory_row_def timestamp_or_def is_some_and_def)
qed

lemma sample_validated:
  "validate_batch sample_env 5 (\<lambda>_. MemoryId [9]) sample_batch sample_entry (Some sample_principal) sample_serving =
     (Inr (Inr \<lparr>vb_memories = [sample_memory_row], vb_relationships = [], vb_loaded = []\<rparr>), sample_serving)"
proof -
  have "batch_times_of sample_env 5 sample_batch = Inr \<lparr>bt_observed_at = 5, bt_recorded_at = 5\<rparr>"
    by (simp add: batch_times_of_def timestamp_or_def)
  moreover have "load_targets sample_env [] (new_store sample_types) = (Inr [], new_store sample_types)"
    by (simp add: load_targets_def MAX_ATTEMPTS_def numeral_eq_Suc get_memories_def new_store_def build_def)
  moreover have "sample_serving\<lparr>sv_store := new_store sample_types\<rparr> = sample_serving"
    "sample_serving\<lparr>sv_store := new_store sample_types, sv_demand := []\<rparr> = sample_serving"
    by (simp_all add: sample_serving_def sample_server_def new_store_def build_def)
  ultimately show ?thesis
    by (simp add: validate_batch_def memory_verdicts_def sample_row_valid external_targets_def malformed_targets_def
        validate_edges_def sort_dedup_def)
qed

lemma sample_rows:
  "rows_of sample_env sample_serving 5 sample_batch sample_entry
       \<lparr>vb_memories = [sample_memory_row], vb_relationships = [], vb_loaded = []\<rparr> =
     \<lparr>cw_memories = [sample_memory_row], cw_relationships = [], cw_producer_memories = [sample_memory_row],
      cw_grouping_nodes_created = 0, cw_accepted = 1\<rparr>"
  by (simp add: rows_of_def materialize_commit_rows_def supersession_targets_def embed_memories_def embed_texts_def
      materialize_grouping_def grouping_key_def stale_rows_def map_filter_def materialize_inverses_def
      Let_def)

definition sample_ack :: ingest_ack where
  "sample_ack = \<lparr>ak_batch_id = ''b1'', ak_accepted = 1, ak_rejected = 0, ak_rejections = [], ak_assigned_lsn = 1,
                 ak_similar_to = []\<rparr>"

definition sample_settled :: store where
  "sample_settled =
     settle (batch_key_of sample_batch) (settlement 1 (commits 0 5 1))
       (Some (post_ingest_effect_of sample_env sample_batch
          \<lparr>cw_memories = [sample_memory_row], cw_relationships = [], cw_producer_memories = [sample_memory_row],
           cw_grouping_nodes_created = 0, cw_accepted = 1\<rparr> (batch_key_of sample_batch)))
       (write_rows [MRow sample_memory_row] (new_store sample_types))"

lemma sample_committed:
  "commit_validated sample_env sample_registries 5 (\<lambda>_. 5) sample_batch sample_entry
       \<lparr>vb_memories = [sample_memory_row], vb_relationships = [], vb_loaded = []\<rparr> sample_serving =
     (Inr sample_ack, sample_serving\<lparr>sv_store := sample_settled, sv_seen_batches := [(seen_key_of sample_batch, sample_ack)]\<rparr>)"
proof -
  let ?v = "\<lparr>vb_memories = [sample_memory_row], vb_relationships = [], vb_loaded = []\<rparr>"
  let ?rows = "rows_of sample_env sample_serving 5 sample_batch sample_entry ?v"
  have emb: "embed_memories None ms = ms" for ms by (simp add: embed_memories_def embed_texts_def)
  have fresh: "\<not> s_fail_next_ingest_commit (new_store sample_types)" "s_settled_ingest (new_store sample_types) = []"
      "s_ingest_effects (new_store sample_types) = []" "s_lsn (new_store sample_types) = 0"
      "s_ontology (new_store sample_types) = sample_types"
    by (simp_all add: new_store_def build_def)
  have "commit_rows_op sample_env (\<lambda>_. 5) sample_batch ?rows (new_store sample_types) = (Inr (Inr (1, 1)), sample_settled)"
    by (simp add: commit_rows_op_def MAX_ATTEMPTS_def numeral_eq_Suc commit_with_effect_eq commit_published_eq
        effect_conflict_def upsert_batch_eq batch_rows_def sample_rows fresh sample_settled_def settlement_def
        last_record_lsn_def commits_def commit_at_def last_opt_def Let_def)
  moreover have "materialize_commit_rows sample_env sample_serving 5 sample_batch (se_flavor sample_entry) ?v = ?rows"
    by (simp add: rows_of_def emb)
  moreover have "m_embedding sample_memory_row = None"
    by (simp add: sample_memory_row_def drafted_memory_def attach_entities_def)
  ultimately show ?thesis
    by (simp add: commit_validated_def emb finish_commit_def remember_snapshot_def sample_rows sample_draft_def
        similar_to_hints_def hint_for_def ring_entry_def admit_ring_def map_filter_def remember_ack_def sample_ack_def
        sample_registries_def list_lru_def hm_insert_def Let_def)
qed

definition sample_served ::
    "((source_key \<times> source_entry) list, (source_key \<times> ingest_ack) list) ingest_server" where
  "sample_served =
     sample_serving\<lparr>sv_store := sample_settled, sv_seen_batches := [(seen_key_of sample_batch, sample_ack)]\<rparr>"

abbreviation sample_submit ::
    "((source_key \<times> source_entry) list, (source_key \<times> ingest_ack) list) ingest_server \<Rightarrow>
     (grpc_status + ingest_ack) \<times> ((source_key \<times> source_entry) list, (source_key \<times> ingest_ack) list) ingest_server" where
  "sample_submit \<equiv>
     submit sample_env sample_registries 5 (\<lambda>_. MemoryId [9]) (\<lambda>_. 5) (Some sample_principal) sample_batch"

lemma sample_submitted: "sample_submit sample_serving = (Inr sample_ack, sample_served)"
proof -
  have "\<not> foreign_org (Some sample_principal) sample_batch"
    by (simp add: foreign_org_def is_some_and_def sample_principal_def)
  then show ?thesis
    by (simp add: submit_def request_principal_def sample_admitted sample_unseen sample_sourced sample_validated
        sample_committed sample_served_def)
qed

lemma sample_row_id: "m_id sample_memory_row = MemoryId [9]"
  by (simp add: sample_memory_row_def drafted_memory_def attach_entities_def draft_memory_id_def sample_draft_def)

lemma sample_history:
  "memory_history (sv_store sample_served) (MemoryId [9]) = [stamp_memory 1 sample_memory_row]"
  "memory_history (new_store sample_types) i = []"
  by (simp_all add: sample_served_def sample_settled_def memory_history_def new_store_def build_def sample_row_id
      hm_push_def hm_get_def hm_insert_def)

end
