(* ===== verification/Ingest_Writes.thy ===== *)
theory Ingest_Writes
  imports Ingest_Samples
begin

text \<open>
  What the ingest service may write and what it answers: the rows of a settled batch, the
  answers to a resubmission, and the agreement of the dry run with the submission.
\<close>

section \<open>What a request can write\<close>

lemma write_rows_new_memory:
  "x \<in> set (hist_of (s_memories (write_rows xs st)) i) \<Longrightarrow>
     x \<in> set (hist_of (s_memories st) i) \<or> (\<exists>m n. MRow m \<in> set xs \<and> m_id m = i \<and> x = stamp_memory n m)"
proof (induction xs arbitrary: st)
  case (Cons y ys)
  from Cons.IH [of "write_row y st"] Cons.prems consider
      "x \<in> set (hist_of (s_memories (write_row y st)) i)"
    | "\<exists>m n. MRow m \<in> set ys \<and> m_id m = i \<and> x = stamp_memory n m" by auto
  then show ?case
  proof cases
    case 1
    then show ?thesis by (cases y) (auto split: if_splits)
  qed auto
qed simp

lemma upsert_batch_new_memory:
  assumes "upsert_batch h t ms rs st = (r, st')" "x \<in> set (memory_history st' i)"
  shows "x \<in> set (memory_history st i) \<or> (\<exists>m\<in>set ms. \<exists>n. m_id m = i \<and> x = stamp_memory n m)"
  using assms write_rows_new_memory [of x "batch_rows h (s_ontology st) ms rs" st i]
  by (auto simp: upsert_batch_eq memory_history_hist batch_rows_def split: option.splits)

lemma seed_memories:
  assumes "x \<in> set (memory_history (sv_store (seed_similarity_edges env now org rows sv)) i)"
  shows "x \<in> set (memory_history (sv_store sv) i)"
proof -
  have "x \<in> set (memory_history st i)" if "x \<in> set (memory_history (snd (upsert_batch h t [] es st)) i)" for h t es st
    using upsert_batch_new_memory [of h t "[]" es st _ _ x i] that by (metis emptyE list.set(1) prod.collapse)
  with assms show ?thesis unfolding seed_similarity_edges_def Let_def
    by (cases "kind_id (sv_ontology sv) ''SimilarTo''") (simp_all split: if_splits)
qed

text \<open>Loaded targets: current rows of the store, each under its id.\<close>

definition loaded_ok :: "(memory_id, memory) hmap \<Rightarrow> memory list \<Rightarrow> bool" where
  "loaded_ok l ms \<longleftrightarrow> hm_ok l \<and> (\<forall>k m. (k, m) \<in> set l \<longrightarrow> k = m_id m \<and> m \<in> set ms)"

lemma hm_insert_set: "set (hm_insert k v m) \<subseteq> insert (k, v) (set m)"
  by (induction m) (auto simp: hm_insert_def)

lemma loaded_ok_insert: "loaded_ok l ms \<Longrightarrow> m \<in> set ms \<Longrightarrow> loaded_ok (hm_insert (m_id m) m l) ms"
  unfolding loaded_ok_def using hm_insert_set [of "m_id m" m l] by auto

lemma loaded_ok_fold:
  "set ns \<subseteq> set ms \<Longrightarrow> loaded_ok l ms \<Longrightarrow> loaded_ok (fold (\<lambda>m. hm_insert (m_id m) m) ns l) ms"
  by (induction ns arbitrary: l) (auto simp: loaded_ok_insert)

lemma loaded_ok_rows: "loaded_ok (fold (\<lambda>m. hm_insert (m_id m) m) ms []) ms"
  by (rule loaded_ok_fold) (auto simp: loaded_ok_def)

lemma loaded_ok_get: "loaded_ok l ms \<Longrightarrow> hm_get l k = Some m \<longleftrightarrow> m \<in> set (hm_values l) \<and> m_id m = k"
  unfolding loaded_ok_def hm_get_def hm_values_def hm_ok_def
  by (auto dest: map_of_SomeD simp: image_iff intro!: map_of_is_SomeI bexI [of _ "(m_id m, m)"])

lemma current_row:
  assumes "store_ok st" "m \<in> set (current_rows st ids)"
  shows "last_opt (memory_history st (m_id m)) = Some m"
proof -
  from assms(2) obtain i h where h: "hm_get (s_memories st) i = Some h" "last_opt h = Some m"
    by (auto simp: current_rows_def map_filter_def split: option.splits bind_splits)
  then have "m \<in> set h" by (auto simp: last_opt_def split: if_splits list.splits)
  with h assms(1) have "m_id m = i"
    by (auto simp: store_ok_def graph_ok_def rows_ok_def hist_of_def split: option.splits)
  with h show ?thesis by (simp add: memory_history_hist hist_of_def)
qed

lemma embed_memories_mem: "m \<in> set (embed_memories e ms) \<Longrightarrow> \<exists>m0\<in>set ms. \<exists>v. m = m0\<lparr>m_embedding := v\<rparr>"
proof -
  have same: "\<exists>m0\<in>set ms. \<exists>v. m = m0\<lparr>m_embedding := v\<rparr>" if "m \<in> set ms"
    by (rule bexI [OF _ that], rule exI [of _ "m_embedding m"]) simp
  assume "m \<in> set (embed_memories e ms)"
  then consider "m \<in> set ms" | vectors where "m \<in> set (stamp_embeddings e vectors ms)"
    by (auto simp: embed_memories_def split: if_splits sum.splits)
  then show ?thesis
  proof cases
    case 1
    then show ?thesis by (rule same)
  next
    case (2 vectors)
    then have "(\<exists>m0 v. (m0, v) \<in> set (zip ms vectors) \<and> (\<exists>w. m = m0\<lparr>m_embedding := w\<rparr>)) \<or> m \<in> set ms"
      by (auto simp: stamp_embeddings_def Let_def dest: in_set_dropD)
    then show ?thesis by (elim disjE exE conjE) (auto dest: set_zip_leftD intro: same)
  qed
qed

lemma embed_memories_length: "length (embed_memories e ms) = length ms"
  by (auto simp: embed_memories_def stamp_embeddings_def Let_def split: sum.splits)

lemma embed_memories_ids: "map m_id (embed_memories e ms) = map m_id ms"
proof -
  have "map m_id (stamp_embeddings e vectors ms) = map m_id ms" if "length vectors = length ms" for vectors
    using that by (induction vectors ms rule: list_induct2) (simp_all add: stamp_embeddings_def Let_def)
  then show ?thesis by (auto simp: embed_memories_def embed_texts_def split: sum.splits option.splits if_splits)
qed

lemma row_authorised_cong [simp]:
  "row_authorised rules source who (m\<lparr>m_embedding := v\<rparr>) = row_authorised rules source who m"
  "row_authorised rules source who (m\<lparr>m_confidence := c\<rparr>) = row_authorised rules source who m"
  "row_authorised rules source who (stamp_memory n m) = row_authorised rules source who m"
  by (cases who; simp add: row_authorised_def stamp_memory_def)+

lemma lower_confidence_authorised [simp]:
  "row_authorised rules source who (lower_confidence m) = row_authorised rules source who m"
  by (simp add: lower_confidence_def)

text \<open>Where a new memory version can come from.\<close>

definition superseded_row :: "visibility_context option \<Rightarrow> store \<Rightarrow> memory \<Rightarrow> bool" where
  "superseded_row who st m \<longleftrightarrow>
     (\<exists>old. last_opt (memory_history st (m_id m)) = Some old \<and> (\<forall>vc. who = Some vc \<longrightarrow> memory_visible old vc) \<and>
        score_greater (m_confidence old) confidence_floor \<and>
        (\<exists>n. m = stamp_memory n (old\<lparr>m_confidence := confidence_floor\<rparr>)))"

definition grouping_row :: "grouping_rule list \<Rightarrow> source_entry \<Rightarrow> ingest_batch \<Rightarrow> memory \<Rightarrow> bool" where
  "grouping_row rules source batch m \<longleftrightarrow>
     m_provenance m = Derived (''grouping:'' @ se_flavor source) [] \<and>
     (\<exists>rule\<in>set rules. gr_flavor rule = se_flavor source \<and> gr_key_of rule batch \<noteq> None) \<and>
     (ibt_memories batch \<noteq> [] \<longrightarrow> m_visibility m \<le> se_ceiling source) \<and>
     (ibt_memories batch = [] \<longrightarrow> m_visibility m = Project)"

lemma superseded_row_stamp:
  assumes "last_opt (memory_history st (m_id m)) = Some m" "\<forall>vc. who = Some vc \<longrightarrow> memory_visible m vc"
    and "score_greater (m_confidence m) confidence_floor"
  shows "superseded_row who st (stamp_memory n (m\<lparr>m_confidence := confidence_floor\<rparr>))"
  unfolding superseded_row_def using assms by (intro exI [of _ m]) (auto simp: stamp_memory_def)

lemma stale_row_superseded:
  assumes v: "batch_authorised rules source who batch v"
    and l: "loaded_ok (vb_loaded v) (current_rows st ids)" and ok: "store_ok st"
    and ps: "m_id ` set (vb_memories v) = m_id ` set producers"
    and m: "m \<in> set (stale_rows (vb_loaded v) producers (supersession_targets onto (vb_relationships v)))"
  shows "superseded_row who st (stamp_memory n m)"
proof -
  from m obtain t old where t: "t \<in> set (supersession_targets onto (vb_relationships v))"
      "\<forall>p\<in>set producers. m_id p \<noteq> t" "hm_get (vb_loaded v) t = Some old"
      "score_greater (m_confidence old) confidence_floor" "m = old\<lparr>m_confidence := confidence_floor\<rparr>"
    by (auto simp: stale_rows_def map_filter_def list_ex_iff split: if_splits option.splits)
  from t(1) obtain r where r: "r \<in> set (vb_relationships v)" "r_to r = t" by (auto simp: supersession_targets_def)
  from v r(1) obtain f g where "edge_authorised (ir_ontology rules) (se_ceiling source) f g r" and fg:
      "{f, g} \<subseteq> set (vb_memories v) \<union>
        {m\<in>set (hm_values (vb_loaded v)). \<forall>vc. who = Some vc \<longrightarrow> memory_visible m vc}"
    unfolding batch_authorised_def by blast
  then have g: "r_to r = m_id g" by (simp add: edge_authorised_def)
  have "g \<notin> set (vb_memories v)"
  proof
    assume "g \<in> set (vb_memories v)"
    then have "m_id g \<in> m_id ` set producers" using ps by blast
    with g r(2) t(2) show False by auto
  qed
  with fg have gv: "g \<in> set (hm_values (vb_loaded v))" "\<forall>vc. who = Some vc \<longrightarrow> memory_visible g vc" by auto
  then have "hm_get (vb_loaded v) t = Some g" using loaded_ok_get [OF l] g r(2) by simp
  with t(3) have old: "old = g" by simp
  from gv(1) l have "g \<in> set (current_rows st ids)" by (auto simp: loaded_ok_def hm_values_def)
  from superseded_row_stamp [OF current_row [OF ok this] gv(2)] t(4,5) show ?thesis by (simp add: old)
qed

lemma scoped_node_visibility:
  assumes "producers \<noteq> []"
  shows "m_visibility (scoped_node producers node) \<in> m_visibility ` set producers"
proof (cases "narrowest_visibility (map m_visibility producers)")
  case None
  with assms show ?thesis by (cases producers) (simp_all add: scoped_node_def)
next
  case (Some v)
  then have "v \<in> m_visibility ` set producers" using narrowest_visibility_Some by fastforce
  with Some assms show ?thesis by (cases producers) (simp_all add: scoped_node_def del: narrowest_visibility.simps)
qed

lemma scoped_node_provenance [simp]: "m_provenance (scoped_node producers node) = m_provenance node"
  by (cases producers) (simp_all add: scoped_node_def)

lemma grouping_row_stamp:
  assumes m: "m \<in> set (fst (materialize_grouping env sv now batch (se_flavor source) producers))"
    and ps: "\<forall>p\<in>set producers. m_visibility p \<le> se_ceiling source" "length producers = length (ibt_memories batch)"
  shows "grouping_row (sv_grouping_rules sv) source batch (stamp_memory n m)"
proof -
  from m obtain rule key node where g: "grouping_key batch (se_flavor source) (sv_grouping_rules sv) = Some (rule, key)"
      "grouping_node env (sv_ontology sv) (ibt_org_id batch) rule key now = Some node" "m = scoped_node producers node"
    by (auto simp: materialize_grouping_def Let_def split: option.splits prod.splits)
  from g(1) have "gr_key_of rule batch = Some key" "gr_flavor rule = se_flavor source" "rule \<in> set (sv_grouping_rules sv)"
    by (auto simp: grouping_key_def find_Some_iff split: option.splits)
  moreover from g(2) have "m_provenance node = Derived (''grouping:'' @ gr_flavor rule) []" "m_visibility node = Project"
    by (auto simp: grouping_node_def)
  moreover have "m_visibility m \<le> se_ceiling source" if "ibt_memories batch \<noteq> []"
  proof -
    from that ps(2) have "producers \<noteq> []" by auto
    from scoped_node_visibility [OF this, of node] ps(1) g(3) show ?thesis by auto
  qed
  moreover have "m = node" if "ibt_memories batch = []" using that ps g(3) by (simp add: scoped_node_def)
  ultimately show ?thesis using g(3) by (auto simp: grouping_row_def stamp_memory_def)
qed

lemma producers_of_rows:
  fixes sv :: "('c, 'd) ingest_server"
  assumes v: "batch_authorised rules source who batch v" and ps: "ps = cw_producer_memories (rows_of env sv now batch source v)"
  shows "\<forall>m\<in>set ps. row_authorised rules source who m" "length ps = length (ibt_memories batch)"
    "m_id ` set ps = m_id ` set (vb_memories v)"
proof -
  let ?e = "embed_memories (sv_embedder sv) (vb_memories v)"
  let ?ts = "supersession_targets (sv_ontology sv) (vb_relationships v)"
  have eq: "ps = map (\<lambda>m. if m_id m \<in> set ?ts then lower_confidence m else m) ?e"
    by (simp add: ps rows_of_def materialize_commit_rows_def Let_def split: prod.split)
  have e: "row_authorised rules source who m" if "m \<in> set ?e" for m
    using embed_memories_mem [OF that] v by (auto simp: batch_authorised_def)
  then show "\<forall>m\<in>set ps. row_authorised rules source who m" by (auto simp: eq)
  show "length ps = length (ibt_memories batch)"
    using v by (simp add: eq embed_memories_length batch_authorised_def)
  have "map m_id ps = map m_id ?e" by (auto simp: eq lower_confidence_def)
  moreover have "map m_id ?e = map m_id (vb_memories v)" by (rule embed_memories_ids)
  ultimately show "m_id ` set ps = m_id ` set (vb_memories v)" by (metis list.set_map)
qed

lemma row_of_batch:
  assumes v: "batch_authorised (rules_of sv) source who batch v"
    and l: "loaded_ok (vb_loaded v) (current_rows st ids)" and ok: "store_ok st"
    and m: "m \<in> set (cw_memories (rows_of env sv now batch source v))"
  shows "row_authorised (rules_of sv) source who (stamp_memory n m) \<or> superseded_row who st (stamp_memory n m) \<or>
         grouping_row (sv_grouping_rules sv) source batch (stamp_memory n m)"
proof -
  define ps where ps: "ps = cw_producer_memories (rows_of env sv now batch source v)"
  note auth = producers_of_rows [OF v ps]
  have "cw_memories (rows_of env sv now batch source v) =
      ps @ stale_rows (vb_loaded v) ps (supersession_targets (sv_ontology sv) (vb_relationships v))
         @ fst (materialize_grouping env sv now batch (se_flavor source) ps)"
    by (simp add: ps rows_of_def materialize_commit_rows_def Let_def split: prod.split)
  with m consider "m \<in> set ps"
    | "m \<in> set (stale_rows (vb_loaded v) ps (supersession_targets (sv_ontology sv) (vb_relationships v)))"
    | "m \<in> set (fst (materialize_grouping env sv now batch (se_flavor source) ps))" by auto
  then show ?thesis
  proof cases
    case 1
    then show ?thesis using auth(1) by simp
  next
    case 2
    then show ?thesis using stale_row_superseded [OF v l ok auth(3) [symmetric] 2] by blast
  next
    case 3
    have "\<forall>p\<in>set ps. m_visibility p \<le> se_ceiling source" using auth(1) by (auto simp: row_authorised_def)
    from grouping_row_stamp [OF 3 this auth(2)] show ?thesis by blast
  qed
qed

lemma validate_batch_targets:
  assumes "validate_batch env now fresh batch source who sv = (Inr (Inr v), sv')"
  shows "loaded_ok (vb_loaded v)
           (current_rows (sv_store sv) (sort_dedup (map (\<lambda>(_, _, i). i) (external_targets batch))))"
  using assms
proof (rule validate_batch_loaded)
  assume "vb_loaded v = fold (\<lambda>m. hm_insert (m_id m) m)
    (current_rows (sv_store sv) (sort_dedup (map (\<lambda>(_, _, i). i) (external_targets batch)))) []"
  then show ?thesis by (simp only: loaded_ok_rows)
qed

lemma settle_history [simp]: "memory_history (settle k s e st) i = memory_history st i"
  by (simp add: memory_history_def)

text \<open>
  C6: No request writes more than its signature, its source and its principal allow. A memory
  version that a submission adds to the store belongs to a batch that passed admission (producer
  key, resource limits, signature, checksum, ontology, organisation), whose source is registered
  with the ceiling the batch declares, and whose key had not been settled. The version is a draft
  within the ceiling of the source and the membership of the principal, stamped with the
  principal's organisation and user; or the current version of an existing memory the principal
  can see, with only its confidence lowered to the floor; or the grouping node of the source,
  within the ceiling whenever the batch carries a memory.\<close>

theorem submit_authorised:
  assumes ok: "server_ok rg sv" and run: "submit env rg now fresh clock who batch sv = (res, sv')"
    and new: "x \<in> set (memory_history (sv_store sv') i)" "x \<notin> set (memory_history (sv_store sv) i)"
  shows "admit_batch env sv batch = Inr () \<and> \<not> foreign_org who batch \<and>
    hm_get (s_settled_ingest (sv_store sv)) (batch_key_of batch) = None \<and>
    (\<exists>source. lru_peek (rg_sources rg) (source_key_of batch) (sv_sources sv) = Some source \<and>
       vis_from_i32 (ibt_ceiling batch) = Inr (se_ceiling source) \<and>
       (row_authorised (rules_of sv) source who x \<or> superseded_row who (sv_store sv) x \<or>
        grouping_row (sv_grouping_rules sv) source batch x))"
  using run
proof (cases rule: submit_cases)
  case refused
  with new show ?thesis using browsed_frame(1) [OF refused(1)] by (simp add: quiet_frame)
next
  case (replayed remembered)
  with new show ?thesis using browsed_frame(1) [OF replayed(1)] by (simp add: quiet_frame)
next
  case (committing source v sv2 sv3)
  note b2 = browsed_frame [OF committing(1)] and b3 = browsed_frame [OF committing(2)]
  note q3 = quiet_frame [OF b3(1)] and q2 = quiet_frame [OF b2(1)]
  have laws: "lru_laws (rg_sources rg)" using ok by (simp add: server_ok_def registry_laws_def)
  from committing(6) have src: "lru_peek (rg_sources rg) (source_key_of batch) (sv_sources sv) = Some source"
      "vis_from_i32 (ibt_ceiling batch) = Inr (se_ceiling source)"
    using lru_lawsD(1) [OF laws]
    by (auto simp: source_verdict_def result_Inr split: sum.splits if_splits option.splits)
  note v = validate_batch_authorised [OF committing(7)]
  have st2: "store_ok (sv_store sv2)" using ok b2(1) by (simp add: server_ok_def store_ok_quiet)
  note l = validate_batch_targets [OF committing(7)]
  from committing(8) show ?thesis
  proof (cases rule: commit_validated_cases)
    case (failed e st)
    with new show ?thesis using q3 quiet_frame [OF failed(3)] by simp
  next
    case (duplicate s st)
    with new show ?thesis using q3 quiet_frame [OF duplicate(2)] by simp
  next
    case (committed ack t recs st0 st1 st2)
    from committed(7) new(1) have "x \<in> set (memory_history st2 i)" using seed_memories by fastforce
    then have "x \<in> set (memory_history st1 i)" by (simp add: committed(5))
    moreover have "memory_history st0 i = memory_history (sv_store sv) i"
      using q3(10) quiet_frame(10) [OF committed(2)] by simp
    ultimately obtain m n where m: "m \<in> set (cw_memories (rows_of env sv3 now batch source v))" "x = stamp_memory n m"
      using upsert_batch_new_memory [OF committed(4), of x i] new(2) by metis
    have "row_authorised (rules_of sv3) source who x \<or> superseded_row who (sv_store sv2) x \<or>
        grouping_row (sv_grouping_rules sv3) source batch x"
      unfolding m(2) using v b2(3) b3(3) by (intro row_of_batch [OF _ l st2 m(1)]) simp
    moreover have "superseded_row who (sv_store sv2) x = superseded_row who (sv_store sv) x"
      by (simp add: superseded_row_def q2)
    moreover have "hm_get (s_settled_ingest (sv_store sv)) (batch_key_of batch) = None"
      using committed(3) q3(5) by simp
    ultimately show ?thesis unfolding b3(3,7) using src committing(3,4) by blast
  qed
qed

theorem submit_authorised_witness:
  "memory_history (sv_store (snd (sample_submit sample_serving))) (MemoryId [9]) = [stamp_memory 1 sample_memory_row] \<and>
   admit_batch sample_env sample_serving sample_batch = Inr () \<and>
   (\<exists>source. lru_peek (rg_sources sample_registries) (source_key_of sample_batch) (sv_sources sample_serving) = Some source \<and>
      row_authorised (rules_of sample_serving) source (Some sample_principal) (stamp_memory 1 sample_memory_row))"
  using submit_authorised [OF sample_serving_ok sample_submitted, of "stamp_memory 1 sample_memory_row" "MemoryId [9]"]
  by (auto simp: sample_history sample_submitted superseded_row_def grouping_row_def)

section \<open>Resubmission\<close>

lemma remember_ack_seen:
  "sv_seen_batches (remember_ack rg batch ack sv) = lru_put (rg_seen rg) (seen_key_of batch) ack (sv_seen_batches sv)"
  by (simp add: remember_ack_def)

lemma submit_settles:
  assumes "server_ok rg sv" "submit env rg now fresh clock who batch sv = (res, sv')"
    and "hm_get (s_settled_ingest (sv_store sv)) (batch_key_of batch) = None"
    and "hm_get (s_settled_ingest (sv_store sv')) (batch_key_of batch) = Some s"
  shows "\<exists>ack. res = Inr ack \<and> ak_accepted ack = sb_accepted s \<and> ak_rejected ack = sb_rejected s \<and>
           ak_assigned_lsn ack = sb_assigned_lsn s \<and> ak_rejections ack = []"
  using assms(2)
proof (cases rule: submit_cases)
  case refused
  with assms show ?thesis using browsed_frame(1) [OF refused(1)] by (simp add: quiet_frame)
next
  case (replayed remembered)
  with assms show ?thesis using browsed_frame(1) [OF replayed(1)] by (simp add: quiet_frame)
next
  case (committing source v sv2 sv3)
  note q3 = quiet_frame [OF browsed_frame(1) [OF committing(2)]]
  from committing(8) show ?thesis
  proof (cases rule: commit_validated_cases)
    case (failed e st)
    with assms show ?thesis using q3 quiet_frame [OF failed(3)] by simp
  next
    case (duplicate s st)
    with assms show ?thesis using q3 by simp
  next
    case (committed ack t recs st0 st1 st2)
    have "s_settled_ingest (sv_store sv') = s_settled_ingest st2" using committed(7) by auto
    moreover have "hm_ok (s_settled_ingest st1)"
    proof -
      have "hm_ok (s_settled_ingest st0)" using assms(1) q3 quiet_frame [OF committed(2)]
        by (simp add: server_ok_def store_ok_def tables_ok_def queue_ok_def)
      moreover have "s_settled_ingest st1 = s_settled_ingest st0" using committed(4) by (rule upsert_batch_frame)
      ultimately show ?thesis by simp
    qed
    ultimately have "s = settlement (cw_accepted (rows_of env sv3 now batch source v)) recs"
      using assms(4) committed(5) by simp
    then show ?thesis using committed(1,6) by (simp add: settlement_def finish_commit_def Let_def split: prod.splits)
  qed
qed

lemma resubmit_quiet:
  assumes ok: "server_ok rg sv" and run: "submit env rg now fresh clock who batch sv = (res, sv')"
    and settled: "hm_get (s_settled_ingest (sv_store sv)) (batch_key_of batch) = Some s"
  shows "quiet (sv_store sv) (sv_store sv')"
    and "res = Inr ack \<Longrightarrow> replay_row \<in> set (ak_rejections ack) \<Longrightarrow>
      ak_accepted ack = sb_accepted s \<and> ak_rejected ack = sb_rejected s \<and> ak_assigned_lsn ack = sb_assigned_lsn s \<and>
      ak_rejections ack = [replay_row]"
proof -
  have "quiet (sv_store sv) (sv_store sv') \<and> (\<forall>ack. res = Inr ack \<longrightarrow> replay_row \<in> set (ak_rejections ack) \<longrightarrow>
      ak_accepted ack = sb_accepted s \<and> ak_rejected ack = sb_rejected s \<and> ak_assigned_lsn ack = sb_assigned_lsn s \<and>
      ak_rejections ack = [replay_row])"
    using run
  proof (cases rule: submit_cases)
    case refused
    then show ?thesis using browsed_frame(1) refusal_not_replay by blast
  next
    case (replayed remembered)
    have "lru_laws (rg_seen rg)" using ok by (simp add: server_ok_def registry_laws_def)
    with replayed(3) have "lru_peek (rg_seen rg) (seen_key_of batch) (sv_seen_batches sv) = Some remembered"
      by (simp add: lru_lawsD)
    with ok settled have "ak_accepted remembered = sb_accepted s \<and> ak_rejected remembered = sb_rejected s \<and>
        ak_assigned_lsn remembered = sb_assigned_lsn s"
      by (fastforce simp: server_ok_def seen_ok_def batch_key_of_def)
    with replayed show ?thesis using browsed_frame(1) [OF replayed(1)] by simp
  next
    case (committing source v sv2 sv3)
    note q3 = browsed_frame(1) [OF committing(2)]
    from committing(8) show ?thesis
    proof (cases rule: commit_validated_cases)
      case (failed e st)
      then show ?thesis using quiet_trans [OF q3] by simp
    next
      case (duplicate s' st)
      then show ?thesis using settled quiet_frame(5) [OF q3] quiet_trans [OF q3] by (simp add: duplicate_ack_def)
    next
      case committed
      then show ?thesis using settled quiet_frame(5) [OF q3] by simp
    qed
  qed
  then show "quiet (sv_store sv) (sv_store sv')"
    and "res = Inr ack \<Longrightarrow> replay_row \<in> set (ak_rejections ack) \<Longrightarrow>
      ak_accepted ack = sb_accepted s \<and> ak_rejected ack = sb_rejected s \<and> ak_assigned_lsn ack = sb_assigned_lsn s \<and>
      ak_rejections ack = [replay_row]" by blast+
qed

text \<open>
  C7: A batch takes effect once. When a submission settles a fresh batch key, its acknowledgement
  reports the settlement and no rejection; and after any further run of the service (other
  submissions, dry runs, registrations, evictions from the caches, backend work) another
  submission under the same organisation, producer and batch id changes nothing in the store but
  the failure switches of the test harness: it is refused for a reason of its own, or fails, or
  answers with the one replay row and the very counts and log position of the first
  acknowledgement.\<close>

theorem submit_exactly_once:
  assumes "server_ok rg sv" "submit env rg now fresh clock who batch sv = (res, sv1)"
    and "hm_get (s_settled_ingest (sv_store sv)) (batch_key_of batch) = None"
    and "hm_get (s_settled_ingest (sv_store sv1)) (batch_key_of batch) \<noteq> None"
    and "(service_step env rg digest json)\<^sup>*\<^sup>* sv1 sv2"
    and "batch_key_of batch2 = batch_key_of batch" "submit env rg now2 fresh2 clock2 who2 batch2 sv2 = (res2, sv3)"
  shows "\<exists>ack. res = Inr ack \<and> ak_rejections ack = [] \<and> quiet (sv_store sv2) (sv_store sv3) \<and>
    (\<forall>ack2. res2 = Inr ack2 \<longrightarrow> replay_row \<in> set (ak_rejections ack2) \<longrightarrow>
       ak_rejections ack2 = [replay_row] \<and> ak_accepted ack2 = ak_accepted ack \<and> ak_rejected ack2 = ak_rejected ack \<and>
       ak_assigned_lsn ack2 = ak_assigned_lsn ack)"
proof -
  from assms(4) obtain s where s: "hm_get (s_settled_ingest (sv_store sv1)) (batch_key_of batch) = Some s" by blast
  have ok1: "server_ok rg sv1" using server_ok_submit [OF assms(1)] assms(2) by (metis snd_conv)
  have ok2: "server_ok rg sv2" by (rule service.run_ok [OF assms(5) ok1])
  have "hm_get (s_settled_ingest (sv_store sv2)) (batch_key_of batch2) = Some s"
    using service.run_kept [OF assms(5) ok1] s by (simp add: kept_def assms(6))
  note again = resubmit_quiet [OF ok2 assms(7) this]
  from submit_settles [OF assms(1,2,3) s] again show ?thesis by (metis (no_types, lifting))
qed

theorem submit_exactly_once_witness:
  "\<exists>ack. fst (sample_submit sample_serving) = Inr ack \<and> ak_rejections ack = [] \<and>
     quiet (sv_store sample_served) (sv_store (snd (sample_submit sample_served)))"
proof -
  have "hm_get (s_settled_ingest (sv_store sample_serving)) (batch_key_of sample_batch) = None"
    by (simp add: new_store_def build_def)
  moreover have "hm_get (s_settled_ingest (sv_store sample_served)) (batch_key_of sample_batch) \<noteq> None"
    by (simp add: sample_served_def sample_settled_def new_store_def build_def hm_insert_def hm_get_def)
  moreover obtain res2 sv3 where "sample_submit sample_served = (res2, sv3)" by (cases "sample_submit sample_served")
  ultimately show ?thesis
    using submit_exactly_once [OF sample_serving_ok sample_submitted _ _ rtranclp.rtrancl_refl refl] sample_submitted by auto
qed

section \<open>The dry run\<close>

lemma validate_batch_seen:
  "validate_batch env now fresh batch source who (sv\<lparr>sv_seen_batches := c\<rparr>) =
     map_prod (\<lambda>r. r) (\<lambda>sv'. sv'\<lparr>sv_seen_batches := c\<rparr>) (validate_batch env now fresh batch source who sv)"
proof -
  have "rules_of (sv\<lparr>sv_seen_batches := c\<rparr>) = rules_of sv" by (simp add: rules_of_def)
  moreover have "validate_edges env (sv\<lparr>sv_seen_batches := c, sv_store := st\<rparr>) batch source at ids =
      validate_edges env (sv\<lparr>sv_store := st\<rparr>) batch source at ids" for st at ids
    by (simp add: validate_edges_def)
  ultimately show ?thesis
    by (simp add: validate_batch_def Let_def split: sum.split prod.split)
qed

lemma registered_source_seen:
  "registered_source rg batch (sv\<lparr>sv_seen_batches := c\<rparr>) =
     map_prod (\<lambda>r. r) (\<lambda>sv'. sv'\<lparr>sv_seen_batches := c\<rparr>) (registered_source rg batch sv)"
  using source_verdict_cong [of "sv\<lparr>sv_seen_batches := c\<rparr>" sv]
  by (simp add: registered_source_eq)

definition dry_run_ack :: "ingest_batch \<Rightarrow> validated_batch \<Rightarrow> ingest_ack" where
  "dry_run_ack batch v =
     \<lparr>ak_batch_id = ibt_batch_id batch, ak_accepted = word_of_nat (length (vb_memories v) + length (vb_relationships v)),
      ak_rejected = 0, ak_rejections = [], ak_assigned_lsn = 0, ak_similar_to = []\<rparr>"

lemma commit_answer:
  assumes "commit_validated env rg now clock batch source v sv = (res, sv')"
  shows "(\<exists>e. res = Inl e) \<or>
    (\<exists>s. hm_get (s_settled_ingest (sv_store sv)) (batch_key_of batch) = Some s \<and> res = Inr (duplicate_ack batch s)) \<or>
    (\<exists>ack. res = Inr ack \<and> ak_accepted ack = ak_accepted (dry_run_ack batch v) \<and> ak_rejections ack = [])"
  using assms
proof (cases rule: commit_validated_cases)
  case (committed ack)
  have "cw_accepted (rows_of env sv now batch source v) = ak_accepted (dry_run_ack batch v)"
    by (simp add: rows_of_def materialize_commit_rows_def dry_run_ack_def embed_memories_length Let_def split: prod.split)
  with committed(1,6) show ?thesis by (simp add: finish_commit_def Let_def split: prod.splits)
qed auto

text \<open>
  C9: The dry run tells the truth. For a batch of the caller's own organisation that the
  acknowledgement cache does not hold, a preflight writes nothing, and it answers exactly what the
  submission of the same batch at the same moment answers, with one exception: where it announces acceptance of the batch, the submission goes on
  to the commit, and there it fails in storage, or finds the batch settled already and replays
  that settlement, or accepts exactly the announced number of rows without a rejection.\<close>

theorem preflight_agrees:
  assumes "registry_laws rg" "lru_peek (rg_seen rg) (seen_key_of batch) (sv_seen_batches sv) = None"
    and "\<not> foreign_org who batch"
    and pre: "preflight env rg now fresh who batch sv = (pre, sv1)"
    and sub: "submit env rg now fresh clock who batch sv = (res, sv2)"
  shows "quiet (sv_store sv) (sv_store sv1) \<and>
    (pre = res \<or>
     (\<exists>v. pre = Inr (dry_run_ack batch v) \<and>
       ((\<exists>e. res = Inl e) \<or>
        (\<exists>s. hm_get (s_settled_ingest (sv_store sv)) (batch_key_of batch) = Some s \<and> res = Inr (duplicate_ack batch s)) \<or>
        (\<exists>ack. res = Inr ack \<and> ak_accepted ack = ak_accepted (dry_run_ack batch v) \<and> ak_rejections ack = []))))"
proof (intro conjI)
  define c where "c = snd (lru_get (rg_seen rg) (seen_key_of batch) (sv_seen_batches sv))"
  have unseen: "replay_ack rg batch sv = (None, sv\<lparr>sv_seen_batches := c\<rparr>)"
    using assms(1,2) by (simp add: replay_ack_eq c_def registry_laws_def lru_lawsD)
  obtain r2 sv3 where r2: "registered_source rg batch sv = (r2, sv3)" by (cases "registered_source rg batch sv")
  note b3 = browsed_registered [of rg sv batch, unfolded r2 snd_conv]
  show "quiet (sv_store sv) (sv_store sv1)" using pre r2 browsed_frame(1) [OF b3] quiet_trans
    browsed_frame(1) [OF browsed_validate]
    unfolding preflight_def preflight_batch_def
    by (auto split: sum.splits if_splits prod.splits) (blast intro: quiet_trans)+
  show "pre = res \<or> (\<exists>v. pre = Inr (dry_run_ack batch v) \<and>
       ((\<exists>e. res = Inl e) \<or>
        (\<exists>s. hm_get (s_settled_ingest (sv_store sv)) (batch_key_of batch) = Some s \<and> res = Inr (duplicate_ack batch s)) \<or>
        (\<exists>ack. res = Inr ack \<and> ak_accepted ack = ak_accepted (dry_run_ack batch v) \<and> ak_rejections ack = [])))"
  proof (cases "\<exists>source v sv4. request_principal sv who = Inr who \<and> admit_batch env sv batch = Inr () \<and> r2 = Inr source \<and>
      validate_batch env now fresh batch source who sv3 = (Inr (Inr v), sv4)")
    case True
    then obtain source v sv4 where ok: "request_principal sv who = Inr who" "admit_batch env sv batch = Inr ()" "r2 = Inr source"
      "validate_batch env now fresh batch source who sv3 = (Inr (Inr v), sv4)" by blast
    from ok pre r2 assms(3) have "pre = Inr (dry_run_ack batch v)"
      by (simp add: preflight_def preflight_batch_def dry_run_ack_def)
    moreover from ok sub r2 assms(3) unseen
    have "commit_validated env rg now clock batch source v (sv4\<lparr>sv_seen_batches := c\<rparr>) = (res, sv2)"
      by (simp add: submit_def registered_source_seen validate_batch_seen)
    moreover have "s_settled_ingest (sv_store sv4) = s_settled_ingest (sv_store sv)"
      using browsed_frame(1) [OF b3] browsed_frame(1) [OF browsed_validate [OF ok(4)]] by (simp add: quiet_frame)
    ultimately show ?thesis using commit_answer [of env rg now clock batch source v "sv4\<lparr>sv_seen_batches := c\<rparr>" res sv2]
      by (intro disjI2 exI [of _ v]) simp
  next
    case False
    then have "pre = res" using pre sub r2 unseen assms(3)
      by (auto simp: preflight_def preflight_batch_def submit_def registered_source_seen validate_batch_seen
          dest: request_principal_Inr split: sum.splits prod.splits)
    then show ?thesis ..
  qed
qed

theorem preflight_agrees_witness:
  "fst (preflight sample_env sample_registries 5 (\<lambda>_. MemoryId [9]) (Some sample_principal) sample_batch sample_serving) =
     Inr (sample_ack\<lparr>ak_assigned_lsn := 0\<rparr>) \<and>
   quiet (new_store sample_types) (sv_store (snd (preflight sample_env sample_registries 5 (\<lambda>_. MemoryId [9])
     (Some sample_principal) sample_batch sample_serving)))"
proof -
  have own: "\<not> foreign_org (Some sample_principal) sample_batch"
    by (simp add: foreign_org_def is_some_and_def sample_principal_def)
  have run: "preflight sample_env sample_registries 5 (\<lambda>_. MemoryId [9]) (Some sample_principal) sample_batch sample_serving =
      (Inr (sample_ack\<lparr>ak_assigned_lsn := 0\<rparr>), sample_serving)"
    by (simp add: preflight_def preflight_batch_def request_principal_def own sample_admitted sample_sourced
        sample_validated sample_ack_def)
  have "registry_laws sample_registries" by (simp add: registry_laws_def sample_registries_def list_lru_laws)
  moreover have "lru_peek (rg_seen sample_registries) (seen_key_of sample_batch) (sv_seen_batches sample_serving) = None"
    by (simp add: sample_registries_def list_lru_def hm_get_def)
  ultimately show ?thesis using preflight_agrees [OF _ _ own run sample_submitted] run by simp
qed

section \<open>The server through its life\<close>

text \<open>
  C10: The service keeps its invariant. From a server that starts on a freshly built store with empty
  memories, every run of submissions, dry runs, registrations and backend operations leads to a
  server whose store is well formed, whose cache of acknowledgements says of every key what the
  store has settled for it, whose ring of recent embeddings holds at most 512 entries, and whose
  snapshot history holds at most 16 snapshots per source.\<close>

theorem server_invariant:
  assumes "initial_server rg sv" "(service_step env rg digest json)\<^sup>*\<^sup>* sv sv'"
  shows "store_ok (sv_store sv') \<and> seen_ok rg (sv_seen_batches sv') (sv_store sv') \<and>
    length (sv_recent sv') \<le> 512 \<and> (\<forall>k. length (hist_of (sv_seen_snapshots sv') k) \<le> 16)"
  using service.reach_ok [OF assms] by (simp add: server_ok_def RECENT_RING_LEN_def SNAPSHOT_HISTORY_def)

theorem server_invariant_witness:
  "store_ok (sv_store sample_served) \<and> seen_ok sample_registries (sv_seen_batches sample_served) (sv_store sample_served)"
proof -
  have "initial_server sample_registries sample_serving" by (rule sample_serving_initial)
  moreover have "(service_step sample_env sample_registries id (\<lambda>_. Inr []))\<^sup>*\<^sup>* sample_serving sample_served"
    using sv_submit [of sample_env sample_registries id "\<lambda>_. Inr []" sample_serving 5 "\<lambda>_. MemoryId [9]" "\<lambda>_. 5"
        "Some sample_principal" sample_batch] sample_submitted by auto
  ultimately show ?thesis using server_invariant by blast
qed

text \<open>The first \<open>k\<close> of \<open>n\<close> attempts fail transiently.\<close>

primrec transient_run ::
    "ingest_env \<Rightarrow> (nat \<Rightarrow> store \<Rightarrow> 'a outcome) \<Rightarrow> nat \<Rightarrow> nat \<Rightarrow> store \<Rightarrow> store \<Rightarrow> bool" where
  "transient_run env call n 0 st st' = (st' = st)"
| "transient_run env call n (Suc k) st st' =
     (0 < n \<and> (\<exists>e st1. call (n - 1) st = (Inl e, st1) \<and> transient_error env e \<and> transient_run env call (n - 1) k st1 st'))"

text \<open>How the attempts after \<open>k\<close> transient failures end.\<close>

definition retry_outcome ::
    "ingest_env \<Rightarrow> (nat \<Rightarrow> store \<Rightarrow> 'a outcome) \<Rightarrow> nat \<Rightarrow> store \<Rightarrow> (grpc_status + 'a) \<times> store \<Rightarrow> bool" where
  "retry_outcome env call left st result \<longleftrightarrow>
     (case result of
        (Inr v, st') \<Rightarrow> 0 < left \<and> call (left - 1) st = (Inr v, st')
      | (Inl e, st') \<Rightarrow> e = InternalStatus ''internal storage error'' \<and>
          (left = 0 \<and> st' = st \<or>
           0 < left \<and> (\<exists>cause. call (left - 1) st = (Inl cause, st') \<and> \<not> transient_error env cause)))"

text \<open>
  C13: Storage calls are retried and the retries end. A call that is tried at most \<open>n\<close> times returns: the
  answer is the first success, which is reached after only transient failures, or an internal error
  that hides the text of the failure, and then either all attempts failed transiently or the last
  attempt failed for good.\<close>

theorem storage_retry_ends:
  "\<exists>k st1. k \<le> n \<and> transient_run env call n k st st1 \<and> retry_outcome env call (n - k) st1 (storage_retry env n call st)"
proof (induction n arbitrary: st)
  case 0
  show ?case by (simp add: retry_outcome_def)
next
  case (Suc n)
  obtain r st1 where c: "call n st = (r, st1)" by (cases "call n st")
  show ?case
  proof (cases "\<exists>e. r = Inl e \<and> transient_error env e")
    case True
    then obtain e where e: "r = Inl e" "transient_error env e" by blast
    from Suc.IH [of st1] obtain k st2 where k: "k \<le> n" "transient_run env call n k st1 st2"
      "retry_outcome env call (n - k) st2 (storage_retry env n call st1)" by blast
    have "storage_retry env (Suc n) call st = storage_retry env n call st1" using c e by (cases n) auto
    moreover have "transient_run env call (Suc n) (Suc k) st st2" using c e k by simp
    ultimately show ?thesis using k by (intro exI [of _ "Suc k"] exI [of _ st2]) simp
  next
    case False
    with c show ?thesis by (intro exI [of _ 0] exI [of _ st]) (cases r; simp add: retry_outcome_def)
  qed
qed

section \<open>What a hint discloses\<close>

lemma best_match_mem:
  "best_match env org draft emb ring best = Some (c, e) \<Longrightarrow>
     best = Some (c, e) \<or> e \<in> set ring \<and> comparable e org emb \<and> hint_visible e draft \<and> f32_le SIMILAR_HINT_THRESHOLD c"
proof (induction env org draft emb ring best rule: best_match.induct)
  case (2 env org draft emb e' ring best)
  then show ?case by (auto simp: Let_def split: if_splits)
qed simp

lemma hint_source:
  assumes "hint_for env org ring (key, m) = Some h"
  shows "\<exists>e\<in>set ring. re_org e = org \<and> hint_visible e (m_context m) \<and>
    sh_existing_memory_id h = hex (mid_bytes (re_id e)) \<and> sh_existing_title h = re_title e"
proof -
  from assms obtain emb c e where "m_embedding m = Some emb" "best_match env org (m_context m) emb ring None = Some (c, e)"
      "sh_existing_memory_id h = hex (mid_bytes (re_id e))" "sh_existing_title h = re_title e"
    by (auto simp: hint_for_def split: option.splits)
  then show ?thesis using best_match_mem [of env org "m_context m" emb ring None c e] by (auto simp: comparable_def)
qed

lemma write_rows_asserts_memory:
  "MRow m \<in> set xs \<Longrightarrow> \<exists>n. stamp_memory n m \<in> set (hist_of (s_memories (write_rows xs st)) (m_id m))"
proof (induction xs rule: rev_induct)
  case (snoc x xs)
  show ?case
  proof (cases "x = MRow m")
    case True
    then show ?thesis by auto
  next
    case False
    with snoc obtain n where "stamp_memory n m \<in> set (hist_of (s_memories (write_rows xs st)) (m_id m))" by auto
    then have "stamp_memory n m \<in> set (hist_of (s_memories (write_rows (xs @ [x]) st)) (m_id m))" by (cases x) auto
    then show ?thesis ..
  qed
qed simp

lemma upsert_batch_asserts_memory:
  assumes "upsert_batch h t ms rs st = (Inr recs, st')" "m \<in> set ms"
  shows "\<exists>n. stamp_memory n m \<in> set (memory_history st' (m_id m))"
proof -
  have "MRow m \<in> set (batch_rows h (s_ontology st) ms rs)" using assms(2) by (simp add: batch_rows_def)
  from write_rows_asserts_memory [OF this, of st] assms(1) show ?thesis
    by (auto simp: upsert_batch_eq memory_history_hist split: option.splits)
qed

lemma seed_keeps_memories:
  "x \<in> set (memory_history (sv_store sv) i) \<Longrightarrow> x \<in> set (memory_history (sv_store (seed_similarity_edges env now org rows sv)) i)"
proof -
  have "set (memory_history st i) \<subseteq> set (memory_history (snd (upsert_batch h t [] es st)) i)" for h t es st
    using advances_upsert_batch [of st h t "[]" es]
    by (auto simp: advances_def grows_def memory_history_hist dest: set_mono_prefix)
  then have "x \<in> set (memory_history (snd (upsert_batch h t [] es (sv_store sv))) i)"
    if "x \<in> set (memory_history (sv_store sv) i)" for h t es using that by blast
  then show "x \<in> set (memory_history (sv_store sv) i) \<Longrightarrow> ?thesis"
    by (simp add: seed_similarity_edges_def Let_def split: option.split)
qed

text \<open>The scope a validated draft is stamped with.\<close>

definition stamped_scope :: "ingest_batch \<Rightarrow> visibility_context \<Rightarrow> memory_context \<Rightarrow> bool" where
  "stamped_scope batch p c \<longleftrightarrow>
     c_user_id c = Some (vc_user_id p) \<and> c_project_id c = requested_project batch \<and> c_team_id c = requested_team batch"

lemma validate_memory_scope:
  assumes "validate_memory env rules now fresh batch m snapshot source at (Some p) = Inr row"
  shows "stamped_scope batch p (m_context row)"
proof -
  from assms obtain mt vis scope vf vu where scope: "scope_of rules batch vis (Some p) = Inr scope"
    and row: "row = drafted_memory env rules fresh batch m snapshot source at mt vis scope vf vu"
    unfolding validate_memory_def result_Inr by auto
  have "c_user_id (m_context row) = ds_user_id scope" "c_project_id (m_context row) = ds_project_id scope"
    "c_team_id (m_context row) = ds_team_id scope"
    by (simp_all add: row drafted_memory_def attach_entities_def Let_def)
  with scope show ?thesis by (auto simp: stamped_scope_def scope_of_def split: if_splits)
qed

lemma validated_scope:
  assumes "validate_batch env now fresh batch source (Some p) sv = (Inr (Inr v), sv')"
  shows "\<forall>m\<in>set (vb_memories v). stamped_scope batch p (m_context m)"
  using assms
proof (rule validate_batch_loaded)
  fix at
  assume "vb_memories v = accepted_of (memory_verdicts env (rules_of sv) now fresh batch source at (Some p))"
  then show ?thesis using validate_memory_scope by (fastforce simp: accepted_mem memory_verdicts_def)
qed

lemma producer_scope:
  assumes "\<forall>m\<in>set (vb_memories v). stamped_scope batch p (m_context m)"
    and "m \<in> set (cw_producer_memories (rows_of env sv now batch source v))"
  shows "stamped_scope batch p (m_context m)"
proof -
  let ?e = "embed_memories (sv_embedder sv) (vb_memories v)"
  let ?ts = "supersession_targets (sv_ontology sv) (vb_relationships v)"
  have "cw_producer_memories (rows_of env sv now batch source v) = map (\<lambda>m. if m_id m \<in> set ?ts then lower_confidence m else m) ?e"
    by (simp add: rows_of_def materialize_commit_rows_def Let_def split: prod.split)
  with assms(2) obtain m0 where m0: "m0 \<in> set ?e" "m_context m = m_context m0" by (auto simp: lower_confidence_def)
  from embed_memories_mem [OF m0(1)] m0(2) assms(1) show ?thesis by auto
qed

text \<open>
  A row of the run: committed to the store of a server between the two. Every entry of the hint
  ring of a running service comes from one, committed for the organisation of the entry or, when
  the request carried no principal, for no tenant.
\<close>

definition committed_during ::
    "ingest_env \<Rightarrow> ('c, 'd) registries \<Rightarrow> (byte list \<Rightarrow> byte list) \<Rightarrow> (discovery_record list \<Rightarrow> string + byte list) \<Rightarrow>
     ('c, 'd) ingest_server \<Rightarrow> ('c, 'd) ingest_server \<Rightarrow> memory \<Rightarrow> bool" where
  "committed_during env rg digest json sv0 sv m \<longleftrightarrow>
     (\<exists>sv1 n. (service_step env rg digest json)\<^sup>*\<^sup>* sv0 sv1 \<and> (service_step env rg digest json)\<^sup>*\<^sup>* sv1 sv \<and>
        stamp_memory n m \<in> set (memory_history (sv_store sv1) (m_id m)))"

definition ring_committed ::
    "ingest_env \<Rightarrow> ('c, 'd) registries \<Rightarrow> (byte list \<Rightarrow> byte list) \<Rightarrow> (discovery_record list \<Rightarrow> string + byte list) \<Rightarrow>
     ('c, 'd) ingest_server \<Rightarrow> ('c, 'd) ingest_server \<Rightarrow> recent_embedding \<Rightarrow> bool" where
  "ring_committed env rg digest json sv0 sv e \<longleftrightarrow>
     (\<exists>m. ring_entry env (re_org e) m = Some e \<and> c_tenant_id (m_context m) \<in> {None, Some (re_org e)} \<and>
        committed_during env rg digest json sv0 sv m)"

lemma ring_committed_step:
  "ring_committed env rg digest json sv0 sv e \<Longrightarrow> service_step env rg digest json sv sv' \<Longrightarrow>
     ring_committed env rg digest json sv0 sv' e"
  unfolding ring_committed_def committed_during_def by (meson rtranclp.rtrancl_into_rtrancl)

lemma ring_committed_submit:
  assumes run: "submit env rg now fresh clock who batch sv = (res, sv')"
    and reach: "(service_step env rg digest json)\<^sup>*\<^sup>* sv0 sv" and e: "e \<in> set (sv_recent sv')"
  shows "e \<in> set (sv_recent sv) \<or> ring_committed env rg digest json sv0 sv' e"
  using run
proof (cases rule: submit_cases)
  case (committing source v sv2 sv3)
  have step: "(service_step env rg digest json)\<^sup>*\<^sup>* sv0 sv'"
    using reach sv_submit [of env rg digest json sv now fresh clock who batch] run by (simp add: rtranclp.rtrancl_into_rtrancl)
  have rec: "sv_recent sv3 = sv_recent sv" using browsed_frame(4) [OF committing(2)] .
  from committing(8) show ?thesis
  proof (cases rule: commit_validated_cases)
    case (committed ack t recs st0 st1 st2)
    let ?rows = "rows_of env sv3 now batch source v"
    let ?ps = "cw_producer_memories ?rows"
    from e committed(10) rec consider "e \<in> set (sv_recent sv)"
      | m where "m \<in> set ?ps" "ring_entry env (ibt_org_id batch) m = Some e"
      by (auto simp: similar_to_hints_def admit_ring_def map_filter_def dest!: in_set_dropD set_zip_rightD)
    then show ?thesis
    proof cases
      case (2 m)
      have org: "re_org e = ibt_org_id batch" using 2(2) by (auto simp: ring_entry_def)
      have "batch_authorised (rules_of sv3) source who batch v"
        using validate_batch_authorised [OF committing(7)] browsed_frame(3) [OF committing(1)] browsed_frame(3) [OF committing(2)]
        by simp
      from producers_of_rows(1) [OF this refl, of env sv3 now] 2(1) have "row_authorised (rules_of sv3) source who m" by blast
      with committing(3) have tenant: "c_tenant_id (m_context m) \<in> {None, Some (re_org e)}"
        by (auto simp: row_authorised_def foreign_org_def is_some_and_def org split: option.splits)
      have "m \<in> set (cw_memories ?rows)"
        using 2(1) by (auto simp: rows_of_def materialize_commit_rows_def Let_def split: prod.splits)
      from upsert_batch_asserts_memory [OF committed(4) this] obtain n where
        "stamp_memory n m \<in> set (memory_history st2 (m_id m))" by (auto simp: committed(5))
      then have "stamp_memory n m \<in> set (memory_history (sv_store sv') (m_id m))"
        using committed(7) seed_keeps_memories [of "stamp_memory n m" "sv3\<lparr>sv_store := st2\<rparr>"] by auto
      then have "committed_during env rg digest json sv0 sv' m" unfolding committed_during_def using step by blast
      with 2(2) tenant show ?thesis unfolding ring_committed_def org by blast
    qed simp
  qed (use e rec in \<open>auto simp: remember_ack_def\<close>)
next
  case refused
  then show ?thesis using e browsed_frame(4) [OF refused(1)] by simp
next
  case (replayed remembered)
  then show ?thesis using e browsed_frame(4) [OF replayed(1)] by simp
qed

lemma ring_of_running_service:
  assumes "(service_step env rg digest json)\<^sup>*\<^sup>* sv0 sv" "sv_recent sv0 = []"
  shows "\<forall>e\<in>set (sv_recent sv). ring_committed env rg digest json sv0 sv e"
  using assms(1)
proof (induction rule: rtranclp_induct)
  case (step sv sv')
  have "e \<in> set (sv_recent sv) \<or> ring_committed env rg digest json sv0 sv' e" if "e \<in> set (sv_recent sv')" for e
    using step.hyps(2)
  proof cases
    case (sv_submit now fresh clock who batch)
    obtain res where "submit env rg now fresh clock who batch sv = (res, sv')"
      using sv_submit by (cases "submit env rg now fresh clock who batch sv") simp
    from ring_committed_submit [OF this step.hyps(1) that] show ?thesis .
  next
    case (sv_preflight now fresh who batch)
    with that browsed_frame(4) [OF browsed_preflight [of rg sv env now fresh who batch]] show ?thesis by simp
  next
    case (sv_register now io_ok who r)
    with that register_frame(2) [of env rg now io_ok who r sv] show ?thesis by simp
  qed (use that in simp)
  with step.IH ring_committed_step [OF _ step.hyps(2)] show ?case by blast
qed (simp add: assms(2))

lemma hints_of_commit:
  assumes "h \<in> set (ak_similar_to (fst (finish_commit env batch rows n acc sv)))"
  shows "\<exists>key m. m \<in> set (cw_producer_memories rows) \<and> hint_for env (ibt_org_id batch) (sv_recent sv) (key, m) = Some h"
proof -
  have "sv_recent (remember_snapshot batch sv) = sv_recent sv" by (simp add: remember_snapshot_def split: option.split)
  with assms obtain k where "k \<in> set (zip (map md_draft_key (ibt_memories batch)) (cw_producer_memories rows))"
    "hint_for env (ibt_org_id batch) (sv_recent sv) k = Some h"
    by (auto simp: finish_commit_def similar_to_hints_def map_filter_member Let_def)
  moreover obtain key m where "k = (key, m)" by (cases k) blast
  ultimately show ?thesis using set_zip_rightD by metis
qed

lemma ring_entry_sel:
  assumes "ring_entry env org m = Some e"
  shows "re_org e = org" "re_id e = m_id m" "re_title e = m_title m" "re_visibility e = m_visibility m"
    "re_project_id e = c_project_id (m_context m)" "re_team_id e = c_team_id (m_context m)"
    "re_user_id e = c_user_id (m_context m)"
  using assms by (auto simp: ring_entry_def)

lemma hinted_row_visible:
  assumes e: "hint_visible e c" "re_org e = vc_org_id p" and scope: "stamped_scope batch p c"
    and row: "ring_entry env (re_org e) row = Some e" "c_tenant_id (m_context row) = Some (vc_org_id p)"
    and own: "\<And>i. requested_project batch = Some i \<Longrightarrow> i \<in> set (vc_project_ids p)"
      "\<And>i. requested_team batch = Some i \<Longrightarrow> i \<in> set (vc_team_ids p)"
    and max: "Org \<le> vc_max_visibility p"
  shows "memory_visible row p"
proof -
  note re = ring_entry_sel [OF row(1)]
  have "\<not> vc_max_visibility p < v" if "v \<noteq> Public" for v using max that
    by (cases v; cases "vc_max_visibility p") (auto simp: less_visibility_def less_eq_visibility_def)
  then show ?thesis using e own row(2) scope re
    by (cases "m_visibility row")
      (auto simp: memory_visible_def effective_visibility_def hint_visible_def is_some_and_iff project_granted_def
        list_ex_iff stamped_scope_def)
qed

text \<open>
  C11: A hint discloses what its reader may read, as long as the scope the batch claims is the
  reader's own. From a server that starts empty, after any run of requests and backend operations,
  let a principal who may read up to organisation visibility submit a batch that is not answered
  from the cache and whose claimed project and team, if any, are memberships of the principal.
  Then every hint of the answer names, by its id and title, a row that an earlier request of the
  run committed and that the principal can see; the only exception are rows committed without a
  principal, which belong to no tenant.\<close>

theorem hints_within_membership:
  assumes start: "initial_server rg sv0" and run: "(service_step env rg digest json)\<^sup>*\<^sup>* sv0 sv"
    and sub: "submit env rg now fresh clock (Some p) batch sv = (Inr ack, sv')"
    and first: "fst (lru_get (rg_seen rg) (seen_key_of batch) (sv_seen_batches sv)) = None"
    and own: "\<And>i. requested_project batch = Some i \<Longrightarrow> i \<in> set (vc_project_ids p)"
      "\<And>i. requested_team batch = Some i \<Longrightarrow> i \<in> set (vc_team_ids p)"
    and max: "Org \<le> vc_max_visibility p" and hint: "h \<in> set (ak_similar_to ack)"
  shows "\<exists>row. committed_during env rg digest json sv0 sv row \<and>
    sh_existing_memory_id h = hex (mid_bytes (m_id row)) \<and> sh_existing_title h = m_title row \<and>
    (memory_visible row p \<or> c_tenant_id (m_context row) = None)"
  using sub
proof (cases rule: submit_cases)
  case refused
  with hint show ?thesis by (simp add: refusal_def)
next
  case (replayed remembered)
  with first show ?thesis by simp
next
  case (committing source v sv2 sv3)
  have rec: "sv_recent sv3 = sv_recent sv" using browsed_frame(4) [OF committing(2)] .
  have org: "ibt_org_id batch = vc_org_id p" using committing(3) by (simp add: foreign_org_def is_some_and_def)
  from committing(8) show ?thesis
  proof (cases rule: commit_validated_cases)
    case (committed ack' t recs st0 st1 st2)
    with hint obtain key m where m: "m \<in> set (cw_producer_memories (rows_of env sv3 now batch source v))"
      "hint_for env (vc_org_id p) (sv_recent sv) (key, m) = Some h"
      using hints_of_commit rec org by fastforce
    have scope: "stamped_scope batch p (m_context m)"
      using producer_scope [OF validated_scope [OF committing(7)] m(1)] .
    from hint_source [OF m(2)] obtain e where e: "e \<in> set (sv_recent sv)" "re_org e = vc_org_id p"
      "hint_visible e (m_context m)" "sh_existing_memory_id h = hex (mid_bytes (re_id e))" "sh_existing_title h = re_title e"
      by blast
    have "sv_recent sv0 = []" using start by (simp add: initial_server_def)
    with ring_of_running_service [OF run] e(1) obtain row where row: "ring_entry env (re_org e) row = Some e"
      "c_tenant_id (m_context row) \<in> {None, Some (re_org e)}" "committed_during env rg digest json sv0 sv row"
      unfolding ring_committed_def by blast
    note ring_entry_sel(2,3) [OF row(1)]
    moreover have "memory_visible row p \<or> c_tenant_id (m_context row) = None"
      using hinted_row_visible [OF e(3,2) scope row(1) _ own max] row(2) e(2) by auto
    ultimately show ?thesis using row(3) e(4,5) by auto
  qed (use hint in \<open>auto simp: duplicate_ack_def\<close>)
qed

lemma threshold_met: "f32_le SIMILAR_HINT_THRESHOLD f32_one"
  by (simp add: f32_le_def f32_nan_def f32_rank_def f32_magnitude_def SIMILAR_HINT_THRESHOLD_def f32_one_def)

text \<open>
  A deployment whose embedder gives every text the same vector: the second batch is hinted with
  the row of the first.
\<close>

definition flat_embedder :: embedder where
  "flat_embedder = \<lparr>eb_model_id = ''m'', eb_model_version = ''1'', eb_embed_batch = (\<lambda>ts. Inr (map (\<lambda>_. [f32_one]) ts))\<rparr>"

definition hinting ::
    "store \<Rightarrow> (source_key \<times> ingest_ack) list \<Rightarrow> recent_embedding list \<Rightarrow>
     ((source_key \<times> source_entry) list, (source_key \<times> ingest_ack) list) ingest_server" where
  "hinting st seen ring =
     sample_serving\<lparr>sv_embedder := Some flat_embedder, sv_store := st, sv_seen_batches := seen, sv_recent := ring\<rparr>"

definition named_batch :: "string \<Rightarrow> ingest_batch" where
  "named_batch i = sample_batch\<lparr>ibt_batch_id := i\<rparr>"

definition embedded_row :: memory where
  "embedded_row = sample_memory_row\<lparr>m_embedding := Some \<lparr>e_model = \<lparr>em_name = ''m'', em_version = ''1''\<rparr>, e_vector = [f32_one]\<rparr>\<rparr>"

abbreviation named_submit where
  "named_submit i \<equiv> submit sample_env sample_registries 5 (\<lambda>_. MemoryId [9]) (\<lambda>_. 5) (Some sample_principal) (named_batch i)"

definition open_store :: "store \<Rightarrow> string \<Rightarrow> bool" where
  "open_store st i \<longleftrightarrow>
     \<not> s_fail_next_ingest_commit st \<and> \<not> s_fail_next_batch_read st \<and> s_ontology st = sample_types \<and> s_recognized st = [] \<and>
     hm_get (s_settled_ingest st) (batch_key_of (named_batch i)) = None \<and>
     hm_get (s_ingest_effects st) (''acme/p/'' @ i) = None"

lemma named_batch_sel [simp]:
  "ibt_org_id (named_batch i) = ''acme''" "ibt_source_uri (named_batch i) = ''session://s1''"
  "ibt_producer_id (named_batch i) = ''p''" "ibt_batch_id (named_batch i) = i" "ibt_ceiling (named_batch i) = 3"
  "ibt_ontology_fingerprint (named_batch i) = zeros32" "ibt_observed_at (named_batch i) = None"
  "ibt_recorded_at (named_batch i) = None" "ibt_snapshot (named_batch i) = None" "ibt_memories (named_batch i) = [sample_draft]"
  "ibt_relationships (named_batch i) = []" "ibt_producer (named_batch i) = ibt_producer unsigned_sample"
  by (simp_all add: named_batch_def)

lemma hinting_sel [simp]:
  "sv_store (hinting st seen ring) = st" "sv_ontology (hinting st seen ring) = sample_types"
  "sv_default_producer_key (hinting st seen ring) = Some [7]" "sv_org_guard (hinting st seen ring) = None"
  "sv_sources (hinting st seen ring) = [(sample_source_key, sample_entry)]" "sv_source_registry_error (hinting st seen ring) = None"
  "sv_seen_batches (hinting st seen ring) = seen" "sv_embedder (hinting st seen ring) = Some flat_embedder"
  "sv_admin_policies (hinting st seen ring) = []"
  "sv_require_request_principal (hinting st seen ring) = False" "sv_allow_personal_scopes (hinting st seen ring) = False"
  "sv_recent (hinting st seen ring) = ring" "sv_similarity_seeding (hinting st seen ring) = False"
  "sv_submit_permits (hinting st seen ring) = 64" "rules_of (hinting st seen ring) = rules_of sample_serving"
  "sv_grouping_rules (hinting st seen ring) = []" "sv_demand (hinting st seen ring) = []"
  "sv_seen_snapshots (hinting st seen ring) = []"
  by (simp_all add: hinting_def rules_of_def)

lemma hinting_updates [simp]:
  "(hinting st seen ring)\<lparr>sv_store := st'\<rparr> = hinting st' seen ring"
  "(hinting st seen ring)\<lparr>sv_demand := []\<rparr> = hinting st seen ring"
  "(hinting st seen ring)\<lparr>sv_sources := [(sample_source_key, sample_entry)]\<rparr> = hinting st seen ring"
  "(hinting st seen ring)\<lparr>sv_seen_batches := seen'\<rparr> = hinting st seen' ring"
  "(hinting st seen ring)\<lparr>sv_recent := ring'\<rparr> = hinting st seen ring'"
  by (simp_all add: hinting_def sample_serving_def sample_server_def)

lemma named_admitted:
  assumes "open_store st i" shows "admit_batch sample_env (hinting st seen ring) (named_batch i) = Inr ()"
proof -
  have "zeros32 \<in> set (recognized_ontology_fingerprints st)"
    using assms by (simp add: recognized_ontology_fingerprints_def open_store_def sample_types_def)
  moreover have "ibt_checksum (named_batch i) = batch_checksum sample_env (named_batch i)"
    using sample_checksum by (simp add: named_batch_def batch_checksum_def canonical_checksum_def checksum_preimage_def)
  ultimately show ?thesis
    by (simp add: admit_batch_def producer_auth_key_def producer_key_def validate_batch_resources_def sample_draft_def
        validate_memory_fields_def MAX_MEMORIES_PER_BATCH_def MAX_EDGES_PER_BATCH_def MAX_MEMORY_CONTENT_BYTES_def
        MAX_TAGS_PER_MEMORY_def MAX_TAG_BYTES_PER_MEMORY_def verify_signature_def unsigned_sample_def
        ontology_matches_def admit_producer_batch_def zeros32_def) (simp add: sample_env_def is_some_and_def)
qed

lemma named_sourced:
  "registered_source sample_registries (named_batch i) (hinting st seen ring) = (Inr sample_entry, hinting st seen ring)"
  by (simp add: registered_source_eq source_verdict_def sample_registries_def list_lru_def hm_get_def
      sample_entry_def vis_from_i32_def is_some_and_def)

lemma named_unseen:
  assumes "hm_get seen (seen_key_of (named_batch i)) = None"
  shows "replay_ack sample_registries (named_batch i) (hinting st seen ring) = (None, hinting st seen ring)"
  using assms by (simp add: replay_ack_eq sample_registries_def list_lru_def)

lemma named_validated:
  assumes "open_store st i"
  shows "validate_batch sample_env 5 (\<lambda>_. MemoryId [9]) (named_batch i) sample_entry (Some sample_principal) (hinting st seen ring) =
     (Inr (Inr \<lparr>vb_memories = [sample_memory_row], vb_relationships = [], vb_loaded = []\<rparr>), hinting st seen ring)"
proof -
  have "batch_times_of sample_env 5 (named_batch i) = Inr \<lparr>bt_observed_at = 5, bt_recorded_at = 5\<rparr>"
    by (simp add: batch_times_of_def timestamp_or_def)
  moreover have "load_targets sample_env [] st = (Inr [], st)"
    using assms by (simp add: load_targets_def MAX_ATTEMPTS_def numeral_eq_Suc get_memories_def open_store_def)
  moreover have "validate_memory sample_env (rules_of sample_serving) 5 (MemoryId [9]) (named_batch i) sample_draft False sample_entry
     \<lparr>bt_observed_at = 5, bt_recorded_at = 5\<rparr> (Some sample_principal) =
    validate_memory sample_env (rules_of sample_serving) 5 (MemoryId [9]) sample_batch sample_draft False sample_entry
     \<lparr>bt_observed_at = 5, bt_recorded_at = 5\<rparr> (Some sample_principal)"
  proof -
    have "requested_project (named_batch i) = requested_project sample_batch" "requested_team (named_batch i) = requested_team sample_batch"
      by (simp_all add: requested_project_def requested_team_def client_metadata_def)
    then have sc: "scope_of rules (named_batch i) vis who = scope_of rules sample_batch vis who" for rules vis who
      by (cases who) (simp_all add: scope_of_def)
    have di: "draft_memory_id sample_env (named_batch i) sample_draft f = draft_memory_id sample_env sample_batch sample_draft f" for f
      by (simp add: draft_memory_id_def sample_draft_def)
    show ?thesis unfolding validate_memory_def drafted_memory_def sc di named_batch_sel sample_batch_sel if_False ..
  qed
  ultimately show ?thesis
    by (simp add: validate_batch_def memory_verdicts_def sample_row_valid external_targets_def malformed_targets_def
        validate_edges_def sort_dedup_def)
qed

lemma named_rows:
  "rows_of sample_env (hinting st seen ring) 5 (named_batch i) sample_entry
       \<lparr>vb_memories = [sample_memory_row], vb_relationships = [], vb_loaded = []\<rparr> =
     \<lparr>cw_memories = [embedded_row], cw_relationships = [], cw_producer_memories = [embedded_row],
      cw_grouping_nodes_created = 0, cw_accepted = 1\<rparr>"
  by (simp add: rows_of_def materialize_commit_rows_def supersession_targets_def embed_memories_def embed_texts_def
      stamp_embeddings_def flat_embedder_def embedded_row_def
      materialize_grouping_def grouping_key_def stale_rows_def map_filter_def materialize_inverses_def Let_def)

definition named_settled :: "string \<Rightarrow> store \<Rightarrow> store" where
  "named_settled i st =
     settle (batch_key_of (named_batch i)) (settlement 1 (commits (s_lsn st) 5 1))
       (Some (post_ingest_effect_of sample_env (named_batch i)
          \<lparr>cw_memories = [embedded_row], cw_relationships = [], cw_producer_memories = [embedded_row],
           cw_grouping_nodes_created = 0, cw_accepted = 1\<rparr> (batch_key_of (named_batch i))))
       (write_rows [MRow embedded_row] st)"

lemma named_submitted:
  assumes st: "open_store st i" and seen: "hm_get seen (seen_key_of (named_batch i)) = None"
  shows "\<exists>ack. named_submit i (hinting st seen ring) =
      (Inr ack, hinting (named_settled i st) (hm_insert (seen_key_of (named_batch i)) ack seen)
        (snd (similar_to_hints sample_env ''acme'' [(''d1'', embedded_row)] ring))) \<and>
    ak_similar_to ack = fst (similar_to_hints sample_env ''acme'' [(''d1'', embedded_row)] ring)"
proof -
  let ?v = "\<lparr>vb_memories = [sample_memory_row], vb_relationships = [], vb_loaded = []\<rparr>"
  let ?rows = "rows_of sample_env (hinting st seen ring) 5 (named_batch i) sample_entry ?v"
  have eff: "pe_effect_id (post_ingest_effect_of sample_env (named_batch i) r (batch_key_of (named_batch i))) = ''acme/p/'' @ i" for r
    by (simp add: post_ingest_effect_of_def sample_env_def batch_key_of_def)
  have "commit_rows_op sample_env (\<lambda>_. 5) (named_batch i) ?rows st = (Inr (Inr (s_lsn st + 1, 1)), named_settled i st)"
    using st by (simp add: commit_rows_op_def MAX_ATTEMPTS_def numeral_eq_Suc commit_with_effect_eq commit_published_eq
        effect_conflict_def upsert_batch_eq batch_rows_def named_rows named_settled_def settlement_def open_store_def eff
        last_record_lsn_def commits_def commit_at_def last_opt_def Let_def)
  moreover have "materialize_commit_rows sample_env (hinting st seen ring) 5 (named_batch i) (se_flavor sample_entry)
      (?v\<lparr>vb_memories := embed_memories (Some flat_embedder) [sample_memory_row]\<rparr>) = ?rows"
    by (simp add: rows_of_def)
  ultimately have "\<exists>ack. commit_validated sample_env sample_registries 5 (\<lambda>_. 5) (named_batch i) sample_entry ?v (hinting st seen ring) =
      (Inr ack, hinting (named_settled i st) (hm_insert (seen_key_of (named_batch i)) ack seen)
        (snd (similar_to_hints sample_env ''acme'' [(''d1'', embedded_row)] ring))) \<and>
    ak_similar_to ack = fst (similar_to_hints sample_env ''acme'' [(''d1'', embedded_row)] ring)"
    by (simp add: commit_validated_def finish_commit_def remember_snapshot_def named_rows sample_draft_def remember_ack_def
        sample_registries_def list_lru_def case_prod_beta Let_def)
  moreover have "\<not> foreign_org (Some sample_principal) (named_batch i)"
    by (simp add: foreign_org_def is_some_and_def sample_principal_def)
  ultimately show ?thesis
    by (simp add: submit_def request_principal_def named_admitted [OF st] named_unseen [OF seen] named_sourced named_validated [OF st])
qed

lemma open_stores:
  "open_store (new_store sample_types) ''b1''" "open_store (named_settled ''b1'' (new_store sample_types)) ''b2''"
proof -
  show "open_store (new_store sample_types) ''b1''" by (simp add: open_store_def new_store_def build_def)
  show "open_store (named_settled ''b1'' (new_store sample_types)) ''b2''"
    by (simp add: open_store_def named_settled_def settle_def insert_effect_def new_store_def build_def batch_key_of_def
        post_ingest_effect_of_def sample_env_def)
qed

lemma similar_again:
  "\<exists>h. h \<in> set (fst (similar_to_hints sample_env ''acme'' [(''d1'', embedded_row)]
      (snd (similar_to_hints sample_env ''acme'' [(''d1'', embedded_row)] [])))) \<and> sh_existing_title h = ''t''"
proof -
  have "m_visibility embedded_row = Org" "m_title embedded_row = ''t''"
    by (simp_all add: embedded_row_def sample_memory_row_def drafted_memory_def attach_entities_def sample_draft_def Let_def)
  then show ?thesis
    by (simp add: similar_to_hints_def hint_for_def ring_entry_def admit_ring_def RECENT_RING_LEN_def map_filter_def comparable_def
        embedded_row_def hint_visible_def sample_env_def [THEN arg_cong [of _ _ iv_cosine]] threshold_met Let_def)
qed

theorem hints_within_membership_witness:
  "\<exists>ack1 sv1 ack2 sv2 h row. named_submit ''b1'' (hinting (new_store sample_types) [] []) = (Inr ack1, sv1) \<and>
     named_submit ''b2'' sv1 = (Inr ack2, sv2) \<and> h \<in> set (ak_similar_to ack2) \<and> sh_existing_title h = m_title row \<and>
     (memory_visible row sample_principal \<or> c_tenant_id (m_context row) = None)"
proof -
  let ?sv0 = "hinting (new_store sample_types) [] []"
  obtain ack1 where one: "named_submit ''b1'' ?sv0 =
      (Inr ack1, hinting (named_settled ''b1'' (new_store sample_types)) (hm_insert (seen_key_of (named_batch ''b1'')) ack1 [])
        (snd (similar_to_hints sample_env ''acme'' [(''d1'', embedded_row)] [])))" (is "_ = (_, ?sv1)")
    using named_submitted [OF open_stores(1), of "[]" "[]"] by auto
  have unseen: "hm_get (hm_insert (seen_key_of (named_batch ''b1'')) ack1 []) (seen_key_of (named_batch ''b2'')) = None" by simp
  obtain ack2 sv2 where two: "named_submit ''b2'' ?sv1 = (Inr ack2, sv2)"
    "ak_similar_to ack2 = fst (similar_to_hints sample_env ''acme'' [(''d1'', embedded_row)]
      (snd (similar_to_hints sample_env ''acme'' [(''d1'', embedded_row)] [])))"
    using named_submitted [OF open_stores(2) unseen] by blast
  from similar_again two(2) obtain h where h: "h \<in> set (ak_similar_to ack2)" "sh_existing_title h = ''t''" by auto
  have start: "initial_server sample_registries ?sv0"
    by (auto simp: initial_server_def initial_def new_store_def registry_laws_def sample_registries_def list_lru_laws)
      (simp_all add: list_lru_def)
  have run: "(service_step sample_env sample_registries id (\<lambda>_. Inr []))\<^sup>*\<^sup>* ?sv0 ?sv1"
    using sv_submit [of sample_env sample_registries id "\<lambda>_. Inr []" ?sv0 5 "\<lambda>_. MemoryId [9]" "\<lambda>_. 5"
        "Some sample_principal" "named_batch ''b1''"] one by auto
  have req: "requested_project (named_batch ''b2'') = None" "requested_team (named_batch ''b2'') = None"
    by (simp_all add: requested_project_def requested_team_def client_metadata_def unsigned_sample_def)
  have first: "fst (lru_get (rg_seen sample_registries) (seen_key_of (named_batch ''b2'')) (sv_seen_batches ?sv1)) = None"
    using unseen by (simp add: sample_registries_def list_lru_def)
  have max: "Org \<le> vc_max_visibility sample_principal" by (simp add: sample_principal_def)
  from hints_within_membership [OF start run two(1) first _ _ max h(1)] req
  obtain row where "sh_existing_title h = m_title row" "memory_visible row sample_principal \<or> c_tenant_id (m_context row) = None"
    by auto
  with one two(1) h(1) show ?thesis by blast
qed

end
