(* ===== verification/Client_Drain.thy ===== *)
theory Client_Drain
  imports Client_Wal Ingest_Writes
begin

text \<open>
  Draining the client log, after \<open>crates/exocortex-client/src/drain.rs\<close> with the triage table of
  \<open>crates/exocortex-wire/src/corrections.rs\<close>: each pending entry is rebuilt into a batch, its
  source registered, the batch signed afresh and submitted, and the entry settled by the
  acknowledgement. The service at the other end is an interface of two calls; it is instantiated
  by the ingest service behind a link that may lose a request or its answer, and on which other
  clients run in between.
\<close>

section \<open>Triage\<close>

datatype disposition = Success | Retry | Permanent | Fatal

record reject_guidance =
  rg_disposition :: disposition
  rg_correction :: string

fun guidance :: "reject_code \<Rightarrow> reject_guidance" where
  "guidance DuplicateBatch =
     \<lparr>rg_disposition = Success, rg_correction = ''Transport replayed the same batch id. Harmless '' @ em_dash @ '' do NOT resubmit.''\<rparr>"
| "guidance RateLimited =
     \<lparr>rg_disposition = Retry, rg_correction = ''Backend is shedding load. Transient; the client retries. Do not resubmit by hand.''\<rparr>"
| "guidance RejUnknown =
     \<lparr>rg_disposition = Permanent, rg_correction = ''Generic validation failure (often title empty/>200 chars or empty content). Read `detail`; usually trim the title.''\<rparr>"
| "guidance UnknownMemoryType =
     \<lparr>rg_disposition = Permanent, rg_correction = ''Memory type not in this pack. Fix the type name; use only the types the playbook lists.''\<rparr>"
| "guidance RejUnknownKind =
     \<lparr>rg_disposition = Permanent, rg_correction = ''Kind name typo or not in this pack. Fix the spelling; use only the assertable kinds the playbook lists.''\<rparr>"
| "guidance RejInvalidTypeTriple =
     \<lparr>rg_disposition = Permanent, rg_correction = ''Kind does not fit the (from, to) memory types. Check the kind catalogue; `RelatedTo` is the always-valid fallback.''\<rparr>"
| "guidance RejVisibilityWidening =
     \<lparr>rg_disposition = Permanent, rg_correction = ''Visibility above the source ceiling. Drop to a lower label (`project` is the default).''\<rparr>"
| "guidance MissingExternalKey =
     \<lparr>rg_disposition = Permanent, rg_correction = ''External-snapshot batch without ExternalKey coordinates. Cannot occur for session wrapups; if seen, report it as a bug.''\<rparr>"
| "guidance InvalidExternalKey =
     \<lparr>rg_disposition = Permanent, rg_correction = ''Malformed external coordinates (table_uuid must be 16 bytes, schema_hash 32). Cannot occur for session wrapups; report it as a bug.''\<rparr>"
| "guidance ResourceLimitExceeded =
     \<lparr>rg_disposition = Permanent, rg_correction = ''Reduce request bytes, content, tags, or edges to the advertised fixed limits.''\<rparr>"
| "guidance BadChecksum =
     \<lparr>rg_disposition = Permanent, rg_correction = ''Batch checksum mismatch. The batch was mutated after signing; rebuild it from the drafts.''\<rparr>"
| "guidance ComputedKindRejected =
     \<lparr>rg_disposition = Permanent, rg_correction = ''You asserted a computed-only kind (e.g. `SimilarTo`); only the consolidation cycle may. Use `RelatedTo` or `AnalogousTo`.''\<rparr>"
| "guidance Unauthorized =
     \<lparr>rg_disposition = Fatal, rg_correction = ''Credentials rejected (HMAC missing/invalid). Surface to the user; not fixable by you.''\<rparr>"
| "guidance UnknownSource =
     \<lparr>rg_disposition = Fatal, rg_correction = ''Producer not registered, ceiling mismatch, or wrong org. Surface to the user; not fixable by you.''\<rparr>"
| "guidance IncompatibleOntology =
     \<lparr>rg_disposition = Fatal, rg_correction = ''Ontology fingerprint mismatch '' @ em_dash @ '' client and backend run different packs. Surface to the user; not fixable by you.''\<rparr>"
| "guidance SourceRewound =
     \<lparr>rg_disposition = Fatal, rg_correction = ''The source was rewound (snapshot rollback / slot reset) behind data already ingested. This needs an operator to reconcile the cursor '' @ em_dash @ '' never retry.''\<rparr>"
| "guidance SchemaDrift =
     \<lparr>rg_disposition = Fatal, rg_correction = ''Source schema no longer matches the registered mapping (column removed, retyped, or renamed). Re-register the projection deliberately with a bumped mapping_version.''\<rparr>"
| "guidance ProjectionBoundExceeded =
     \<lparr>rg_disposition = Fatal, rg_correction = ''Submission exceeds a declared projection bound. Narrow the selector or raise the bound via a mapping_version bump '' @ em_dash @ '' never truncate silently.''\<rparr>"

definition classify :: "reject_code \<Rightarrow> disposition" where
  "classify code = rg_disposition (guidance code)"

fun disposition_rank :: "disposition \<Rightarrow> nat" where
  "disposition_rank Success = 0"
| "disposition_rank Retry = 1"
| "disposition_rank Permanent = 2"
| "disposition_rank Fatal = 3"

fun worst_of :: "reject_row list \<Rightarrow> disposition \<Rightarrow> disposition" where
  "worst_of [] worst = worst"
| "worst_of (row # rows) worst =
     (let d = classify (rj_code row)
      in worst_of rows (if disposition_rank worst < disposition_rank d then d else worst))"

section \<open>Batch ids\<close>

text \<open>What of a draft and of an edge takes part in the id, on the wire shape and on the tool shape.\<close>

record batch_id_draft =
  bi_draft_key :: string
  bi_memory_type :: string
  bi_title :: string
  bi_content :: string
  bi_visibility :: int
  bi_tags :: "string list"

record batch_id_edge =
  bi_source_key :: string
  bi_to_memory_id :: string
  bi_to_draft_key :: string
  bi_kind :: string
  bi_strength :: f32

definition wire_id_draft :: "memory_draft_pb \<Rightarrow> batch_id_draft" where
  "wire_id_draft d =
     \<lparr>bi_draft_key = md_draft_key d, bi_memory_type = md_memory_type d, bi_title = md_title d,
      bi_content = md_content d, bi_visibility = md_visibility d, bi_tags = md_tags d\<rparr>"

definition wire_id_edge :: "relationship_draft_pb \<Rightarrow> batch_id_edge" where
  "wire_id_edge r =
     \<lparr>bi_source_key = rd_from_draft_key r, bi_to_memory_id = rd_to_memory_id r, bi_to_draft_key = rd_to_draft_key r,
      bi_kind = rd_kind r, bi_strength = rd_strength r\<rparr>"

record preflight_memory_draft =
  pd_draft_key :: string
  pd_memory_type :: string
  pd_title :: string
  pd_content :: string
  pd_visibility :: string
  pd_tags :: "string list"

record preflight_edge_hint =
  ph_from_draft_key :: string
  ph_to_draft_key :: string
  ph_to_memory_id :: string
  ph_kind :: string
  ph_strength :: f32

definition visibility_discriminant :: "(string \<Rightarrow> string) \<Rightarrow> string \<Rightarrow> int" where
  "visibility_discriminant lower label =
     (let l = lower label
      in if l = ''private'' then 0 else if l = ''project'' then 1 else if l = ''team'' then 2
         else if l = ''org'' then 3 else -1)"

definition preflight_id_draft :: "(string \<Rightarrow> string) \<Rightarrow> preflight_memory_draft \<Rightarrow> batch_id_draft" where
  "preflight_id_draft lower d =
     \<lparr>bi_draft_key = pd_draft_key d, bi_memory_type = pd_memory_type d, bi_title = pd_title d,
      bi_content = pd_content d, bi_visibility = visibility_discriminant lower (pd_visibility d), bi_tags = pd_tags d\<rparr>"

definition preflight_id_edge :: "preflight_edge_hint \<Rightarrow> batch_id_edge" where
  "preflight_id_edge r =
     \<lparr>bi_source_key = ph_from_draft_key r, bi_to_memory_id = ph_to_memory_id r, bi_to_draft_key = ph_to_draft_key r,
      bi_kind = ph_kind r, bi_strength = ph_strength r\<rparr>"

definition draft_preimage :: "batch_id_draft \<Rightarrow> byte list" where
  "draft_preimage d =
     str_bytes (bi_draft_key d) @ [0x1e] @ str_bytes (bi_memory_type d) @ [0x1e] @ str_bytes (bi_title d) @ [0x1e] @
     str_bytes (bi_content d) @ [0x1e] @ le_bytes 4 (nat (bi_visibility d mod 2 ^ 32)) @
     concat (map (\<lambda>t. str_bytes t @ [0x1f]) (bi_tags d)) @ [0x1e]"

definition edge_preimage :: "batch_id_edge \<Rightarrow> byte list" where
  "edge_preimage r =
     str_bytes (bi_source_key r) @ [0x1e] @ str_bytes (bi_to_memory_id r) @ [0x1e] @ str_bytes (bi_to_draft_key r) @ [0x1e] @
     str_bytes (bi_kind r) @ [0x1e] @ le_bytes 4 (unat (bi_strength r))"

definition content_batch_id ::
    "(byte list \<Rightarrow> byte list) \<Rightarrow> string \<Rightarrow> batch_id_draft list \<Rightarrow> batch_id_edge list \<Rightarrow> string" where
  "content_batch_id h session drafts rels =
     hex (h (str_bytes session @ concat (map draft_preimage drafts) @ concat (map edge_preimage rels)))"

section \<open>Rebuilding a batch\<close>

definition PRODUCER_ID :: string where "PRODUCER_ID = ''session-wrapup''"

text \<open>
  An entry that cannot be shaped is an error; indexing past the stored ids or keys panics.\<close>

datatype 'a rebuilt = Panicked | Unshapable string | Built 'a

fun rebuilt_bind :: "'a rebuilt \<Rightarrow> ('a \<Rightarrow> 'b rebuilt) \<Rightarrow> 'b rebuilt" where
  "rebuilt_bind Panicked f = Panicked"
| "rebuilt_bind (Unshapable e) f = Unshapable e"
| "rebuilt_bind (Built x) f = f x"

definition at_index :: "'a list \<Rightarrow> nat \<Rightarrow> 'a rebuilt" where
  "at_index xs i = (if i < length xs then Built (xs ! i) else Panicked)"

definition wire_draft :: "ontology \<Rightarrow> wal_entry \<Rightarrow> nat \<Rightarrow> memory_draft \<Rightarrow> memory_draft_pb rebuilt" where
  "wire_draft onto e i d =
     (if unat (d_memory_type d) < length (o_memory_type_names onto) then
        rebuilt_bind (at_index (we_draft_keys e) i) (\<lambda>key.
        rebuilt_bind (at_index (we_memory_ids e) i) (\<lambda>mid.
          Built \<lparr>md_draft_key = key, md_id = to_hex mid,
                 md_memory_type = o_memory_type_names onto ! unat (d_memory_type d),
                 md_title = d_title d, md_content = d_content d,
                 md_tags = (if i < length (we_tags e) then we_tags e ! i else []),
                 md_visibility = int (vis_rank (d_visibility d)), md_valid_from = None, md_valid_until = None,
                 md_external_key = None, md_rights = None\<rparr>))
      else Unshapable (''memory type id '' @ show_nat (unat (d_memory_type d)) @ '' no longer resolves''))"

fun wire_drafts :: "ontology \<Rightarrow> wal_entry \<Rightarrow> nat \<Rightarrow> memory_draft list \<Rightarrow> memory_draft_pb list rebuilt" where
  "wire_drafts onto e i [] = Built []"
| "wire_drafts onto e i (d # ds) =
     rebuilt_bind (wire_draft onto e i d) (\<lambda>m.
     rebuilt_bind (wire_drafts onto e (Suc i) ds) (\<lambda>ms. Built (m # ms)))"

fun position :: "'a \<Rightarrow> 'a list \<Rightarrow> nat option" where
  "position x [] = None"
| "position x (y # ys) = (if y = x then Some 0 else map_option Suc (position x ys))"

definition wire_edge :: "ontology \<Rightarrow> wal_entry \<Rightarrow> nat \<Rightarrow> edge_hint \<Rightarrow> relationship_draft_pb option rebuilt" where
  "wire_edge onto e i hint =
     (case position (h_to hint) (we_memory_ids e) of
        None \<Rightarrow> Built None
      | Some to_pos \<Rightarrow>
          (case hm_get (o_kinds_by_id onto) (h_kind hint) of
             None \<Rightarrow> Unshapable (''kind id RelKindId('' @ show_nat (unat (kind_code (h_kind hint))) @ '') no longer resolves'')
           | Some meta \<Rightarrow>
               rebuilt_bind (at_index (we_memories e) i) (\<lambda>source.
               rebuilt_bind (at_index (we_memories e) to_pos) (\<lambda>target.
               rebuilt_bind (at_index (we_draft_keys e) i) (\<lambda>from_key.
               rebuilt_bind (at_index (we_draft_keys e) to_pos) (\<lambda>to_key.
                 Built (Some
                   \<lparr>rd_from_draft_key = from_key, rd_to_draft_key = to_key, rd_kind = k_display_name meta,
                    rd_strength = (case h_strength hint of Some v \<Rightarrow> v | None \<Rightarrow> f32_zero),
                    rd_confidence = (case h_confidence hint of Some v \<Rightarrow> v | None \<Rightarrow> 0x3F4CCCCD),
                    rd_context = [],
                    rd_visibility = int (vis_rank (relationship_visibility (d_visibility source) (d_visibility target))),
                    rd_to_memory_id = []\<rparr>)))))))"

fun wire_edges :: "ontology \<Rightarrow> wal_entry \<Rightarrow> (nat \<times> edge_hint) list \<Rightarrow> relationship_draft_pb list rebuilt" where
  "wire_edges onto e [] = Built []"
| "wire_edges onto e ((i, hint) # hints) =
     rebuilt_bind (wire_edge onto e i hint) (\<lambda>r.
     rebuilt_bind (wire_edges onto e hints) (\<lambda>rs. Built (case r of None \<Rightarrow> rs | Some x \<Rightarrow> x # rs)))"

definition entry_hints :: "wal_entry \<Rightarrow> (nat \<times> edge_hint) list" where
  "entry_hints e = concat (map (\<lambda>(i, d). map (Pair i) (d_edge_hints d)) (List.enumerate 0 (we_memories e)))"

definition anonymous_producer :: "string \<Rightarrow> producer_identity_pb" where
  "anonymous_producer node =
     \<lparr>pi_node_id = node, pi_agent_id = [], pi_adapter_id = [], pi_hmac_signature = [], pi_client_metadata = None\<rparr>"

definition rebuild_batch ::
    "(byte list \<Rightarrow> byte list) \<Rightarrow> byte list \<Rightarrow> string \<Rightarrow> ontology \<Rightarrow> wal_entry \<Rightarrow> ingest_batch rebuilt" where
  "rebuild_batch h fingerprint org onto e =
     (let n = length (we_memories e)
      in if length (we_draft_keys e) \<noteq> n
         then Unshapable (''entry '' @ show_nat (we_local_lsn e) @ '' carries '' @ show_nat (length (we_draft_keys e)) @
                '' draft keys for '' @ show_nat n @ '' memories'')
         else
           rebuilt_bind (wire_drafts onto e 0 (we_memories e)) (\<lambda>drafts.
           rebuilt_bind (wire_edges onto e (entry_hints e)) (\<lambda>rels.
             Built \<lparr>ibt_org_id = org, ibt_source_uri = ''session://'' @ we_session_id e, ibt_producer_id = PRODUCER_ID,
                    ibt_batch_id =
                      (if we_batch_id e = []
                       then content_batch_id h (we_session_id e) (map wire_id_draft drafts) (map wire_id_edge rels)
                       else we_batch_id e),
                    ibt_mapping_version = ''session-wrapup:1.0.0'', ibt_ontology_fingerprint = fingerprint,
                    ibt_ceiling = 3, ibt_checksum = [], ibt_observed_at = None, ibt_recorded_at = None,
                    ibt_snapshot = None, ibt_memories = drafts, ibt_relationships = rels,
                    ibt_producer = Some (anonymous_producer [])\<rparr>)))"

section \<open>One pass\<close>

record drain_report =
  dr_attempted :: nat
  dr_synced :: nat
  dr_failed :: nat
  dr_still_pending :: nat

definition empty_report :: drain_report where
  "empty_report = \<lparr>dr_attempted = 0, dr_synced = 0, dr_failed = 0, dr_still_pending = 0\<rparr>"

text \<open>The calls of the service, each with the authorization header it carries.\<close>

record ('e, 's) remote =
  rm_register :: "string option \<Rightarrow> register_source_request \<Rightarrow> 's \<Rightarrow> ('e + visibility) \<times> 's"
  rm_submit :: "string option \<Rightarrow> ingest_batch \<Rightarrow> 's \<Rightarrow> ('e + ingest_ack) \<times> 's"

record drain_config =
  dc_key :: "byte list"
  dc_fingerprint :: "byte list"
  dc_org :: string
  dc_token :: "string option"
  dc_ontology :: ontology
  dc_node :: string
  dc_header_ok :: "string \<Rightarrow> bool"

definition bearer :: "drain_config \<Rightarrow> string option" where
  "bearer cfg =
     (case dc_token cfg of
        None \<Rightarrow> None
      | Some token \<Rightarrow> (let v = ''Bearer '' @ token in if dc_header_ok cfg v then Some v else None))"

definition session_registration :: "ingest_env \<Rightarrow> drain_config \<Rightarrow> ingest_batch \<Rightarrow> register_source_request" where
  "session_registration env cfg batch =
     sign_registration (iv_mac env) (iv_enc_registration env) (dc_key cfg)
       \<lparr>rr_org_id = dc_org cfg, rr_source_uri = ibt_source_uri batch, rr_producer_id = ibt_producer_id batch,
        rr_ceiling = ibt_ceiling batch, rr_source_flavor = ''session'',
        rr_producer = Some (anonymous_producer (dc_node cfg)), rr_producer_kind = 1, rr_projection = None,
        rr_default_rights = None\<rparr>"

definition signed_batch :: "ingest_env \<Rightarrow> drain_config \<Rightarrow> ingest_batch \<Rightarrow> ingest_batch" where
  "signed_batch env cfg batch =
     prepare_batch (iv_blake3 env) (iv_mac env) (iv_enc_memory env) (iv_enc_relationship env) (iv_enc_snapshot env)
       (iv_enc_batch env) (dc_key cfg) batch"

definition settle_ack ::
    "'t tree_api \<Rightarrow> wal_json \<Rightarrow> wal_entry \<Rightarrow> ingest_ack \<Rightarrow> drain_report \<Rightarrow> 't wal \<Rightarrow> drain_report \<times> 't wal" where
  "settle_ack tr js e ack report w =
     (let synced = (\<lambda>_. (report\<lparr>dr_synced := dr_synced report + 1\<rparr>,
                         snd (mark_synced tr js (we_local_lsn e) (ak_assigned_lsn ack) w)))
      in if 0 < ak_accepted ack then synced ()
         else
           (case worst_of (ak_rejections ack) Success of
              Success \<Rightarrow> synced ()
            | Retry \<Rightarrow> (report\<lparr>dr_still_pending := dr_still_pending report + 1\<rparr>, w)
            | _ \<Rightarrow> (report\<lparr>dr_failed := dr_failed report + 1\<rparr>, snd (mark_failed tr js (we_local_lsn e) w))))"

datatype drain_end = Drained drain_report | DrainLost wal_error | DrainPanicked

text \<open>How the body of the loop ends: with the next entry, with the report returned, or in a panic.\<close>

datatype pass_flow = NextEntry | StopPass | PanicPass

definition drain_entry ::
    "'t tree_api \<Rightarrow> wal_json \<Rightarrow> ingest_env \<Rightarrow> drain_config \<Rightarrow> ('e, 's) remote \<Rightarrow> wal_entry \<Rightarrow> drain_report \<Rightarrow>
     't wal \<Rightarrow> 's \<Rightarrow> pass_flow \<times> drain_report \<times> 't wal \<times> 's" where
  "drain_entry tr js env cfg rm e report w s =
     (case rebuild_batch (iv_blake3 env) (dc_fingerprint cfg) (dc_org cfg) (dc_ontology cfg) e of
        Panicked \<Rightarrow> (PanicPass, report, w, s)
      | Unshapable _ \<Rightarrow>
          (NextEntry, report\<lparr>dr_failed := dr_failed report + 1\<rparr>, snd (mark_failed tr js (we_local_lsn e) w), s)
      | Built batch \<Rightarrow>
          (case rm_register rm (bearer cfg) (session_registration env cfg batch) s of
             (Inl _, s) \<Rightarrow> (NextEntry, report\<lparr>dr_still_pending := dr_still_pending report + 1\<rparr>, w, s)
           | (Inr _, s) \<Rightarrow>
               (case rm_submit rm (bearer cfg) (signed_batch env cfg batch) s of
                  (Inl _, s) \<Rightarrow> (StopPass, report\<lparr>dr_still_pending := dr_still_pending report + 1\<rparr>, w, s)
                | (Inr ack, s) \<Rightarrow>
                    (case settle_ack tr js e ack report w of (report, w) \<Rightarrow> (NextEntry, report, w, s)))))"

fun drain_entries ::
    "'t tree_api \<Rightarrow> wal_json \<Rightarrow> ingest_env \<Rightarrow> drain_config \<Rightarrow> ('e, 's) remote \<Rightarrow> wal_entry list \<Rightarrow> drain_report \<Rightarrow>
     't wal \<Rightarrow> 's \<Rightarrow> drain_end \<times> 't wal \<times> 's" where
  "drain_entries tr js env cfg rm [] report w s = (Drained report, w, s)"
| "drain_entries tr js env cfg rm (e # es) report w s =
     (case drain_entry tr js env cfg rm e (report\<lparr>dr_attempted := dr_attempted report + 1\<rparr>) w s of
        (NextEntry, report, w, s) \<Rightarrow> drain_entries tr js env cfg rm es report w s
      | (StopPass, report, w, s) \<Rightarrow> (Drained report, w, s)
      | (PanicPass, report, w, s) \<Rightarrow> (DrainPanicked, w, s))"

definition drain_once ::
    "'t tree_api \<Rightarrow> wal_json \<Rightarrow> ingest_env \<Rightarrow> drain_config \<Rightarrow> ('e, 's) remote \<Rightarrow> 't wal \<Rightarrow> 's \<Rightarrow>
     drain_end \<times> 't wal \<times> 's" where
  "drain_once tr js env cfg rm w s =
     (case pending_entries tr js w of
        Inl e \<Rightarrow> (DrainLost e, w, s)
      | Inr es \<Rightarrow> drain_entries tr js env cfg rm es empty_report w s)"

text \<open>
  Passes until one leaves nothing pending, or a pass fails and no entry is pending any more. The
  pause between two passes is left out. The loop may run for ever, and not returning is no answer.\<close>

partial_function (option) drain_all ::
    "'t tree_api \<Rightarrow> wal_json \<Rightarrow> ingest_env \<Rightarrow> drain_config \<Rightarrow> ('e, 's) remote \<Rightarrow> 't wal \<Rightarrow> 's \<Rightarrow>
     ('t wal \<times> 's) option" where
  "drain_all tr js env cfg rm w s =
     (case drain_once tr js env cfg rm w s of (result, w, s) \<Rightarrow>
        (case result of
           Drained report \<Rightarrow>
             if dr_attempted report = 0 \<or> dr_still_pending report = 0 then Some (w, s)
             else drain_all tr js env cfg rm w s
         | DrainPanicked \<Rightarrow> Some (w, s)
         | DrainLost _ \<Rightarrow>
             (case pending_count tr js w of
                Inl _ \<Rightarrow> Some (w, s)
              | Inr k \<Rightarrow> if k = 0 then Some (w, s) else drain_all tr js env cfg rm w s)))"

text \<open>One pass, as a step on the log and the other side of the link.\<close>

definition drain_pass ::
    "'t tree_api \<Rightarrow> wal_json \<Rightarrow> ingest_env \<Rightarrow> drain_config \<Rightarrow> ('e, 's) remote \<Rightarrow> 't wal \<times> 's \<Rightarrow> 't wal \<times> 's \<Rightarrow> bool" where
  "drain_pass tr js env cfg rm x y \<longleftrightarrow> (\<exists>r. drain_once tr js env cfg rm (fst x) (snd x) = (r, y))"

lemma drain_all_step:
  assumes "drain_once tr js env cfg rm w s = (r, w1, s1)"
  shows "drain_all tr js env cfg rm w s = Some (w1, s1) \<or>
    drain_all tr js env cfg rm w s = drain_all tr js env cfg rm w1 s1"
  by (subst (1 2) drain_all.simps) (simp add: assms split: drain_end.split sum.split)

lemma drain_all_passes:
  assumes "drain_all tr js env cfg rm w s = Some y"
  shows "(drain_pass tr js env cfg rm)\<^sup>*\<^sup>* (w, s) y"
proof (rule drain_all.raw_induct [where P = "\<lambda>tr js env cfg rm w s y. (drain_pass tr js env cfg rm)\<^sup>*\<^sup>* (w, s) y", OF _ assms],
    goal_cases)
  case (1 loop tr js env cfg rm w s y)
  obtain r w1 s1 where one: "drain_once tr js env cfg rm w s = (r, w1, s1)" by (cases "drain_once tr js env cfg rm w s")
  then have step: "drain_pass tr js env cfg rm (w, s) (w1, s1)" by (simp add: drain_pass_def)
  from 1(2) one have "y = (w1, s1) \<or> loop tr js env cfg rm w1 s1 = Some y"
    by (auto split: drain_end.splits sum.splits if_splits)
  with 1(1) step show ?case by (blast intro: converse_rtranclp_into_rtranclp)
qed

text \<open>The loop returns as soon as some pass leaves nothing pending.\<close>

lemma drain_all_returns:
  assumes "(drain_pass tr js env cfg rm)\<^sup>*\<^sup>* x (w, s)"
    and "drain_once tr js env cfg rm w s = (Drained report, y)" "dr_still_pending report = 0"
  shows "\<exists>z. drain_all tr js env cfg rm (fst x) (snd x) = Some z"
  using assms(1)
proof (induction rule: converse_rtranclp_induct)
  case base
  then show ?case using assms(2,3) by (cases y) (simp add: drain_all.simps)
next
  case (step x x')
  then obtain r where "drain_once tr js env cfg rm (fst x) (snd x) = (r, fst x', snd x')"
    by (auto simp: drain_pass_def)
  from drain_all_step [OF this] step.IH show ?case by auto
qed


section \<open>What a pass does to the log\<close>

text \<open>
  An entry after a pass: as it was, or, when it was pending, failed or synced at a number for
  which the given predicate holds.\<close>

definition entry_drained :: "(wal_entry \<Rightarrow> nat \<Rightarrow> bool) \<Rightarrow> wal_entry \<Rightarrow> wal_entry \<Rightarrow> bool" where
  "entry_drained P e0 e \<longleftrightarrow>
     e = e0 \<or> we_state e0 = WalPending \<and>
       (e = e0\<lparr>we_state := WalFailed\<rparr> \<or> (\<exists>n. e = e0\<lparr>we_state := WalSynced n\<rparr> \<and> P e0 n))"

definition frames_fit :: "wal_json \<Rightarrow> wal_entry list \<Rightarrow> bool" where
  "frames_fit js es \<longleftrightarrow>
     (\<forall>e\<in>set es. \<forall>s bytes. encode_entry js (e\<lparr>we_state := s\<rparr>) = Inr bytes \<longrightarrow> length bytes < 2 ^ 32)"

lemma entry_drained_mono: "entry_drained P e0 e \<Longrightarrow> (\<And>n. P e0 n \<Longrightarrow> Q e0 n) \<Longrightarrow> entry_drained Q e0 e"
  by (auto simp: entry_drained_def)

lemma entry_drained_same: "entry_drained P e0 e \<Longrightarrow> e\<lparr>we_state := x\<rparr> = e0\<lparr>we_state := x\<rparr> \<and> we_local_lsn e = we_local_lsn e0"
  by (auto simp: entry_drained_def)

lemma entry_drained_trans:
  "entry_drained P e0 e1 \<Longrightarrow> entry_drained P e1 e2 \<Longrightarrow> entry_drained P e0 e2"
  by (auto simp: entry_drained_def)

lemma mark_drained:
  assumes laws: "tree_laws tr" "json_laws js" and log: "wal_log tr js w es"
    and rel: "list_all2 (entry_drained P) es0 es" and uniq: "distinct (map we_local_lsn es0)" and fit: "frames_fit js es0"
    and e0: "e0 \<in> set es0" "we_state e0 = WalPending" and x: "x = WalFailed \<or> (\<exists>n. x = WalSynced n \<and> P e0 n)"
  shows "\<exists>es'. wal_log tr js (snd (update_state tr js (we_local_lsn e0) (\<lambda>e. e\<lparr>we_state := x\<rparr>) w)) es' \<and>
    list_all2 (entry_drained P) es0 es'"
proof -
  let ?f = "\<lambda>e. e\<lparr>we_state := x\<rparr>"
  have all: "length es0 = length es" "\<And>i. i < length es \<Longrightarrow> entry_drained P (es0 ! i) (es ! i)"
    using rel by (simp_all add: list_all2_conv_all_nth)
  obtain i where i: "i < length es" "es0 ! i = e0" using e0(1) all(1) by (metis in_set_conv_nth)
  obtain r w' where run: "update_state tr js (we_local_lsn e0) ?f w = (r, w')"
    by (cases "update_state tr js (we_local_lsn e0) ?f w")
  have fits: "lsn_fits (we_local_lsn e0)"
    using log i all(2) [OF i(1)] entry_drained_same by (auto simp: wal_log_def list_all2_conv_all_nth entry_row_def)
  have short: "length bytes < 2 ^ 32" if "e \<in> set es" "encode_entry js (?f e) = Inr bytes" for e bytes
  proof -
    obtain j where j: "j < length es" "es ! j = e" using \<open>e \<in> set es\<close> by (metis in_set_conv_nth)
    have "?f e = ?f (es0 ! j)" using entry_drained_same [OF all(2) [OF j(1)]] j(2) by blast
    moreover have "es0 ! j \<in> set es0" using j(1) all(1) by simp
    ultimately show ?thesis using that(2) fit unfolding frames_fit_def by metis
  qed
  have new: "entry_drained P (es0 ! j) (if we_local_lsn (es ! j) = we_local_lsn e0 then ?f (es ! j) else es ! j)"
    if j: "j < length es" for j
  proof (cases "we_local_lsn (es ! j) = we_local_lsn e0")
    case True
    then have "we_local_lsn (es0 ! j) = we_local_lsn (es0 ! i)" using entry_drained_same [OF all(2) [OF j]] i(2) by simp
    then have "es0 ! j = e0" using uniq i j all(1) by (metis length_map nth_eq_iff_index_eq nth_map)
    moreover have "?f (es ! j) = ?f (es0 ! j)" using entry_drained_same [OF all(2) [OF j]] by blast
    ultimately show ?thesis using True e0(2) x by (auto simp: entry_drained_def)
  qed (use all(2) j in simp)
  from update_state_log [OF laws log fits _ _ run] short
  have "wal_log tr js w' es \<or> wal_log tr js w' (rewrite_entry (we_local_lsn e0) ?f es)" by auto
  moreover have "list_all2 (entry_drained P) es0 (rewrite_entry (we_local_lsn e0) ?f es)"
    using new all(1) by (simp add: rewrite_entry_def list_all2_conv_all_nth)
  ultimately show ?thesis using rel by (auto simp: run)
qed

lemma decode_items_log:
  "list_all2 (entry_row js) rows es \<Longrightarrow> decode_items js (map Inr rows) = Inr es"
  by (induction rows es rule: list_all2_induct) (auto simp: entry_row_def io_def decode_at_def)

lemma decode_items_error: "decode_items js (map Inr rows @ Inl e # rest) = Inr es \<Longrightarrow> False"
  by (induction rows arbitrary: es) (auto simp: and_then_Inr io_def split: sum.splits)

lemma pending_of_log:
  assumes "tree_laws tr" "wal_log tr js w es" "pending_entries tr js w = Inr pend"
  shows "pend = filter (\<lambda>e. we_state e = WalPending) es"
proof -
  from tree_lawsD(2) [OF assms(1), of "w_tree w"] consider "tr_iter tr (w_tree w) = map Inr (tr_rows tr (w_tree w))"
    | n e rest where "tr_iter tr (w_tree w) = map Inr (take n (tr_rows tr (w_tree w))) @ Inl e # rest" by blast
  then show ?thesis
  proof cases
    case 1
    with assms show ?thesis
      by (auto simp: pending_entries_def decoded_entries_def wal_log_def decode_items_log)
  next
    case 2
    with assms(3) show ?thesis
      by (auto simp: pending_entries_def decoded_entries_def and_then_Inr dest: decode_items_error)
  qed
qed


section \<open>The service a pass talks to\<close>

text \<open>An acknowledgement that takes the batch, now or earlier.\<close>

definition taken :: "ingest_ack \<Rightarrow> bool" where
  "taken ack \<longleftrightarrow> 0 < ak_accepted ack \<or> worst_of (ak_rejections ack) Success = Success"

text \<open>
  The interface: an invariant, and for every batch key the number it was settled at, which no call
  takes back; a call that takes a batch with memories has settled its key at the number it answers.\<close>

locale ingest_remote =
  fixes rm :: "('e, 's) remote"
    and ok :: "'s \<Rightarrow> bool"
    and settled :: "'s \<Rightarrow> ingest_batch_key \<Rightarrow> nat option"
  assumes register_ok: "ok s \<Longrightarrow> ok (snd (rm_register rm auth r s))"
    and register_settled: "ok s \<Longrightarrow> settled s k = Some n \<Longrightarrow> settled (snd (rm_register rm auth r s)) k = Some n"
    and submit_ok: "ok s \<Longrightarrow> ok (snd (rm_submit rm auth b s))"
    and submit_settled: "ok s \<Longrightarrow> settled s k = Some n \<Longrightarrow> settled (snd (rm_submit rm auth b s)) k = Some n"
    and submit_taken: "ok s \<Longrightarrow> rm_submit rm auth b s = (Inr ack, s') \<Longrightarrow> ibt_memories b \<noteq> [] \<Longrightarrow> taken ack \<Longrightarrow>
      settled s' (batch_key_of b) = Some (ak_assigned_lsn ack)"

definition delivered ::
    "ingest_env \<Rightarrow> drain_config \<Rightarrow> (ingest_batch_key \<Rightarrow> nat option) \<Rightarrow> wal_entry \<Rightarrow> nat \<Rightarrow> bool" where
  "delivered env cfg settled e n \<longleftrightarrow>
     (\<exists>batch. rebuild_batch (iv_blake3 env) (dc_fingerprint cfg) (dc_org cfg) (dc_ontology cfg) e = Built batch \<and>
        (we_memories e \<noteq> [] \<longrightarrow> settled (batch_key_of batch) = Some n))"

definition report_adds_up :: "drain_report \<Rightarrow> bool" where
  "report_adds_up r \<longleftrightarrow> dr_attempted r = dr_synced r + dr_failed r + dr_still_pending r"

lemma rebuilt_bind_Built: "rebuilt_bind r f = Built y \<longleftrightarrow> (\<exists>x. r = Built x \<and> f x = Built y)"
  by (cases r) auto

lemma wire_drafts_length: "wire_drafts onto e i ds = Built ms \<Longrightarrow> length ms = length ds"
  by (induction ds arbitrary: i ms) (auto simp: rebuilt_bind_Built)

lemma rebuilt_memories:
  "rebuild_batch h fp org onto e = Built batch \<Longrightarrow> ibt_memories batch = [] \<longleftrightarrow> we_memories e = []"
  by (auto simp: rebuild_batch_def Let_def rebuilt_bind_Built split: if_splits dest: wire_drafts_length)

lemma signed_batch_same [simp]:
  "batch_key_of (signed_batch env cfg batch) = batch_key_of batch"
  "ibt_memories (signed_batch env cfg batch) = ibt_memories batch"
  by (simp_all add: signed_batch_def prepare_batch_def sign_batch_def batch_key_of_def)

text \<open>A report in which the entry at hand is attempted and not yet counted.\<close>

abbreviation report_open :: "drain_report \<Rightarrow> bool" where
  "report_open r \<equiv> dr_attempted r = Suc (dr_synced r + dr_failed r + dr_still_pending r)"

lemma settle_ack_cases:
  assumes "settle_ack tr js e ack report w = (report', w')" "report_open report"
  obtains "report_adds_up report'" "taken ack"
      "w' = snd (update_state tr js (we_local_lsn e) (\<lambda>e. e\<lparr>we_state := WalSynced (ak_assigned_lsn ack)\<rparr>) w)"
  | "report_adds_up report'" "w' = w"
  | "report_adds_up report'" "w' = snd (update_state tr js (we_local_lsn e) (\<lambda>e. e\<lparr>we_state := WalFailed\<rparr>) w)"
  using assms
  by (cases "worst_of (ak_rejections ack) Success")
    (auto simp: settle_ack_def Let_def report_adds_up_def mark_synced_def mark_failed_def taken_def split: if_splits)

text \<open>How the body ends: without an answer that settles, failed, or after an acknowledgement.\<close>

lemma drain_entry_cases [consumes 1, case_names panicked unshapable unregistered unanswered answered]:
  assumes "drain_entry tr js env cfg rm e report w s = (flow, report', w', s')"
  obtains "flow = PanicPass" "w' = w" "s' = s"
  | "flow = NextEntry" "report' = report\<lparr>dr_failed := dr_failed report + 1\<rparr>" "s' = s"
      "w' = snd (update_state tr js (we_local_lsn e) (\<lambda>e. e\<lparr>we_state := WalFailed\<rparr>) w)"
  | r where "flow = NextEntry" "report' = report\<lparr>dr_still_pending := dr_still_pending report + 1\<rparr>" "w' = w"
      "s' = snd (rm_register rm (bearer cfg) r s)"
  | r b where "flow = StopPass" "report' = report\<lparr>dr_still_pending := dr_still_pending report + 1\<rparr>" "w' = w"
      "s' = snd (rm_submit rm (bearer cfg) b (snd (rm_register rm (bearer cfg) r s)))"
  | r batch ack where "flow = NextEntry"
      "rebuild_batch (iv_blake3 env) (dc_fingerprint cfg) (dc_org cfg) (dc_ontology cfg) e = Built batch"
      "rm_submit rm (bearer cfg) (signed_batch env cfg batch) (snd (rm_register rm (bearer cfg) r s)) = (Inr ack, s')"
      "settle_ack tr js e ack report w = (report', w')"
proof (cases "rebuild_batch (iv_blake3 env) (dc_fingerprint cfg) (dc_org cfg) (dc_ontology cfg) e")
  case (Built batch)
  obtain r1 s1 where reg: "rm_register rm (bearer cfg) (session_registration env cfg batch) s = (r1, s1)"
    by (cases "rm_register rm (bearer cfg) (session_registration env cfg batch) s")
  obtain r2 s2 where sub: "rm_submit rm (bearer cfg) (signed_batch env cfg batch) s1 = (r2, s2)"
    by (cases "rm_submit rm (bearer cfg) (signed_batch env cfg batch) s1")
  show thesis
  proof (cases r1)
    case (Inl err)
    with assms Built reg show thesis
      by (intro that(3) [of "session_registration env cfg batch"]) (simp_all add: drain_entry_def)
  next
    case Inr
    show thesis
    proof (cases r2)
      case (Inl err)
      with assms Built reg sub Inr show thesis
        by (intro that(4) [of "signed_batch env cfg batch" "session_registration env cfg batch"]) (simp_all add: drain_entry_def)
    next
      case (Inr ack)
      with assms Built reg sub \<open>r1 = Inr _\<close> show thesis
        by (intro that(5) [of batch "session_registration env cfg batch" ack]) (auto simp: drain_entry_def split: prod.splits)
    qed
  qed
qed (use assms in \<open>auto simp: drain_entry_def mark_failed_def intro: that(1,2)\<close>)

context ingest_remote
begin

abbreviation moved :: "'s \<Rightarrow> 's \<Rightarrow> bool" where
  "moved s s' \<equiv> ok s' \<and> (\<forall>k n. settled s k = Some n \<longrightarrow> settled s' k = Some n)"

lemma moved_register: "ok s \<Longrightarrow> moved s (snd (rm_register rm auth r s))"
  by (simp add: register_ok register_settled)

lemma moved_submit: "ok s \<Longrightarrow> moved s (snd (rm_submit rm auth b s))"
  by (simp add: submit_ok submit_settled)

lemma drained_later:
  "list_all2 (entry_drained (delivered env cfg (settled s))) es0 es \<Longrightarrow> moved s s' \<Longrightarrow>
     list_all2 (entry_drained (delivered env cfg (settled s'))) es0 es"
  by (erule list_all2_mono) (auto simp: delivered_def elim!: entry_drained_mono)

lemma drain_entry_log:
  assumes laws: "tree_laws tr" "json_laws js" and uniq: "distinct (map we_local_lsn es0)" and fit: "frames_fit js es0"
    and e: "e \<in> set es0" "we_state e = WalPending"
    and s: "ok s" and log: "wal_log tr js w es" "list_all2 (entry_drained (delivered env cfg (settled s))) es0 es"
    and report: "report_open report"
    and run: "drain_entry tr js env cfg rm e report w s = (flow, report', w', s')"
  shows "moved s s' \<and> (flow \<noteq> PanicPass \<longrightarrow> report_adds_up report') \<and>
    (\<exists>es'. wal_log tr js w' es' \<and> list_all2 (entry_drained (delivered env cfg (settled s'))) es0 es')"
proof -
  let ?rel = "\<lambda>s. list_all2 (entry_drained (delivered env cfg (settled s))) es0"
  have marked: "\<exists>es'. wal_log tr js (snd (update_state tr js (we_local_lsn e) (\<lambda>e. e\<lparr>we_state := x\<rparr>) w)) es' \<and> ?rel s1 es'"
    if "?rel s1 es" "x = WalFailed \<or> (\<exists>n. x = WalSynced n \<and> delivered env cfg (settled s1) e n)" for s1 x
    by (rule mark_drained [OF laws log(1) that(1) uniq fit e that(2)])
  from run show ?thesis
  proof (cases rule: drain_entry_cases)
    case panicked
    with s log show ?thesis by auto
  next
    case unshapable
    with s report marked [OF log(2), of WalFailed] show ?thesis by (simp add: report_adds_up_def)
  next
    case (unregistered r)
    with report log drained_later [OF log(2)] moved_register [OF s] show ?thesis by (auto simp: report_adds_up_def)
  next
    case (unanswered r b)
    have "moved s s'" using unanswered(4) moved_submit moved_register [OF s] by blast
    with unanswered report log drained_later [OF log(2)] show ?thesis by (auto simp: report_adds_up_def)
  next
    case (answered r batch ack)
    have s1: "ok (snd (rm_register rm (bearer cfg) r s))" using moved_register [OF s] by blast
    have "moved s s'" using answered(3) moved_submit [OF s1] moved_register [OF s] by (metis snd_conv)
    note rel = drained_later [OF log(2) this]
    have synced: "delivered env cfg (settled s') e (ak_assigned_lsn ack)" if "taken ack"
      using submit_taken [OF s1 answered(3) _ that] rebuilt_memories [OF answered(2)] answered(2)
      by (auto simp: delivered_def)
    from answered(4) report have "report_adds_up report' \<and> (\<exists>es'. wal_log tr js w' es' \<and> ?rel s' es')"
      using marked [OF rel] synced log(1) rel by (cases rule: settle_ack_cases) blast+
    with \<open>moved s s'\<close> show ?thesis by blast
  qed
qed

lemma drain_entries_log:
  assumes laws: "tree_laws tr" "json_laws js" and uniq: "distinct (map we_local_lsn es0)" and fit: "frames_fit js es0"
    and "\<forall>e\<in>set pend. e \<in> set es0 \<and> we_state e = WalPending"
    and "ok s" "wal_log tr js w es" "list_all2 (entry_drained (delivered env cfg (settled s))) es0 es"
    and "report_adds_up report" "drain_entries tr js env cfg rm pend report w s = (r, w', s')"
  shows "moved s s' \<and> (\<forall>rep. r = Drained rep \<longrightarrow> report_adds_up rep) \<and>
    (\<exists>es'. wal_log tr js w' es' \<and> list_all2 (entry_drained (delivered env cfg (settled s'))) es0 es')"
  using assms(5-)
proof (induction pend arbitrary: report w s es)
  case (Cons e pend)
  let ?rep = "report\<lparr>dr_attempted := dr_attempted report + 1\<rparr>"
  obtain flow rep1 w1 s1 where one: "drain_entry tr js env cfg rm e ?rep w s = (flow, rep1, w1, s1)"
    by (cases "drain_entry tr js env cfg rm e ?rep w s")
  have e: "e \<in> set es0" "we_state e = WalPending" using Cons.prems(1) by auto
  have "report_open ?rep" using Cons.prems(5) by (simp add: report_adds_up_def)
  from drain_entry_log [OF laws uniq fit e Cons.prems(2-4) this one] obtain es1 where
    m: "moved s s1" "flow \<noteq> PanicPass \<Longrightarrow> report_adds_up rep1" "wal_log tr js w1 es1"
      "list_all2 (entry_drained (delivered env cfg (settled s1))) es0 es1" by auto
  show ?case
  proof (cases flow)
    case NextEntry
    with m Cons.prems(1,6) one Cons.IH [OF _ _ m(3,4) m(2)] show ?thesis by auto
  qed (use m Cons.prems(6) one in auto)
qed auto

lemma drain_once_log:
  assumes laws: "tree_laws tr" "json_laws js" and s: "ok s" and log: "wal_log tr js w es" and fit: "frames_fit js es"
    and run: "drain_once tr js env cfg rm w s = (r, w', s')"
  shows "moved s s' \<and> (\<forall>rep. r = Drained rep \<longrightarrow> report_adds_up rep) \<and>
    (\<exists>es'. wal_log tr js w' es' \<and> list_all2 (entry_drained (delivered env cfg (settled s'))) es es')"
proof -
  have here: "list_all2 (entry_drained (delivered env cfg (settled s))) es es"
    by (simp add: list_all2_same entry_drained_def)
  show ?thesis
  proof (cases "pending_entries tr js w")
    case (Inl err)
    with run s log here show ?thesis by (auto simp: drain_once_def)
  next
    case (Inr pend)
    have "distinct (map we_local_lsn es)" using log_sorted(1) [OF laws(1) log] strict_sorted_iff by blast
    moreover have "\<forall>e\<in>set pend. e \<in> set es \<and> we_state e = WalPending"
      using pending_of_log [OF laws(1) log Inr] by simp
    moreover have "drain_entries tr js env cfg rm pend empty_report w s = (r, w', s')"
      using run Inr by (simp add: drain_once_def)
    moreover have "report_adds_up empty_report" by (simp add: report_adds_up_def empty_report_def)
    ultimately show ?thesis using drain_entries_log [OF laws _ fit _ s log here] by blast
  qed
qed

lemma drained_frames_fit:
  assumes fit: "frames_fit js es" and rel: "list_all2 (entry_drained P) es es1"
  shows "frames_fit js es1"
  unfolding frames_fit_def
proof (intro ballI allI impI)
  fix e x bytes
  assume e: "e \<in> set es1" and enc: "encode_entry js (e\<lparr>we_state := x\<rparr>) = Inr bytes"
  from e obtain i where "i < length es1" "e = es1 ! i" by (auto simp: in_set_conv_nth)
  with rel have e0: "es ! i \<in> set es" "entry_drained P (es ! i) e"
    by (simp_all add: list_all2_conv_all_nth)
  from entry_drained_same [OF e0(2)] enc have "encode_entry js ((es ! i)\<lparr>we_state := x\<rparr>) = Inr bytes" by auto
  with fit e0(1) show "length bytes < 2 ^ 32" by (auto simp: frames_fit_def)
qed

lemma drain_passes_log:
  assumes laws: "tree_laws tr" "json_laws js" and fit: "frames_fit js es" and s: "ok s" and log: "wal_log tr js w es"
    and run: "(drain_pass tr js env cfg rm)\<^sup>*\<^sup>* (w, s) y"
  shows "moved s (snd y) \<and>
    (\<exists>es'. wal_log tr js (fst y) es' \<and> list_all2 (entry_drained (delivered env cfg (settled (snd y)))) es es')"
  using run
proof (induction rule: rtranclp_induct)
  case base
  show ?case using s log by (auto simp: list_all2_same entry_drained_def)
next
  case (step y z)
  obtain r where one: "drain_once tr js env cfg rm (fst y) (snd y) = (r, fst z, snd z)"
    using step.hyps(2) by (auto simp: drain_pass_def)
  from step.IH obtain es1 where y: "moved s (snd y)" "wal_log tr js (fst y) es1"
    "list_all2 (entry_drained (delivered env cfg (settled (snd y)))) es es1" by blast
  then have "ok (snd y)" by blast
  from drain_once_log [OF laws this y(2) drained_frames_fit [OF fit y(3)] one] obtain es2 where
    m: "moved (snd y) (snd z)" "wal_log tr js (fst z) es2"
      "list_all2 (entry_drained (delivered env cfg (settled (snd z)))) es1 es2" by blast
  have "list_all2 (entry_drained (delivered env cfg (settled (snd z)))) es es2"
    by (rule list_all2_trans [OF _ drained_later [OF y(3) m(1)] m(3)]) (rule entry_drained_trans)
  with y(1) m show ?case by blast
qed

end


section \<open>The ingest service behind a link\<close>

text \<open>
  A call reaches the service after whatever other requests ran since the last one; the request or
  its answer may be lost. The times, the drawn ids and the outcome of writing the registry file
  are those of the call.\<close>

datatype fate = Delivered | RequestLost | AnswerLost

record ('c, 'd) link =
  lk_fate :: "nat \<Rightarrow> fate"
  lk_others :: "nat \<Rightarrow> ('c, 'd) ingest_server \<Rightarrow> ('c, 'd) ingest_server"
  lk_now :: "nat \<Rightarrow> instant"
  lk_fresh :: "nat \<Rightarrow> nat \<Rightarrow> memory_id"
  lk_clock :: "nat \<Rightarrow> nat \<Rightarrow> instant"
  lk_io_ok :: "nat \<Rightarrow> bool"
  lk_who :: "string option \<Rightarrow> visibility_context option"

definition link_laws ::
    "ingest_env \<Rightarrow> ('c, 'd) registries \<Rightarrow> (byte list \<Rightarrow> byte list) \<Rightarrow> (discovery_record list \<Rightarrow> string + byte list) \<Rightarrow>
     ('c, 'd) link \<Rightarrow> bool" where
  "link_laws env rg digest json lk \<longleftrightarrow>
     (\<forall>n sv. (service_step env rg digest json)\<^sup>*\<^sup>* sv (lk_others lk n sv))"

definition over_link ::
    "('c, 'd) link \<Rightarrow> (nat \<Rightarrow> ('c, 'd) ingest_server \<Rightarrow> (grpc_status + 'a) \<times> ('c, 'd) ingest_server) \<Rightarrow>
     ('c, 'd) ingest_server \<times> nat \<Rightarrow> (grpc_status option + 'a) \<times> ('c, 'd) ingest_server \<times> nat" where
  "over_link lk request s =
     (case s of (sv, n) \<Rightarrow>
        let sv1 = lk_others lk n sv
        in case lk_fate lk n of
             RequestLost \<Rightarrow> (Inl None, sv1, Suc n)
           | AnswerLost \<Rightarrow> (Inl None, snd (request n sv1), Suc n)
           | Delivered \<Rightarrow> (map_sum Some (\<lambda>x. x) (fst (request n sv1)), snd (request n sv1), Suc n))"

definition linked ::
    "ingest_env \<Rightarrow> ('c, 'd) registries \<Rightarrow> ('c, 'd) link \<Rightarrow> (grpc_status option, ('c, 'd) ingest_server \<times> nat) remote" where
  "linked env rg lk =
     \<lparr>rm_register = (\<lambda>auth r. over_link lk (\<lambda>n. register_source env rg (lk_now lk n) (lk_io_ok lk n) (lk_who lk auth) r)),
      rm_submit = (\<lambda>auth b. over_link lk
        (\<lambda>n. submit env rg (lk_now lk n) (lk_fresh lk n) (lk_clock lk n) (lk_who lk auth) b))\<rparr>"

definition settled_at :: "store \<Rightarrow> ingest_batch_key \<Rightarrow> nat option" where
  "settled_at st k = map_option sb_assigned_lsn (hm_get (s_settled_ingest st) k)"

lemma worst_of_rank: "disposition_rank d \<le> disposition_rank (worst_of rows d)"
proof (induction rows arbitrary: d)
  case (Cons r rows)
  show ?case using Cons.IH [of "classify (rj_code r)"] Cons.IH [of d] by (simp add: Let_def)
qed simp

lemma rank_zero: "disposition_rank d = 0 \<longleftrightarrow> d = Success"
  by (cases d) auto

lemma classify_success: "classify code = Success \<longleftrightarrow> code = DuplicateBatch"
  by (cases code) (auto simp: classify_def)

lemma worst_success: "worst_of rows Success = Success \<Longrightarrow> row \<in> set rows \<Longrightarrow> rj_code row = DuplicateBatch"
proof (induction rows)
  case (Cons r rows)
  have "classify (rj_code r) = Success"
  proof (rule ccontr)
    assume "classify (rj_code r) \<noteq> Success"
    then have "0 < disposition_rank (classify (rj_code r))" using rank_zero by (metis not_gr_zero)
    moreover from this Cons.prems(1) have "worst_of rows (classify (rj_code r)) = Success" by (simp add: Let_def)
    ultimately show False using worst_of_rank [of "classify (rj_code r)" rows] by simp
  qed
  with Cons show ?case by (auto simp: Let_def classify_success)
qed simp

lemma refusal_not_taken: "refusal b ack \<Longrightarrow> ibt_memories b \<noteq> [] \<Longrightarrow> \<not> taken ack"
proof
  assume r: "refusal b ack" "ibt_memories b \<noteq> []" "taken ack"
  then obtain row where row: "row \<in> set (ak_rejections ack)" by (auto simp: refusal_def dest!: hd_in_set)
  moreover have "worst_of (ak_rejections ack) Success = Success" using r by (simp add: taken_def refusal_def)
  ultimately show False using worst_success r(1) by (auto simp: refusal_def)
qed

lemma submit_taken_settled:
  assumes ok: "server_ok rg sv" and run: "submit env rg now fresh clock who b sv = (Inr ack, sv')"
    and b: "ibt_memories b \<noteq> []" "taken ack"
  shows "settled_at (sv_store sv') (batch_key_of b) = Some (ak_assigned_lsn ack)"
  using run
proof (cases rule: submit_cases)
  case refused
  with b refusal_not_taken show ?thesis by blast
next
  case (replayed remembered)
  have "lru_laws (rg_seen rg)" using ok by (simp add: server_ok_def registry_laws_def)
  with replayed(3) have "lru_peek (rg_seen rg) (seen_key_of b) (sv_seen_batches sv) = Some remembered"
    by (simp add: lru_lawsD)
  with ok obtain s where "hm_get (s_settled_ingest (sv_store sv)) (batch_key_of b) = Some s"
      "ak_assigned_lsn remembered = sb_assigned_lsn s"
    unfolding server_ok_def seen_ok_def batch_key_of_def by blast
  with replayed quiet_frame(5) [OF browsed_frame(1) [OF replayed(1)]] show ?thesis by (simp add: settled_at_def)
next
  case (committing source v sv2 sv3)
  note q3 = quiet_frame(5) [OF browsed_frame(1) [OF committing(2)]]
  from committing(8) show ?thesis
  proof (cases rule: commit_validated_cases)
    case (duplicate s st)
    with q3 quiet_frame(5) [OF duplicate(2)] show ?thesis
      by (auto simp: settled_at_def duplicate_ack_def)
  next
    case (committed a t recs st0 st1 st2)
    have "hm_get (s_settled_ingest (sv_store sv')) (batch_key_of b) =
        Some (settlement (cw_accepted (rows_of env sv3 now b source v)) recs)"
      using committed(5,7) by auto
    with committed(1,6) show ?thesis
      by (simp add: settled_at_def settlement_def finish_commit_def Let_def split: prod.splits)
  qed auto
qed


lemma over_link_cases [consumes 1, case_names lost answered]:
  assumes "over_link lk request (sv, n) = (r, sv', n')"
  obtains "sv' = lk_others lk n sv" "\<And>x. r \<noteq> Inr x"
  | "sv' = snd (request n (lk_others lk n sv))" "\<And>x. r = Inr x \<Longrightarrow> fst (request n (lk_others lk n sv)) = Inr x"
  using assms
proof (cases "lk_fate lk n")
  case Delivered
  with assms show thesis by (intro that(2)) (auto simp: over_link_def Let_def map_sum_def split: sum.splits)
qed (auto simp: over_link_def Let_def intro: that)

definition link_ok ::
    "ingest_env \<Rightarrow> ('c, 'd) registries \<Rightarrow> (byte list \<Rightarrow> byte list) \<Rightarrow> (discovery_record list \<Rightarrow> string + byte list) \<Rightarrow>
     ('c, 'd) link \<Rightarrow> ('c, 'd) ingest_server \<times> nat \<Rightarrow> bool" where
  "link_ok env rg digest json lk s \<longleftrightarrow> link_laws env rg digest json lk \<and> server_ok rg (fst s)"

lemma over_link_run:
  assumes ok: "link_ok env rg digest json lk s"
    and step: "\<And>n sv. service_step env rg digest json sv (snd (request n sv))"
  shows "(service_step env rg digest json)\<^sup>*\<^sup>* (fst s) (fst (snd (over_link lk request s)))"
proof -
  obtain sv n where s: "s = (sv, n)" by (cases s)
  obtain r sv' n' where run: "over_link lk request (sv, n) = (r, sv', n')" by (cases "over_link lk request (sv, n)")
  have others: "(service_step env rg digest json)\<^sup>*\<^sup>* sv (lk_others lk n sv)"
    using ok by (simp add: link_ok_def link_laws_def)
  from run show ?thesis
  proof (cases rule: over_link_cases)
    case lost
    with others run s show ?thesis by simp
  next
    case answered
    with rtranclp.rtrancl_into_rtrancl [OF others step] run s show ?thesis by simp
  qed
qed

lemma over_link_keeps:
  assumes ok: "link_ok env rg digest json lk s" and step: "\<And>n sv. service_step env rg digest json sv (snd (request n sv))"
  shows "link_ok env rg digest json lk (snd (over_link lk request s))"
    and "settled_at (sv_store (fst s)) k = Some m \<Longrightarrow> settled_at (sv_store (fst (snd (over_link lk request s)))) k = Some m"
proof -
  note run = over_link_run [of env rg digest json lk s request, OF ok step]
  have sv: "server_ok rg (fst s)" using ok by (simp add: link_ok_def)
  show "link_ok env rg digest json lk (snd (over_link lk request s))"
    using ok service.run_ok [OF run sv] by (simp add: link_ok_def)
  show "settled_at (sv_store (fst s)) k = Some m \<Longrightarrow> settled_at (sv_store (fst (snd (over_link lk request s)))) k = Some m"
    using service.run_kept [OF run sv] by (auto simp: settled_at_def kept_def)
qed

interpretation session: ingest_remote "linked env rg lk" "link_ok env rg digest json lk"
    "\<lambda>s. settled_at (sv_store (fst s))"
proof
  fix s s' auth r k n b ack
  assume ok: "link_ok env rg digest json lk s"
  show "link_ok env rg digest json lk (snd (rm_register (linked env rg lk) auth r s))"
    using ok by (simp add: linked_def over_link_keeps sv_register)
  show "link_ok env rg digest json lk (snd (rm_submit (linked env rg lk) auth b s))"
    using ok by (simp add: linked_def over_link_keeps sv_submit)
  show "settled_at (sv_store (fst s)) k = Some n \<Longrightarrow>
      settled_at (sv_store (fst (snd (rm_register (linked env rg lk) auth r s)))) k = Some n"
    using ok by (simp add: linked_def over_link_keeps(2) [OF ok] sv_register)
  show "settled_at (sv_store (fst s)) k = Some n \<Longrightarrow>
      settled_at (sv_store (fst (snd (rm_submit (linked env rg lk) auth b s)))) k = Some n"
    using ok by (simp add: linked_def over_link_keeps(2) [OF ok] sv_submit)
  assume run: "rm_submit (linked env rg lk) auth b s = (Inr ack, s')" and b: "ibt_memories b \<noteq> []" "taken ack"
  obtain sv i sv' i' where s: "s = (sv, i)" "s' = (sv', i')" by (cases s, cases s')
  let ?submit = "\<lambda>n. submit env rg (lk_now lk n) (lk_fresh lk n) (lk_clock lk n) (lk_who lk auth) b"
  from run have "over_link lk ?submit (sv, i) = (Inr ack, sv', i')" by (simp add: linked_def s)
  then have "?submit i (lk_others lk i sv) = (Inr ack, sv')"
    by (cases rule: over_link_cases) (auto simp: prod_eq_iff)
  moreover have "server_ok rg (lk_others lk i sv)"
    using ok service.run_ok [of env rg digest json sv "lk_others lk i sv"] by (simp add: link_ok_def link_laws_def s)
  ultimately show "settled_at (sv_store (fst s')) (batch_key_of b) = Some (ak_assigned_lsn ack)"
    using submit_taken_settled [OF _ _ b] by (simp add: s)
qed

text \<open>
  C31: Draining loses nothing and claims nothing. Over a link that may lose requests and answers, with
  other clients at work between the calls, any number of passes, whether or not the loop ever
  returns, leaves a log with the same entries in the same order: an entry is as it was, or it was
  pending and is now failed, or it was pending and is now synced, and then, when it has memories,
  the service has settled its batch, at the very number the entry carries. Settlements are never
  taken back. An entry without memories makes no such promise: it is marked synced on an answer
  without a rejection. What the drain loop returns is the end of such a sequence of passes, and it
  returns as soon as a pass leaves nothing pending.\<close>

theorem drained_entries_settled:
  assumes "tree_laws tr" "json_laws js" "link_laws env rg digest json lk" "server_ok rg sv"
    and "wal_log tr js w es" "frames_fit js es"
    and "(drain_pass tr js env cfg (linked env rg lk))\<^sup>*\<^sup>* (w, sv, n) (w', sv', n')"
  shows "server_ok rg sv' \<and> (\<forall>k m. settled_at (sv_store sv) k = Some m \<longrightarrow> settled_at (sv_store sv') k = Some m) \<and>
    (\<exists>es'. wal_log tr js w' es' \<and> list_all2 (entry_drained (delivered env cfg (settled_at (sv_store sv')))) es es') \<and>
    (\<forall>z. drain_all tr js env cfg (linked env rg lk) w (sv, n) = Some z \<longrightarrow>
       (drain_pass tr js env cfg (linked env rg lk))\<^sup>*\<^sup>* (w, sv, n) z) \<and>
    (\<forall>report y. drain_once tr js env cfg (linked env rg lk) w' (sv', n') = (Drained report, y) \<longrightarrow> dr_still_pending report = 0 \<longrightarrow>
       (\<exists>z. drain_all tr js env cfg (linked env rg lk) w (sv, n) = Some z))"
proof -
  have ok: "link_ok env rg digest json lk (sv, n)" using assms(3,4) by (simp add: link_ok_def)
  have "\<exists>z. drain_all tr js env cfg (linked env rg lk) w (sv, n) = Some z"
    if "drain_once tr js env cfg (linked env rg lk) w' (sv', n') = (Drained report, y)" "dr_still_pending report = 0" for report y
    using drain_all_returns [OF assms(7) that] by simp
  with session.drain_passes_log [OF assms(1,2,6) ok assms(5,7)] drain_all_passes show ?thesis by (auto simp: link_ok_def)
qed


text \<open>
  A log with one pending entry of one memory, and a codec for that entry in every state. The entry
  is rebuilt into a batch, so the pass calls the service with it.\<close>

definition noted_draft :: Kernel_Types.memory_draft where
  "noted_draft =
     \<lparr>d_memory_type = 0, d_title = ''t'', d_content = ''c'', d_summary = None, d_visibility = Org,
      d_context = context_of 0 None \<lparr>ds_tenant_id = None, ds_user_id = None, ds_project_id = None, ds_team_id = None\<rparr>,
      d_edge_hints = [], d_external_key = None\<rparr>"

definition noted_entry :: wal_entry where
  "noted_entry = (pending_entry ''s1'' [noted_draft] [MemoryId [9]] ''b1'' [''d1''] [] ''acme'' ''ann'')\<lparr>we_local_lsn := 1\<rparr>"

definition state_code :: "wal_state \<Rightarrow> string + byte list" where
  "state_code x =
     (case x of WalPending \<Rightarrow> Inr [1] | WalFailed \<Rightarrow> Inr [2]
      | WalSynced n \<Rightarrow> if n < 2 ^ 64 then Inr (3 # be_bytes 8 n) else Inl ''out of range'')"

definition code_state :: "byte list \<Rightarrow> wal_state" where
  "code_state j = (if j = [1] then WalPending else if j = [2] then WalFailed else WalSynced (be_value (tl j)))"

definition noted_json :: wal_json where
  "noted_json =
     \<lparr>wj_to_vec = (\<lambda>e. if e = noted_entry\<lparr>we_state := we_state e\<rparr> then state_code (we_state e) else Inl ''unknown''),
      wj_from_slice = (\<lambda>j. Inr (noted_entry\<lparr>we_state := code_state j\<rparr>))\<rparr>"

definition quiet_link :: "('c, 'd) link" where
  "quiet_link =
     \<lparr>lk_fate = (\<lambda>_. Delivered), lk_others = (\<lambda>_ sv. sv), lk_now = (\<lambda>_. 5), lk_fresh = (\<lambda>_ _. MemoryId [9]),
      lk_clock = (\<lambda>_ _. 5), lk_io_ok = (\<lambda>_. True), lk_who = (\<lambda>_. Some sample_principal)\<rparr>"

definition sample_config :: drain_config where
  "sample_config =
     \<lparr>dc_key = [7], dc_fingerprint = zeros32, dc_org = ''acme'', dc_token = None, dc_ontology = sample_types,
      dc_node = ''n'', dc_header_ok = (\<lambda>_. True)\<rparr>"

lemma code_state_of: "state_code x = Inr j \<Longrightarrow> code_state j = x"
  by (auto simp: state_code_def code_state_def be_value_be_bytes split: wal_state.splits if_splits)

lemma noted_json_laws: "json_laws noted_json"
  by (auto simp: json_laws_def noted_json_def dest: code_state_of split: if_splits)

lemma noted_decoded: "decode_entry noted_json sample_frame = Inr noted_entry"
  by (rule decode_encode [OF noted_json_laws])
    (simp_all add: encode_entry_def noted_json_def sample_frame_def noted_entry_def pending_entry_def state_code_def)

lemma noted_log: "wal_log list_tree noted_json sample_wal_written [noted_entry]"
  by (simp add: wal_log_def list_tree_def sample_wal_written_def sample_wal_def bt_ok_def entry_row_def noted_decoded)
    (simp add: noted_entry_def lsn_fits_def)

lemma noted_fits: "frames_fit noted_json [noted_entry]"
  by (auto simp: frames_fit_def encode_entry_def noted_json_def state_code_def be_bytes_def and_then_Inr
      split: if_splits wal_state.splits)

lemma noted_pending: "pending_entries list_tree noted_json sample_wal_written = Inr [noted_entry]"
proof -
  have "key_to_lsn (be_bytes 8 1) = Inr 1" by (rule key_to_lsn_key) (simp add: lsn_fits_def)
  then show ?thesis using noted_decoded
    by (simp add: pending_entries_def decoded_entries_def list_tree_def sample_wal_written_def sample_wal_def bt_ok_def
        io_def decode_at_def) (simp add: noted_entry_def pending_entry_def)
qed

lemma noted_built: "\<exists>b. rebuild_batch h fp org sample_types noted_entry = Built b \<and> ibt_memories b \<noteq> []"
  by (simp add: rebuild_batch_def noted_entry_def pending_entry_def noted_draft_def wire_draft_def at_index_def sample_types_def
      entry_hints_def Let_def)

theorem drained_entries_settled_witness:
  "\<exists>b r w' sv' n' es'. rebuild_batch (iv_blake3 sample_env) zeros32 ''acme'' sample_types noted_entry = Built b \<and>
     ibt_memories b \<noteq> [] \<and> pending_entries list_tree noted_json sample_wal_written = Inr [noted_entry] \<and>
     drain_once list_tree noted_json sample_env sample_config (linked sample_env sample_registries quiet_link)
       sample_wal_written (sample_serving, 0) = (r, w', sv', n') \<and>
     wal_log list_tree noted_json w' es' \<and>
     list_all2 (entry_drained (delivered sample_env sample_config (settled_at (sv_store sv')))) [noted_entry] es'"
proof -
  let ?rm = "linked sample_env sample_registries quiet_link"
  obtain r w' sv' n' where run:
    "drain_once list_tree noted_json sample_env sample_config ?rm sample_wal_written (sample_serving, 0) = (r, w', sv', n')"
    by (cases "drain_once list_tree noted_json sample_env sample_config ?rm sample_wal_written (sample_serving, 0)")
  then have pass: "(drain_pass list_tree noted_json sample_env sample_config ?rm)\<^sup>*\<^sup>* (sample_wal_written, sample_serving, 0) (w', sv', n')"
    by (intro r_into_rtranclp) (auto simp: drain_pass_def)
  have laws: "link_laws sample_env sample_registries (\<lambda>x. x) (\<lambda>_. Inl []) quiet_link"
    by (simp add: link_laws_def quiet_link_def)
  from drained_entries_settled [OF list_tree_laws noted_json_laws laws sample_serving_ok noted_log noted_fits pass] run
    noted_built [of "iv_blake3 sample_env" zeros32 "''acme''"] noted_pending
  show ?thesis by blast
qed

end
