(* ===== verification/Adapter_Split.thy ===== *)
theory Adapter_Split
  imports Draft_Components Client_Drain
begin

text \<open>
  Splitting a unit of change into batches, after \<open>crates/exocortex-adapter-sdk/src/split.rs\<close> and
  the unit and error types of \<open>lib.rs\<close>: the rows of a unit are grouped into the
  connected components of its relationships, and components are packed into batches within the
  byte budget and the count ceilings of the service. The encoders and the hash are those of the
  wire.
\<close>

section \<open>Units and errors\<close>

record batch_unit =
  bu_batch_id_seed :: string
  bu_memories :: "memory_draft_pb list"
  bu_relationships :: "relationship_draft_pb list"
  bu_snapshot :: "snapshot_info_pb option"
  bu_observed_at :: instant

text \<open>A gRPC status: one of the seventeen codes and a message.\<close>

datatype grpc_code =
    CodeOk | CodeCancelled | CodeUnknown | CodeInvalidArgument | CodeDeadlineExceeded | CodeNotFound
  | CodeAlreadyExists | CodePermissionDenied | CodeResourceExhausted | CodeFailedPrecondition
  | CodeAborted | CodeOutOfRange | CodeUnimplemented | CodeInternal | CodeUnavailable | CodeDataLoss
  | CodeUnauthenticated

type_synonym tonic_status = "grpc_code \<times> string"

datatype sdk_error =
    SdkTransport tonic_status
  | TransportConnect string
  | RetriesExhausted nat
  | CeilingMismatch int int
  | FingerprintMismatch "byte list" "byte list"
  | Unsplittable "string list" string
  | ProjectionBoundExceededErr string nat nat
  | SourceRewoundErr string string
  | InvalidUnit string
  | LocalRejections "(string \<times> string \<times> string) list"
  | SdkFatal int string
  | CursorIo string
  | CursorCorrupt string

section \<open>Validation of a unit\<close>

fun repeated_keys :: "string list \<Rightarrow> string list \<Rightarrow> string list" where
  "repeated_keys seen [] = []"
| "repeated_keys seen (k # ks) = (if k \<in> set seen then k # repeated_keys seen ks else repeated_keys (k # seen) ks)"

fun check_endpoints :: "string list \<Rightarrow> relationship_draft_pb list \<Rightarrow> sdk_error + unit" where
  "check_endpoints keys [] = Inr ()"
| "check_endpoints keys (r # rs) =
     (if rd_from_draft_key r \<notin> set keys \<or> rd_to_draft_key r \<notin> set keys
      then Inl (InvalidUnit (''relationship '' @ rd_from_draft_key r @ ''->'' @ rd_to_draft_key r @
                  '' references a draft_key not in this unit''))
      else check_endpoints keys rs)"

fun check_external_keys :: "memory_draft_pb list \<Rightarrow> sdk_error + unit" where
  "check_external_keys [] = Inr ()"
| "check_external_keys (m # ms) =
     (if md_external_key m = None
      then Inl (InvalidUnit (''snapshot unit memory '' @ md_draft_key m @
                  '' lacks an external_key (MISSING_EXTERNAL_KEY pre-empted)''))
      else check_external_keys ms)"

text \<open>The \<open>Debug\<close> form of the repeated keys is a parameter.\<close>

definition validate_unit :: "(string list \<Rightarrow> string) \<Rightarrow> batch_unit \<Rightarrow> sdk_error + unit" where
  "validate_unit dbg u =
     (let keys = map md_draft_key (bu_memories u)
      in if \<not> distinct keys then Inl (InvalidUnit (''duplicate draft_key(s): '' @ dbg (repeated_keys [] keys)))
         else
           and_then (check_endpoints keys (bu_relationships u)) (\<lambda>_.
             if bu_snapshot u = None then Inr () else check_external_keys (bu_memories u)))"

section \<open>Components\<close>

type_synonym component = "memory_draft_pb list \<times> relationship_draft_pb list"

definition component_at :: "(string \<times> component) list \<Rightarrow> string \<Rightarrow> component" where
  "component_at comps root = (case map_of comps root of None \<Rightarrow> ([], []) | Some c \<Rightarrow> c)"

fun gather_memories ::
    "memory_draft_pb list \<Rightarrow> string parents \<Rightarrow> (string \<times> component) list \<Rightarrow>
     (string parents \<times> (string \<times> component) list) option" where
  "gather_memories [] parent comps = Some (parent, comps)"
| "gather_memories (m # ms) parent comps =
     (case find_root (md_draft_key m) parent of
        None \<Rightarrow> None
      | Some (root, parent) \<Rightarrow>
          gather_memories ms parent
            (bt_insert root (fst (component_at comps root) @ [m], snd (component_at comps root)) comps))"

fun gather_edges ::
    "relationship_draft_pb list \<Rightarrow> string parents \<Rightarrow> (string \<times> component) list \<Rightarrow>
     (string parents \<times> (string \<times> component) list) option" where
  "gather_edges [] parent comps = Some (parent, comps)"
| "gather_edges (r # rs) parent comps =
     (case find_root (rd_from_draft_key r) parent of
        None \<Rightarrow> None
      | Some (root, parent) \<Rightarrow>
          gather_edges rs parent
            (bt_insert root (fst (component_at comps root), snd (component_at comps root) @ [r]) comps))"

definition edge_ends :: "relationship_draft_pb \<Rightarrow> string \<times> string" where
  "edge_ends r = (rd_from_draft_key r, rd_to_draft_key r)"

definition components_of :: "batch_unit \<Rightarrow> (string \<times> component) list option" where
  "components_of u =
     (case join_all (map edge_ends (bu_relationships u)) (singletons (map md_draft_key (bu_memories u))) of
        None \<Rightarrow> None
      | Some parent \<Rightarrow>
          (case gather_memories (bu_memories u) parent [] of
             None \<Rightarrow> None
           | Some (parent, comps) \<Rightarrow> map_option snd (gather_edges (bu_relationships u) parent comps)))"

section \<open>Batches\<close>

definition system_ts :: "instant \<Rightarrow> timestamp_pb" where
  "system_ts t =
     (let d = max t 0 in \<lparr>ts_seconds = d div 1000000000, ts_nanos = d mod 1000000000\<rparr>)"

definition unstamped ::
    "string \<Rightarrow> string \<Rightarrow> batch_unit \<Rightarrow> memory_draft_pb list \<Rightarrow> relationship_draft_pb list \<Rightarrow> ingest_batch" where
  "unstamped producer batch_id u memories relationships =
     \<lparr>ibt_org_id = [], ibt_source_uri = [], ibt_producer_id = producer, ibt_batch_id = batch_id,
      ibt_mapping_version = [], ibt_ontology_fingerprint = [], ibt_ceiling = 0, ibt_checksum = [],
      ibt_observed_at = Some (system_ts (bu_observed_at u)), ibt_recorded_at = None, ibt_snapshot = bu_snapshot u,
      ibt_memories = memories, ibt_relationships = relationships, ibt_producer = Some (anonymous_producer [])\<rparr>"

definition edge_order :: "relationship_draft_pb \<Rightarrow> string \<times> string \<times> string" where
  "edge_order r = (rd_from_draft_key r, rd_to_draft_key r, rd_kind r)"

definition checksum_of :: "ingest_env \<Rightarrow> ingest_batch \<Rightarrow> string" where
  "checksum_of env b =
     canonical_checksum (iv_blake3 env) (iv_enc_memory env) (iv_enc_relationship env) (iv_enc_snapshot env) b"

definition encoded_len :: "ingest_env \<Rightarrow> ingest_batch \<Rightarrow> nat" where
  "encoded_len env b = length (iv_enc_batch env b)"

definition packed_batch :: "ingest_env \<Rightarrow> string \<Rightarrow> batch_unit \<Rightarrow> component list \<Rightarrow> nat \<Rightarrow> ingest_batch" where
  "packed_batch env producer u pending index =
     (let memories = sort_key md_draft_key (concat (map fst pending));
          relationships = sort_key edge_order (concat (map snd pending));
          content = checksum_of env
            ((unstamped producer [] u memories relationships)\<lparr>ibt_observed_at := None, ibt_producer := None\<rparr>)
      in unstamped producer
           (producer @ '':'' @ bu_batch_id_seed u @ '':'' @ show_nat index @ '':'' @ content) u memories relationships)"

definition component_bytes :: "ingest_env \<Rightarrow> string \<Rightarrow> batch_unit \<Rightarrow> component \<Rightarrow> nat \<Rightarrow> nat" where
  "component_bytes env producer u part index =
     encoded_len env
       ((unstamped producer (producer @ '':'' @ bu_batch_id_seed u @ '':'' @ show_nat index) u
           (sort_key md_draft_key (fst part)) (snd part))
        \<lparr>ibt_ontology_fingerprint := replicate 32 0, ibt_ceiling := 3, ibt_checksum := replicate 64 (CHR ''0''),
         ibt_producer := Some ((anonymous_producer ''n'')\<lparr>pi_hmac_signature := replicate 32 0\<rparr>)\<rparr>)"

section \<open>Packing\<close>

record packing =
  pk_out :: "ingest_batch list"
  pk_pending :: "component list"
  pk_bytes :: nat
  pk_memories :: nat
  pk_edges :: nat
  pk_index :: nat

definition empty_packing :: packing where
  "empty_packing = \<lparr>pk_out = [], pk_pending = [], pk_bytes = 0, pk_memories = 0, pk_edges = 0, pk_index = 0\<rparr>"

text \<open>The index is a \<open>u32\<close>.\<close>

definition flush_pending :: "ingest_env \<Rightarrow> string \<Rightarrow> batch_unit \<Rightarrow> packing \<Rightarrow> packing" where
  "flush_pending env producer u pk =
     (if pk_pending pk = [] then pk
      else pk\<lparr>pk_out := pk_out pk @ [packed_batch env producer u (pk_pending pk) (pk_index pk)],
              pk_pending := [], pk_index := (pk_index pk + 1) mod 2 ^ 32\<rparr>)"

definition component_keys :: "component \<Rightarrow> string list" where
  "component_keys part = map md_draft_key (fst part)"

definition check_component :: "nat \<Rightarrow> nat \<Rightarrow> component \<Rightarrow> packing \<Rightarrow> sdk_error + unit" where
  "check_component max_bytes bytes part pk =
     (if MAX_MEMORIES_PER_BATCH < length (fst part)
      then Inl (Unsplittable (sort (component_keys part)) ''max_memories_per_batch'')
      else if MAX_EDGES_PER_BATCH < length (snd part)
      then Inl (Unsplittable (sort (component_keys part)) ''max_edges_per_batch'')
      else if max_bytes < bytes then
        (if length (fst part) = 1 \<and> snd part = [] \<and> pk_pending pk = [] \<and> pk_out pk = []
         then Inl (Unsplittable (component_keys part) ''max_batch_bytes'')
         else if snd part \<noteq> [] then Inl (Unsplittable (sort (component_keys part)) ''max_batch_bytes'')
         else Inl (Unsplittable (component_keys part) ''max_batch_bytes''))
      else Inr ())"

definition overflows :: "nat \<Rightarrow> nat \<Rightarrow> component \<Rightarrow> packing \<Rightarrow> bool" where
  "overflows max_bytes bytes part pk =
     (max_bytes < pk_bytes pk + bytes \<or> MAX_MEMORIES_PER_BATCH < pk_memories pk + length (fst part) \<or>
      MAX_EDGES_PER_BATCH < pk_edges pk + length (snd part))"

fun pack_components ::
    "ingest_env \<Rightarrow> string \<Rightarrow> batch_unit \<Rightarrow> nat \<Rightarrow> component list \<Rightarrow> packing \<Rightarrow> sdk_error + packing" where
  "pack_components env producer u max_bytes [] pk = Inr pk"
| "pack_components env producer u max_bytes (part # comps) pk =
     (let bytes = component_bytes env producer u part (pk_index pk)
      in and_then (check_component max_bytes bytes part pk) (\<lambda>_.
           let pk1 = (if overflows max_bytes bytes part pk \<and> pk_pending pk \<noteq> []
                      then (flush_pending env producer u pk)\<lparr>pk_bytes := 0, pk_memories := 0, pk_edges := 0\<rparr>
                      else pk)
           in pack_components env producer u max_bytes comps
                (pk1\<lparr>pk_bytes := pk_bytes pk1 + bytes, pk_memories := pk_memories pk1 + length (fst part),
                     pk_edges := pk_edges pk1 + length (snd part), pk_pending := pk_pending pk1 @ [part]\<rparr>)))"

fun seal_batches :: "ingest_env \<Rightarrow> nat \<Rightarrow> ingest_batch list \<Rightarrow> sdk_error + ingest_batch list" where
  "seal_batches env max_bytes [] = Inr []"
| "seal_batches env max_bytes (b # bs) =
     (let b1 = b\<lparr>ibt_checksum := checksum_of env b\<rparr>
      in if max_bytes < encoded_len env b1
         then Inl (Unsplittable (sort (map md_draft_key (ibt_memories b1))) ''max_batch_bytes'')
         else and_then (seal_batches env max_bytes bs) (\<lambda>bs. Inr (b1 # bs)))"

definition split_unit ::
    "ingest_env \<Rightarrow> (string list \<Rightarrow> string) \<Rightarrow> string \<Rightarrow> batch_unit \<Rightarrow> nat \<Rightarrow> (sdk_error + ingest_batch list) option" where
  "split_unit env dbg producer u max_bytes =
     (case validate_unit dbg u of
        Inl e \<Rightarrow> Some (Inl e)
      | Inr _ \<Rightarrow>
          map_option (\<lambda>comps.
            and_then (pack_components env producer u max_bytes (map snd comps) empty_packing) (\<lambda>pk.
              seal_batches env max_bytes (pk_out (flush_pending env producer u pk))))
            (components_of u))"


section \<open>Gathering\<close>

lemma check_endpoints_ok: "check_endpoints keys rs = Inr () \<longleftrightarrow> (\<forall>r\<in>set rs. rd_from_draft_key r \<in> set keys \<and> rd_to_draft_key r \<in> set keys)"
  by (induction keys rs rule: check_endpoints.induct) auto

lemma validate_unit_ok:
  assumes "validate_unit dbg u = Inr ()"
  shows "distinct (map md_draft_key (bu_memories u))"
    "\<forall>r\<in>set (bu_relationships u). rd_from_draft_key r \<in> md_draft_key ` set (bu_memories u) \<and>
       rd_to_draft_key r \<in> md_draft_key ` set (bu_memories u)"
  using assms by (auto simp: validate_unit_def Let_def and_then_Inr check_endpoints_ok split: if_splits)

lemma component_at_insert:
  "component_at (bt_insert root c comps) r = (if r = root then c else component_at comps r)"
  by (simp add: component_at_def)

lemma component_at_empty [simp]: "component_at [] r = ([], [])"
  by (simp add: component_at_def)

text \<open>The rows of a sorted map, when one of its components is replaced.\<close>

definition rows_in :: "('c \<Rightarrow> 'a list) \<Rightarrow> ('k \<times> 'c) list \<Rightarrow> 'a multiset" where
  "rows_in f comps = mset (concat (map (f \<circ> snd) comps))"

lemma bt_absent: "bt_ok ((a, b) # m) \<Longrightarrow> k < a \<Longrightarrow> map_of ((a, b) # m) k = None"
  by (auto simp: bt_ok_def map_of_eq_None_iff)

lemma rows_in_insert:
  "bt_ok m \<Longrightarrow> rows_in f (bt_insert k v m) + (case map_of m k of None \<Rightarrow> {#} | Some w \<Rightarrow> mset (f w)) = rows_in f m + mset (f v)"
proof (induction k v m rule: bt_insert.induct)
  case (2 k v a b m)
  have m: "bt_ok m" using 2 by (simp add: bt_ok_def)
  consider "k < a" | "k = a" | "a < k" by (rule linorder_cases)
  then show ?case
  proof cases
    case 1
    with bt_absent [OF 2(2)] show ?thesis by (simp add: rows_in_def)
  next
    case 3
    with 2(1) [OF _ _ m] show ?thesis by (simp add: rows_in_def split: option.splits)
  qed (simp add: rows_in_def)
qed (simp add: rows_in_def)

lemma rows_in_replace:
  assumes "bt_ok comps" "f ([], []) = []"
  shows "rows_in f (bt_insert root c comps) + mset (f (component_at comps root)) = rows_in f comps + mset (f c)"
  using rows_in_insert [OF assms(1), of f root c] assms(2) by (auto simp: component_at_def split: option.splits)

lemma rows_in_push:
  assumes "bt_ok comps" "component_at comps root = (ms, rs)"
  shows "rows_in fst (bt_insert root (ms @ [m], rs) comps) = rows_in fst comps + {#m#}"
    "rows_in snd (bt_insert root (ms @ [m], rs) comps) = rows_in snd comps"
    "rows_in fst (bt_insert root (ms, rs @ [r]) comps) = rows_in fst comps"
    "rows_in snd (bt_insert root (ms, rs @ [r]) comps) = rows_in snd comps + {#r#}"
  using rows_in_replace [OF assms(1), of fst root "(ms @ [m], rs)"] rows_in_replace [OF assms(1), of snd root "(ms @ [m], rs)"]
    rows_in_replace [OF assms(1), of fst root "(ms, rs @ [r])"] rows_in_replace [OF assms(1), of snd root "(ms, rs @ [r])"]
  by (simp_all add: assms(2))

lemma gather_memories_ok:
  assumes "forest parent" "\<forall>m\<in>set ms. map_of parent (md_draft_key m) \<noteq> None" "bt_ok comps"
  shows "\<exists>parent' comps'. gather_memories ms parent comps = Some (parent', comps') \<and> forest parent' \<and>
    dom (map_of parent') = dom (map_of parent) \<and> (\<forall>x y. rep parent' x y \<longleftrightarrow> rep parent x y) \<and> bt_ok comps' \<and>
    (\<forall>root. component_at comps' root =
       (fst (component_at comps root) @ filter (\<lambda>m. rep parent (md_draft_key m) root) ms, snd (component_at comps root))) \<and>
    rows_in fst comps' = rows_in fst comps + mset ms \<and> rows_in snd comps' = rows_in snd comps"
  using assms
proof (induction ms arbitrary: parent comps)
  case (Cons m ms)
  have "map_of parent (md_draft_key m) \<noteq> None" using Cons.prems(2) by simp
  from find_root_ok [OF Cons.prems(1) this] obtain root p1 where
    p1: "find_root (md_draft_key m) parent = Some (root, p1)" "rep parent (md_draft_key m) root" "forest p1"
      "dom (map_of p1) = dom (map_of parent)" "\<And>x y. rep p1 x y \<longleftrightarrow> rep parent x y" by blast
  obtain cm cr where c: "component_at comps root = (cm, cr)" by (cases "component_at comps root")
  let ?c = "bt_insert root (cm @ [m], cr) comps"
  have keys: "\<forall>m\<in>set ms. map_of p1 (md_draft_key m) \<noteq> None" using Cons.prems(2) p1(4) by (metis domIff list.set_intros(2))
  from Cons.IH [OF p1(3) keys, of ?c] Cons.prems(3) obtain p2 comps' where
    2: "gather_memories ms p1 ?c = Some (p2, comps')" "forest p2" "dom (map_of p2) = dom (map_of p1)"
      "\<forall>x y. rep p2 x y \<longleftrightarrow> rep p1 x y" "bt_ok comps'"
      "\<And>r. component_at comps' r = (fst (component_at ?c r) @ filter (\<lambda>m. rep p1 (md_draft_key m) r) ms, snd (component_at ?c r))"
      "rows_in fst comps' = rows_in fst ?c + mset ms" "rows_in snd comps' = rows_in snd ?c" by auto
  have only: "rep parent (md_draft_key m) r \<longleftrightarrow> r = root" for r using p1(2) rep_fun by metis
  have "component_at comps' r = (fst (component_at comps r) @ filter (\<lambda>m. rep parent (md_draft_key m) r) (m # ms), snd (component_at comps r))" for r
    by (simp add: 2(6) component_at_insert p1(5) only c)
  then show ?case using 2(1-5,7,8) p1 rows_in_push(1,2) [OF Cons.prems(3) c, of m] c
    by (intro exI [of _ p2] exI [of _ comps']) simp
qed auto

lemma gather_edges_ok:
  assumes "forest parent" "\<forall>r\<in>set rs. map_of parent (rd_from_draft_key r) \<noteq> None" "bt_ok comps"
  shows "\<exists>parent' comps'. gather_edges rs parent comps = Some (parent', comps') \<and> bt_ok comps' \<and>
    (\<forall>root. component_at comps' root =
       (fst (component_at comps root), snd (component_at comps root) @ filter (\<lambda>r. rep parent (rd_from_draft_key r) root) rs)) \<and>
    rows_in fst comps' = rows_in fst comps \<and> rows_in snd comps' = rows_in snd comps + mset rs"
  using assms
proof (induction rs arbitrary: parent comps)
  case (Cons r rs)
  have "map_of parent (rd_from_draft_key r) \<noteq> None" using Cons.prems(2) by simp
  from find_root_ok [OF Cons.prems(1) this] obtain root p1 where
    p1: "find_root (rd_from_draft_key r) parent = Some (root, p1)" "rep parent (rd_from_draft_key r) root" "forest p1"
      "dom (map_of p1) = dom (map_of parent)" "\<And>x y. rep p1 x y \<longleftrightarrow> rep parent x y" by blast
  obtain cm cr where c: "component_at comps root = (cm, cr)" by (cases "component_at comps root")
  let ?c = "bt_insert root (cm, cr @ [r]) comps"
  have keys: "\<forall>r\<in>set rs. map_of p1 (rd_from_draft_key r) \<noteq> None" using Cons.prems(2) p1(4) by (metis domIff list.set_intros(2))
  from Cons.IH [OF p1(3) keys, of ?c] Cons.prems(3) obtain p2 comps' where
    2: "gather_edges rs p1 ?c = Some (p2, comps')" "bt_ok comps'"
      "\<And>k. component_at comps' k = (fst (component_at ?c k), snd (component_at ?c k) @ filter (\<lambda>r. rep p1 (rd_from_draft_key r) k) rs)"
      "rows_in fst comps' = rows_in fst ?c" "rows_in snd comps' = rows_in snd ?c + mset rs" by auto
  have only: "rep parent (rd_from_draft_key r) k \<longleftrightarrow> k = root" for k using p1(2) rep_fun by metis
  have "component_at comps' k = (fst (component_at comps k), snd (component_at comps k) @ filter (\<lambda>r. rep parent (rd_from_draft_key r) k) (r # rs))" for k
    by (simp add: 2(3) component_at_insert p1(5) only c)
  then show ?case using 2(1,2,4,5) p1(1) rows_in_push(3,4) [OF Cons.prems(3) c, of r] c
    by (intro exI [of _ p2] exI [of _ comps']) simp
qed auto


text \<open>Every edge has both its ends among the memories.\<close>

definition colocated :: "memory_draft_pb list \<Rightarrow> relationship_draft_pb list \<Rightarrow> bool" where
  "colocated ms rs \<longleftrightarrow>
     (\<forall>r\<in>set rs. rd_from_draft_key r \<in> md_draft_key ` set ms \<and> rd_to_draft_key r \<in> md_draft_key ` set ms)"

lemma unit_forest:
  assumes "validate_unit dbg u = Inr ()"
  shows "\<exists>parent. join_all (map edge_ends (bu_relationships u)) (singletons (map md_draft_key (bu_memories u))) = Some parent \<and>
    forest parent \<and> (\<forall>k. map_of parent k \<noteq> None \<longleftrightarrow> k \<in> md_draft_key ` set (bu_memories u)) \<and>
    (\<forall>r\<in>set (bu_relationships u). same_class parent (rd_from_draft_key r) (rd_to_draft_key r))"
proof -
  let ?ks = "map md_draft_key (bu_memories u)" and ?es = "map edge_ends (bu_relationships u)"
  note valid = validate_unit_ok [OF assms]
  have "\<forall>(x, y)\<in>set ?es. map_of (singletons ?ks) x \<noteq> None \<and> map_of (singletons ?ks) y \<noteq> None"
    using valid(2) by (auto simp: edge_ends_def singletons_get)
  from join_all_singletons [OF this] obtain parent where j: "join_all ?es (singletons ?ks) = Some parent" "forest parent"
    "dom (map_of parent) = dom (map_of (singletons ?ks))"
    "\<forall>u\<in>set ?ks. \<forall>v\<in>set ?ks. same_class parent u v \<longleftrightarrow> joined ?es u v" by blast
  have "same_class parent (rd_from_draft_key r) (rd_to_draft_key r)" if "r \<in> set (bu_relationships u)" for r
    using valid(2) that j(4) joined_edge [of "rd_from_draft_key r" "rd_to_draft_key r" ?es] by (force simp: edge_ends_def)
  moreover have "map_of parent k \<noteq> None \<longleftrightarrow> k \<in> md_draft_key ` set (bu_memories u)" for k
    using j(3) singletons_get [of ?ks k] by (metis (no_types, lifting) domIff list.set_map option.distinct(1))
  ultimately show ?thesis using j(1,2) by (intro exI [of _ parent] conjI allI ballI)
qed

lemma components_ok:
  assumes "validate_unit dbg u = Inr ()"
  shows "\<exists>comps. components_of u = Some comps \<and> rows_in fst comps = mset (bu_memories u) \<and>
    rows_in snd comps = mset (bu_relationships u) \<and> (\<forall>part\<in>set (map snd comps). colocated (fst part) (snd part))"
proof -
  note valid = validate_unit_ok(2) [OF assms]
  from unit_forest [OF assms] obtain parent where
    p: "join_all (map edge_ends (bu_relationships u)) (singletons (map md_draft_key (bu_memories u))) = Some parent" "forest parent"
    and keys: "\<forall>k. map_of parent k \<noteq> None \<longleftrightarrow> k \<in> md_draft_key ` set (bu_memories u)"
    and cls: "\<forall>r\<in>set (bu_relationships u). same_class parent (rd_from_draft_key r) (rd_to_draft_key r)"
    by (elim exE conjE) (rule that)
  have "\<forall>m\<in>set (bu_memories u). map_of parent (md_draft_key m) \<noteq> None" using keys by blast
  from gather_memories_ok [OF p(2) this bt_ok_empty] obtain p1 c1 where g1:
    "gather_memories (bu_memories u) parent [] = Some (p1, c1)" "forest p1" "dom (map_of p1) = dom (map_of parent)"
    "\<And>x y. rep p1 x y \<longleftrightarrow> rep parent x y" "bt_ok c1"
    "\<And>root. component_at c1 root = (filter (\<lambda>m. rep parent (md_draft_key m) root) (bu_memories u), [])"
    "rows_in fst c1 = mset (bu_memories u)" "rows_in snd c1 = {#}" by (auto simp: rows_in_def)
  have "\<forall>r\<in>set (bu_relationships u). map_of p1 (rd_from_draft_key r) \<noteq> None"
    using valid keys g1(3) by (metis domIff)
  from gather_edges_ok [OF g1(2) this g1(5)] obtain p2 comps where g2:
    "gather_edges (bu_relationships u) p1 c1 = Some (p2, comps)" "bt_ok comps"
    "\<And>root. component_at comps root = (fst (component_at c1 root), snd (component_at c1 root) @ filter (\<lambda>r. rep p1 (rd_from_draft_key r) root) (bu_relationships u))"
    "rows_in fst comps = rows_in fst c1" "rows_in snd comps = rows_in snd c1 + mset (bu_relationships u)" by auto
  have "colocated (fst part) (snd part)" if "part \<in> snd ` set comps" for part
  proof -
    from that obtain root where "(root, part) \<in> set comps" by force
    then have "map_of comps root = Some part" using bt_ok_distinct [OF g2(2)] by simp
    then have part: "part = (filter (\<lambda>m. rep parent (md_draft_key m) root) (bu_memories u),
        filter (\<lambda>r. rep parent (rd_from_draft_key r) root) (bu_relationships u))"
      using g2(3) [of root] by (simp add: component_at_def [of comps] g1(4,6))
    show ?thesis unfolding colocated_def
    proof
      fix r
      assume "r \<in> set (snd part)"
      then have r: "r \<in> set (bu_relationships u)" "rep parent (rd_from_draft_key r) root" by (simp_all add: part)
      then have "rep parent (rd_to_draft_key r) root" using cls rep_fun unfolding same_class_def by metis
      with r valid show "rd_from_draft_key r \<in> md_draft_key ` set (fst part) \<and> rd_to_draft_key r \<in> md_draft_key ` set (fst part)"
        by (fastforce simp: part)
    qed
  qed
  then have "\<forall>part\<in>set (map snd comps). colocated (fst part) (snd part)" by simp
  with p(1) g1(1,7,8) g2(1,4,5) show ?thesis by (intro exI [of _ comps]) (simp add: components_of_def)
qed


section \<open>Packing\<close>

definition batch_sound :: "ingest_batch \<Rightarrow> bool" where
  "batch_sound b \<longleftrightarrow>
     colocated (ibt_memories b) (ibt_relationships b) \<and> length (ibt_memories b) \<le> MAX_MEMORIES_PER_BATCH \<and>
     length (ibt_relationships b) \<le> MAX_EDGES_PER_BATCH"

definition packed_ids :: "ingest_env \<Rightarrow> string \<Rightarrow> batch_unit \<Rightarrow> ingest_batch list \<Rightarrow> bool" where
  "packed_ids env producer u out \<longleftrightarrow>
     (\<forall>i<length out. \<exists>pending. out ! i = packed_batch env producer u pending (i mod 2 ^ 32))"

definition pack_ok :: "ingest_env \<Rightarrow> string \<Rightarrow> batch_unit \<Rightarrow> packing \<Rightarrow> bool" where
  "pack_ok env producer u pk \<longleftrightarrow>
     (\<forall>b\<in>set (pk_out pk). batch_sound b) \<and> (\<forall>part\<in>set (pk_pending pk). colocated (fst part) (snd part)) \<and>
     pk_memories pk = length (concat (map fst (pk_pending pk))) \<and> pk_memories pk \<le> MAX_MEMORIES_PER_BATCH \<and>
     pk_edges pk = length (concat (map snd (pk_pending pk))) \<and> pk_edges pk \<le> MAX_EDGES_PER_BATCH \<and>
     pk_index pk = length (pk_out pk) mod 2 ^ 32 \<and> packed_ids env producer u (pk_out pk)"

definition packed_memories :: "packing \<Rightarrow> memory_draft_pb multiset" where
  "packed_memories pk = mset (concat (map ibt_memories (pk_out pk))) + mset (concat (map fst (pk_pending pk)))"

definition packed_edges :: "packing \<Rightarrow> relationship_draft_pb multiset" where
  "packed_edges pk = mset (concat (map ibt_relationships (pk_out pk))) + mset (concat (map snd (pk_pending pk)))"

lemma packed_batch_rows [simp]:
  "ibt_memories (packed_batch env producer u pending i) = sort_key md_draft_key (concat (map fst pending))"
  "ibt_relationships (packed_batch env producer u pending i) = sort_key edge_order (concat (map snd pending))"
  by (simp_all add: packed_batch_def unstamped_def Let_def)

lemma colocated_concat:
  "\<forall>part\<in>set parts. colocated (fst part) (snd part) \<Longrightarrow> colocated (concat (map fst parts)) (concat (map snd parts))"
  by (fastforce simp: colocated_def)

lemma colocated_set: "set ms = set ms' \<Longrightarrow> set rs = set rs' \<Longrightarrow> colocated ms rs \<longleftrightarrow> colocated ms' rs'"
  by (simp add: colocated_def)

lemma packed_sound:
  assumes "pack_ok env producer u pk" shows "batch_sound (packed_batch env producer u (pk_pending pk) i)"
proof -
  have "colocated (concat (map fst (pk_pending pk))) (concat (map snd (pk_pending pk)))"
    using assms by (intro colocated_concat) (simp add: pack_ok_def)
  then have "colocated (sort_key md_draft_key (concat (map fst (pk_pending pk)))) (sort_key edge_order (concat (map snd (pk_pending pk))))"
    by (subst colocated_set) simp_all
  with assms show ?thesis by (simp add: batch_sound_def pack_ok_def)
qed

lemma flush_ok:
  assumes ok: "pack_ok env producer u pk"
  shows "pack_ok env producer u ((flush_pending env producer u pk)\<lparr>pk_bytes := 0, pk_memories := 0, pk_edges := 0\<rparr>)"
    "packed_memories (flush_pending env producer u pk) = packed_memories pk"
    "packed_edges (flush_pending env producer u pk) = packed_edges pk" "pk_pending (flush_pending env producer u pk) = []"
    "\<forall>b\<in>set (pk_out (flush_pending env producer u pk)). batch_sound b"
    "packed_ids env producer u (pk_out (flush_pending env producer u pk))"
proof -
  let ?new = "packed_batch env producer u (pk_pending pk) (pk_index pk)"
  have sound: "\<forall>b\<in>set (pk_out (flush_pending env producer u pk)). batch_sound b"
    using ok packed_sound [OF ok] by (simp add: flush_pending_def pack_ok_def)
  have ids: "packed_ids env producer u (pk_out (flush_pending env producer u pk))"
    using ok by (auto simp: flush_pending_def pack_ok_def packed_ids_def nth_append less_Suc_eq)
  show "\<forall>b\<in>set (pk_out (flush_pending env producer u pk)). batch_sound b" by (rule sound)
  show "packed_ids env producer u (pk_out (flush_pending env producer u pk))" by (rule ids)
  show "pk_pending (flush_pending env producer u pk) = []" by (simp add: flush_pending_def)
  show "packed_memories (flush_pending env producer u pk) = packed_memories pk"
    "packed_edges (flush_pending env producer u pk) = packed_edges pk"
    by (simp_all add: packed_memories_def packed_edges_def flush_pending_def)
  have "pk_index (flush_pending env producer u pk) = length (pk_out (flush_pending env producer u pk)) mod 2 ^ 32"
    using ok by (simp add: flush_pending_def pack_ok_def mod_Suc_eq)
  with sound ids show "pack_ok env producer u ((flush_pending env producer u pk)\<lparr>pk_bytes := 0, pk_memories := 0, pk_edges := 0\<rparr>)"
    by (simp add: pack_ok_def \<open>pk_pending (flush_pending env producer u pk) = []\<close>)
qed

lemma check_component_ok:
  "check_component max_bytes bytes part pk = Inr () \<Longrightarrow>
     length (fst part) \<le> MAX_MEMORIES_PER_BATCH \<and> length (snd part) \<le> MAX_EDGES_PER_BATCH"
  by (auto simp: check_component_def split: if_splits)

lemma pack_components_ok:
  assumes "pack_components env producer u max_bytes parts pk = Inr pk'" "pack_ok env producer u pk"
    and "\<forall>part\<in>set parts. colocated (fst part) (snd part)"
  shows "pack_ok env producer u pk' \<and> packed_memories pk' = packed_memories pk + mset (concat (map fst parts)) \<and>
    packed_edges pk' = packed_edges pk + mset (concat (map snd parts))"
  using assms
proof (induction parts arbitrary: pk)
  case (Cons part parts)
  let ?bytes = "component_bytes env producer u part (pk_index pk)"
  define pk1 where "pk1 = (if overflows max_bytes ?bytes part pk \<and> pk_pending pk \<noteq> []
    then (flush_pending env producer u pk)\<lparr>pk_bytes := 0, pk_memories := 0, pk_edges := 0\<rparr> else pk)"
  define pk2 where "pk2 = pk1\<lparr>pk_bytes := pk_bytes pk1 + ?bytes, pk_memories := pk_memories pk1 + length (fst part),
    pk_edges := pk_edges pk1 + length (snd part), pk_pending := pk_pending pk1 @ [part]\<rparr>"
  from Cons.prems(1) have check: "check_component max_bytes ?bytes part pk = Inr ()"
    and run: "pack_components env producer u max_bytes parts pk2 = Inr pk'"
    by (auto simp: and_then_Inr Let_def pk1_def pk2_def)
  note small = check_component_ok [OF check]
  have ok1: "pack_ok env producer u pk1" using flush_ok(1) [OF Cons.prems(2)] Cons.prems(2) by (simp add: pk1_def)
  have rows1: "packed_memories pk1 = packed_memories pk" "packed_edges pk1 = packed_edges pk"
    using flush_ok(2,3) [OF Cons.prems(2)] by (simp_all add: pk1_def packed_memories_def packed_edges_def)
  have "pk_memories pk1 + length (fst part) \<le> MAX_MEMORIES_PER_BATCH \<and> pk_edges pk1 + length (snd part) \<le> MAX_EDGES_PER_BATCH"
    using small Cons.prems(2) by (auto simp: pk1_def overflows_def pack_ok_def)
  with ok1 Cons.prems(3) have ok2: "pack_ok env producer u pk2" by (simp add: pack_ok_def pk2_def)
  have "packed_memories pk2 = packed_memories pk + mset (fst part)" "packed_edges pk2 = packed_edges pk + mset (snd part)"
    using rows1 by (simp_all add: packed_memories_def packed_edges_def pk2_def)
  with Cons.IH [OF run ok2] Cons.prems(3) show ?case by simp
qed simp

lemma seal_ok:
  "seal_batches env max_bytes bs = Inr bs' \<Longrightarrow>
     bs' = map (\<lambda>b. b\<lparr>ibt_checksum := checksum_of env b\<rparr>) bs \<and> (\<forall>b\<in>set bs'. encoded_len env b \<le> max_bytes)"
  by (induction bs arbitrary: bs') (auto simp: Let_def and_then_Inr split: if_splits)

lemma split_unit_rows:
  "\<exists>result. split_unit env dbg producer u max_bytes = Some result \<and>
     (\<forall>bs. result = Inr bs \<longrightarrow>
        mset (concat (map ibt_memories bs)) = mset (bu_memories u) \<and>
        mset (concat (map ibt_relationships bs)) = mset (bu_relationships u) \<and>
        (\<forall>b\<in>set bs. colocated (ibt_memories b) (ibt_relationships b) \<and>
           length (ibt_memories b) \<le> MAX_MEMORIES_PER_BATCH \<and> length (ibt_relationships b) \<le> MAX_EDGES_PER_BATCH \<and>
           encoded_len env b \<le> max_bytes) \<and>
        (\<forall>i<length bs. \<exists>content.
           ibt_batch_id (bs ! i) = producer @ '':'' @ bu_batch_id_seed u @ '':'' @ show_nat (i mod 2 ^ 32) @ '':'' @ content) \<and>
        (\<forall>b\<in>set bs. ibt_producer b \<noteq> None))"
proof (cases "validate_unit dbg u")
  case (Inl e)
  then show ?thesis by (simp add: split_unit_def)
next
  case (Inr x)
  then have valid: "validate_unit dbg u = Inr ()" by simp
  from components_ok [OF this] obtain comps where c: "components_of u = Some comps"
    "rows_in fst comps = mset (bu_memories u)" "rows_in snd comps = mset (bu_relationships u)"
    "\<forall>part\<in>set (map snd comps). colocated (fst part) (snd part)" by blast
  have ok0: "pack_ok env producer u empty_packing" by (simp add: pack_ok_def empty_packing_def packed_ids_def)
  have "mset (concat (map ibt_memories bs)) = mset (bu_memories u) \<and>
      mset (concat (map ibt_relationships bs)) = mset (bu_relationships u) \<and>
      (\<forall>b\<in>set bs. batch_sound b \<and> encoded_len env b \<le> max_bytes) \<and>
      (\<forall>i<length bs. \<exists>content. ibt_batch_id (bs ! i) =
         producer @ '':'' @ bu_batch_id_seed u @ '':'' @ show_nat (i mod 2 ^ 32) @ '':'' @ content) \<and>
      (\<forall>b\<in>set bs. ibt_producer b \<noteq> None)"
    if run: "split_unit env dbg producer u max_bytes = Some (Inr bs)" for bs
  proof -
    from run valid c(1) obtain pk where pk: "pack_components env producer u max_bytes (map snd comps) empty_packing = Inr pk"
      "seal_batches env max_bytes (pk_out (flush_pending env producer u pk)) = Inr bs"
      by (auto simp: split_unit_def and_then_Inr)
    from pack_components_ok [OF pk(1) ok0 c(4)] have ok: "pack_ok env producer u pk"
      and rows: "packed_memories pk = mset (bu_memories u)" "packed_edges pk = mset (bu_relationships u)"
      using c(2,3) by (simp_all add: packed_memories_def packed_edges_def empty_packing_def rows_in_def)
    note f = flush_ok [OF ok] and seal = seal_ok [OF pk(2)]
    have "mset (concat (map ibt_memories bs)) = mset (bu_memories u)"
      "mset (concat (map ibt_relationships bs)) = mset (bu_relationships u)"
      using f(2-4) rows by (simp_all add: packed_memories_def packed_edges_def seal comp_def)
    moreover have "\<forall>b\<in>set bs. batch_sound b" using f(5) seal by (auto simp: batch_sound_def)
    moreover have "\<exists>content. ibt_batch_id (bs ! i) =
        producer @ '':'' @ bu_batch_id_seed u @ '':'' @ show_nat (i mod 2 ^ 32) @ '':'' @ content" if "i < length bs" for i
      using f(6) seal that by (auto simp: packed_ids_def packed_batch_def unstamped_def Let_def)
    moreover have "\<forall>b\<in>set bs. ibt_producer b \<noteq> None"
      using f(6) seal by (force simp: packed_ids_def packed_batch_def unstamped_def Let_def in_set_conv_nth)
    ultimately show ?thesis using seal by blast
  qed
  then show ?thesis using valid c(1) by (auto simp: split_unit_def batch_sound_def)
qed


text \<open>
  Splitting a unit loses no row and severs no edge. The split always returns, with an error or
  with batches; the batches together carry exactly the memories and relationships of the unit,
  each as often as it occurs there; every relationship is in a batch that has both its endpoints;
  no batch exceeds the counts the service accepts or, encoded, the byte budget; and batch i
  carries the id made of the producer, the seed and i.\<close>

theorem split_unit_exact:
  "\<exists>result. split_unit env dbg producer u max_bytes = Some result \<and>
     (\<forall>bs. result = Inr bs \<longrightarrow>
        mset (concat (map ibt_memories bs)) = mset (bu_memories u) \<and>
        mset (concat (map ibt_relationships bs)) = mset (bu_relationships u) \<and>
        (\<forall>b\<in>set bs. colocated (ibt_memories b) (ibt_relationships b) \<and>
           length (ibt_memories b) \<le> MAX_MEMORIES_PER_BATCH \<and> length (ibt_relationships b) \<le> MAX_EDGES_PER_BATCH \<and>
           encoded_len env b \<le> max_bytes) \<and>
        (\<forall>i<length bs. \<exists>content.
           ibt_batch_id (bs ! i) = producer @ '':'' @ bu_batch_id_seed u @ '':'' @ show_nat (i mod 2 ^ 32) @ '':'' @ content))"
  using split_unit_rows [of env dbg producer u max_bytes] by blast


definition sample_unit :: batch_unit where
  "sample_unit = \<lparr>bu_batch_id_seed = ''s'', bu_memories = [sample_draft], bu_relationships = [], bu_snapshot = None, bu_observed_at = 0\<rparr>"

lemma sample_components: "components_of sample_unit = Some [(''d1'', ([sample_draft], []))]"
  by (simp add: components_of_def sample_unit_def sample_draft_def singletons_def find_root_def walk_root.simps
      compress_path.simps component_at_def)

theorem split_unit_exact_witness:
  "\<exists>b. split_unit sample_env (\<lambda>_. []) ''p'' sample_unit 10 = Some (Inr [b]) \<and> ibt_memories b = [sample_draft]"
proof -
  have "validate_unit (\<lambda>_. []) sample_unit = Inr ()" by (simp add: validate_unit_def sample_unit_def)
  moreover have "encoded_len sample_env b = 0" for b by (simp add: encoded_len_def sample_env_def)
  ultimately obtain b where b: "split_unit sample_env (\<lambda>_. []) ''p'' sample_unit 10 = Some (Inr [b])"
    using sample_components
    by (simp add: split_unit_def check_component_def component_bytes_def MAX_MEMORIES_PER_BATCH_def MAX_EDGES_PER_BATCH_def
        overflows_def empty_packing_def flush_pending_def Let_def)
  from split_unit_exact [of sample_env "\<lambda>_. []" "''p''" sample_unit 10] b
  have "mset (ibt_memories b) = {#sample_draft#}" by (simp add: sample_unit_def)
  with b show ?thesis by (simp add: mset_single_iff)
qed

end
