(* ===== verification/Ops_Preflight.thy ===== *)
theory Ops_Preflight
  imports Client_Drain
begin

text \<open>
  The client-local validation pass, after \<open>crates/exocortex-ops/src/preflight.rs\<close>, with the texts
  of \<open>crates/exocortex-kernel/src/error.rs\<close>, and its agreement with the validation the ingest
  service runs on the same rows.
\<close>

section \<open>Verdicts\<close>

record local_rejection =
  lr_draft_key :: string
  lr_code :: string
  lr_detail :: string
  lr_correction :: string

record unverified_check =
  uv_key :: string
  uv_reason :: string

record preflight_result =
  pr_would_accept :: u32
  pr_would_reject :: u32
  pr_rejections :: "local_rejection list"
  pr_unverified :: "unverified_check list"

section \<open>Texts\<close>

definition kind_debug :: "rel_kind_id \<Rightarrow> string" where
  "kind_debug k = ''RelKindId('' @ show_nat (unat (kind_code k)) @ '')''"

fun visibility_debug :: "visibility \<Rightarrow> string" where
  "visibility_debug Private = ''Private''"
| "visibility_debug Project = ''Project''"
| "visibility_debug Team = ''Team''"
| "visibility_debug Org = ''Org''"
| "visibility_debug Public = ''Public''"

text \<open>The \<open>Display\<close> of a kernel error; the text of a float is a parameter.\<close>

fun kernel_error_text :: "(f32 \<Rightarrow> string) \<Rightarrow> kernel_error \<Rightarrow> string" where
  "kernel_error_text ft (DuplicatePack name) = ''two packs share the name `'' @ name @ ''` (R-Pk1)''"
| "kernel_error_text ft (DuplicateKind k) = ''duplicate RelKindId '' @ kind_debug k @ '' across packs''"
| "kernel_error_text ft (DuplicateKindName name) =
     ''two packs declare the kind name `'' @ name @ ''` (name resolution is the wire identity surface)''"
| "kernel_error_text ft (UnboundKernelConstant k) =
     ''kernel constant '' @ kind_debug k @ '' is not bound by any registered pack (R-Pk2)''"
| "kernel_error_text ft (UnknownKind k) = ''unknown RelKindId '' @ kind_debug k @ '' in effective ontology''"
| "kernel_error_text ft (InvalidTypeTriple k t) =
     ''invalid type triple: kind '' @ kind_debug k @ '' on memory_type '' @ show_nat (unat t)"
| "kernel_error_text ft TitleBounds = ''title must be 1..=200 chars (R-T5)''"
| "kernel_error_text ft EmptyContent = ''content must be non-empty (R-T5)''"
| "kernel_error_text ft (VisibilityWidening source ceiling attempted) =
     ''visibility widening rejected: source='' @ source @ '' ceiling='' @ visibility_debug ceiling @
     '' attempted='' @ visibility_debug attempted"
| "kernel_error_text ft SummaryBounds = ''summary must be <=500 chars (R-T5)''"
| "kernel_error_text ft MetadataTooLarge = ''additional_metadata exceeds 8 KiB serialized (R-T10)''"
| "kernel_error_text ft (ScoreOutOfRange v) = ''score '' @ ft v @ '' out of [0.0, 1.0]''"
| "kernel_error_text ft (DuplicateTypeName name) =
     ''two packs declare the memory/entity type name `'' @ name @ ''` (KP2)''"
| "kernel_error_text ft (InvalidActionInput detail) = ''pack verb input rejected: '' @ detail"

fun kernel_correction :: "kernel_error \<Rightarrow> string" where
  "kernel_correction TitleBounds = ''Titles are 1..=200 chars. Trim to a subject-verb-object sentence.''"
| "kernel_correction EmptyContent = ''Content must be non-empty. Write what a future session needs.''"
| "kernel_correction SummaryBounds = ''Summaries are <=500 chars. Shorten.''"
| "kernel_correction MetadataTooLarge = ''additional_metadata exceeds 8 KiB serialized. Move detail into content.''"
| "kernel_correction (VisibilityWidening _ _ _) = ''Visibility above the source ceiling. Drop to a lower label.''"
| "kernel_correction (InvalidTypeTriple kind t) =
     ''Kind '' @ kind_debug kind @ '' does not accept from-type '' @ show_nat (unat t) @
     ''; check the kind catalogue '' @ em_dash @ '' `RelatedTo` is the always-valid fallback.''"
| "kernel_correction (UnknownKind _) = ''Kind name not in this pack. Check the spelling against the catalogue.''"
| "kernel_correction (ScoreOutOfRange _) = ''Scores must be within [0.0, 1.0].''"
| "kernel_correction (InvalidActionInput detail) = ''Pack verb input rejected: '' @ detail @ ''.''"
| "kernel_correction (DuplicatePack _) = ''Ontology assembly error; surface to the user.''"
| "kernel_correction (DuplicateKind _) = ''Ontology assembly error; surface to the user.''"
| "kernel_correction (DuplicateKindName _) = ''Ontology assembly error; surface to the user.''"
| "kernel_correction (DuplicateTypeName _) = ''Ontology assembly error; surface to the user.''"
| "kernel_correction (UnboundKernelConstant _) = ''Ontology assembly error; surface to the user.''"

fun kernel_code :: "kernel_error \<Rightarrow> string" where
  "kernel_code (VisibilityWidening _ _ _) = ''VisibilityWidening''"
| "kernel_code _ = ''Unknown''"

section \<open>Memories\<close>

definition parse_visibility :: "(string \<Rightarrow> string) \<Rightarrow> string \<Rightarrow> visibility option" where
  "parse_visibility lower s =
     (let l = lower s
      in if l = ''private'' then Some Private else if l = ''project'' then Some Project
         else if l = ''team'' then Some Team else if l = ''org'' then Some Org else None)"

definition CEILING :: visibility where "CEILING = Org"

definition probe :: "instant \<Rightarrow> preflight_memory_draft \<Rightarrow> u8 \<Rightarrow> visibility \<Rightarrow> memory_draft" where
  "probe now m mt vis =
     \<lparr>d_memory_type = mt, d_title = pd_title m, d_content = pd_content m, d_summary = None, d_visibility = vis,
      d_context =
        context_of now None \<lparr>ds_tenant_id = None, ds_user_id = None, ds_project_id = None, ds_team_id = None\<rparr>,
      d_edge_hints = [], d_external_key = None\<rparr>"

definition local_memory ::
    "(string \<Rightarrow> string) \<Rightarrow> (f32 \<Rightarrow> string) \<Rightarrow> instant \<Rightarrow> ontology \<Rightarrow> preflight_memory_draft \<Rightarrow>
     local_rejection + string \<times> u8" where
  "local_memory lower ft now onto m =
     (let reject = (\<lambda>code detail correction.
            Inl \<lparr>lr_draft_key = pd_draft_key m, lr_code = code, lr_detail = detail, lr_correction = correction\<rparr>)
      in case memory_type_id onto (pd_memory_type m) of
           None \<Rightarrow>
             reject ''UnknownMemoryType'' (''unknown memory type `'' @ pd_memory_type m @ ''`'')
               (rg_correction (guidance UnknownMemoryType))
         | Some mt \<Rightarrow>
             (case parse_visibility lower (pd_visibility m) of
                None \<Rightarrow>
                  reject ''Unknown''
                    (''unknown visibility `'' @ pd_visibility m @ ''` (expected private|project|team|org)'')
                    ''Use one of: private, project, team, org. Default `project`.''
              | Some vis \<Rightarrow>
                  if \<not> within vis CEILING
                  then reject ''VisibilityWidening''
                         (visibility_debug vis @ '' exceeds the session-wrapup ceiling '' @ visibility_debug CEILING)
                         (rg_correction (guidance RejVisibilityWidening))
                  else
                    (case validate_draft onto (probe now m mt vis)
                            \<lparr>sc_source = ''preflight'', sc_ceiling = CEILING\<rparr> of
                       Inl e \<Rightarrow> reject (kernel_code e) (kernel_error_text ft e) (kernel_correction e)
                     | Inr _ \<Rightarrow> Inr (pd_draft_key m, mt))))"

section \<open>Edges\<close>

datatype edge_verdict = EdgeRejected local_rejection | EdgeUnverified unverified_check | EdgePassed

definition type_of_draft :: "(string \<times> u8) list \<Rightarrow> string \<Rightarrow> u8 option" where
  "type_of_draft types key = map_option snd (find (\<lambda>(k, _). k = key) types)"

definition preflight_edge_key :: "preflight_edge_hint \<Rightarrow> string" where
  "preflight_edge_key e =
     (if ph_to_memory_id e = [] then ph_from_draft_key e @ ''->'' @ ph_to_draft_key e
      else ph_from_draft_key e @ ''->#'' @ ph_to_memory_id e)"

text \<open>The target of an edge: its type, or a verdict.\<close>

definition edge_target ::
    "(string \<Rightarrow> u8 option) \<Rightarrow> (string \<times> u8) list \<Rightarrow> preflight_edge_hint \<Rightarrow> edge_verdict + u8" where
  "edge_target lookup types e =
     (let reject = (\<lambda>code detail correction.
            Inl (EdgeRejected \<lparr>lr_draft_key = preflight_edge_key e, lr_code = code, lr_detail = detail, lr_correction = correction\<rparr>))
      in if ph_to_draft_key e \<noteq> [] then
           (if ph_to_memory_id e \<noteq> []
            then reject ''Unknown'' ''edge sets both to_draft_key and to_memory_id; exactly one is allowed''
                   ''Pick one target: within-batch draft_key, or an existing memory id.''
            else
              (case type_of_draft types (ph_to_draft_key e) of
                 Some t \<Rightarrow> Inr t
               | None \<Rightarrow>
                   reject ''Unknown'' (''edge references unknown draft_key `'' @ ph_to_draft_key e @ ''`'')
                     ''Edges must reference a draft_key present in this batch.''))
         else if ph_to_memory_id e \<noteq> [] then
           (if length (ph_to_memory_id e) \<noteq> 32 \<or> \<not> list_all is_ascii_hexdigit (ph_to_memory_id e)
            then reject ''InvalidTypeTriple'' (''to_memory_id `'' @ ph_to_memory_id e @ ''` is not a 32-hex memory id'')
                   ''Use the 32-hex id exactly as search_memories / get_memory returned it.''
            else
              (case lookup (ph_to_memory_id e) of
                 Some t \<Rightarrow> Inr t
               | None \<Rightarrow>
                   Inl (EdgeUnverified \<lparr>uv_key = preflight_edge_key e,
                     uv_reason = ''to_memory_id target not in local cache; the type triple is checked server-side''\<rparr>)))
         else
           reject ''Unknown'' ''edge has neither to_draft_key nor to_memory_id''
             ''Set exactly one target: within-batch draft_key, or an existing memory id.'')"

definition local_edge ::
    "(f32 \<Rightarrow> string) \<Rightarrow> ontology \<Rightarrow> (string \<Rightarrow> u8 option) \<Rightarrow> (string \<times> u8) list \<Rightarrow> preflight_edge_hint \<Rightarrow> edge_verdict" where
  "local_edge ft onto lookup types e =
     (let reject = (\<lambda>code detail correction.
            EdgeRejected \<lparr>lr_draft_key = preflight_edge_key e, lr_code = code, lr_detail = detail, lr_correction = correction\<rparr>)
      in case type_of_draft types (ph_from_draft_key e) of
           None \<Rightarrow>
             reject ''Unknown'' (''edge references unknown draft_key `'' @ ph_from_draft_key e @ ''`'')
               ''Edges must reference a draft_key present in this batch, or target an existing memory by to_memory_id.''
         | Some from_type \<Rightarrow>
             (case edge_target lookup types e of
                Inl verdict \<Rightarrow> verdict
              | Inr to_type \<Rightarrow>
                  (case kind_id onto (ph_kind e) of
                     None \<Rightarrow>
                       reject ''UnknownKind'' (''unknown relationship kind `'' @ ph_kind e @ ''`'')
                         (rg_correction (guidance RejUnknownKind))
                   | Some kind \<Rightarrow>
                       if is_some_and k_computed_only (hm_get (o_kinds_by_id onto) kind)
                       then reject ''ComputedKindRejected''
                              (''`'' @ ph_kind e @ ''` is computed-only (R-T14); producers may not assert it'')
                              (rg_correction (guidance ComputedKindRejected))
                       else
                         (case validate_triple onto from_type kind to_type of
                            Inl err \<Rightarrow>
                              reject ''InvalidTypeTriple'' (kernel_error_text ft err)
                                (rg_correction (guidance RejInvalidTypeTriple))
                          | Inr _ \<Rightarrow> EdgePassed))))"

section \<open>The pass\<close>

definition rejections_of :: "edge_verdict list \<Rightarrow> local_rejection list" where
  "rejections_of vs = List.map_filter (\<lambda>v. case v of EdgeRejected r \<Rightarrow> Some r | _ \<Rightarrow> None) vs"

definition unverified_of :: "edge_verdict list \<Rightarrow> unverified_check list" where
  "unverified_of vs = List.map_filter (\<lambda>v. case v of EdgeUnverified u \<Rightarrow> Some u | _ \<Rightarrow> None) vs"

definition preflight_rows ::
    "(string \<Rightarrow> string) \<Rightarrow> (f32 \<Rightarrow> string) \<Rightarrow> instant \<Rightarrow> ontology \<Rightarrow> (string \<Rightarrow> u8 option) \<Rightarrow>
     preflight_memory_draft list \<Rightarrow> preflight_edge_hint list \<Rightarrow> preflight_result" where
  "preflight_rows lower ft now onto lookup memories edges =
     (let all = length memories + length edges
      in if memories = [] \<or> 5 < length memories
         then \<lparr>pr_would_accept = 0, pr_would_reject = word_of_nat all,
               pr_rejections =
                 [\<lparr>lr_draft_key = ''*'', lr_code = ''Unknown'',
                   lr_detail = ''memories: expected 1..=5, got '' @ show_nat (length memories),
                   lr_correction = ''Submit between 1 and 5 memory drafts; pick the highest-signal.''\<rparr>],
               pr_unverified = []\<rparr>
         else
           (let verdicts = map (local_memory lower ft now onto) memories;
                types = List.map_filter (\<lambda>v. case v of Inl _ \<Rightarrow> None | Inr t \<Rightarrow> Some t) verdicts;
                edge_verdicts = map (local_edge ft onto lookup types) edges;
                rejections = List.map_filter (\<lambda>v. case v of Inl r \<Rightarrow> Some r | Inr _ \<Rightarrow> None) verdicts @
                  rejections_of edge_verdicts;
                would_reject = (word_of_nat (length rejections) :: u32)
            in \<lparr>pr_would_accept = word_of_nat all - min would_reject (word_of_nat all), pr_would_reject = would_reject,
                pr_rejections = rejections, pr_unverified = unverified_of edge_verdicts\<rparr>))"


section \<open>Agreement with the service\<close>

text \<open>
  The wire shape of a session batch: no snapshot and no times, no source coordinates and no rights of
  its own; a label the client does not know travels as -1. The confidence of an edge is the client's
  constant and its visibility one of the labels.\<close>

definition session_memory :: "(string \<Rightarrow> string) \<Rightarrow> preflight_memory_draft \<Rightarrow> memory_draft_pb \<Rightarrow> bool" where
  "session_memory lower p m \<longleftrightarrow>
     md_draft_key m = pd_draft_key p \<and> md_memory_type m = pd_memory_type p \<and> md_title m = pd_title p \<and>
     md_content m = pd_content p \<and> md_visibility m = visibility_discriminant lower (pd_visibility p) \<and>
     md_valid_from m = None \<and> md_valid_until m = None \<and> md_external_key m = None \<and> md_rights m = None"

definition session_edge :: "preflight_edge_hint \<Rightarrow> relationship_draft_pb \<Rightarrow> bool" where
  "session_edge e r \<longleftrightarrow>
     rd_from_draft_key r = ph_from_draft_key e \<and> rd_to_draft_key r = ph_to_draft_key e \<and>
     rd_to_memory_id r = ph_to_memory_id e \<and> rd_kind r = ph_kind e \<and> rd_strength r = ph_strength e \<and>
     unit_score (rd_confidence r) \<and> (\<exists>vis. vis_from_i32 (rd_visibility r) = Inr vis)"

definition session_batch ::
    "(string \<Rightarrow> string) \<Rightarrow> preflight_memory_draft list \<Rightarrow> preflight_edge_hint list \<Rightarrow> ingest_batch \<Rightarrow> bool" where
  "session_batch lower ps es batch \<longleftrightarrow>
     list_all2 (session_memory lower) ps (ibt_memories batch) \<and> list_all2 session_edge es (ibt_relationships batch) \<and>
     ibt_snapshot batch = None \<and> ibt_recorded_at batch = None \<and> ibt_observed_at batch = None"

text \<open>
  What only the service knows of a draft: that its label is within the ceiling of the source and the
  scopes of the principal, and that the default rights of the source have not lapsed.\<close>

definition service_permits ::
    "ingest_rules \<Rightarrow> ingest_batch \<Rightarrow> source_entry \<Rightarrow> instant \<Rightarrow> visibility_context option \<Rightarrow> memory_draft_pb \<Rightarrow> bool" where
  "service_permits rules batch source now who m \<longleftrightarrow>
     (\<exists>vis scope. vis_from_i32 (md_visibility m) = Inr vis \<and> within vis (se_ceiling source) \<and>
        scope_of rules batch vis who = Inr scope) \<and>
     (\<forall>r u. se_default_rights source = Some r \<longrightarrow> rt_retention_until r = Some u \<longrightarrow> now \<le> u)"

lemma parsed_within: "parse_visibility lower s = Some vis \<Longrightarrow> within vis CEILING"
  by (auto simp: parse_visibility_def CEILING_def within_iff less_eq_visibility_def Let_def split: if_splits)

lemma vis_rank_wire: "vis_from_i32 (int (vis_rank vis)) = Inr vis"
  by (simp add: vis_from_i32_Inr)

lemma parsed_wire: "vis_from_i32 (visibility_discriminant lower s) = Inr vis \<longleftrightarrow> parse_visibility lower s = Some vis"
  by (cases vis) (auto simp: vis_from_i32_Inr visibility_discriminant_def parse_visibility_def Let_def)

lemma validated_row:
  assumes "validate_memory env rules now fresh batch m snap source at who = Inr row"
  shows "hm_get (o_memory_type_by_name (ir_ontology rules)) (md_memory_type m) = Some (m_memory_type row) \<and>
    within (m_visibility row) (se_ceiling source) \<and> md_visibility m = int (vis_rank (m_visibility row))"
  using assms by (auto simp: validate_memory_def result_Inr validate_draft_def drafted_memory_def vis_from_i32_Inr split: if_splits)

lemma local_memory_ok:
  "local_memory lower ft now onto p = Inr t \<longleftrightarrow>
     (\<exists>mt vis. t = (pd_draft_key p, mt) \<and> memory_type_id onto (pd_memory_type p) = Some mt \<and>
        parse_visibility lower (pd_visibility p) = Some vis \<and>
        validate_draft onto (probe now p mt vis) \<lparr>sc_source = ''preflight'', sc_ceiling = CEILING\<rparr> = Inr ())"
  using parsed_within [of lower "pd_visibility p"] by (auto simp: local_memory_def Let_def split: option.splits sum.splits)

lemma memory_agrees:
  assumes row: "session_memory lower p m" and batch: "ibt_snapshot batch = None" and onto: "ir_ontology rules = onto"
    and at: "bt_recorded_at at = now"
  shows "(\<exists>row. validate_memory env rules now fresh batch m False source at who = Inr row) \<longleftrightarrow>
      (\<exists>t. local_memory lower ft now' onto p = Inr t) \<and> service_permits rules batch source now who m"
    and "validate_memory env rules now fresh batch m False source at who = Inr row \<Longrightarrow> local_memory lower ft now' onto p = Inr t \<Longrightarrow>
      t = (md_draft_key m, m_memory_type row)"
proof -
  note wire = row [unfolded session_memory_def]
  have late: "is_some_and (\<lambda>r. is_some_and (\<lambda>u. u < now) (rt_retention_until r)) (draft_rights env m source) \<longleftrightarrow>
      (\<exists>r u. se_default_rights source = Some r \<and> rt_retention_until r = Some u \<and> u < now)"
    using wire by (auto simp: is_some_and_iff draft_rights_def)
  show "(\<exists>row. validate_memory env rules now fresh batch m False source at who = Inr row) \<longleftrightarrow>
      (\<exists>t. local_memory lower ft now' onto p = Inr t) \<and> service_permits rules batch source now who m"
    using wire batch onto at parsed_within [of lower "pd_visibility p"]
    by (auto simp: validate_memory_def local_memory_ok memory_type_id_def result_Inr validate_draft_def probe_def context_of_def
        timestamp_or_def late parsed_wire service_permits_def is_some_and_def [of _ None] not_less split: if_splits)
  show "t = (md_draft_key m, m_memory_type row)"
    if "validate_memory env rules now fresh batch m False source at who = Inr row" "local_memory lower ft now' onto p = Inr t"
    using validated_row [OF that(1)] that(2) wire onto by (auto simp: local_memory_ok memory_type_id_def)
qed


lemma rejected_none: "rejected_of vs = [] \<longleftrightarrow> (\<forall>(x, v)\<in>set vs. \<exists>y. v = Inr y)"
proof (induction vs rule: rejected_of.induct)
  case (2 x y vs)
  then show ?case by simp
qed simp_all

text \<open>With distinct keys the first row of a key is its last one.\<close>

lemma draft_ids_types:
  "list_all2 (\<lambda>(d, v) (k, t). \<exists>row. v = Inr row \<and> k = md_draft_key d \<and> t = m_memory_type row) vs types \<Longrightarrow>
     distinct (map (md_draft_key \<circ> fst) vs) \<Longrightarrow>
     map_option m_memory_type (hm_get (draft_ids_of vs ids) k) =
       (case type_of_draft types k of Some t \<Rightarrow> Some t | None \<Rightarrow> map_option m_memory_type (hm_get ids k))"
proof (induction vs types arbitrary: ids rule: list_all2_induct)
  case (Cons x vs y types)
  obtain d row where x: "x = (d, Inr row)" "y = (md_draft_key d, m_memory_type row)" using Cons.hyps(1) by (cases x, cases y) auto
  have out: "type_of_draft types (md_draft_key d) = None"
  proof -
    have "map fst types = map (md_draft_key \<circ> fst) vs"
      using Cons.hyps(2) by (induction rule: list_all2_induct) auto
    with Cons.prems x have "md_draft_key d \<notin> fst ` set types" by (metis comp_apply distinct.simps(2) fst_conv list.set_map list.simps(9))
    then show ?thesis by (force simp: type_of_draft_def find_None_iff)
  qed
  from Cons.IH [of "hm_insert (md_draft_key d) row ids"] Cons.prems x out show ?case
    by (auto simp: type_of_draft_def split: option.splits)
qed (simp add: type_of_draft_def)

lemma edge_agrees:
  assumes e: "session_edge e r" "rd_to_memory_id r = []"
    and types: "\<And>k. map_option m_memory_type (hm_get ids k) = type_of_draft types k"
    and vis: "\<And>k row. hm_get ids k = Some row \<Longrightarrow> within (m_visibility row) ceiling"
  shows "(\<exists>rel. snd (validate_relationship env onto batch r ids ceiling producer at) = Inr rel) \<longleftrightarrow>
    local_edge ft onto lookup types e = EdgePassed \<and> unit_score (rd_strength r)"
proof (cases "hm_get ids (rd_from_draft_key r)")
  case None
  with e types [of "rd_from_draft_key r"] show ?thesis
    by (simp add: validate_relationship_def local_edge_def session_edge_def Let_def)
next
  case (Some f)
  note from_row = this
  have from_type: "type_of_draft types (ph_from_draft_key e) = Some (m_memory_type f)"
    using types [of "rd_from_draft_key r"] Some e by (simp add: session_edge_def)
  show ?thesis
  proof (cases "rd_to_draft_key r = [] \<or> hm_get ids (rd_to_draft_key r) = None")
    case True
    with e types [of "rd_to_draft_key r"] from_row from_type show ?thesis
      by (auto simp: validate_relationship_def local_edge_def edge_target_def target_key_def session_edge_def Let_def
          split: sum.splits)
  next
    case False
    then obtain t where t: "hm_get ids (rd_to_draft_key r) = Some t" by auto
    have target: "edge_target lookup types e = Inr (m_memory_type t)"
      using e False t types [of "rd_to_draft_key r", symmetric] by (auto simp: edge_target_def session_edge_def Let_def)
    have "within (relationship_visibility (m_visibility f) (m_visibility t)) ceiling"
      using vis [OF from_row] by (simp add: relationship_visibility_def within_iff min_le_iff_disj)
    with e False from_row from_type t target show ?thesis
      by (auto simp: validate_relationship_def local_edge_def target_key_def session_edge_def Let_def
          split: option.splits sum.splits)
  qed
qed


lemma local_edge_verified:
  assumes "ph_to_memory_id e = []" shows "local_edge ft onto lookup types e \<noteq> EdgeUnverified u"
  using assms by (auto simp: local_edge_def edge_target_def Let_def split: option.splits sum.splits)

lemma map_filter_none: "List.map_filter f xs = [] \<longleftrightarrow> (\<forall>x\<in>set xs. f x = None)"
  by (induction xs) (auto simp: map_filter_simps split: option.splits)

lemma no_edge_rejected:
  "rejections_of vs = [] \<longleftrightarrow> (\<forall>v\<in>set vs. \<forall>r. v \<noteq> EdgeRejected r)"
  by (auto simp: rejections_of_def map_filter_none split: edge_verdict.splits)

lemma no_edge_unverified:
  "unverified_of vs = [] \<longleftrightarrow> (\<forall>v\<in>set vs. \<forall>u. v \<noteq> EdgeUnverified u)"
  by (auto simp: unverified_of_def map_filter_none split: edge_verdict.splits)

text \<open>The verdicts of both sides on the memories of a session batch.\<close>

abbreviation accepted_types :: "(local_rejection + string \<times> u8) list \<Rightarrow> (string \<times> u8) list" where
  "accepted_types ls \<equiv> List.map_filter (\<lambda>v. case v of Inl _ \<Rightarrow> None | Inr t \<Rightarrow> Some t) ls"

lemma accepted_types_pointwise:
  "list_all2 (\<lambda>v l. \<exists>t. l = Inr t \<and> R v t) vs ls \<Longrightarrow> list_all2 R vs (accepted_types ls)"
  by (induction rule: list_all2_induct) (auto simp: map_filter_simps)

lemma memories_agree:
  assumes batch: "session_batch lower ps es batch" and onto: "ir_ontology rules = onto" and at: "bt_recorded_at at = now"
    and vs: "vs = memory_verdicts env rules now fresh batch source at who" and ls: "ls = map (local_memory lower ft now' onto) ps"
  shows "rejected_of vs = [] \<longleftrightarrow>
      (\<forall>l\<in>set ls. \<exists>t. l = Inr t) \<and> (\<forall>m\<in>set (ibt_memories batch). service_permits rules batch source now who m)"
    and "rejected_of vs = [] \<Longrightarrow>
      list_all2 (\<lambda>(d, v) (k, t). \<exists>row. v = Inr row \<and> k = md_draft_key d \<and> t = m_memory_type row) vs (accepted_types ls)"
proof -
  let ?ms = "ibt_memories batch"
  let ?v = "\<lambda>i. validate_memory env rules now (fresh i) batch (?ms ! i) False source at who"
  have plain: "ibt_snapshot batch = None" and len: "length ?ms = length ps"
    and wire: "\<And>i. i < length ps \<Longrightarrow> session_memory lower (ps ! i) (?ms ! i)"
    using batch by (auto simp: session_batch_def list_all2_conv_all_nth)
  have vs_nth: "length vs = length ps" "\<And>i. i < length ps \<Longrightarrow> vs ! i = (?ms ! i, ?v i)"
    by (simp_all add: vs memory_verdicts_def nth_enumerate_eq len plain)
  have all: "rejected_of vs = [] \<longleftrightarrow> (\<forall>i<length ps. \<exists>row. ?v i = Inr row)"
    by (simp add: rejected_none all_set_conv_all_nth vs_nth)
  note agree = memory_agrees [OF wire plain onto at, where ft = ft and now' = now' and env = env and source = source and who = who]
  show both: "rejected_of vs = [] \<longleftrightarrow>
      (\<forall>l\<in>set ls. \<exists>t. l = Inr t) \<and> (\<forall>m\<in>set ?ms. service_permits rules batch source now who m)"
    unfolding all using agree(1) by (simp add: ls all_set_conv_all_nth len) blast
  show "list_all2 (\<lambda>(d, v) (k, t). \<exists>row. v = Inr row \<and> k = md_draft_key d \<and> t = m_memory_type row) vs (accepted_types ls)"
    if "rejected_of vs = []"
  proof (rule accepted_types_pointwise, rule list_all2_all_nthI)
    fix i assume "i < length vs"
    then have i: "i < length ps" by (simp add: vs_nth)
    with that all obtain row where row: "?v i = Inr row" by blast
    with agree(1) [OF i] obtain t where t: "local_memory lower ft now' onto (ps ! i) = Inr t" by blast
    with agree(2) [OF i row] row i show "\<exists>t. ls ! i = Inr t \<and>
        (\<lambda>(d, v) (k, t). \<exists>row. v = Inr row \<and> k = md_draft_key d \<and> t = m_memory_type row) (vs ! i) t"
      by (simp add: vs_nth ls)
  qed (simp add: vs_nth ls)
qed

lemma accepted_within:
  assumes "row \<in> set (accepted_of (memory_verdicts env rules now fresh batch source at who))"
  shows "within (m_visibility row) (se_ceiling source)"
proof -
  have "\<exists>d. (d, Inr row) \<in> set vs" if "row \<in> set (accepted_of vs)" for vs :: "(memory_draft_pb \<times> (reject_code + memory)) list"
    using that by (induction vs rule: accepted_of.induct) auto
  from this [OF assms] validated_row show ?thesis by (fastforce simp: memory_verdicts_def in_set_enumerate_eq)
qed

lemma list_all2_ball:
  "list_all2 R xs ys \<Longrightarrow> (\<And>x y. R x y \<Longrightarrow> y \<in> set ys \<Longrightarrow> Q y \<longleftrightarrow> P x \<and> S y) \<Longrightarrow>
     (\<forall>y\<in>set ys. Q y) \<longleftrightarrow> (\<forall>x\<in>set xs. P x) \<and> (\<forall>y\<in>set ys. S y)"
  by (induction rule: list_all2_induct) auto

lemma local_edge_inside:
  "ph_to_memory_id e = [] \<Longrightarrow>
     (\<forall>r. local_edge ft onto lookup types e \<noteq> EdgeRejected r) \<longleftrightarrow> local_edge ft onto lookup types e = EdgePassed"
  using local_edge_verified [of e ft onto lookup types] by (metis edge_verdict.distinct(3) edge_verdict.exhaust)

lemma preflight_clean:
  assumes "\<forall>e\<in>set es. ph_to_memory_id e = []"
  shows "pr_rejections (preflight_rows lower ft now onto lookup ps es) = [] \<longleftrightarrow>
      ps \<noteq> [] \<and> length ps \<le> 5 \<and>
      (\<forall>l\<in>set (map (local_memory lower ft now onto) ps). \<exists>t. l = Inr t) \<and>
      (\<forall>e\<in>set es. local_edge ft onto lookup (accepted_types (map (local_memory lower ft now onto) ps)) e = EdgePassed)"
    and "pr_unverified (preflight_rows lower ft now onto lookup ps es) = []"
proof -
  let ?types = "accepted_types (map (local_memory lower ft now onto) ps)"
  have "rejections_of (map (local_edge ft onto lookup ?types) es) = [] \<longleftrightarrow>
      (\<forall>e\<in>set es. local_edge ft onto lookup ?types e = EdgePassed)"
    using assms by (simp add: no_edge_rejected local_edge_inside)
  moreover have "(case l of Inl r \<Rightarrow> Some r | Inr _ \<Rightarrow> None) = None \<longleftrightarrow> (\<exists>t. l = Inr t)" for l :: "local_rejection + string \<times> u8"
    by (cases l) auto
  ultimately show "pr_rejections (preflight_rows lower ft now onto lookup ps es) = [] \<longleftrightarrow>
      ps \<noteq> [] \<and> length ps \<le> 5 \<and>
      (\<forall>l\<in>set (map (local_memory lower ft now onto) ps). \<exists>t. l = Inr t) \<and>
      (\<forall>e\<in>set es. local_edge ft onto lookup (accepted_types (map (local_memory lower ft now onto) ps)) e = EdgePassed)"
    by (simp add: preflight_rows_def Let_def map_filter_none not_less)
  show "pr_unverified (preflight_rows lower ft now onto lookup ps es) = []"
    using assms local_edge_verified by (auto simp: preflight_rows_def Let_def no_edge_unverified)
qed

lemma validate_batch_inside:
  assumes at: "batch_times_of env now batch = Inr at" and inside: "\<forall>r\<in>set (ibt_relationships batch). rd_to_memory_id r = []"
    and run: "validate_batch env now fresh batch source who sv = (Inr answer, sv')"
  shows "(\<exists>v. answer = Inr v) \<longleftrightarrow>
    rejected_of (memory_verdicts env (rules_of sv) now fresh batch source at who) = [] \<and>
    (\<forall>r\<in>set (ibt_relationships batch). \<exists>rel. snd (validate_relationship env (sv_ontology sv) batch r
       (draft_ids_of (memory_verdicts env (rules_of sv) now fresh batch source at who) [])
       (se_ceiling source) (se_kind source) at) = Inr rel)"
proof -
  have none: "external_targets batch = []" "malformed_targets batch = []"
    using inside by (simp_all add: external_targets_def malformed_targets_def map_filter_none)
  obtain r st where l: "load_targets env (sort_dedup []) (sv_store sv) = (r, st)" by (cases "load_targets env (sort_dedup []) (sv_store sv)")
  let ?vs = "memory_verdicts env (rules_of sv) now fresh batch source at who"
  obtain ev ed where e: "validate_edges env (sv\<lparr>sv_store := st\<rparr>) batch source at (draft_ids_of ?vs []) = (ev, ed)"
    by (cases "validate_edges env (sv\<lparr>sv_store := st\<rparr>) batch source at (draft_ids_of ?vs [])")
  have ed: "ed = map (\<lambda>r. (r, snd (validate_relationship env (sv_ontology sv) batch r (draft_ids_of ?vs [])
      (se_ceiling source) (se_kind source) at))) (ibt_relationships batch)"
    using e by (auto simp: validate_edges_def Let_def)
  show ?thesis
  proof (cases "rejected_of ?vs = []")
    case False
    with run at show ?thesis by (auto simp: validate_batch_def)
  next
    case True
    with run at l none obtain loaded where "r = Inr loaded" by (cases r) (auto simp: validate_batch_def Let_def)
    with run at l none e True have "(\<exists>v. answer = Inr v) \<longleftrightarrow> rejected_of ed = []"
      by (auto simp: validate_batch_def Let_def split: if_splits)
    then show ?thesis using True by (simp add: rejected_none ed)
  qed
qed

text \<open>
  C35: The local pass and the service agree. Take a session batch whose draft keys are distinct and
  whose edges stay inside it. The service answers with a validated batch, and the batch has one to
  five memories, exactly when the local pass rejects nothing, the service permits every draft (the
  ceiling of the source, the scopes of the principal, the retention of the default rights) and every
  edge strength is in the unit range, which the local pass does not look at. It leaves nothing
  unverified.\<close>

theorem preflight_matches_service:
  assumes batch: "session_batch (iv_lowercase env) ps es batch"
    and keys: "distinct (map pd_draft_key ps)" and inside: "\<forall>e\<in>set es. ph_to_memory_id e = []"
    and run: "validate_batch env now fresh batch source who sv = (Inr answer, sv')"
  shows "((\<exists>v. answer = Inr v) \<and> ps \<noteq> [] \<and> length ps \<le> 5 \<longleftrightarrow>
      pr_rejections (preflight_rows (iv_lowercase env) ft now' (sv_ontology sv) lookup ps es) = [] \<and>
      (\<forall>m\<in>set (ibt_memories batch). service_permits (rules_of sv) batch source now who m) \<and>
      (\<forall>r\<in>set (ibt_relationships batch). unit_score (rd_strength r))) \<and>
    pr_unverified (preflight_rows (iv_lowercase env) ft now' (sv_ontology sv) lookup ps es) = []"
proof -
  let ?at = "\<lparr>bt_observed_at = now, bt_recorded_at = now\<rparr>"
  define vs where "vs = memory_verdicts env (rules_of sv) now fresh batch source ?at who"
  define ls where "ls = map (local_memory (iv_lowercase env) ft now' (sv_ontology sv)) ps"
  let ?ids = "draft_ids_of vs []"
  let ?edge = "\<lambda>r. \<exists>rel. snd (validate_relationship env (sv_ontology sv) batch r ?ids (se_ceiling source) (se_kind source) ?at) = Inr rel"
  let ?local = "\<lambda>e. local_edge ft (sv_ontology sv) lookup (accepted_types ls) e = EdgePassed"
  have at: "batch_times_of env now batch = Inr ?at" and es: "list_all2 session_edge es (ibt_relationships batch)"
    and ms: "list_all2 (session_memory (iv_lowercase env)) ps (ibt_memories batch)"
    using batch by (simp_all add: batch_times_of_def timestamp_or_def session_batch_def)
  have local_targets: "\<forall>r\<in>set (ibt_relationships batch). rd_to_memory_id r = []"
    using es inside by (induction rule: list_all2_induct) (auto simp: session_edge_def)
  have "map md_draft_key (ibt_memories batch) = map pd_draft_key ps"
    using ms by (induction rule: list_all2_induct) (auto simp: session_memory_def)
  moreover have "map (md_draft_key \<circ> fst) vs = map md_draft_key (ibt_memories batch)"
    by (intro nth_equalityI) (simp_all add: vs_def memory_verdicts_def nth_enumerate_eq)
  ultimately have distinct: "distinct (map (md_draft_key \<circ> fst) vs)" using keys by simp
  have onto: "ir_ontology (rules_of sv) = sv_ontology sv" by (simp add: rules_of_def)
  note both = memories_agree [OF batch onto batch_times.select_convs(2) vs_def ls_def]
  have edge: "?edge r \<longleftrightarrow> ?local e \<and> unit_score (rd_strength r)"
    if ok: "rejected_of vs = []" and e: "session_edge e r" "r \<in> set (ibt_relationships batch)" for e r
  proof (rule edge_agrees [OF e(1)])
    show "map_option m_memory_type (hm_get ?ids k) = type_of_draft (accepted_types ls) k" for k
      using draft_ids_types [OF both(2) [OF ok] distinct, of "[]" k] by (simp split: option.splits)
    show "within (m_visibility row) (se_ceiling source)" if "hm_get ?ids k = Some row" for k row
      using hm_get_value [OF that] draft_ids_values [of vs "[]"] accepted_within by (auto simp: hm_values_def vs_def)
  qed (use local_targets e in auto)
  have edges: "(\<forall>r\<in>set (ibt_relationships batch). ?edge r) \<longleftrightarrow>
      (\<forall>e\<in>set es. ?local e) \<and> (\<forall>r\<in>set (ibt_relationships batch). unit_score (rd_strength r))" if "rejected_of vs = []"
    by (rule list_all2_ball [OF es]) (rule edge [OF that])
  from validate_batch_inside [OF at local_targets run, folded vs_def]
  have "(\<exists>v. answer = Inr v) \<longleftrightarrow> rejected_of vs = [] \<and> (\<forall>e\<in>set es. ?local e) \<and>
      (\<forall>r\<in>set (ibt_relationships batch). unit_score (rd_strength r))"
    using edges by blast
  with both(1) preflight_clean [OF inside, where lower = "iv_lowercase env" and ft = ft and now = now' and onto = "sv_ontology sv"
      and lookup = lookup and ps = ps, folded ls_def] show ?thesis by blast
qed


definition sample_local_draft :: preflight_memory_draft where
  "sample_local_draft =
     \<lparr>pd_draft_key = ''d1'', pd_memory_type = ''Task'', pd_title = ''t'', pd_content = ''c'', pd_visibility = ''org'', pd_tags = []\<rparr>"

theorem preflight_matches_service_witness:
  "pr_rejections (preflight_rows (map ascii_lower) (\<lambda>_. []) 0 sample_types (\<lambda>_. None) [sample_local_draft] []) = []"
proof -
  have "map ascii_lower ''org'' = ''org''" by (simp add: ascii_lower_def Let_def)
  then have "visibility_discriminant (iv_lowercase sample_env) ''org'' = 3"
    by (simp add: visibility_discriminant_def sample_env_def)
  then have batch: "session_batch (iv_lowercase sample_env) [sample_local_draft] [] sample_batch"
    by (simp add: session_batch_def session_memory_def sample_local_draft_def sample_draft_def)
  from preflight_matches_service [OF batch _ _ sample_validated, where ft = "\<lambda>_. []" and now' = 0 and lookup = "\<lambda>_. None"]
  show ?thesis by (simp add: sample_env_def sample_serving_def sample_server_def new_store_def build_def)
qed

end
