(* ===== verification/Adapter_Manifest.thy ===== *)
theory Adapter_Manifest
  imports Adapter_Split Ops_Preflight
begin

text \<open>
  The rulebook as data: the manifest of \<open>crates/exocortex-wire/src/manifest.rs\<close>, its compilation by
  the ingest service (\<open>validation_manifest\<close> and \<open>get_validation_manifest\<close> of
  \<open>crates/exocortex-ingest/src/service.rs\<close>), and the interpreter of
  \<open>crates/exocortex-adapter-sdk/src/manifest.rs\<close>, which judges the units of an adapter before any of
  their rows travels. The JSON form is a parameter.
\<close>

section \<open>The manifest\<close>

definition MANIFEST_VERSION :: u32 where "MANIFEST_VERSION = 1"

record manifest_memory_type =
  mmt_name :: string
  mmt_id :: u8

record manifest_kind =
  mk_id :: u32
  mk_name :: string
  mk_computed_only :: bool
  mk_default_strength :: f32

record manifest_triple =
  mt_kind :: u32
  mt_from_types :: "u8 list option"
  mt_to_types :: "u8 list option"

record validation_manifest =
  vm_manifest_version :: u32
  vm_compatibility_fingerprint :: string
  vm_memory_types :: "manifest_memory_type list"
  vm_kinds :: "manifest_kind list"
  vm_type_triples :: "manifest_triple list"
  vm_title_min_chars :: nat
  vm_title_max_chars :: nat
  vm_registered_ceiling :: "int option"

definition parse_manifest :: "(string \<Rightarrow> string + validation_manifest) \<Rightarrow> string \<Rightarrow> string + validation_manifest" where
  "parse_manifest from_json text =
     (case from_json text of
        Inl e \<Rightarrow> Inl (''manifest is not valid: '' @ e)
      | Inr m \<Rightarrow>
        if vm_manifest_version m \<noteq> MANIFEST_VERSION
        then Inl (''manifest scheme '' @ show_nat (unat (vm_manifest_version m)) @ '' is not this reader's '' @
               show_nat (unat MANIFEST_VERSION) @ '' '' @ em_dash @ '' update the SDK'')
        else Inr m)"

section \<open>Compiling it\<close>

fun ceiling_discriminant :: "visibility \<Rightarrow> int" where
  "ceiling_discriminant Private = 0"
| "ceiling_discriminant Project = 1"
| "ceiling_discriminant Team = 2"
| "ceiling_discriminant Org = 3"
| "ceiling_discriminant Public = 3"

definition compiled_manifest :: "ontology \<Rightarrow> int option \<Rightarrow> validation_manifest" where
  "compiled_manifest onto ceiling =
     (let summary = o_summary onto
      in \<lparr>vm_manifest_version = MANIFEST_VERSION,
          vm_compatibility_fingerprint = hex (o_fingerprint onto),
          vm_memory_types =
            sort_key mmt_name
              (map (\<lambda>(i, name). \<lparr>mmt_name = name, mmt_id = word_of_nat i\<rparr>) (enumerate 0 (os_memory_types summary))),
          vm_kinds =
            map (\<lambda>k. \<lparr>mk_id = ks_id k, mk_name = ks_name k, mk_computed_only = ks_computed_only k,
                       mk_default_strength = ks_default_strength k\<rparr>) (os_kinds summary),
          vm_type_triples =
            map (\<lambda>t. \<lparr>mt_kind = ts_kind t, mt_from_types = ts_from_types t, mt_to_types = ts_to_types t\<rparr>)
              (os_type_triples summary),
          vm_title_min_chars = 1, vm_title_max_chars = 200, vm_registered_ceiling = ceiling\<rparr>)"

text \<open>The registry is an LRU map: looking a source up touches it.\<close>

definition source_entry_of ::
    "('c, 'd) registries \<Rightarrow> source_key \<Rightarrow> ('c, 'd) ingest_server \<Rightarrow> (string + source_entry) \<times> ('c, 'd) ingest_server" where
  "source_entry_of rg key sv =
     (case sv_source_registry_error sv of
        Some e \<Rightarrow> (Inl (''source registry unavailable: '' @ e), sv)
      | None \<Rightarrow>
        (case lru_get (rg_sources rg) key (sv_sources sv) of
           (found, sources) \<Rightarrow> (ok_or found ''producer not registered'', sv\<lparr>sv_sources := sources\<rparr>)))"

definition validation_manifest_of ::
    "('c, 'd) registries \<Rightarrow> source_key \<Rightarrow> ('c, 'd) ingest_server \<Rightarrow> validation_manifest \<times> ('c, 'd) ingest_server" where
  "validation_manifest_of rg key sv =
     (case source_entry_of rg key sv of
        (found, sv1) \<Rightarrow>
          (compiled_manifest (sv_ontology sv)
             (case found of Inl _ \<Rightarrow> None | Inr entry \<Rightarrow> Some (ceiling_discriminant (se_ceiling entry))), sv1))"

definition get_validation_manifest ::
    "(validation_manifest \<Rightarrow> string + string) \<Rightarrow> ('c, 'd) registries \<Rightarrow> visibility_context option \<Rightarrow> source_key \<Rightarrow>
     ('c, 'd) ingest_server \<Rightarrow> (grpc_status + string \<times> byte list) \<times> ('c, 'd) ingest_server" where
  "get_validation_manifest to_json rg who key sv =
     (case request_principal sv who of
        Inl e \<Rightarrow> (Inl e, sv)
      | Inr _ \<Rightarrow>
        if is_some_and (\<lambda>guard. guard \<noteq> fst key) (sv_org_guard sv)
        then (Inl (PermissionDenied ''org does not match this node''), sv)
        else
          (case validation_manifest_of rg key sv of
             (manifest, sv1) \<Rightarrow>
               (case to_json manifest of
                  Inl e \<Rightarrow> (Inl (InternalStatus e), sv1)
                | Inr text \<Rightarrow> (Inr (text, o_fingerprint (sv_ontology sv)), sv1))))"

section \<open>Interpreting it\<close>

record local_reject =
  lj_draft_key :: string
  lj_code :: reject_code
  lj_detail :: string

definition visibility_order :: "int \<Rightarrow> nat option" where
  "visibility_order v = (if 0 \<le> v \<and> v \<le> 4 then Some (nat v) else None)"

definition show_i32 :: "int \<Rightarrow> string" where
  "show_i32 v = (if v < 0 then ''-'' @ show_nat (nat (- v)) else show_nat (nat v))"

text \<open>A hash map collected from rows keeps the last of two rows with the same key.\<close>

definition last_row :: "('k \<times> 'v) list \<Rightarrow> 'k \<Rightarrow> 'v option" where
  "last_row rows k = map_of (rev rows) k"

definition type_row :: "validation_manifest \<Rightarrow> string \<Rightarrow> u8 option" where
  "type_row m = last_row (map (\<lambda>t. (mmt_name t, mmt_id t)) (vm_memory_types m))"

definition kind_id_row :: "validation_manifest \<Rightarrow> string \<Rightarrow> u32 option" where
  "kind_id_row m = last_row (map (\<lambda>k. (mk_name k, mk_id k)) (vm_kinds m))"

definition computed_row :: "validation_manifest \<Rightarrow> string \<Rightarrow> bool option" where
  "computed_row m = last_row (map (\<lambda>k. (mk_name k, mk_computed_only k)) (vm_kinds m))"

definition draft_label_rejects :: "nat \<Rightarrow> memory_draft_pb \<Rightarrow> local_reject list" where
  "draft_label_rejects ceiling d =
     (case visibility_order (md_visibility d) of
        None \<Rightarrow> [\<lparr>lj_draft_key = md_draft_key d, lj_code = RejVisibilityWidening,
                  lj_detail = ''unknown visibility discriminant '' @ show_i32 (md_visibility d)\<rparr>]
      | Some ord \<Rightarrow>
        if ceiling < ord
        then [\<lparr>lj_draft_key = md_draft_key d, lj_code = RejVisibilityWidening,
               lj_detail = ''visibility '' @ show_nat ord @ '' exceeds the registered ceiling '' @ show_nat ceiling\<rparr>]
        else [])"

definition judge_draft :: "validation_manifest \<Rightarrow> nat \<Rightarrow> bool \<Rightarrow> memory_draft_pb \<Rightarrow> local_reject list" where
  "judge_draft m ceiling snapshot d =
     (if type_row m (md_memory_type d) = None
      then [\<lparr>lj_draft_key = md_draft_key d, lj_code = UnknownMemoryType,
             lj_detail = ''unknown memory type `'' @ md_memory_type d @ ''`''\<rparr>]
      else if chars_count (md_title d) < vm_title_min_chars m \<or> vm_title_max_chars m < chars_count (md_title d)
      then [\<lparr>lj_draft_key = md_draft_key d, lj_code = RejUnknown,
             lj_detail = ''title is '' @ show_nat (chars_count (md_title d)) @ '' chars; the rulebook bounds are '' @
               show_nat (vm_title_min_chars m) @ ''..='' @ show_nat (vm_title_max_chars m)\<rparr>]
      else if md_content d = []
      then [\<lparr>lj_draft_key = md_draft_key d, lj_code = RejUnknown, lj_detail = ''content is empty''\<rparr>]
      else draft_label_rejects ceiling d @
        (if snapshot \<and> md_external_key d = None
         then [\<lparr>lj_draft_key = md_draft_key d, lj_code = MissingExternalKey,
                lj_detail = ''snapshot batch without an ExternalKey (R-T16a)''\<rparr>]
         else []))"

text \<open>The types of the drafts whose type is known, also of those rejected for another reason.\<close>

definition resolved_types :: "validation_manifest \<Rightarrow> memory_draft_pb list \<Rightarrow> string \<Rightarrow> u8 option" where
  "resolved_types m ds =
     last_row (List.map_filter (\<lambda>d. map_option (Pair (md_draft_key d)) (type_row m (md_memory_type d))) ds)"

definition permitted :: "validation_manifest \<Rightarrow> u32 \<Rightarrow> u8 \<Rightarrow> u8 \<Rightarrow> bool" where
  "permitted m kind from_type to_type =
     list_ex (\<lambda>t. mt_kind t = kind
       \<and> (case mt_from_types t of None \<Rightarrow> True | Some ts \<Rightarrow> from_type \<in> set ts)
       \<and> (case mt_to_types t of None \<Rightarrow> True | Some ts \<Rightarrow> to_type \<in> set ts)) (vm_type_triples m)"

definition judge_edge :: "validation_manifest \<Rightarrow> (string \<Rightarrow> u8 option) \<Rightarrow> relationship_draft_pb \<Rightarrow> local_reject list" where
  "judge_edge m types r =
     (let key = rd_from_draft_key r @ ''->'' @ rd_to_draft_key r
      in if rd_to_memory_id r = [] \<and> rd_to_draft_key r = []
         then [\<lparr>lj_draft_key = rd_from_draft_key r @ ''->'', lj_code = RejInvalidTypeTriple,
                lj_detail = ''edge names neither to_draft_key nor to_memory_id''\<rparr>]
         else if rd_to_memory_id r \<noteq> [] then []
         else
           (case kind_id_row m (rd_kind r) of
              None \<Rightarrow> [\<lparr>lj_draft_key = key, lj_code = RejUnknownKind, lj_detail = ''unknown kind `'' @ rd_kind r @ ''`''\<rparr>]
            | Some kind \<Rightarrow>
              if computed_row m (rd_kind r) = Some True
              then [\<lparr>lj_draft_key = key, lj_code = ComputedKindRejected,
                     lj_detail = ''`'' @ rd_kind r @ ''` is computed-only (R-T14): produced exclusively by Dreams''\<rparr>]
              else
                (case (types (rd_from_draft_key r), types (rd_to_draft_key r)) of
                   (Some from_type, Some to_type) \<Rightarrow>
                     if permitted m kind from_type to_type then []
                     else [\<lparr>lj_draft_key = key, lj_code = RejInvalidTypeTriple,
                            lj_detail = ''kind `'' @ rd_kind r @ ''` does not permit this endpoint pair (R-T17)''\<rparr>]
                 | _ \<Rightarrow> [])))"

definition judge_unit :: "validation_manifest \<Rightarrow> int \<Rightarrow> batch_unit \<Rightarrow> local_reject list" where
  "judge_unit m configured u =
     (let ceiling = (case vm_registered_ceiling m of None \<Rightarrow> configured | Some c \<Rightarrow> c);
          ceiling_order = (case visibility_order ceiling of None \<Rightarrow> 3 | Some ord \<Rightarrow> ord)
      in concat (map (judge_draft m ceiling_order (bu_snapshot u \<noteq> None)) (bu_memories u)) @
         concat (map (judge_edge m (resolved_types m (bu_memories u))) (bu_relationships u)))"

fun validate_units :: "validation_manifest \<Rightarrow> int \<Rightarrow> batch_unit list \<Rightarrow> sdk_error + unit" where
  "validate_units m configured [] = Inr ()"
| "validate_units m configured (u # us) =
     (let rejects = judge_unit m configured u
      in if rejects \<noteq> []
         then Inl (LocalRejections (map (\<lambda>r. (lj_draft_key r, reject_debug (lj_code r), lj_detail r)) rejects))
         else validate_units m configured us)"


section \<open>The manifest answers as the ontology does\<close>

lemma compiled_sel [simp]:
  "vm_title_min_chars (compiled_manifest onto c) = 1" "vm_title_max_chars (compiled_manifest onto c) = 200"
  "vm_registered_ceiling (compiled_manifest onto c) = c"
  by (simp_all add: compiled_manifest_def Let_def)

lemma last_row_iff: "distinct (map fst rows) \<Longrightarrow> last_row rows k = Some v \<longleftrightarrow> (k, v) \<in> set rows"
  by (simp add: last_row_def map_of_eq_Some_iff rev_map [symmetric])

lemma index_names_iff:
  "distinct ns \<Longrightarrow> hm_get (index_names ns 0 []) n = Some t \<longleftrightarrow> (\<exists>j<length ns. ns ! j = n \<and> t = word_of_nat j)"
  using index_names_nth [of ns _ 0 "[]"] index_names_other [of n ns 0 "[]"]
  by (cases "n \<in> set ns") (auto simp: in_set_conv_nth nth_eq_iff_index_eq)

lemma distinct_map_sort: "distinct (map f (sort_key g xs)) \<longleftrightarrow> distinct (map f xs)"
  by (metis mset_eq_imp_distinct_iff mset_map mset_sort)

lemma type_row_compiled:
  assumes "from_packs sha256 bincode ps = Inr onto"
  shows "type_row (compiled_manifest onto c) n = hm_get (o_memory_type_by_name onto) n"
proof -
  let ?ns = "o_memory_type_names onto"
  let ?rows = "map (\<lambda>(i, name). \<lparr>mmt_name = name, mmt_id = (word_of_nat i :: u8)\<rparr>) (enumerate 0 ?ns)"
  have names: "os_memory_types (o_summary onto) = ?ns" "distinct ?ns"
    using from_packs_ok(3,5,12) [OF assms] by (simp_all add: of_canonical_packs_def)
  have "map mmt_name ?rows = ?ns" by (intro nth_equalityI) (simp_all add: nth_enumerate_eq)
  then have d: "distinct (map mmt_name (sort_key mmt_name ?rows))" using names(2) by (simp only: distinct_map_sort)
  have "type_row (compiled_manifest onto c) n = Some t \<longleftrightarrow> \<lparr>mmt_name = n, mmt_id = t\<rparr> \<in> set ?rows" for t
  proof -
    have "distinct (map fst (map (\<lambda>r. (mmt_name r, mmt_id r)) (sort_key mmt_name ?rows)))" using d by (simp only: map_map comp_def fst_conv)
    from last_row_iff [OF this, of n t] show ?thesis
      by (force simp: type_row_def compiled_manifest_def Let_def names(1))
  qed
  moreover have "\<lparr>mmt_name = n, mmt_id = t\<rparr> \<in> set ?rows \<longleftrightarrow> (\<exists>j<length ?ns. ?ns ! j = n \<and> t = word_of_nat j)" for t
    by (auto simp: in_set_enumerate_eq image_iff intro!: bexI [of _ "(_, _)"])
  ultimately have "type_row (compiled_manifest onto c) n = Some t \<longleftrightarrow> (\<exists>j<length ?ns. ?ns ! j = n \<and> t = word_of_nat j)" for t
    by blast
  with index_names_iff [OF names(2)] from_packs_ok(10) [OF assms] show ?thesis by (metis option.exhaust)
qed

lemma kinds_compiled:
  assumes "from_packs sha256 bincode ps = Inr onto"
  shows "kind_id_row (compiled_manifest onto c) n = map_option kind_code (kind_id onto n)"
    and "computed_row (compiled_manifest onto c) n =
      (case kind_id onto n of None \<Rightarrow> None | Some k \<Rightarrow> map_option k_computed_only (hm_get (o_kinds_by_id onto) k))"
proof -
  let ?ks = "concat (map pd_kinds (canonicalized ps))"
  note reg = register_kinds_ok [OF from_packs_ok(7) [OF assms], simplified]
  have kinds: "os_kinds (o_summary onto) = sort_key ks_id (map summarize_kind ?ks)"
    using from_packs_ok(12) [OF assms] by (simp add: of_canonical_packs_def map_concat comp_def)
  have "map ks_name (map summarize_kind ?ks) = map k_display_name ?ks"
    by (simp add: summarize_kind_def comp_def split: prod.splits)
  then have d: "distinct (map ks_name (sort_key ks_id (map summarize_kind ?ks)))"
    using reg by (simp only: distinct_map_sort)
  have row: "last_row (map (\<lambda>k. (mk_name k, g k)) (vm_kinds (compiled_manifest onto c))) n = Some v \<longleftrightarrow>
      (\<exists>k\<in>set ?ks. k_display_name k = n \<and> v = g \<lparr>mk_id = kind_code (k_id k), mk_name = k_display_name k,
         mk_computed_only = k_computed_only k, mk_default_strength = k_default_strength k\<rparr>)" for v and g :: "manifest_kind \<Rightarrow> 'v"
  proof -
    have "distinct (map fst (map (\<lambda>k. (mk_name k, g k)) (vm_kinds (compiled_manifest onto c))))"
      using d by (simp add: compiled_manifest_def Let_def kinds comp_def)
    from last_row_iff [OF this, of n v] show ?thesis
      by (force simp: compiled_manifest_def Let_def kinds summarize_kind_def split: prod.splits)
  qed
  have kind: "k \<in> set ?ks \<Longrightarrow> hm_get (o_kinds_by_id onto) (k_id k) = Some k \<and> kind_id onto (k_display_name k) = Some (k_id k)" for k
    using kind_resolution [OF assms] from_packs_ok(2) [OF assms] by auto
  have unknown: "kind_id onto n = None" if "\<forall>k\<in>set ?ks. k_display_name k \<noteq> n"
    using that kinds_by_id_iff [OF assms] reg by (auto simp: kind_id_def find_None_iff hm_values_iff)
  show "kind_id_row (compiled_manifest onto c) n = map_option kind_code (kind_id onto n)"
  proof (cases "\<exists>k\<in>set ?ks. k_display_name k = n")
    case True
    then obtain k where k: "k \<in> set ?ks" "k_display_name k = n" by blast
    with row [of mk_id "kind_code (k_id k)"] have "kind_id_row (compiled_manifest onto c) n = Some (kind_code (k_id k))"
      unfolding kind_id_row_def by auto
    with kind [OF k(1)] k(2) show ?thesis by simp
  next
    case False
    then have "kind_id_row (compiled_manifest onto c) n \<noteq> Some v" for v
      unfolding kind_id_row_def using row [of mk_id v] by blast
    then have "kind_id_row (compiled_manifest onto c) n = None" by (cases "kind_id_row (compiled_manifest onto c) n") blast+
    with unknown False show ?thesis by auto
  qed
  show "computed_row (compiled_manifest onto c) n =
      (case kind_id onto n of None \<Rightarrow> None | Some k \<Rightarrow> map_option k_computed_only (hm_get (o_kinds_by_id onto) k))"
  proof (cases "\<exists>k\<in>set ?ks. k_display_name k = n")
    case True
    then obtain k where k: "k \<in> set ?ks" "k_display_name k = n" by blast
    with row [of mk_computed_only "k_computed_only k"] have "computed_row (compiled_manifest onto c) n = Some (k_computed_only k)"
      unfolding computed_row_def by auto
    with kind [OF k(1)] k(2) show ?thesis by simp
  next
    case False
    then have "computed_row (compiled_manifest onto c) n \<noteq> Some v" for v
      unfolding computed_row_def using row [of mk_computed_only v] by blast
    then have "computed_row (compiled_manifest onto c) n = None" by (cases "computed_row (compiled_manifest onto c) n") blast+
    with unknown False show ?thesis by auto
  qed
qed

lemma permitted_compiled:
  assumes "from_packs sha256 bincode ps = Inr onto"
  shows "permitted (compiled_manifest onto c) (kind_code k) f t \<longleftrightarrow> validate_triple onto f k t = Inr ()"
proof -
  have triples: "set (os_type_triples (o_summary onto)) = (\<Union>p\<in>set (canonicalized ps). summarize_triple ` set (pd_type_triples p))"
    using from_packs_ok(12) [OF assms] by (simp add: of_canonical_packs_def)
  have inj: "kind_code x = kind_code y \<longleftrightarrow> x = y" for x y by (cases x; cases y) simp
  have "permitted (compiled_manifest onto c) (kind_code k) f t \<longleftrightarrow>
      (\<exists>x\<in>set (os_type_triples (o_summary onto)). ts_kind x = kind_code k \<and>
        (case ts_from_types x of None \<Rightarrow> True | Some ts \<Rightarrow> f \<in> set ts) \<and>
        (case ts_to_types x of None \<Rightarrow> True | Some ts \<Rightarrow> t \<in> set ts))"
    by (simp add: permitted_def compiled_manifest_def Let_def list_ex_iff)
  also have "\<dots> \<longleftrightarrow> (\<exists>p\<in>set (canonicalized ps). \<exists>x\<in>set (pd_type_triples p). t_kind x = k \<and> permits x f t)"
    by (simp add: triples summarize_triple_def inj permits_def matches_triple_def split: option.splits)
  finally show ?thesis by (simp add: validate_triple_packs [OF assms] from_packs_ok(2) [OF assms])
qed


section \<open>Agreement with the service\<close>

text \<open>
  What the manifest does not cover: the scopes of the principal, the form of external coordinates,
  times and retention, the scores and labels of edges, the time stamps of the batch.\<close>

definition draft_beyond ::
    "ingest_env \<Rightarrow> ingest_rules \<Rightarrow> ingest_batch \<Rightarrow> source_entry \<Rightarrow> batch_times \<Rightarrow> visibility_context option \<Rightarrow>
     memory_draft_pb \<Rightarrow> bool" where
  "draft_beyond env rules batch source at who m \<longleftrightarrow>
     (\<exists>vis scope. vis_from_i32 (md_visibility m) = Inr vis \<and> scope_of rules batch vis who = Inr scope) \<and>
     \<not> is_some_and (\<lambda>k. length (xkp_table_uuid k) \<noteq> 16) (md_external_key m) \<and>
     \<not> is_some_and (\<lambda>s. length (si_schema_hash s) \<noteq> 32) (ibt_snapshot batch) \<and>
     (\<exists>valid_from valid_until.
        timestamp_or env (md_valid_from m) (bt_recorded_at at) = Inr valid_from \<and>
        (case md_valid_until m of
           None \<Rightarrow> Inr None
         | Some t \<Rightarrow> and_then (checked_timestamp env t) (\<lambda>v. Inr (Some v))) = Inr valid_until \<and>
        \<not> is_some_and (\<lambda>u. u < valid_from) valid_until \<and>
        \<not> is_some_and (\<lambda>r. is_some_and (\<lambda>u. u < valid_from) (rt_retention_until r)) (draft_rights env m source))"

definition edge_beyond :: "relationship_draft_pb \<Rightarrow> bool" where
  "edge_beyond r \<longleftrightarrow>
     unit_score (rd_strength r) \<and> unit_score (rd_confidence r) \<and> (\<exists>vis. vis_from_i32 (rd_visibility r) = Inr vis)"

definition beyond_manifest ::
    "ingest_env \<Rightarrow> instant \<Rightarrow> ingest_rules \<Rightarrow> ingest_batch \<Rightarrow> source_entry \<Rightarrow> visibility_context option \<Rightarrow> bool" where
  "beyond_manifest env now rules batch source who \<longleftrightarrow>
     (\<exists>at. batch_times_of env now batch = Inr at \<and>
        (\<forall>m\<in>set (ibt_memories batch). draft_beyond env rules batch source at who m)) \<and>
     (\<forall>r\<in>set (ibt_relationships batch). edge_beyond r)"

lemma chars_of_title: "starts_char s \<Longrightarrow> chars_count s < 1 \<longleftrightarrow> s = []"
  by (cases s) (auto simp: starts_char_def chars_count_def)

lemma label_agrees:
  "draft_label_rejects (vis_rank c) m = [] \<longleftrightarrow> (\<exists>vis. vis_from_i32 (md_visibility m) = Inr vis \<and> within vis c)"
proof -
  have "(\<exists>vis. v = int (vis_rank vis)) \<longleftrightarrow> 0 \<le> v \<and> v \<le> 4" for v
  proof
    assume "0 \<le> v \<and> v \<le> 4"
    then have "v \<in> {0, 1, 2, 3, 4}" by auto
    then show "\<exists>vis. v = int (vis_rank vis)"
      by (auto intro: exI [of _ Private] exI [of _ Project] exI [of _ Team] exI [of _ Org] exI [of _ Public])
  next
    assume "\<exists>vis. v = int (vis_rank vis)"
    then obtain vis where "v = int (vis_rank vis)" by blast
    then show "0 \<le> v \<and> v \<le> 4" by (cases vis) auto
  qed
  note range = this [of "md_visibility m"]
  show ?thesis
  proof (cases "\<exists>vis. md_visibility m = int (vis_rank vis)")
    case True
    then obtain vis where vis: "md_visibility m = int (vis_rank vis)" by blast
    then have "vis_from_i32 (md_visibility m) = Inr w \<longleftrightarrow> w = vis" for w
      using vis_rank_wire [of vis] by auto
    with range vis True show ?thesis
      by (auto simp: draft_label_rejects_def visibility_order_def within_def)
  next
    case False
    with range show ?thesis by (auto simp: draft_label_rejects_def visibility_order_def vis_from_i32_Inr)
  qed
qed

text \<open>
  A draft is taken, with a label within a ceiling \<open>c\<close> no wider than the one of the source, exactly when
  the manifest names no rejection under \<open>c\<close> and the rest of its rules hold.\<close>

lemma draft_agrees:
  assumes onto: "from_packs sha256 bincode ps = Inr onto" "ir_ontology rules = onto"
    and title: "starts_char (md_title m)" and c: "c \<le> se_ceiling source"
  shows "judge_draft (compiled_manifest onto ceiling) (vis_rank c) (ibt_snapshot batch \<noteq> None) m = [] \<and>
        draft_beyond env rules batch source at who m \<longleftrightarrow>
      (\<exists>row. validate_memory env rules now fresh batch m (ibt_snapshot batch \<noteq> None) source at who = Inr row \<and>
        within (m_visibility row) c)" (is "?A \<and> ?D \<longleftrightarrow> ?B")
proof -
  let ?snap = "ibt_snapshot batch \<noteq> None"
  have wide: "within vis c \<Longrightarrow> within vis (se_ceiling source)" for vis using c by (auto simp: within_iff)
  have A: "?A \<longleftrightarrow> (\<exists>mt. hm_get (o_memory_type_by_name onto) (md_memory_type m) = Some mt) \<and> md_title m \<noteq> [] \<and>
      chars_count (md_title m) \<le> 200 \<and> md_content m \<noteq> [] \<and>
      (\<exists>vis. vis_from_i32 (md_visibility m) = Inr vis \<and> within vis c) \<and> (?snap \<longrightarrow> md_external_key m \<noteq> None)"
    using chars_of_title [OF title] label_agrees [of c m]
    by (auto simp: judge_draft_def type_row_compiled [OF onto(1)] not_less)
  have "?B \<Longrightarrow> ?A"
    by (subst A) (auto simp: validate_memory_def result_Inr onto(2) validate_draft_def drafted_memory_def split: if_splits)
  moreover have "?B \<Longrightarrow> ?D"
    by (auto simp: validate_memory_def result_Inr draft_beyond_def split: if_splits)
  moreover have ?B if "?A" "?D"
  proof -
    from that(1) obtain mt vis where ok: "hm_get (o_memory_type_by_name onto) (md_memory_type m) = Some mt"
      "md_title m \<noteq> []" "chars_count (md_title m) \<le> 200" "md_content m \<noteq> []"
      "vis_from_i32 (md_visibility m) = Inr vis" "within vis c" "?snap \<longrightarrow> md_external_key m \<noteq> None"
      unfolding A by blast
    from that(2) ok(5) obtain scope valid_from valid_until where
      "scope_of rules batch vis who = Inr scope" "timestamp_or env (md_valid_from m) (bt_recorded_at at) = Inr valid_from"
      "(case md_valid_until m of None \<Rightarrow> Inr None | Some t \<Rightarrow> and_then (checked_timestamp env t) (\<lambda>v. Inr (Some v))) = Inr valid_until"
      "\<not> is_some_and (\<lambda>u. u < valid_from) valid_until"
      "\<not> is_some_and (\<lambda>r. is_some_and (\<lambda>u. u < valid_from) (rt_retention_until r)) (draft_rights env m source)"
      "\<not> is_some_and (\<lambda>k. length (xkp_table_uuid k) \<noteq> 16) (md_external_key m)"
      "\<not> is_some_and (\<lambda>s. length (si_schema_hash s) \<noteq> 32) (ibt_snapshot batch)"
      unfolding draft_beyond_def by auto
    with ok wide [OF ok(6)] onto(2) show ?B
      by (auto simp: validate_memory_def result_Inr validate_draft_def context_of_def drafted_memory_def)
  qed
  ultimately show ?thesis by blast
qed

text \<open>The row of a draft that is taken has the type the manifest resolves and the label of the draft.\<close>

lemma validated_fields:
  assumes onto: "from_packs sha256 bincode ps = Inr onto" "ir_ontology rules = onto"
    and "validate_memory env rules now fresh batch m snap source at who = Inr row"
  shows "type_row (compiled_manifest onto ceiling) (md_memory_type m) = Some (m_memory_type row) \<and>
    within (m_visibility row) (se_ceiling source) \<and> md_visibility m = int (vis_rank (m_visibility row))"
  using validated_row [OF assms(3)] type_row_compiled [OF onto(1), of ceiling] onto(2) by simp

lemma judged_edge_agrees:
  assumes onto: "from_packs sha256 bincode ps = Inr onto" and inside: "rd_to_memory_id r = []"
    and types: "\<And>k. map_option m_memory_type (hm_get ids k) = types k"
    and ends: "types (rd_from_draft_key r) \<noteq> None" "types (rd_to_draft_key r) \<noteq> None"
    and vis: "\<And>k row. hm_get ids k = Some row \<Longrightarrow> within (m_visibility row) ceiling"
  shows "judge_edge (compiled_manifest onto c) types r = [] \<and> edge_beyond r \<longleftrightarrow>
    (\<exists>rel. snd (validate_relationship env onto batch r ids ceiling producer at) = Inr rel)"
proof -
  from ends types obtain f t where rows: "hm_get ids (rd_from_draft_key r) = Some f" "hm_get ids (rd_to_draft_key r) = Some t"
    by (metis option.map_disc_iff not_Some_eq)
  have found: "types (rd_from_draft_key r) = Some (m_memory_type f)" "types (rd_to_draft_key r) = Some (m_memory_type t)"
    using types [of "rd_from_draft_key r"] types [of "rd_to_draft_key r"] rows by simp_all
  have label: "within (relationship_visibility (m_visibility f) (m_visibility t)) ceiling"
    using vis [OF rows(1)] by (simp add: relationship_visibility_def within_iff min_le_iff_disj)
  have computed: "is_some_and k_computed_only v \<longleftrightarrow> map_option k_computed_only v = Some True" for v
    by (cases v) (auto simp: is_some_and_def)
  have triple: "(\<exists>u. validate_triple onto x k y = Inr u) \<longleftrightarrow> permitted (compiled_manifest onto c) (kind_code k) x y" for x k y
    using permitted_compiled [OF onto] by simp
  show ?thesis
    using inside rows found label
    by (cases "kind_id onto (rd_kind r)"; cases "rd_to_draft_key r = []"; cases "vis_from_i32 (rd_visibility r)")
      (auto simp: judge_edge_def validate_relationship_def edge_beyond_def target_key_def kinds_compiled [OF onto] Let_def
        computed triple [symmetric] split: sum.splits)
qed

lemma resolved_types_rows:
  assumes "list_all2 (\<lambda>(d, v) (k, t). \<exists>row. v = Inr row \<and> k = md_draft_key d \<and> t = m_memory_type row) vs types"
    and "\<forall>(d, v)\<in>set vs. \<forall>row. v = Inr row \<longrightarrow> type_row m (md_memory_type d) = Some (m_memory_type row)"
  shows "List.map_filter (\<lambda>d. map_option (Pair (md_draft_key d)) (type_row m (md_memory_type d))) (map fst vs) = types"
  using assms by (induction rule: list_all2_induct) (auto simp: map_filter_simps)

lemma last_row_find:
  "distinct (map fst rows) \<Longrightarrow> last_row rows k = type_of_draft rows k"
proof -
  assume d: "distinct (map fst rows)"
  have "type_of_draft rows k = map_of rows k"
    by (induction rows) (auto simp: type_of_draft_def)
  moreover have "map_of (rev rows) k = map_of rows k"
    using d map_of_eq_Some_iff [of rows] map_of_eq_Some_iff [of "rev rows"] by (metis distinct_rev not_Some_eq rev_map set_rev)
  ultimately show ?thesis by (simp add: last_row_def)
qed


lemma memories_judged:
  assumes onto: "from_packs sha256 bincode ps = Inr onto" "ir_ontology rules = onto"
    and title: "\<forall>m\<in>set (ibt_memories batch). starts_char (md_title m)" and c: "c \<le> se_ceiling source"
  shows "(\<forall>m\<in>set (ibt_memories batch). judge_draft (compiled_manifest onto ceiling) (vis_rank c) (ibt_snapshot batch \<noteq> None) m = [] \<and>
          draft_beyond env rules batch source at who m) \<longleftrightarrow>
        rejected_of (memory_verdicts env rules now fresh batch source at who) = [] \<and>
        (\<forall>m\<in>set (ibt_memories batch). md_visibility m \<le> int (vis_rank c))"
proof -
  let ?ms = "ibt_memories batch"
  let ?v = "\<lambda>i. validate_memory env rules now (fresh i) batch (?ms ! i) (ibt_snapshot batch \<noteq> None) source at who"
  have "within (m_visibility row) c \<longleftrightarrow> md_visibility (?ms ! i) \<le> int (vis_rank c)" if "?v i = Inr row" for i row
    using validated_fields [OF onto that] by (simp add: within_iff less_eq_visibility_def)
  then have row: "(\<exists>row. ?v i = Inr row \<and> within (m_visibility row) c) \<longleftrightarrow>
      (\<exists>row. ?v i = Inr row) \<and> md_visibility (?ms ! i) \<le> int (vis_rank c)" for i
    by blast
  have "rejected_of (memory_verdicts env rules now fresh batch source at who) = [] \<longleftrightarrow> (\<forall>i<length ?ms. \<exists>row. ?v i = Inr row)"
    by (simp add: rejected_none memory_verdicts_def all_set_conv_all_nth nth_enumerate_eq)
  then have "rejected_of (memory_verdicts env rules now fresh batch source at who) = [] \<and>
        (\<forall>m\<in>set ?ms. md_visibility m \<le> int (vis_rank c)) \<longleftrightarrow>
      (\<forall>i<length ?ms. \<exists>row. ?v i = Inr row \<and> within (m_visibility row) c)"
    unfolding row by (auto simp: all_set_conv_all_nth)
  also have "\<dots> \<longleftrightarrow> (\<forall>i<length ?ms. judge_draft (compiled_manifest onto ceiling) (vis_rank c) (ibt_snapshot batch \<noteq> None) (?ms ! i) = [] \<and>
      draft_beyond env rules batch source at who (?ms ! i))"
    using draft_agrees [OF onto _ c] title by (metis nth_mem)
  finally show ?thesis by (simp add: all_set_conv_all_nth)
qed

lemma verdict_drafts: "map fst (memory_verdicts env rules now fresh batch source at who) = ibt_memories batch"
  by (intro nth_equalityI) (simp_all add: memory_verdicts_def nth_enumerate_eq)

lemma verdict_fields:
  assumes onto: "from_packs sha256 bincode ps = Inr onto" "ir_ontology rules = onto"
    and "(d, Inr row) \<in> set (memory_verdicts env rules now fresh batch source at who)"
  shows "type_row (compiled_manifest onto c) (md_memory_type d) = Some (m_memory_type row) \<and> within (m_visibility row) (se_ceiling source) \<and>
    md_visibility d = int (vis_rank (m_visibility row))"
  using assms(3) validated_fields [OF onto, where ceiling = c] by (fastforce simp: memory_verdicts_def in_set_enumerate_eq)

text \<open>The batch carries the rows of the unit.\<close>

definition carries :: "ingest_batch \<Rightarrow> batch_unit \<Rightarrow> bool" where
  "carries batch u \<longleftrightarrow>
     ibt_memories batch = bu_memories u \<and> ibt_relationships batch = bu_relationships u \<and> ibt_snapshot batch = bu_snapshot u"

lemma ceiling_order_compiled:
  "(case visibility_order (ceiling_discriminant c) of None \<Rightarrow> 3 | Some n \<Rightarrow> n) = vis_rank (min c Org)"
  by (cases c) (auto simp: visibility_order_def min_def less_eq_visibility_def)

text \<open>
  When every draft is taken, the types the interpreter resolves are those of the rows the service
  looks endpoints up in.\<close>

lemma resolved_rows:
  assumes onto: "from_packs sha256 bincode ps = Inr onto" "ir_ontology rules = onto"
    and unit: "validate_unit dbg u = Inr ()" and rows: "ibt_memories batch = bu_memories u"
    and vs: "vs = memory_verdicts env rules now fresh batch source at who" and ok: "rejected_of vs = []"
  shows "map_option m_memory_type (hm_get (draft_ids_of vs []) k) = resolved_types (compiled_manifest onto c) (bu_memories u) k"
    and "d \<in> set (bu_memories u) \<Longrightarrow> resolved_types (compiled_manifest onto c) (bu_memories u) (md_draft_key d) \<noteq> None"
    and "hm_get (draft_ids_of vs []) k = Some row \<Longrightarrow> within (m_visibility row) (se_ceiling source)"
proof -
  let ?m = "compiled_manifest onto c"
  have fields: "type_row ?m (md_memory_type d) = Some (m_memory_type row) \<and> within (m_visibility row) (se_ceiling source)"
    if "(d, Inr row) \<in> set vs" for d row
    using verdict_fields [OF onto, where c = c] that unfolding vs by blast
  define types where "types = map (\<lambda>(d, v). (md_draft_key d, m_memory_type (projr v))) vs"
  have keys: "map (md_draft_key \<circ> fst) vs = map md_draft_key (bu_memories u)" "map fst vs = bu_memories u"
    unfolding vs by (intro nth_equalityI; simp add: memory_verdicts_def nth_enumerate_eq rows)+
  have distinct: "distinct (map md_draft_key (bu_memories u))" using validate_unit_ok(1) [OF unit] .
  have all: "list_all2 (\<lambda>(d, v) (k, t). \<exists>row. v = Inr row \<and> k = md_draft_key d \<and> t = m_memory_type row) vs types"
    using ok unfolding types_def rejected_none by (fastforce simp: list_all2_conv_all_nth dest: nth_mem)
  have resolved: "resolved_types ?m (bu_memories u) k = type_of_draft types k" for k
  proof -
    have "List.map_filter (\<lambda>d. map_option (Pair (md_draft_key d)) (type_row ?m (md_memory_type d))) (map fst vs) = types"
      using fields by (intro resolved_types_rows [OF all]) auto
    moreover have "map fst types = map md_draft_key (bu_memories u)"
      using keys(1) by (simp add: types_def comp_def split_def)
    ultimately show ?thesis using last_row_find [of types k] distinct by (simp add: resolved_types_def keys(2))
  qed
  show "map_option m_memory_type (hm_get (draft_ids_of vs []) k) = resolved_types ?m (bu_memories u) k"
    using draft_ids_types [OF all, of "[]" k] distinct keys(1) by (simp add: resolved split: option.splits)
  show "resolved_types ?m (bu_memories u) (md_draft_key d) \<noteq> None" if "d \<in> set (bu_memories u)"
  proof -
    have "d \<in> fst ` set vs" unfolding set_map [symmetric] keys(2) by (rule that)
    then obtain v where "(d, v) \<in> set vs" by auto
    then have "(md_draft_key d, m_memory_type (projr v)) \<in> set types" by (force simp: types_def)
    then show ?thesis unfolding resolved type_of_draft_def by (auto simp: find_None_iff)
  qed
  show "within (m_visibility row) (se_ceiling source)" if "hm_get (draft_ids_of vs []) k = Some row"
    using hm_get_value [OF that] draft_ids_values [of vs "[]"] accepted_within by (auto simp: hm_values_def vs)
qed

text \<open>
  C34: The rulebook as data gives the verdicts of the service. Take a unit that passes the structural
  check of the SDK, whose titles are UTF-8 and whose edges name no stored memory, and a batch with
  its rows. The service answers with a validated batch exactly when the manifest it compiles from
  its own ontology names no rejection, whatever ceiling the adapter is configured with, and the
  rules hold that the manifest does not have: the time stamps of the batch and of its drafts, their
  retention and external coordinates, the scopes and ceiling of the principal, the scores and labels of the
  edges. For a source registered with the public ceiling the manifest is narrower: it also names the
  drafts labelled public, which the service takes.\<close>

theorem manifest_matches_service:
  assumes onto: "from_packs sha256 bincode ps = Inr (sv_ontology sv)"
    and unit: "validate_unit dbg u = Inr ()" "carries batch u"
    and title: "\<forall>m\<in>set (bu_memories u). starts_char (md_title m)"
    and inside: "\<forall>r\<in>set (bu_relationships u). rd_to_memory_id r = []"
    and run: "validate_batch env now fresh batch source who sv = (Inr answer, sv')"
  shows "(\<exists>v. answer = Inr v) \<and> (se_ceiling source = Public \<longrightarrow> (\<forall>m\<in>set (bu_memories u). md_visibility m \<le> 3)) \<longleftrightarrow>
    judge_unit (compiled_manifest (sv_ontology sv) (Some (ceiling_discriminant (se_ceiling source)))) configured u = [] \<and>
    beyond_manifest env now (rules_of sv) batch source who"
proof (cases "batch_times_of env now batch")
  case (Inl code)
  with run show ?thesis by (auto simp: validate_batch_def beyond_manifest_def)
next
  case (Inr at)
  let ?c = "min (se_ceiling source) Org"
  let ?m = "compiled_manifest (sv_ontology sv) (Some (ceiling_discriminant (se_ceiling source)))"
  let ?types = "resolved_types ?m (bu_memories u)"
  define vs where "vs = memory_verdicts env (rules_of sv) now fresh batch source at who"
  let ?edge = "\<lambda>r. \<exists>rel. snd (validate_relationship env (sv_ontology sv) batch r (draft_ids_of vs []) (se_ceiling source) (se_kind source) at) = Inr rel"
  have rows: "ibt_memories batch = bu_memories u" "ibt_relationships batch = bu_relationships u" "ibt_snapshot batch = bu_snapshot u"
    using unit(2) by (simp_all add: carries_def)
  have rules: "ir_ontology (rules_of sv) = sv_ontology sv" by (simp add: rules_of_def)
  note taken = resolved_rows [OF onto rules unit(1) rows(1) vs_def]
  have mems: "(\<forall>m\<in>set (bu_memories u). judge_draft ?m (vis_rank ?c) (bu_snapshot u \<noteq> None) m = [] \<and>
        draft_beyond env (rules_of sv) batch source at who m) \<longleftrightarrow>
      rejected_of vs = [] \<and> (\<forall>m\<in>set (bu_memories u). md_visibility m \<le> int (vis_rank ?c))"
    using memories_judged [OF onto rules, of batch ?c source] title unfolding vs_def rows by simp
  have narrow: "(\<forall>m\<in>set (bu_memories u). md_visibility m \<le> int (vis_rank ?c)) \<longleftrightarrow>
      (se_ceiling source = Public \<longrightarrow> (\<forall>m\<in>set (bu_memories u). md_visibility m \<le> 3))" if ok: "rejected_of vs = []"
  proof (cases "se_ceiling source = Public")
    case False
    have "md_visibility m \<le> int (vis_rank (se_ceiling source))" if m: "m \<in> set (bu_memories u)" for m
    proof -
      have "m \<in> fst ` set vs" using m unfolding vs_def set_map [symmetric] verdict_drafts rows .
      then obtain v where v: "(m, v) \<in> set vs" by auto
      with ok obtain row where "v = Inr row" by (auto simp: rejected_none)
      with v verdict_fields [OF onto rules, folded vs_def] show ?thesis by (simp add: within_iff less_eq_visibility_def vs_def)
    qed
    with False show ?thesis by (cases "se_ceiling source") (auto simp: min_def less_eq_visibility_def)
  qed (simp add: min_def less_eq_visibility_def)
  have edge: "judge_edge ?m ?types r = [] \<and> edge_beyond r \<longleftrightarrow> ?edge r"
    if "rejected_of vs = []" and r: "r \<in> set (bu_relationships u)" for r
    by (rule judged_edge_agrees [OF onto])
      (use taken [OF that(1)] inside r validate_unit_ok(2) [OF unit(1)] in auto)
  have "\<forall>r\<in>set (ibt_relationships batch). rd_to_memory_id r = []" using inside rows by simp
  from validate_batch_inside [OF Inr this run]
  have "(\<exists>v. answer = Inr v) \<longleftrightarrow> rejected_of vs = [] \<and> (\<forall>r\<in>set (bu_relationships u). ?edge r)"
    unfolding vs_def rows .
  moreover have "judge_unit ?m configured u = [] \<and> beyond_manifest env now (rules_of sv) batch source who \<longleftrightarrow>
      (\<forall>m\<in>set (bu_memories u). judge_draft ?m (vis_rank ?c) (bu_snapshot u \<noteq> None) m = [] \<and>
        draft_beyond env (rules_of sv) batch source at who m) \<and>
      (\<forall>r\<in>set (bu_relationships u). judge_edge ?m ?types r = [] \<and> edge_beyond r)"
    using Inr by (auto simp: judge_unit_def Let_def ceiling_order_compiled beyond_manifest_def rows)
  ultimately show ?thesis unfolding mems using edge narrow by blast
qed

definition problem_draft :: memory_draft_pb where
  "problem_draft = sample_draft\<lparr>md_memory_type := ''Problem''\<rparr>"

definition problem_unit :: batch_unit where
  "problem_unit = sample_unit\<lparr>bu_memories := [problem_draft]\<rparr>"

theorem manifest_matches_service_witness:
  "\<exists>onto v sv'. from_packs id (\<lambda>_. []) [kernel_pack] = Inr onto \<and>
     judge_unit (compiled_manifest onto (Some 3)) 0 problem_unit = [] \<and>
     validate_batch sample_env 5 (\<lambda>_. MemoryId [9]) (sample_batch\<lparr>ibt_memories := [problem_draft]\<rparr>) sample_entry
       (Some sample_principal) (sample_serving\<lparr>sv_ontology := onto\<rparr>) = (Inr (Inr v), sv')"
proof -
  obtain onto where onto: "from_packs id (\<lambda>_. []) [kernel_pack] = Inr onto" using kernel_pack_loads by blast
  let ?sv = "sample_serving\<lparr>sv_ontology := onto\<rparr>"
  let ?b = "sample_batch\<lparr>ibt_memories := [problem_draft]\<rparr>"
  let ?m = "compiled_manifest onto (Some (ceiling_discriminant (se_ceiling sample_entry)))"
  have names: "o_memory_type_names onto = [''Problem'', ''Solution'']"
    using from_packs_ok(3) [OF onto, unfolded canonicalized_kernel_pack] by (simp add: sample_defs)
  have "hm_get (o_memory_type_by_name onto) ''Problem'' = Some 0"
    using index_names_nth [of "o_memory_type_names onto" 0 0 "[]"] from_packs_ok(5,10) [OF onto] names by simp
  then have clean: "judge_unit ?m 0 problem_unit = []"
    by (simp add: judge_unit_def judge_draft_def type_row_compiled [OF onto] problem_unit_def problem_draft_def sample_unit_def
        sample_draft_def draft_label_rejects_def visibility_order_def Let_def sample_entry_def chars_count_def)
  have at: "batch_times_of sample_env 5 ?b = Inr \<lparr>bt_observed_at = 5, bt_recorded_at = 5\<rparr>"
    by (simp add: batch_times_of_def timestamp_or_def)
  have beyond: "beyond_manifest sample_env 5 (rules_of ?sv) ?b sample_entry (Some sample_principal)"
    by (simp add: batch_times_of_def beyond_manifest_def draft_beyond_def problem_draft_def sample_draft_def is_some_and_def timestamp_or_def
        draft_rights_def starts_char_def scope_of_def sample_principal_def sample_entry_def vis_from_i32_def)
  obtain r sv' where run: "validate_batch sample_env 5 (\<lambda>_. MemoryId [9]) ?b sample_entry (Some sample_principal) ?sv = (r, sv')"
    by (cases "validate_batch sample_env 5 (\<lambda>_. MemoryId [9]) ?b sample_entry (Some sample_principal) ?sv")
  have "load_targets sample_env [] (sv_store ?sv) = (Inr [], sv_store ?sv)"
    by (simp add: load_targets_def MAX_ATTEMPTS_def numeral_eq_Suc get_memories_def sample_serving_def sample_server_def new_store_def build_def)
  then obtain answer where r: "r = Inr answer"
    using run at by (auto simp: validate_batch_def Let_def external_targets_def sort_dedup_def split: if_splits prod.splits)
  have "(\<exists>v. answer = Inr v) \<and>
      (se_ceiling sample_entry = Public \<longrightarrow> (\<forall>m\<in>set (bu_memories problem_unit). md_visibility m \<le> 3)) \<longleftrightarrow>
      judge_unit ?m 0 problem_unit = [] \<and> beyond_manifest sample_env 5 (rules_of ?sv) ?b sample_entry (Some sample_principal)"
    using run [unfolded r] onto
    by (intro manifest_matches_service [of id "\<lambda>_. []" "[kernel_pack]" ?sv "\<lambda>_. []" problem_unit ?b sample_env 5
        "\<lambda>_. MemoryId [9]" sample_entry "Some sample_principal" answer sv' 0, simplified])
      (simp_all add: validate_unit_def problem_unit_def problem_draft_def sample_draft_def sample_unit_def carries_def starts_char_def)
  with beyond clean run r onto show ?thesis by (auto simp: sample_entry_def)
qed

end
