(* ===== verification/Adapter_Session.thy ===== *)
theory Adapter_Session
  imports Adapter_Manifest
begin

text \<open>
  A session of the adapter SDK, after \<open>crates/exocortex-adapter-sdk/src/lib.rs\<close> with \<open>retry.rs\<close>, and
  \<open>validate_backend_url\<close> and the fingerprint comparison of \<open>crates/exocortex-wire\<close>: connecting,
  preparing the batches of a window, submitting them with bounded retries, and advancing the
  durable cursor once the window has settled. The calls of the service and of the file system are
  interfaces; the service is instantiated by the ingest service behind a link that may lose
  requests and answers.
\<close>

section \<open>Configuration\<close>

record sdk_field =
  sf_source_field :: string
  sf_memory_type :: string
  sf_kind :: string

record sdk_column =
  sl_name :: string
  sl_data_type :: string

record sdk_bounds =
  sb_max_rows_per_window :: nat
  sb_max_rows_per_run :: nat
  sb_max_graph_share_percent :: u32

record projection =
  pj_selector :: string
  pj_fields :: "sdk_field list"
  pj_source_schema :: "sdk_column list"
  pj_mapping_version :: u32
  pj_bounds :: sdk_bounds
  pj_last_snapshot_id :: string

definition to_wire :: "projection \<Rightarrow> projection_descriptor_pb" where
  "to_wire p =
     \<lparr>pd_selector = pj_selector p,
      pd_fields = map (\<lambda>f. \<lparr>pf_source_field = sf_source_field f, pf_memory_type = sf_memory_type f, pf_kind = sf_kind f\<rparr>) (pj_fields p),
      pd_source_schema = map (\<lambda>c. \<lparr>sc_name = sl_name c, sc_data_type = sl_data_type c\<rparr>) (pj_source_schema p),
      pd_mapping_version = pj_mapping_version p,
      pd_bounds = Some \<lparr>pb_max_rows_per_window = sb_max_rows_per_window (pj_bounds p),
                        pb_max_rows_per_run = sb_max_rows_per_run (pj_bounds p),
                        pb_max_graph_share_percent = sb_max_graph_share_percent (pj_bounds p)\<rparr>,
      pd_last_snapshot_id = pj_last_snapshot_id p\<rparr>"

text \<open>Durations are in nanoseconds.\<close>

record retry_policy =
  ry_base :: nat
  ry_max :: nat
  ry_max_attempts :: nat
  ry_jitter :: bool

definition default_retry :: retry_policy where
  "default_retry = \<lparr>ry_base = 250 * 10 ^ 6, ry_max = 60 * 10 ^ 9, ry_max_attempts = 8, ry_jitter = True\<rparr>"

record adapter_config =
  ac_org_id :: string
  ac_source_uri :: string
  ac_producer_id :: string
  ac_adapter_id :: string
  ac_node_id :: string
  ac_source_flavor :: string
  ac_producer_kind :: int
  ac_ceiling :: int
  ac_backend_url :: string
  ac_auth_token :: string
  ac_hmac_key :: "byte list"
  ac_max_batch_bytes :: nat
  ac_cursor_path :: string
  ac_retry :: retry_policy
  ac_projection :: "projection option"

text \<open>The temporary directory joined with the name of the cursor file is a parameter.\<close>

definition new_config :: "(string \<Rightarrow> string) \<Rightarrow> string \<Rightarrow> string \<Rightarrow> string \<Rightarrow> string \<Rightarrow> adapter_config" where
  "new_config temp org source producer url =
     \<lparr>ac_org_id = org, ac_source_uri = source, ac_producer_id = producer, ac_adapter_id = producer @ ''-adapter'',
      ac_node_id = producer @ ''-node'', ac_source_flavor = ''custom'', ac_producer_kind = 5, ac_ceiling = 3,
      ac_backend_url = url, ac_auth_token = [], ac_hmac_key = zeros32, ac_max_batch_bytes = 4 * 1024 * 1024,
      ac_cursor_path = temp (producer @ ''.cursor''), ac_retry = default_retry, ac_projection = None\<rparr>"

section \<open>Delays\<close>

text \<open>
  The delay without jitter. The product saturates at the largest \<open>Duration\<close>, one nanosecond short of
  2 to the 64 seconds.\<close>

definition capped_delay :: "retry_policy \<Rightarrow> nat \<Rightarrow> nat" where
  "capped_delay p attempt =
     min (min (ry_base p * 2 ^ min (attempt - 1) 16) (2 ^ 64 * 10 ^ 9 - 1)) (ry_max p)"

unbundle bit_operations_syntax

definition xorshift :: "64 word \<Rightarrow> 64 word" where
  "xorshift x0 =
     (let x1 = x0 XOR push_bit 13 x0;
          x2 = x1 XOR drop_bit 7 x1
      in x2 XOR push_bit 17 x2)"

section \<open>The interfaces of a session\<close>

record ('e, 's) sdk_remote = "('e, 's) remote" +
  rm_connect :: "string \<Rightarrow> 's \<Rightarrow> (string + unit) \<times> 's"
  rm_fingerprint :: "string option \<Rightarrow> 's \<Rightarrow> ('e + byte list) \<times> 's"
  rm_preflight :: "string option \<Rightarrow> ingest_batch \<Rightarrow> 's \<Rightarrow> ('e + ingest_ack) \<times> 's"
  rm_manifest :: "string option \<Rightarrow> source_key \<Rightarrow> 's \<Rightarrow> ('e + string \<times> byte list) \<times> 's"

datatype file_read = Contents string | NotFound | ReadError string

record 'f file_api =
  fa_read :: "string \<Rightarrow> 'f \<Rightarrow> file_read"
  fa_create_dir_all :: "string \<Rightarrow> 'f \<Rightarrow> (string + unit) \<times> 'f"
  fa_write :: "string \<Rightarrow> string \<Rightarrow> 'f \<Rightarrow> (string + unit) \<times> 'f"
  fa_rename :: "string \<Rightarrow> string \<Rightarrow> 'f \<Rightarrow> (string + unit) \<times> 'f"
  fa_parent :: "string \<Rightarrow> string option"
  fa_with_extension :: "string \<Rightarrow> string \<Rightarrow> string"

text \<open>
  Third-party parsing: a URI as \<open>tonic\<close> reads it, whether a host is a loopback address, whether a
  header value is admissible; and the \<open>Debug\<close> form of a list of keys.\<close>

record uri_parts =
  up_scheme :: "string option"
  up_host :: "string option"

record sdk_env =
  sx_env :: ingest_env
  sx_dbg :: "string list \<Rightarrow> string"
  sx_parse_uri :: "string \<Rightarrow> string + uri_parts"
  sx_loopback :: "string \<Rightarrow> bool"
  sx_header_ok :: "string \<Rightarrow> bool"
  sx_from_json :: "string \<Rightarrow> string + validation_manifest"

section \<open>Connecting\<close>

fun split_once :: "string \<Rightarrow> string \<Rightarrow> (string \<times> string) option" where
  "split_once sep [] = (if sep = [] then Some ([], []) else None)"
| "split_once sep (c # cs) =
     (if prefix sep (c # cs) then Some ([], drop (length sep) (c # cs))
      else map_option (\<lambda>(a, b). (c # a, b)) (split_once sep cs))"

definition has_userinfo :: "string \<Rightarrow> bool" where
  "has_userinfo url =
     (case split_once ''://'' url of
        None \<Rightarrow> False
      | Some (_, rest) \<Rightarrow> CHR ''@'' \<in> set (takeWhile (\<lambda>c. c \<notin> {CHR ''/'', CHR ''?'', CHR ''#''}) rest))"

definition literal_host :: "string \<Rightarrow> string" where
  "literal_host host =
     (if host \<noteq> [] \<and> hd host = CHR ''['' \<and> tl host \<noteq> [] \<and> last host = CHR '']'' then butlast (tl host) else host)"

definition validate_backend_url :: "sdk_env \<Rightarrow> string \<Rightarrow> string + unit" where
  "validate_backend_url sx url =
     (if has_userinfo url then Inl ''backend URL must not contain userinfo''
      else
        (case sx_parse_uri sx url of
           Inl e \<Rightarrow> Inl (''invalid backend URL: '' @ e)
         | Inr uri \<Rightarrow>
           if up_scheme uri = Some ''https'' then Inr ()
           else if up_scheme uri = Some ''http'' then
             (case up_host uri of
                None \<Rightarrow> Inl ''plaintext backend URL has no host''
              | Some host \<Rightarrow>
                if map ascii_lower host = ''localhost'' \<or> sx_loopback sx (literal_host host) then Inr ()
                else Inl ''plaintext backend URL is allowed only for literal loopback or localhost'')
           else Inl ''backend URL must use https (http is loopback-only)''))"

record adapter_session =
  sn_config :: adapter_config
  sn_fingerprint :: "byte list"
  sn_ceiling :: int
  sn_cursor :: "string option"
  sn_rows_this_run :: nat
  sn_seen_snapshots :: "string list"
  sn_manifest :: "validation_manifest option"

text \<open>A request with its credential, or the error of one that cannot be built.\<close>

definition authenticated_request :: "sdk_env \<Rightarrow> string \<Rightarrow> sdk_error + string" where
  "authenticated_request sx token =
     (let v = ''Bearer '' @ token
      in if sx_header_ok sx v then Inr v
         else Inl (InvalidUnit ''adapter auth_token contains invalid metadata bytes''))"

definition adapter_registration :: "sdk_env \<Rightarrow> adapter_config \<Rightarrow> register_source_request" where
  "adapter_registration sx c =
     sign_registration (iv_mac (sx_env sx)) (iv_enc_registration (sx_env sx)) (ac_hmac_key c)
       \<lparr>rr_org_id = ac_org_id c, rr_source_uri = ac_source_uri c, rr_producer_id = ac_producer_id c,
        rr_ceiling = ac_ceiling c, rr_source_flavor = ac_source_flavor c,
        rr_producer = Some ((anonymous_producer (ac_node_id c))\<lparr>pi_adapter_id := ac_adapter_id c\<rparr>),
        rr_producer_kind = ac_producer_kind c, rr_projection = map_option to_wire (ac_projection c),
        rr_default_rights = None\<rparr>"

definition load_cursor :: "'f file_api \<Rightarrow> string \<Rightarrow> 'f \<Rightarrow> sdk_error + string option" where
  "load_cursor fa path f =
     (case fa_read fa path f of
        Contents text \<Rightarrow> Inr (Some text)
      | NotFound \<Rightarrow> Inr None
      | ReadError e \<Rightarrow> Inl (CursorCorrupt e))"

definition usable_manifest :: "sdk_env \<Rightarrow> byte list \<Rightarrow> 'e + string \<times> byte list \<Rightarrow> validation_manifest option" where
  "usable_manifest sx fingerprint answer =
     (case answer of
        Inl _ \<Rightarrow> None
      | Inr (text, served) \<Rightarrow>
        if served \<noteq> fingerprint then None
        else (case parse_manifest (sx_from_json sx) text of Inl _ \<Rightarrow> None | Inr m \<Rightarrow> Some m))"

definition open_session ::
    "sdk_env \<Rightarrow> 'f file_api \<Rightarrow> (tonic_status, 's) sdk_remote \<Rightarrow> adapter_config \<Rightarrow> string \<Rightarrow> byte list \<Rightarrow> int \<Rightarrow> 'f \<Rightarrow> 's \<Rightarrow>
     (sdk_error + adapter_session) \<times> 's" where
  "open_session sx fa rm c auth fingerprint registered f s =
     (if registered \<noteq> ac_ceiling c then (Inl (CeilingMismatch (ac_ceiling c) registered), s)
      else
        (case load_cursor fa (ac_cursor_path c) f of
           Inl e \<Rightarrow> (Inl e, s)
         | Inr cursor \<Rightarrow>
           (case rm_manifest rm (Some auth) (ac_org_id c, ac_source_uri c, ac_producer_id c) s of
              (answer, s) \<Rightarrow>
                (Inr \<lparr>sn_config = c, sn_fingerprint = fingerprint, sn_ceiling = registered, sn_cursor = cursor,
                      sn_rows_this_run = 0, sn_seen_snapshots = [], sn_manifest = usable_manifest sx fingerprint answer\<rparr>, s))))"

definition connect_with ::
    "sdk_env \<Rightarrow> 'f file_api \<Rightarrow> (tonic_status, 's) sdk_remote \<Rightarrow> adapter_config \<Rightarrow> 'f \<Rightarrow> 's \<Rightarrow> (sdk_error + adapter_session) \<times> 's" where
  "connect_with sx fa rm c f s =
     (case validate_backend_url sx (ac_backend_url c) of
        Inl detail \<Rightarrow> (Inl (InvalidUnit (''backend_url: '' @ detail)), s)
      | Inr _ \<Rightarrow>
        if ac_auth_token c = [] then (Inl (InvalidUnit ''adapter auth_token must be non-empty''), s)
        else
          (case rm_connect rm (ac_backend_url c) s of
             (Inl e, s) \<Rightarrow> (Inl (TransportConnect e), s)
           | (Inr _, s) \<Rightarrow>
             (case authenticated_request sx (ac_auth_token c) of
                Inl e \<Rightarrow> (Inl e, s)
              | Inr auth \<Rightarrow>
                (case rm_fingerprint rm (Some auth) s of
                   (Inl st, s) \<Rightarrow> (Inl (SdkTransport st), s)
                 | (Inr fp, s) \<Rightarrow>
                   if length fp \<noteq> 32
                   then (Inl (InvalidUnit (''server fingerprint is '' @ show_nat (length fp) @ '' bytes, expected 32'')), s)
                   else
                     (case rm_register rm (Some auth) (adapter_registration sx c) s of
                        (Inl st, s) \<Rightarrow> (Inl (SdkTransport st), s)
                      | (Inr ceiling, s) \<Rightarrow> open_session sx fa rm c auth fp (int (vis_rank ceiling)) f s)))))"


section \<open>Preparing the batches of a window\<close>

definition stamped :: "sdk_env \<Rightarrow> adapter_session \<Rightarrow> ingest_batch \<Rightarrow> ingest_batch" where
  "stamped sx sn b =
     (let c = sn_config sn; env = sx_env sx
      in prepare_batch (iv_blake3 env) (iv_mac env) (iv_enc_memory env) (iv_enc_relationship env) (iv_enc_snapshot env)
           (iv_enc_batch env) (ac_hmac_key c)
           (b\<lparr>ibt_org_id := ac_org_id c, ibt_source_uri := ac_source_uri c, ibt_producer_id := ac_producer_id c,
              ibt_mapping_version := ac_source_flavor c, ibt_ceiling := sn_ceiling sn,
              ibt_ontology_fingerprint := sn_fingerprint sn,
              ibt_producer := map_option (\<lambda>p. p\<lparr>pi_node_id := ac_node_id c, pi_agent_id := ac_producer_id c,
                 pi_adapter_id := ac_adapter_id c\<rparr>) (ibt_producer b)\<rparr>))"

text \<open>The overshoot of the first batch beyond the budget, or the stamped batches.\<close>

fun stamp_batches :: "sdk_env \<Rightarrow> adapter_session \<Rightarrow> ingest_batch list \<Rightarrow> nat + ingest_batch list" where
  "stamp_batches sx sn [] = Inr []"
| "stamp_batches sx sn (b # bs) =
     (let b1 = stamped sx sn b; size = encoded_len (sx_env sx) b1; limit = ac_max_batch_bytes (sn_config sn)
      in if limit < size then Inl (size - limit)
         else and_then (stamp_batches sx sn bs) (\<lambda>bs. Inr (b1 # bs)))"

fun split_units :: "sdk_env \<Rightarrow> adapter_session \<Rightarrow> nat \<Rightarrow> batch_unit list \<Rightarrow> (sdk_error + ingest_batch list) option" where
  "split_units sx sn budget [] = Some (Inr [])"
| "split_units sx sn budget (u # us) =
     (case split_unit (sx_env sx) (sx_dbg sx) (ac_producer_id (sn_config sn)) u budget of
        None \<Rightarrow> None
      | Some (Inl e) \<Rightarrow> Some (Inl e)
      | Some (Inr bs) \<Rightarrow>
        map_option (\<lambda>r. and_then r (\<lambda>rest. Inr (bs @ rest))) (split_units sx sn budget us))"

definition next_budget :: "nat \<Rightarrow> nat \<Rightarrow> nat" where
  "next_budget budget over = max (budget - (over + 16)) 64"

function prepare_from :: "sdk_env \<Rightarrow> adapter_session \<Rightarrow> batch_unit list \<Rightarrow> nat \<Rightarrow> (sdk_error + ingest_batch list) option" where
  "prepare_from sx sn units budget =
     (case split_units sx sn budget units of
        None \<Rightarrow> None
      | Some (Inl e) \<Rightarrow> Some (Inl e)
      | Some (Inr bs) \<Rightarrow>
        (case stamp_batches sx sn bs of
           Inr stamped_bs \<Rightarrow> Some (Inr stamped_bs)
         | Inl over \<Rightarrow>
           if next_budget budget over = budget
           then Some (Inl (Unsplittable (concat (map (\<lambda>b. map md_draft_key (ibt_memories b)) bs)) ''max_batch_bytes''))
           else prepare_from sx sn units (next_budget budget over)))"
  by pat_completeness auto

termination
  by (relation "measure (\<lambda>(_, _, _, budget). if budget < 64 then 65 else budget)") (auto simp: next_budget_def max_def split: if_splits)

declare prepare_from.simps [simp del]

definition prepare_batches :: "sdk_env \<Rightarrow> adapter_session \<Rightarrow> batch_unit list \<Rightarrow> (sdk_error + ingest_batch list) option" where
  "prepare_batches sx sn units = prepare_from sx sn units (ac_max_batch_bytes (sn_config sn))"

section \<open>Triage of an answer\<close>

record window_outcome =
  wo_accepted :: u32
  wo_duplicates :: u32
  wo_permanent_rejections :: "reject_row list"
  wo_cursor_advanced :: bool

definition empty_outcome :: window_outcome where
  "empty_outcome = \<lparr>wo_accepted = 0, wo_duplicates = 0, wo_permanent_rejections = [], wo_cursor_advanced = False\<rparr>"

fun code_number :: "grpc_code \<Rightarrow> int" where
  "code_number CodeOk = 0"
| "code_number CodeCancelled = 1"
| "code_number CodeUnknown = 2"
| "code_number CodeInvalidArgument = 3"
| "code_number CodeDeadlineExceeded = 4"
| "code_number CodeNotFound = 5"
| "code_number CodeAlreadyExists = 6"
| "code_number CodePermissionDenied = 7"
| "code_number CodeResourceExhausted = 8"
| "code_number CodeFailedPrecondition = 9"
| "code_number CodeAborted = 10"
| "code_number CodeOutOfRange = 11"
| "code_number CodeUnimplemented = 12"
| "code_number CodeInternal = 13"
| "code_number CodeUnavailable = 14"
| "code_number CodeDataLoss = 15"
| "code_number CodeUnauthenticated = 16"

definition classify_status :: "tonic_status \<Rightarrow> disposition" where
  "classify_status st =
     (if fst st \<in> {CodeUnavailable, CodeDeadlineExceeded, CodeResourceExhausted, CodeAborted, CodeInternal, CodeUnknown}
      then Retry else Fatal)"

fun reject_number :: "reject_code \<Rightarrow> int" where
  "reject_number RejUnknown = 0"
| "reject_number IncompatibleOntology = 1"
| "reject_number UnknownSource = 2"
| "reject_number UnknownMemoryType = 3"
| "reject_number RejUnknownKind = 4"
| "reject_number RejInvalidTypeTriple = 5"
| "reject_number RejVisibilityWidening = 6"
| "reject_number MissingExternalKey = 7"
| "reject_number DuplicateBatch = 8"
| "reject_number BadChecksum = 9"
| "reject_number Unauthorized = 10"
| "reject_number RateLimited = 11"
| "reject_number ComputedKindRejected = 12"
| "reject_number InvalidExternalKey = 13"
| "reject_number ResourceLimitExceeded = 14"
| "reject_number SourceRewound = 15"
| "reject_number SchemaDrift = 16"
| "reject_number ProjectionBoundExceeded = 17"

definition negotiated_fingerprint_still_current :: "byte list \<Rightarrow> byte list \<Rightarrow> string + unit" where
  "negotiated_fingerprint_still_current negotiated current =
     (if negotiated = current then Inr ()
      else if length current \<noteq> 32
      then Inl (''server fingerprint is '' @ show_nat (length current) @ '' bytes, expected 32'')
      else Inl (''negotiated '' @ hex negotiated @ '' but the server now reports '' @ hex current @ '' '' @ em_dash @
             '' the backend's ontology drifted mid-run; reconnect and re-negotiate before resubmitting''))"

text \<open>A fatal row: a refused ontology is renegotiated first, to name both fingerprints.\<close>

definition fatal_row ::
    "sdk_env \<Rightarrow> (tonic_status, 's) sdk_remote \<Rightarrow> adapter_session \<Rightarrow> reject_row \<Rightarrow> 's \<Rightarrow> sdk_error \<times> 's" where
  "fatal_row sx rm sn row s =
     (if rj_code row = IncompatibleOntology then
        (case authenticated_request sx (ac_auth_token (sn_config sn)) of
           Inl e \<Rightarrow> (e, s)
         | Inr auth \<Rightarrow>
           (case rm_fingerprint rm (Some auth) s of
              (Inl st, s) \<Rightarrow> (SdkTransport st, s)
            | (Inr got, s) \<Rightarrow>
              if length got \<noteq> 32 then (InvalidUnit (''fingerprint len '' @ show_nat (length got)), s)
              else if isl (negotiated_fingerprint_still_current (sn_fingerprint sn) got)
              then (FingerprintMismatch (sn_fingerprint sn) got, s)
              else (SdkFatal (reject_number (rj_code row)) (rj_detail row), s)))
      else (SdkFatal (reject_number (rj_code row)) (rj_detail row), s))"

record triage_state =
  tg_retry :: bool
  tg_duplicate :: bool
  tg_outcome :: window_outcome

fun triage_rows ::
    "sdk_env \<Rightarrow> (tonic_status, 's) sdk_remote \<Rightarrow> adapter_session \<Rightarrow> reject_row list \<Rightarrow> triage_state \<Rightarrow> 's \<Rightarrow>
     (sdk_error + triage_state) \<times> 's" where
  "triage_rows sx rm sn [] tg s = (Inr tg, s)"
| "triage_rows sx rm sn (row # rows) tg s =
     (case classify (rj_code row) of
        Success \<Rightarrow> triage_rows sx rm sn rows (tg\<lparr>tg_duplicate := True\<rparr>) s
      | Retry \<Rightarrow> triage_rows sx rm sn rows (tg\<lparr>tg_retry := True\<rparr>) s
      | Permanent \<Rightarrow>
          triage_rows sx rm sn rows
            (tg\<lparr>tg_outcome := (tg_outcome tg)
                 \<lparr>wo_permanent_rejections := wo_permanent_rejections (tg_outcome tg) @ [row]\<rparr>\<rparr>) s
      | Fatal \<Rightarrow> (case fatal_row sx rm sn row s of (e, s) \<Rightarrow> (Inl e, s)))"

datatype triage = TriageSettled window_outcome | TriageRetry window_outcome

definition triage_ack ::
    "sdk_env \<Rightarrow> (tonic_status, 's) sdk_remote \<Rightarrow> adapter_session \<Rightarrow> ingest_ack \<Rightarrow> window_outcome \<Rightarrow> 's \<Rightarrow>
     (sdk_error + triage) \<times> 's" where
  "triage_ack sx rm sn ack outcome s =
     (if ak_rejections ack = []
      then (Inr (TriageSettled (outcome\<lparr>wo_accepted := wo_accepted outcome + ak_accepted ack\<rparr>)), s)
      else
        (case triage_rows sx rm sn (ak_rejections ack) \<lparr>tg_retry = False, tg_duplicate = False, tg_outcome = outcome\<rparr> s of
           (Inl e, s) \<Rightarrow> (Inl e, s)
         | (Inr tg, s) \<Rightarrow>
           (Inr (if tg_retry tg then TriageRetry (tg_outcome tg)
                 else if tg_duplicate tg
                 then TriageSettled ((tg_outcome tg)\<lparr>wo_duplicates := wo_duplicates (tg_outcome tg) + 1,
                        wo_accepted := wo_accepted (tg_outcome tg) + ak_accepted ack\<rparr>)
                 else TriageSettled (tg_outcome tg)), s)))"

section \<open>Submitting\<close>

function submit_attempts ::
    "sdk_env \<Rightarrow> (tonic_status, 's) sdk_remote \<Rightarrow> adapter_session \<Rightarrow> ingest_batch \<Rightarrow> nat \<Rightarrow> window_outcome \<Rightarrow> 's \<Rightarrow>
     (sdk_error + window_outcome) \<times> 's" where
  "submit_attempts sx rm sn batch tried outcome s =
     (let attempt = tried + 1; more = (attempt < ry_max_attempts (ac_retry (sn_config sn)))
      in case authenticated_request sx (ac_auth_token (sn_config sn)) of
           Inl e \<Rightarrow> (Inl e, s)
         | Inr auth \<Rightarrow>
           (case rm_submit rm (Some auth) batch s of
              (Inl st, s1) \<Rightarrow>
                if classify_status st = Retry then
                  (if more then submit_attempts sx rm sn batch attempt outcome s1
                   else (Inl (RetriesExhausted attempt), s1))
                else (Inl (SdkFatal (code_number (fst st)) (snd st)), s1)
            | (Inr ack, s1) \<Rightarrow>
                (case triage_ack sx rm sn ack outcome s1 of
                   (Inl e, s2) \<Rightarrow> (Inl e, s2)
                 | (Inr (TriageSettled outcome1), s2) \<Rightarrow> (Inr outcome1, s2)
                 | (Inr (TriageRetry outcome1), s2) \<Rightarrow>
                     if more then submit_attempts sx rm sn batch attempt outcome1 s2
                     else (Inl (RetriesExhausted attempt), s2))))"
  by pat_completeness auto

termination
  by (relation "measure (\<lambda>(_, _, sn, _, tried, _). ry_max_attempts (ac_retry (sn_config sn)) - tried)") auto

declare submit_attempts.simps [simp del]

fun submit_batches ::
    "sdk_env \<Rightarrow> (tonic_status, 's) sdk_remote \<Rightarrow> adapter_session \<Rightarrow> ingest_batch list \<Rightarrow> window_outcome \<Rightarrow> 's \<Rightarrow>
     (sdk_error + window_outcome) \<times> 's" where
  "submit_batches sx rm sn [] outcome s = (Inr outcome, s)"
| "submit_batches sx rm sn (b # bs) outcome s =
     (case submit_attempts sx rm sn b 0 outcome s of
        (Inl e, s) \<Rightarrow> (Inl e, s)
      | (Inr outcome, s) \<Rightarrow> submit_batches sx rm sn bs outcome s)"

definition window_rows :: "batch_unit list \<Rightarrow> nat" where
  "window_rows units = sum_list (map (length \<circ> bu_memories) units)"

fun check_rewind :: "string list \<Rightarrow> batch_unit list \<Rightarrow> sdk_error + unit" where
  "check_rewind seen [] = Inr ()"
| "check_rewind seen (u # us) =
     (case bu_snapshot u of
        None \<Rightarrow> check_rewind seen us
      | Some snap \<Rightarrow>
        if seen \<noteq> [] \<and> si_snapshot_id snap \<noteq> last seen \<and> si_snapshot_id snap \<in> set seen
        then Inl (SourceRewoundErr (si_snapshot_id snap) (last seen))
        else check_rewind seen us)"

definition check_window_rows :: "projection option \<Rightarrow> batch_unit list \<Rightarrow> sdk_error + unit" where
  "check_window_rows pj units =
     (case pj of
        None \<Rightarrow> Inr ()
      | Some p \<Rightarrow>
        if sb_max_rows_per_window (pj_bounds p) < window_rows units
        then Inl (ProjectionBoundExceededErr ''max_rows_per_window'' (window_rows units) (sb_max_rows_per_window (pj_bounds p)))
        else Inr ())"

definition check_window :: "adapter_session \<Rightarrow> batch_unit list \<Rightarrow> sdk_error + unit" where
  "check_window sn units =
     (case ac_projection (sn_config sn) of
        None \<Rightarrow> Inr ()
      | Some p \<Rightarrow>
        and_then (check_window_rows (Some p) units) (\<lambda>_.
          let run_rows = saturating_add64 (sn_rows_this_run sn) (window_rows units)
          in if sb_max_rows_per_run (pj_bounds p) < run_rows
             then Inl (ProjectionBoundExceededErr ''max_rows_per_run'' run_rows (sb_max_rows_per_run (pj_bounds p)))
             else check_rewind (sn_seen_snapshots sn) units))"

definition check_local :: "adapter_session \<Rightarrow> batch_unit list \<Rightarrow> sdk_error + unit" where
  "check_local sn units =
     (case sn_manifest sn of None \<Rightarrow> Inr () | Some m \<Rightarrow> validate_units m (sn_ceiling sn) units)"

definition save_cursor :: "'f file_api \<Rightarrow> string \<Rightarrow> string \<Rightarrow> 'f \<Rightarrow> (sdk_error + unit) \<times> 'f" where
  "save_cursor fa path cursor f =
     (let write_then_rename = (\<lambda>f.
            let tmp = fa_with_extension fa path ''tmp''
            in case fa_write fa tmp cursor f of
                 (Inl e, f) \<Rightarrow> (Inl (CursorIo e), f)
               | (Inr _, f) \<Rightarrow>
                   (case fa_rename fa tmp path f of
                      (Inl e, f) \<Rightarrow> (Inl (CursorIo e), f)
                    | (Inr _, f) \<Rightarrow> (Inr (), f)))
      in case fa_parent fa path of
           None \<Rightarrow> write_then_rename f
         | Some dir \<Rightarrow>
             (case fa_create_dir_all fa dir f of
                (Inl e, f) \<Rightarrow> (Inl (CursorIo e), f)
              | (Inr _, f) \<Rightarrow> write_then_rename f))"

definition push_seen :: "string \<Rightarrow> string list \<Rightarrow> string list" where
  "push_seen i seen =
     (if seen \<noteq> [] \<and> last seen = i then seen
      else (let grown = seen @ [i] in if 16 < length grown then tl grown else grown))"

definition note_snapshots :: "batch_unit list \<Rightarrow> string list \<Rightarrow> string list" where
  "note_snapshots units seen =
     fold (\<lambda>u seen. case bu_snapshot u of None \<Rightarrow> seen | Some snap \<Rightarrow> push_seen (si_snapshot_id snap) seen) units seen"

text \<open>The window: no answer is a split that does not return.\<close>

definition submit_window ::
    "sdk_env \<Rightarrow> 'f file_api \<Rightarrow> (tonic_status, 's) sdk_remote \<Rightarrow> batch_unit list \<Rightarrow> string \<Rightarrow> adapter_session \<Rightarrow> 'f \<Rightarrow> 's \<Rightarrow>
     ((sdk_error + window_outcome) \<times> adapter_session \<times> 'f \<times> 's) option" where
  "submit_window sx fa rm units cursor sn f s =
     (case and_then (check_window sn units) (\<lambda>_. check_local sn units) of
        Inl e \<Rightarrow> Some (Inl e, sn, f, s)
      | Inr _ \<Rightarrow>
        (case prepare_batches sx sn units of
           None \<Rightarrow> None
         | Some (Inl e) \<Rightarrow> Some (Inl e, sn, f, s)
         | Some (Inr bs) \<Rightarrow>
           (case submit_batches sx rm sn bs empty_outcome s of
              (Inl e, s) \<Rightarrow> Some (Inl e, sn, f, s)
            | (Inr outcome, s) \<Rightarrow>
              (case save_cursor fa (ac_cursor_path (sn_config sn)) cursor f of
                 (Inl e, f) \<Rightarrow> Some (Inl e, sn, f, s)
               | (Inr _, f) \<Rightarrow>
                 Some (Inr (outcome\<lparr>wo_cursor_advanced := True\<rparr>),
                       sn\<lparr>sn_cursor := Some cursor,
                          sn_rows_this_run := saturating_add64 (sn_rows_this_run sn) (window_rows units),
                          sn_seen_snapshots := note_snapshots units (sn_seen_snapshots sn)\<rparr>, f, s)))))"

fun preflight_batches ::
    "sdk_env \<Rightarrow> (tonic_status, 's) sdk_remote \<Rightarrow> adapter_session \<Rightarrow> ingest_batch list \<Rightarrow> 's \<Rightarrow>
     (sdk_error + ingest_ack list) \<times> 's" where
  "preflight_batches sx rm sn [] s = (Inr [], s)"
| "preflight_batches sx rm sn (b # bs) s =
     (case authenticated_request sx (ac_auth_token (sn_config sn)) of
        Inl e \<Rightarrow> (Inl e, s)
      | Inr auth \<Rightarrow>
        (case rm_preflight rm (Some auth) b s of
           (Inl st, s) \<Rightarrow> (Inl (SdkFatal (code_number (fst st)) (snd st)), s)
         | (Inr ack, s) \<Rightarrow>
           (case preflight_batches sx rm sn bs s of
              (Inl e, s) \<Rightarrow> (Inl e, s)
            | (Inr acks, s) \<Rightarrow> (Inr (ack # acks), s))))"

definition preflight_window ::
    "sdk_env \<Rightarrow> (tonic_status, 's) sdk_remote \<Rightarrow> batch_unit list \<Rightarrow> adapter_session \<Rightarrow> 's \<Rightarrow>
     ((sdk_error + ingest_ack list) \<times> 's) option" where
  "preflight_window sx rm units sn s =
     (case and_then (check_window_rows (ac_projection (sn_config sn)) units) (\<lambda>_. check_local sn units) of
        Inl e \<Rightarrow> Some (Inl e, s)
      | Inr _ \<Rightarrow>
        (case prepare_batches sx sn units of
           None \<Rightarrow> None
         | Some (Inl e) \<Rightarrow> Some (Inl e, s)
         | Some (Inr bs) \<Rightarrow> Some (preflight_batches sx rm sn bs s)))"


section \<open>Prepared batches\<close>

text \<open>What a batch of the session says about itself.\<close>

definition session_batch :: "sdk_env \<Rightarrow> adapter_session \<Rightarrow> ingest_batch \<Rightarrow> bool" where
  "session_batch sx sn b \<longleftrightarrow>
     colocated (ibt_memories b) (ibt_relationships b) \<and>
     length (ibt_memories b) \<le> MAX_MEMORIES_PER_BATCH \<and> length (ibt_relationships b) \<le> MAX_EDGES_PER_BATCH \<and>
     encoded_len (sx_env sx) b \<le> ac_max_batch_bytes (sn_config sn) \<and>
     ibt_org_id b = ac_org_id (sn_config sn) \<and> ibt_source_uri b = ac_source_uri (sn_config sn) \<and>
     ibt_ceiling b = sn_ceiling sn \<and> ibt_ontology_fingerprint b = sn_fingerprint sn \<and>
     ibt_checksum b = checksum_of (sx_env sx) b \<and>
     ((\<forall>m. iv_mac (sx_env sx) (ac_hmac_key (sn_config sn)) m \<noteq> []) \<longrightarrow>
        verify_signature (iv_mac (sx_env sx)) (iv_enc_batch (sx_env sx)) (ac_hmac_key (sn_config sn)) b)"

lemma stamped_sel [simp]:
  "ibt_memories (stamped sx sn b) = ibt_memories b" "ibt_relationships (stamped sx sn b) = ibt_relationships b"
  by (simp_all add: stamped_def Let_def prepare_batch_def sign_batch_def)

lemma stamped_ok:
  assumes "colocated (ibt_memories b) (ibt_relationships b)"
    "length (ibt_memories b) \<le> MAX_MEMORIES_PER_BATCH" "length (ibt_relationships b) \<le> MAX_EDGES_PER_BATCH"
    "ibt_producer b \<noteq> None" "encoded_len (sx_env sx) (stamped sx sn b) \<le> ac_max_batch_bytes (sn_config sn)"
  shows "session_batch sx sn (stamped sx sn b)"
proof -
  let ?b = "stamped sx sn b"
  have fields: "ibt_org_id ?b = ac_org_id (sn_config sn)" "ibt_source_uri ?b = ac_source_uri (sn_config sn)"
    "ibt_ceiling ?b = sn_ceiling sn" "ibt_ontology_fingerprint ?b = sn_fingerprint sn"
    by (simp_all add: stamped_def Let_def prepare_batch_def sign_batch_def)
  have checksum: "ibt_checksum ?b = checksum_of (sx_env sx) ?b"
    by (simp add: stamped_def Let_def prepare_batch_def checksum_of_def) (simp add: sign_batch_def)
  have "verify_signature (iv_mac (sx_env sx)) (iv_enc_batch (sx_env sx)) (ac_hmac_key (sn_config sn)) ?b"
    if "\<forall>m. iv_mac (sx_env sx) (ac_hmac_key (sn_config sn)) m \<noteq> []"
    using assms(4) that
    by (auto simp: verify_signature_iff stamped_def Let_def prepare_batch_def) (auto simp: sign_batch_def)
  with assms fields checksum show ?thesis by (simp add: session_batch_def)
qed

lemma stamp_batches_Inr:
  "stamp_batches sx sn bs = Inr cs \<Longrightarrow>
     cs = map (stamped sx sn) bs \<and> (\<forall>b\<in>set cs. encoded_len (sx_env sx) b \<le> ac_max_batch_bytes (sn_config sn))"
  by (induction bs arbitrary: cs) (auto simp: Let_def and_then_Inr split: if_splits)

lemma split_units_rows:
  "\<exists>result. split_units sx sn budget us = Some result \<and>
     (\<forall>bs. result = Inr bs \<longrightarrow>
        mset (concat (map ibt_memories bs)) = mset (concat (map bu_memories us)) \<and>
        mset (concat (map ibt_relationships bs)) = mset (concat (map bu_relationships us)) \<and>
        (\<forall>b\<in>set bs. colocated (ibt_memories b) (ibt_relationships b) \<and>
           length (ibt_memories b) \<le> MAX_MEMORIES_PER_BATCH \<and> length (ibt_relationships b) \<le> MAX_EDGES_PER_BATCH \<and>
           ibt_producer b \<noteq> None))"
proof (induction us)
  case (Cons u us)
  obtain r1 where r1: "split_unit (sx_env sx) (sx_dbg sx) (ac_producer_id (sn_config sn)) u budget = Some r1"
    "\<And>bs. r1 = Inr bs \<Longrightarrow> mset (concat (map ibt_memories bs)) = mset (bu_memories u) \<and>
        mset (concat (map ibt_relationships bs)) = mset (bu_relationships u) \<and>
        (\<forall>b\<in>set bs. colocated (ibt_memories b) (ibt_relationships b) \<and>
           length (ibt_memories b) \<le> MAX_MEMORIES_PER_BATCH \<and> length (ibt_relationships b) \<le> MAX_EDGES_PER_BATCH \<and>
           ibt_producer b \<noteq> None)"
    using split_unit_rows [of "sx_env sx" "sx_dbg sx" "ac_producer_id (sn_config sn)" u budget] by blast
  from Cons.IH obtain r2 where r2: "split_units sx sn budget us = Some r2" by blast
  with r1(1) Cons.IH r1(2) show ?case
    by (cases r1; cases r2) (auto simp: ball_Un)
qed simp

lemma prepare_from_rows:
  "\<exists>result. prepare_from sx sn us budget = Some result \<and>
     (\<forall>bs. result = Inr bs \<longrightarrow>
        mset (concat (map ibt_memories bs)) = mset (concat (map bu_memories us)) \<and>
        mset (concat (map ibt_relationships bs)) = mset (concat (map bu_relationships us)) \<and>
        (\<forall>b\<in>set bs. session_batch sx sn b))"
proof (induction sx sn us budget rule: prepare_from.induct)
  case (1 sx sn us budget)
  from split_units_rows [of sx sn budget us] obtain r where r: "split_units sx sn budget us = Some r" by blast
  show ?case
  proof (cases r)
    case (Inl e)
    with r show ?thesis by (simp add: prepare_from.simps [of sx sn us budget])
  next
    case (Inr bs)
    show ?thesis
    proof (cases "stamp_batches sx sn bs")
      case (Inl over)
      with r Inr show ?thesis using 1 [OF r Inr Inl]
        by (auto simp: prepare_from.simps [of sx sn us budget])
    next
      case stamp: (Inr cs)
      note split = split_units_rows [of sx sn budget us, unfolded r Inr, simplified]
      from stamp_batches_Inr [OF stamp] have cs: "cs = map (stamped sx sn) bs"
        "\<forall>b\<in>set bs. encoded_len (sx_env sx) (stamped sx sn b) \<le> ac_max_batch_bytes (sn_config sn)" by auto
      have "\<forall>b\<in>set cs. session_batch sx sn b" using split cs by (auto intro!: stamped_ok)
      moreover have "map ibt_memories cs = map ibt_memories bs" "map ibt_relationships cs = map ibt_relationships bs"
        by (simp_all add: cs)
      ultimately show ?thesis using r Inr stamp split by (simp add: prepare_from.simps [of sx sn us budget])
    qed
  qed
qed

text \<open>
  C33: Preparing a window always returns, and it is exact: it ends
  with an error, or with batches that carry the memories and relationships of the units, each as
  often as it occurs there. Each batch has the endpoints of its relationships, is within the
  counts of the service and, stamped and signed, within the configured bytes; it names the
  organisation, source, ceiling and fingerprint of the session, carries the checksum the service
  recomputes, and its signature verifies under the key of the adapter.\<close>

theorem prepared_batches_exact:
  "\<exists>result. prepare_batches sx sn us = Some result \<and>
     (\<forall>bs. result = Inr bs \<longrightarrow>
        mset (concat (map ibt_memories bs)) = mset (concat (map bu_memories us)) \<and>
        mset (concat (map ibt_relationships bs)) = mset (concat (map bu_relationships us)) \<and>
        (\<forall>b\<in>set bs. session_batch sx sn b))"
  unfolding prepare_batches_def by (rule prepare_from_rows)


definition sample_adapter :: adapter_session where
  "sample_adapter =
     \<lparr>sn_config = (new_config (\<lambda>name. ''/tmp/'' @ name) ''acme'' ''custom://s'' ''p'' ''https://h'')\<lparr>ac_auth_token := ''t''\<rparr>,
      sn_fingerprint = zeros32, sn_ceiling = 3, sn_cursor = None, sn_rows_this_run = 0, sn_seen_snapshots = [], sn_manifest = None\<rparr>"

definition sample_sdk :: sdk_env where
  "sample_sdk =
     \<lparr>sx_env = sample_env, sx_dbg = (\<lambda>_. []), sx_parse_uri = (\<lambda>_. Inl []), sx_loopback = (\<lambda>_. False),
      sx_header_ok = (\<lambda>_. True), sx_from_json = (\<lambda>_. Inl [])\<rparr>"

lemma sample_split: "\<exists>b. split_unit sample_env (\<lambda>_. []) ''p'' sample_unit n = Some (Inr [b]) \<and> ibt_memories b = [sample_draft]"
proof -
  have "validate_unit (\<lambda>_. []) sample_unit = Inr ()" by (simp add: validate_unit_def sample_unit_def)
  moreover have "encoded_len sample_env b = 0" for b by (simp add: encoded_len_def sample_env_def)
  ultimately show ?thesis using sample_components
    by (simp add: split_unit_def check_component_def component_bytes_def MAX_MEMORIES_PER_BATCH_def MAX_EDGES_PER_BATCH_def
        overflows_def empty_packing_def flush_pending_def Let_def packed_batch_def unstamped_def)
qed

lemma sample_prepared: "\<exists>b. prepare_batches sample_sdk sample_adapter [sample_unit] = Some (Inr [b]) \<and> ibt_memories b = [sample_draft]"
proof -
  obtain b where b: "split_unit sample_env (\<lambda>_. []) ''p'' sample_unit (4 * 1024 * 1024) = Some (Inr [b])" "ibt_memories b = [sample_draft]"
    using sample_split by blast
  have "encoded_len sample_env b = 0" for b by (simp add: encoded_len_def sample_env_def)
  with b show ?thesis
    by (simp add: prepare_batches_def prepare_from.simps sample_sdk_def sample_adapter_def new_config_def Let_def)
qed

theorem prepared_batches_exact_witness:
  "\<exists>b. prepare_batches sample_sdk sample_adapter [sample_unit] = Some (Inr [b]) \<and> session_batch sample_sdk sample_adapter b \<and>
     mset (ibt_memories b) = mset (bu_memories sample_unit)"
proof -
  obtain b where b: "prepare_batches sample_sdk sample_adapter [sample_unit] = Some (Inr [b])" using sample_prepared by blast
  with prepared_batches_exact [of sample_sdk sample_adapter "[sample_unit]"] show ?thesis by auto
qed


section \<open>Settling a window\<close>

text \<open>
  The service of an adapter: the interface of a drain, and a fingerprint call that takes nothing
  back.\<close>

locale adapter_remote = ingest_remote "remote.truncate rm" ok settled
  for rm :: "(tonic_status, 's) sdk_remote" and ok :: "'s \<Rightarrow> bool" and settled :: "'s \<Rightarrow> ingest_batch_key \<Rightarrow> nat option" +
  assumes fingerprint_ok: "ok s \<Longrightarrow> ok (snd (rm_fingerprint rm auth s))"
    and fingerprint_settled: "ok s \<Longrightarrow> settled s k = Some n \<Longrightarrow> settled (snd (rm_fingerprint rm auth s)) k = Some n"

lemma truncate_calls [simp]:
  "rm_submit (remote.truncate rm) = rm_submit rm" "rm_register (remote.truncate rm) = rm_register rm"
  by (simp_all add: remote.truncate_def)

text \<open>Files: what the calls do to the contents under the path of the cursor.\<close>

definition file_laws :: "'f file_api \<Rightarrow> string \<Rightarrow> bool" where
  "file_laws fa path \<longleftrightarrow>
     (let tmp = fa_with_extension fa path ''tmp''
      in tmp \<noteq> path \<and>
         (\<forall>dir f. fa_parent fa path = Some dir \<longrightarrow> fa_read fa path (snd (fa_create_dir_all fa dir f)) = fa_read fa path f) \<and>
         (\<forall>text f. fa_read fa path (snd (fa_write fa tmp text f)) = fa_read fa path f) \<and>
         (\<forall>text f f'. fa_write fa tmp text f = (Inr (), f') \<longrightarrow> fa_read fa tmp f' = Contents text) \<and>
         (\<forall>f f' e. fa_rename fa tmp path f = (Inl e, f') \<longrightarrow> fa_read fa path f' = fa_read fa path f) \<and>
         (\<forall>f f'. fa_rename fa tmp path f = (Inr (), f') \<longrightarrow> fa_read fa path f' = fa_read fa tmp f))"

lemma file_lawsD:
  assumes "file_laws fa path"
  shows "fa_parent fa path = Some dir \<Longrightarrow> fa_create_dir_all fa dir f = (r, f') \<Longrightarrow> fa_read fa path f' = fa_read fa path f"
    "fa_write fa (fa_with_extension fa path ''tmp'') text f = (r, f') \<Longrightarrow> fa_read fa path f' = fa_read fa path f"
    "fa_write fa (fa_with_extension fa path ''tmp'') text f = (Inr (), f') \<Longrightarrow>
       fa_read fa (fa_with_extension fa path ''tmp'') f' = Contents text"
    "fa_rename fa (fa_with_extension fa path ''tmp'') path f = (Inl e, f') \<Longrightarrow> fa_read fa path f' = fa_read fa path f"
    "fa_rename fa (fa_with_extension fa path ''tmp'') path f = (Inr (), f') \<Longrightarrow>
       fa_read fa path f' = fa_read fa (fa_with_extension fa path ''tmp'') f"
  using assms unfolding file_laws_def Let_def by (metis snd_conv)+

lemma save_cursor_atomic:
  assumes "file_laws fa path" "save_cursor fa path cursor f = (r, f')"
  shows "fa_read fa path f' = (case r of Inl _ \<Rightarrow> fa_read fa path f | Inr _ \<Rightarrow> Contents cursor)"
proof -
  let ?tmp = "fa_with_extension fa path ''tmp''"
  define rest where "rest = (\<lambda>f. case fa_write fa ?tmp cursor f of
      (Inl e, f) \<Rightarrow> (Inl (CursorIo e), f)
    | (Inr _, f) \<Rightarrow> (case fa_rename fa ?tmp path f of (Inl e, f) \<Rightarrow> (Inl (CursorIo e), f) | (Inr _, f) \<Rightarrow> (Inr (), f)))"
  have rest: "fa_read fa path f2 = (case r of Inl _ \<Rightarrow> fa_read fa path f1 | Inr _ \<Rightarrow> Contents cursor)"
    if run: "rest f1 = (r, f2)" for f1 f2 r
  proof -
    obtain w g where w: "fa_write fa ?tmp cursor f1 = (w, g)" by (cases "fa_write fa ?tmp cursor f1")
    note g = file_lawsD(2) [OF assms(1) w]
    obtain m h where m: "fa_rename fa ?tmp path g = (m, h)" by (cases "fa_rename fa ?tmp path g")
    from w m have "w = Inr () \<Longrightarrow> fa_read fa ?tmp g = Contents cursor"
      "m = Inl e \<Longrightarrow> fa_read fa path h = fa_read fa path g" "m = Inr () \<Longrightarrow> fa_read fa path h = fa_read fa ?tmp g" for e
      using file_lawsD(3-5) [OF assms(1)] by auto
    with run w m g show ?thesis unfolding rest_def by (cases w; cases m) auto
  qed
  show ?thesis
  proof (cases "fa_parent fa path")
    case None
    with assms(2) have "rest f = (r, f')" by (simp add: save_cursor_def rest_def Let_def)
    then show ?thesis by (rule rest)
  next
    case (Some dir)
    obtain d g where d: "fa_create_dir_all fa dir f = (d, g)" by (cases "fa_create_dir_all fa dir f")
    note g = file_lawsD(1) [OF assms(1) Some d]
    show ?thesis
    proof (cases d)
      case (Inl e)
      with assms(2) Some d g show ?thesis by (auto simp: save_cursor_def Let_def)
    next
      case Inr
      with assms(2) Some d have "rest g = (r, f')" by (simp add: save_cursor_def rest_def Let_def)
      from rest [OF this] show ?thesis unfolding g .
    qed
  qed
qed

lemma triage_rows_keeps:
  assumes "triage_rows sx rm sn rows tg s = (Inr tg', s')"
  shows "s' = s \<and> (tg_retry tg \<longrightarrow> tg_retry tg') \<and>
    (\<exists>extra. wo_permanent_rejections (tg_outcome tg') = wo_permanent_rejections (tg_outcome tg) @ extra \<and>
      (extra = [] \<longrightarrow> \<not> tg_retry tg' \<longrightarrow> (\<forall>row\<in>set rows. classify (rj_code row) = Success)))"
  using assms
proof (induction rows arbitrary: tg)
  case (Cons row rows)
  show ?case
  proof (cases "classify (rj_code row)")
    case Success
    with Cons.prems Cons.IH [of "tg\<lparr>tg_duplicate := True\<rparr>"] show ?thesis by auto
  next
    case Retry
    with Cons.prems Cons.IH [of "tg\<lparr>tg_retry := True\<rparr>"] show ?thesis by auto
  next
    case Permanent
    with Cons.prems Cons.IH [of "tg\<lparr>tg_outcome := (tg_outcome tg)
        \<lparr>wo_permanent_rejections := wo_permanent_rejections (tg_outcome tg) @ [row]\<rparr>\<rparr>"] show ?thesis by auto
  next
    case Fatal
    with Cons.prems show ?thesis by (auto split: prod.splits)
  qed
qed simp

lemma all_success: "\<forall>row\<in>set rows. classify (rj_code row) = Success \<Longrightarrow> worst_of rows Success = Success"
  by (induction rows) (auto simp: Let_def)

lemma fatal_row_asks: "fatal_row sx rm sn row s = (e, s') \<Longrightarrow> s' = s \<or> (\<exists>auth. s' = snd (rm_fingerprint rm auth s))"
  unfolding fatal_row_def by (auto split: prod.splits sum.splits if_splits) (metis snd_conv)+

text \<open>
  After an answer: the service as it was, or asked for its fingerprint; and an answer that settles
  without a permanent rejection has taken the batch.\<close>

lemma triage_ack_cases:
  assumes "triage_ack sx rm sn ack outcome s = (r, s')"
  shows "(s' = s \<or> (\<exists>auth. s' = snd (rm_fingerprint rm auth s))) \<and>
    (\<forall>out. r = Inr (TriageSettled out) \<or> r = Inr (TriageRetry out) \<longrightarrow>
      (\<exists>extra. wo_permanent_rejections out = wo_permanent_rejections outcome @ extra)) \<and>
    (\<forall>out. r = Inr (TriageSettled out) \<longrightarrow> s' = s \<and>
      (wo_permanent_rejections out = wo_permanent_rejections outcome \<longrightarrow> taken ack)) \<and>
    (\<forall>out. r = Inr (TriageRetry out) \<longrightarrow> s' = s)"
proof (cases "ak_rejections ack = []")
  case True
  with assms show ?thesis by (auto simp: triage_ack_def taken_def)
next
  case False
  let ?tg = "\<lparr>tg_retry = False, tg_duplicate = False, tg_outcome = outcome\<rparr>"
  obtain t s1 where t: "triage_rows sx rm sn (ak_rejections ack) ?tg s = (t, s1)"
    by (cases "triage_rows sx rm sn (ak_rejections ack) ?tg s")
  show ?thesis
  proof (cases t)
    case (Inl e)
    have "s1 = s \<or> (\<exists>auth. s1 = snd (rm_fingerprint rm auth s))"
      if "triage_rows sx rm sn rows tg s = (Inl e, s1)" for rows tg
      using that
    proof (induction rows arbitrary: tg)
      case (Cons row rows)
      then show ?case by (auto split: disposition.splits prod.splits dest: fatal_row_asks)
    qed simp
    with assms False t Inl show ?thesis by (auto simp: triage_ack_def)
  next
    case (Inr tg)
    from triage_rows_keeps [OF t [unfolded Inr]] obtain extra where k: "s1 = s"
      "wo_permanent_rejections (tg_outcome tg) = wo_permanent_rejections outcome @ extra"
      "extra = [] \<Longrightarrow> \<not> tg_retry tg \<Longrightarrow> \<forall>row\<in>set (ak_rejections ack). classify (rj_code row) = Success" by auto
    have "taken ack" if "extra = []" "\<not> tg_retry tg"
      using all_success [OF k(3) [OF that]] by (simp add: taken_def)
    with assms False t Inr k show ?thesis by (auto simp: triage_ack_def split: if_splits)
  qed
qed


context adapter_remote
begin

abbreviation kept_by :: "'s \<Rightarrow> 's \<Rightarrow> bool" where
  "kept_by s s' \<equiv> ok s' \<and> (\<forall>k n. settled s k = Some n \<longrightarrow> settled s' k = Some n)"

lemma kept_submit: "ok s \<Longrightarrow> rm_submit rm auth b s = (r, s') \<Longrightarrow> kept_by s s'"
  using submit_ok [of s auth b] submit_settled [of s _ _ auth b] by auto

lemma kept_triage: "ok s \<Longrightarrow> triage_ack sx rm sn ack outcome s = (r, s') \<Longrightarrow> kept_by s s'"
  using triage_ack_cases [of sx rm sn ack outcome s r s'] fingerprint_ok fingerprint_settled by blast

text \<open>A batch that settles without a new permanent rejection is settled in the service.\<close>

lemma submit_attempts_settles:
  assumes "ok s" "submit_attempts sx rm sn b tried outcome s = (r, s')"
  shows "kept_by s s' \<and> (\<forall>out. r = Inr out \<longrightarrow>
    (\<exists>extra. wo_permanent_rejections out = wo_permanent_rejections outcome @ extra) \<and>
    (wo_permanent_rejections out = [] \<longrightarrow> ibt_memories b \<noteq> [] \<longrightarrow> settled s' (batch_key_of b) \<noteq> None))"
  using assms
proof (induction "ry_max_attempts (ac_retry (sn_config sn)) - tried" arbitrary: tried outcome s rule: less_induct)
  case less
  let ?max = "ry_max_attempts (ac_retry (sn_config sn))"
  note run = less.prems(2) [unfolded submit_attempts.simps [of sx rm sn b tried outcome s] Let_def]
  have again: "kept_by s1 s' \<and> (\<forall>out. r = Inr out \<longrightarrow>
      (\<exists>extra. wo_permanent_rejections out = wo_permanent_rejections outcome1 @ extra) \<and>
      (wo_permanent_rejections out = [] \<longrightarrow> ibt_memories b \<noteq> [] \<longrightarrow> settled s' (batch_key_of b) \<noteq> None))"
    if "ok s1" "tried + 1 < ?max" "submit_attempts sx rm sn b (tried + 1) outcome1 s1 = (r, s')" for outcome1 s1
    using less.hyps [OF _ that(1,3)] that(2) by simp
  show ?case
  proof (cases "authenticated_request sx (ac_auth_token (sn_config sn))")
    case (Inl e)
    with run less.prems(1) show ?thesis by auto
  next
    case (Inr auth)
    obtain a s1 where sub: "rm_submit rm (Some auth) b s = (a, s1)" by (cases "rm_submit rm (Some auth) b s")
    note kept1 = kept_submit [OF less.prems(1) sub]
    show ?thesis
    proof (cases a)
      case (Inl st)
      with run Inr sub kept1 again [of s1 outcome] show ?thesis by (auto split: if_splits)
    next
      case ack: (Inr ack)
      obtain t s2 where tri: "triage_ack sx rm sn ack outcome s1 = (t, s2)" by (cases "triage_ack sx rm sn ack outcome s1")
      note kept2 = kept_triage [OF kept1 [THEN conjunct1] tri] and tc = triage_ack_cases [OF tri]
      show ?thesis
      proof (cases t)
        case (Inl e)
        with run Inr sub ack tri kept1 kept2 show ?thesis by auto
      next
        case t: (Inr v)
        show ?thesis
        proof (cases v)
          case (TriageSettled out)
          with run Inr sub ack tri t have r: "r = Inr out" "s' = s2" by simp_all
          from tc t TriageSettled obtain extra where out: "wo_permanent_rejections out = wo_permanent_rejections outcome @ extra"
            "s2 = s1" "wo_permanent_rejections out = wo_permanent_rejections outcome \<Longrightarrow> taken ack" by blast
          have "settled s1 (batch_key_of b) \<noteq> None" if "wo_permanent_rejections out = []" "ibt_memories b \<noteq> []"
            using submit_taken [of s "Some auth" b ack s1] less.prems(1) sub ack that out by auto
          with r out kept1 show ?thesis by auto
        next
          case (TriageRetry out)
          from tc t TriageRetry obtain extra where out: "wo_permanent_rejections out = wo_permanent_rejections outcome @ extra"
            "s2 = s1" by blast
          with run Inr sub ack tri t TriageRetry kept1 again [of s1 out] show ?thesis by (auto split: if_splits)
        qed
      qed
    qed
  qed
qed

lemma submit_batches_settles:
  assumes "ok s" "submit_batches sx rm sn bs outcome s = (r, s')"
  shows "kept_by s s' \<and> (\<forall>out. r = Inr out \<longrightarrow>
    (\<exists>extra. wo_permanent_rejections out = wo_permanent_rejections outcome @ extra) \<and>
    (wo_permanent_rejections out = [] \<longrightarrow> (\<forall>b\<in>set bs. ibt_memories b \<noteq> [] \<longrightarrow> settled s' (batch_key_of b) \<noteq> None)))"
  using assms
proof (induction bs arbitrary: outcome s)
  case (Cons b bs)
  obtain a s1 where one: "submit_attempts sx rm sn b 0 outcome s = (a, s1)" by (cases "submit_attempts sx rm sn b 0 outcome s")
  note first = submit_attempts_settles [OF Cons.prems(1) one]
  show ?case
  proof (cases a)
    case (Inl e)
    with one first Cons.prems(2) show ?thesis by auto
  next
    case (Inr out1)
    with one Cons.prems(2) have rest: "submit_batches sx rm sn bs out1 s1 = (r, s')" by simp
    from first Inr have "ok s1" by blast
    note second = Cons.IH [OF this rest]
    show ?thesis
    proof (intro conjI allI impI ballI)
      show "ok s'" using second by blast
      show "settled s' k = Some n" if "settled s k = Some n" for k n using first second that by blast
      fix out assume out: "r = Inr out"
      show "\<exists>extra. wo_permanent_rejections out = wo_permanent_rejections outcome @ extra"
        using first second out Inr by (metis append.assoc)
      fix c assume none: "wo_permanent_rejections out = []" and c: "c \<in> set (b # bs)" "ibt_memories c \<noteq> []"
      show "settled s' (batch_key_of c) \<noteq> None"
      proof (cases "c = b")
        case True
        have "wo_permanent_rejections out1 = []" using second out none by auto
        with first Inr True c(2) obtain n where "settled s1 (batch_key_of c) = Some n" by auto
        with second show ?thesis by auto
      next
        case False
        with second out none c show ?thesis by auto
      qed
    qed
  qed
qed auto

end

text \<open>Before a session touches the service: the window is checked and prepared.\<close>

lemma submit_window_cases [consumes 1, case_names refused failed unsaved settled]:
  assumes "submit_window sx fa rm units cursor sn f s = Some (r, sn', f', s')"
  obtains e where "r = Inl e" "sn' = sn" "f' = f" "s' = s"
  | bs e where "prepare_batches sx sn units = Some (Inr bs)" "submit_batches sx rm sn bs empty_outcome s = (Inl e, s')"
      "r = Inl e" "sn' = sn" "f' = f"
  | bs out e where "prepare_batches sx sn units = Some (Inr bs)" "submit_batches sx rm sn bs empty_outcome s = (Inr out, s')"
      "save_cursor fa (ac_cursor_path (sn_config sn)) cursor f = (Inl e, f')" "r = Inl e" "sn' = sn"
  | bs out where "check_window sn units = Inr ()" "check_local sn units = Inr ()"
      "prepare_batches sx sn units = Some (Inr bs)" "submit_batches sx rm sn bs empty_outcome s = (Inr out, s')"
      "save_cursor fa (ac_cursor_path (sn_config sn)) cursor f = (Inr (), f')"
      "r = Inr (out\<lparr>wo_cursor_advanced := True\<rparr>)"
      "sn' = sn\<lparr>sn_cursor := Some cursor, sn_rows_this_run := saturating_add64 (sn_rows_this_run sn) (window_rows units),
                sn_seen_snapshots := note_snapshots units (sn_seen_snapshots sn)\<rparr>"
proof (cases "and_then (check_window sn units) (\<lambda>_. check_local sn units)")
  case (Inl e)
  with assms show thesis by (intro that(1) [of e]) (auto simp: submit_window_def)
next
  case (Inr x)
  then have checks: "check_window sn units = Inr ()" "check_local sn units = Inr ()" by (simp_all add: and_then_Inr)
  show thesis
  proof (cases "prepare_batches sx sn units")
    case None
    with assms Inr show thesis by (simp add: submit_window_def)
  next
    case (Some p)
    show thesis
    proof (cases p)
      case (Inl e)
      with assms Inr Some show thesis by (intro that(1) [of e]) (auto simp: submit_window_def)
    next
      case bs: (Inr bs)
      obtain a s1 where sub: "submit_batches sx rm sn bs empty_outcome s = (a, s1)"
        by (cases "submit_batches sx rm sn bs empty_outcome s")
      show thesis
      proof (cases a)
        case (Inl e)
        with assms Inr Some bs sub show thesis by (intro that(2) [of bs e]) (auto simp: submit_window_def)
      next
        case out: (Inr out)
        obtain c g where sav: "save_cursor fa (ac_cursor_path (sn_config sn)) cursor f = (c, g)"
          by (cases "save_cursor fa (ac_cursor_path (sn_config sn)) cursor f")
        show thesis
        proof (cases c)
          case (Inl e)
          with assms Inr Some bs sub out sav show thesis by (intro that(3) [of bs out e]) (auto simp: submit_window_def)
        next
          case saved: (Inr u)
          with assms Inr Some bs sub out sav checks show thesis
            by (intro that(4) [of bs out]) (auto simp: submit_window_def)
        qed
      qed
    qed
  qed
qed


section \<open>The ingest service of an adapter\<close>

fun status_of :: "grpc_status \<Rightarrow> tonic_status" where
  "status_of (Unauthenticated m) = (CodeUnauthenticated, m)"
| "status_of (PermissionDenied m) = (CodePermissionDenied, m)"
| "status_of (InvalidArgument m) = (CodeInvalidArgument, m)"
| "status_of (FailedPrecondition m) = (CodeFailedPrecondition, m)"
| "status_of (InternalStatus m) = (CodeInternal, m)"

text \<open>A lost call surfaces as a status of the transport.\<close>

definition seen_as :: "tonic_status \<Rightarrow> (grpc_status option + 'a) \<times> 's \<Rightarrow> (tonic_status + 'a) \<times> 's" where
  "seen_as lost = map_prod (map_sum (\<lambda>e. case e of None \<Rightarrow> lost | Some st \<Rightarrow> status_of st) (\<lambda>x. x)) (\<lambda>s. s)"

definition fingerprint_call ::
    "visibility_context option \<Rightarrow> ('c, 'd) ingest_server \<Rightarrow> (grpc_status + byte list) \<times> ('c, 'd) ingest_server" where
  "fingerprint_call who sv = (and_then (request_principal sv who) (\<lambda>_. Inr (o_fingerprint (sv_ontology sv))), sv)"

definition adapter_link ::
    "ingest_env \<Rightarrow> ('c, 'd) registries \<Rightarrow> (validation_manifest \<Rightarrow> string + string) \<Rightarrow> tonic_status \<Rightarrow> ('c, 'd) link \<Rightarrow>
     (tonic_status, ('c, 'd) ingest_server \<times> nat) sdk_remote" where
  "adapter_link env rg to_json lost lk =
     \<lparr>rm_register = (\<lambda>auth r s. seen_as lost (rm_register (linked env rg lk) auth r s)),
      rm_submit = (\<lambda>auth b s. seen_as lost (rm_submit (linked env rg lk) auth b s)),
      rm_connect = (\<lambda>_ s. map_prod (map_sum (\<lambda>_. snd lost) (\<lambda>x. x)) (\<lambda>s. s) (over_link lk (\<lambda>n sv. (Inr (), sv)) s)),
      rm_fingerprint = (\<lambda>auth s. seen_as lost (over_link lk (\<lambda>n. fingerprint_call (lk_who lk auth)) s)),
      rm_preflight = (\<lambda>auth b s. seen_as lost
        (over_link lk (\<lambda>n. preflight env rg (lk_now lk n) (lk_fresh lk n) (lk_who lk auth) b) s)),
      rm_manifest = (\<lambda>auth key s. seen_as lost (over_link lk (\<lambda>n. get_validation_manifest to_json rg (lk_who lk auth) key) s))\<rparr>"

lemma seen_as_snd [simp]: "snd (seen_as lost p) = snd p"
  by (cases p) (simp add: seen_as_def)

lemma seen_as_Inr: "seen_as lost p = (Inr x, s) \<longleftrightarrow> p = (Inr x, s)"
  by (cases p; cases "fst p") (auto simp: seen_as_def)

lemma over_link_idle:
  assumes "link_ok env rg digest json lk s" "\<And>n sv. snd (request n sv) = sv"
  shows "link_ok env rg digest json lk (snd (over_link lk request s))"
    and "settled_at (sv_store (fst s)) k = Some m \<Longrightarrow> settled_at (sv_store (fst (snd (over_link lk request s)))) k = Some m"
proof -
  obtain sv n where s: "s = (sv, n)" by (cases s)
  have after: "fst (snd (over_link lk request s)) = lk_others lk n sv"
    using assms(2) by (cases "lk_fate lk n") (simp_all add: over_link_def s Let_def)
  have run: "(service_step env rg digest json)\<^sup>*\<^sup>* sv (lk_others lk n sv)" and sv: "server_ok rg sv"
    using assms(1) by (simp_all add: link_ok_def link_laws_def s)
  show "link_ok env rg digest json lk (snd (over_link lk request s))"
    using assms(1) service.run_ok [OF run sv] after by (simp add: link_ok_def)
  show "settled_at (sv_store (fst s)) k = Some m \<Longrightarrow> settled_at (sv_store (fst (snd (over_link lk request s)))) k = Some m"
    using service.run_kept [OF run sv] after by (auto simp: settled_at_def kept_def s)
qed

interpretation adapter: adapter_remote "adapter_link env rg to_json lost lk" "link_ok env rg digest json lk"
    "\<lambda>s. settled_at (sv_store (fst s))"
proof
  fix s s' auth r k n b ack
  assume ok: "link_ok env rg digest json lk s"
  note calls = session.register_ok session.register_settled session.submit_ok session.submit_settled
  show "link_ok env rg digest json lk (snd (rm_register (remote.truncate (adapter_link env rg to_json lost lk)) auth r s))"
    "link_ok env rg digest json lk (snd (rm_submit (remote.truncate (adapter_link env rg to_json lost lk)) auth b s))"
    using ok by (simp_all add: adapter_link_def calls)
  show "link_ok env rg digest json lk (snd (rm_fingerprint (adapter_link env rg to_json lost lk) auth s))"
    using ok by (simp add: adapter_link_def over_link_idle(1) fingerprint_call_def)
  show "settled_at (sv_store (fst (snd (rm_register (remote.truncate (adapter_link env rg to_json lost lk)) auth r s)))) k = Some n"
    "settled_at (sv_store (fst (snd (rm_submit (remote.truncate (adapter_link env rg to_json lost lk)) auth b s)))) k = Some n"
    "settled_at (sv_store (fst (snd (rm_fingerprint (adapter_link env rg to_json lost lk) auth s)))) k = Some n"
    if "settled_at (sv_store (fst s)) k = Some n"
    using that ok calls(2,4) [OF ok that] by (simp_all add: adapter_link_def over_link_idle(2) [OF ok] fingerprint_call_def)
  assume "rm_submit (remote.truncate (adapter_link env rg to_json lost lk)) auth b s = (Inr ack, s')"
    "ibt_memories b \<noteq> []" "taken ack"
  then show "settled_at (sv_store (fst s')) (batch_key_of b) = Some (ak_assigned_lsn ack)"
    using session.submit_taken [OF ok] by (simp add: adapter_link_def seen_as_Inr)
qed

text \<open>
  C32: A window settles or can be submitted again. Submitting a window over a link that may lose requests and
  answers always returns. When it fails, the session is as it was and the cursor file reads as
  before; when it succeeds, the cursor file and the
  session hold the new cursor, and unless a row was permanently rejected every batch of the window
  that has memories is settled in the service. Either way no settlement is taken back.\<close>

theorem window_settles_or_retries:
  assumes "link_laws env rg digest json lk" "server_ok rg sv" "file_laws fa (ac_cursor_path (sn_config sn))"
  shows "\<exists>r sn' f' sv' n'.
    submit_window sx fa (adapter_link env rg to_json lost lk) units cursor sn f (sv, n) = Some (r, sn', f', sv', n') \<and>
    server_ok rg sv' \<and> (\<forall>k m. settled_at (sv_store sv) k = Some m \<longrightarrow> settled_at (sv_store sv') k = Some m) \<and>
    (case r of
       Inl e \<Rightarrow> sn' = sn \<and> fa_read fa (ac_cursor_path (sn_config sn)) f' = fa_read fa (ac_cursor_path (sn_config sn)) f
     | Inr out \<Rightarrow> sn_cursor sn' = Some cursor \<and> fa_read fa (ac_cursor_path (sn_config sn)) f' = Contents cursor \<and>
         wo_cursor_advanced out \<and>
         (\<exists>bs. prepare_batches sx sn units = Some (Inr bs) \<and>
            (wo_permanent_rejections out = [] \<longrightarrow>
               (\<forall>b\<in>set bs. ibt_memories b \<noteq> [] \<longrightarrow> settled_at (sv_store sv') (batch_key_of b) \<noteq> None))))"
proof -
  let ?rm = "adapter_link env rg to_json lost lk"
  have ok: "link_ok env rg digest json lk (sv, n)" using assms(1,2) by (simp add: link_ok_def)
  obtain p where p: "prepare_batches sx sn units = Some p" using prepare_from_rows unfolding prepare_batches_def by blast
  then have "submit_window sx fa ?rm units cursor sn f (sv, n) \<noteq> None"
    by (simp add: submit_window_def split: sum.split prod.split)
  then obtain x where x: "submit_window sx fa ?rm units cursor sn f (sv, n) = Some x" by blast
  obtain r sn' f' sv' n' where "x = (r, sn', f', sv', n')" by (cases x)
  with x have run: "submit_window sx fa ?rm units cursor sn f (sv, n) = Some (r, sn', f', sv', n')" by simp
  note batches = adapter.submit_batches_settles [OF ok] and saved = save_cursor_atomic [OF assms(3)]
  from run show ?thesis
  proof (cases rule: submit_window_cases)
    case (refused e)
    with run assms(2) show ?thesis by auto
  next
    case (failed bs e)
    with run batches [OF failed(2)] show ?thesis by (auto simp: link_ok_def)
  next
    case (unsaved bs out e)
    with run batches [OF unsaved(2)] saved [OF unsaved(3)] show ?thesis by (auto simp: link_ok_def)
  next
    case (settled bs out)
    with run batches [OF settled(4)] saved [OF settled(5)] show ?thesis by (auto simp: link_ok_def)
  qed
qed



text \<open>Files as a map, which never fails.\<close>

definition map_files :: "(string \<Rightarrow> string option) file_api" where
  "map_files =
     \<lparr>fa_read = (\<lambda>p f. case f p of None \<Rightarrow> NotFound | Some t \<Rightarrow> Contents t),
      fa_create_dir_all = (\<lambda>_ f. (Inr (), f)),
      fa_write = (\<lambda>p t f. (Inr (), f(p \<mapsto> t))),
      fa_rename = (\<lambda>a b f. (Inr (), f(b := f a, a := None))),
      fa_parent = (\<lambda>_. Some ''/tmp''), fa_with_extension = (\<lambda>p e. p @ ''.'' @ e)\<rparr>"

lemma map_files_laws: "file_laws map_files path"
  by (auto simp: file_laws_def map_files_def Let_def)

lemma quiet_link_laws: "link_laws env rg digest json quiet_link"
  by (simp add: link_laws_def quiet_link_def)

theorem window_settles_or_retries_witness:
  "\<exists>r sn' f' sv' n'.
     submit_window sample_sdk map_files
       (adapter_link sample_env sample_registries (\<lambda>_. Inl []) (CodeUnavailable, []) quiet_link) [sample_unit] ''c1''
       sample_adapter (\<lambda>_. None) (sample_serving, 0) = Some (r, sn', f', sv', n') \<and>
     server_ok sample_registries sv' \<and>
     (case r of Inl _ \<Rightarrow> sn' = sample_adapter | Inr _ \<Rightarrow> sn_cursor sn' = Some ''c1'')"
proof -
  from window_settles_or_retries [OF quiet_link_laws sample_serving_ok map_files_laws, where sn = sample_adapter and f = "\<lambda>_. None"
      and sx = sample_sdk and units = "[sample_unit]" and cursor = "''c1''" and n = 0 and lost = "(CodeUnavailable, [])"
      and to_json = "\<lambda>_. Inl []" and env = sample_env]
  show ?thesis by (fastforce split: sum.splits)
qed

section \<open>Well-formed sessions\<close>

definition session_ok :: "adapter_config \<Rightarrow> adapter_session \<Rightarrow> bool" where
  "session_ok c sn \<longleftrightarrow>
     sn_config sn = c \<and> length (sn_fingerprint sn) = 32 \<and> sn_ceiling sn = ac_ceiling c \<and>
     length (sn_seen_snapshots sn) \<le> 16 \<and>
     (case sn_manifest sn of None \<Rightarrow> True | Some m \<Rightarrow> vm_manifest_version m = MANIFEST_VERSION) \<and>
     sn_rows_this_run sn < 2 ^ 64 \<and>
     (case ac_projection c of None \<Rightarrow> True | Some p \<Rightarrow> sn_rows_this_run sn \<le> sb_max_rows_per_run (pj_bounds p))"

inductive adapter_run ::
    "sdk_env \<Rightarrow> 'f file_api \<Rightarrow> (tonic_status, 's) sdk_remote \<Rightarrow> adapter_config \<Rightarrow> adapter_session \<Rightarrow> bool"
  for sx :: sdk_env and fa :: "'f file_api" and rm :: "(tonic_status, 's) sdk_remote" and c :: adapter_config where
  connected: "connect_with sx fa rm c f s = (Inr sn, s') \<Longrightarrow> adapter_run sx fa rm c sn"
| window: "adapter_run sx fa rm c sn \<Longrightarrow> submit_window sx fa rm units cursor sn f s = Some (r, sn', f', s') \<Longrightarrow>
    adapter_run sx fa rm c sn'"

lemma push_seen_bound: "length seen \<le> 16 \<Longrightarrow> length (push_seen i seen) \<le> 16"
  by (simp add: push_seen_def Let_def)

lemma note_snapshots_bound: "length seen \<le> 16 \<Longrightarrow> length (note_snapshots units seen) \<le> 16"
  unfolding note_snapshots_def by (induction units arbitrary: seen) (auto simp: push_seen_bound split: option.split)

lemma usable_manifest_version: "usable_manifest sx fp answer = Some m \<Longrightarrow> vm_manifest_version m = MANIFEST_VERSION"
  by (auto simp: usable_manifest_def parse_manifest_def split: sum.splits prod.splits if_splits)

lemma open_session_ok:
  "open_session sx fa rm c auth fp registered f s = (Inr sn, s') \<Longrightarrow> length fp = 32 \<Longrightarrow> session_ok c sn"
  by (auto simp: open_session_def session_ok_def usable_manifest_version split: if_splits sum.splits prod.splits option.split)

lemma connected_ok: "connect_with sx fa rm c f s = (Inr sn, s') \<Longrightarrow> session_ok c sn"
  by (auto simp: connect_with_def split: sum.splits prod.splits if_splits intro: open_session_ok)

lemma window_ok:
  assumes "session_ok c sn" "submit_window sx fa rm units cursor sn f s = Some (r, sn', f', s')"
  shows "session_ok c sn'"
  using assms(2)
proof (cases rule: submit_window_cases)
  case (settled bs out)
  have "saturating_add64 (sn_rows_this_run sn) (window_rows units) < 2 ^ 64"
    by (simp add: saturating_add64_def min_def)
  moreover have "saturating_add64 (sn_rows_this_run sn) (window_rows units) \<le> sb_max_rows_per_run (pj_bounds p)"
    if "ac_projection c = Some p" for p
    using settled(1) that assms(1) by (auto simp: check_window_def session_ok_def and_then_Inr Let_def split: if_splits)
  ultimately show ?thesis
    using assms(1) settled note_snapshots_bound by (auto simp: session_ok_def split: option.splits)
qed (use assms(1) in auto)

text \<open>
  C37: Every session is well formed. Whatever the service and the file system answer, a session that
  connected, and after any windows, keeps its configuration, a fingerprint of 32 bytes, the
  ceiling that was configured and registered, a manifest only of the version it reads, at most 16
  remembered snapshots, and a row count that fits 64 bits and, under a projection, the declared
  bound of the run.\<close>

theorem session_well_formed:
  assumes "adapter_run sx fa rm c sn"
  shows "session_ok c sn"
  using assms by induction (auto intro: connected_ok window_ok)



text \<open>A service that answers every handshake.\<close>

definition sample_remote :: "(tonic_status, unit) sdk_remote" where
  "sample_remote =
     \<lparr>rm_register = (\<lambda>_ _ s. (Inr Org, s)), rm_submit = (\<lambda>_ _ s. (Inl (CodeUnavailable, []), s)),
      rm_connect = (\<lambda>_ s. (Inr (), s)), rm_fingerprint = (\<lambda>_ s. (Inr zeros32, s)),
      rm_preflight = (\<lambda>_ _ s. (Inl (CodeUnavailable, []), s)), rm_manifest = (\<lambda>_ _ s. (Inl (CodeUnimplemented, []), s))\<rparr>"

definition https_sdk :: sdk_env where
  "https_sdk = sample_sdk\<lparr>sx_parse_uri := (\<lambda>_. Inr \<lparr>up_scheme = Some ''https'', up_host = Some ''h''\<rparr>)\<rparr>"

theorem session_well_formed_witness:
  "connect_with https_sdk map_files sample_remote (sn_config sample_adapter) (\<lambda>_. None) () = (Inr sample_adapter, ()) \<and>
   session_ok (sn_config sample_adapter) sample_adapter"
proof -
  have url: "validate_backend_url https_sdk ''https://h'' = Inr ()"
    by (simp add: validate_backend_url_def has_userinfo_def https_sdk_def)
  have "length (zeros32 :: byte list) = 32" by (simp add: zeros32_def)
  then have run: "connect_with https_sdk map_files sample_remote (sn_config sample_adapter) (\<lambda>_. None) () = (Inr sample_adapter, ())"
    using url by (simp add: connect_with_def open_session_def sample_adapter_def new_config_def sample_remote_def
        authenticated_request_def https_sdk_def sample_sdk_def load_cursor_def map_files_def usable_manifest_def Let_def)
  from session_well_formed [OF connected [OF run]] run show ?thesis by blast
qed

end
