(* ===== verification/Spec2Isabelle.thy ===== *)
theory Spec2Isabelle
  imports Adapter_Session
begin

text \<open>
  A verification development for exocortex, a knowledge graph that several producers write and that
  serves each reader only what the reader may see.

  The program. Packs declare memory types, relationship kinds and the triples between them; the
  kernel assembles them into an ontology and judges drafts by it. A storage backend keeps append-only
  histories of memories and relationships, publishes each change to subscribers, and offers leases,
  discoveries and maintenance cycles. The ingest service registers sources, admits, validates and
  commits their batches exactly once, and answers with hints. Producers reach it over a wire with
  checksums and signatures: a client drains its write-ahead log, an adapter submits windows of units.
  Nodes of a cluster exchange the change feed.

  The theories, in the order the parts build on each other, with the code they follow (paths under
  \<open>src/crates\<close>, each crate prefixed \<open>exocortex-\<close>).

  \<^item> \<open>Prelude\<close>: the types of machine integers, hash maps and sorted maps as association lists, results,
    decimal text. \<open>Codec\<close>: byte encodings, with the locale \<open>prefix_code\<close>. \<open>Row_History\<close>: version
    stacks, with the locale \<open>versioned\<close>, interpreted on memories and on relationships.

  \<^item> Kernel (\<open>kernel/src\<close>). \<open>Kernel_Types\<close> (\<open>kinds.rs\<close>, \<open>memory.rs\<close>, \<open>relationship.rs\<close>, \<open>visibility.rs\<close>):
    rows, labels, scores. \<open>Kernel_Ids\<close> (\<open>ids.rs\<close>): identities as hashes of framed coordinates and
    their hexadecimal forms. \<open>Packs\<close> (\<open>pack.rs\<close>, \<open>compatibility.rs\<close>): canonical packs, the summary and its
    fingerprint. \<open>Ontology\<close> (\<open>ontology.rs\<close>): \<open>from_packs\<close>, independent of the order of its packs, and the
    inverse of an edge. \<open>Validator\<close> (\<open>validator.rs\<close>). \<open>Compatibility\<close> (\<open>compatibility.rs\<close>): the subset test
    and the four admission boundaries.

  \<^item> Storage (\<open>storage/src\<close>). \<open>Storage_Types\<close> (\<open>types.rs\<close>, \<open>trait_.rs\<close>): records, errors, and who sees a
    row. \<open>Mem_Store\<close>, \<open>Mem_Lease\<close>, \<open>Mem_Ingest\<close>, \<open>Mem_Discovery\<close>, \<open>Mem_Cycle\<close> and \<open>Mem_Reads\<close>
    (\<open>in_memory.rs\<close>): one definition per operation of the backend on the record \<open>store\<close>. The atomic
    batch refines row-by-row writes, ingest commits are idempotent, leases fence their earlier
    owners, the journaled batches of a cycle roll back to the histories before it, an acceptance
    happens once and exactly as proposed, an audited batch lands with its audit row, and the
    overriding reads answer as the default methods where those do not fail. \<open>Mem_System\<close>: the backend as a transition
    system, its invariant and the locales of its runs.

  \<^item> \<open>Wire\<close> (\<open>wire/src/signing.rs\<close>, \<open>proto\<close>): messages, canonical checksum, signatures. \<open>Cluster_Feed\<close>
    (\<open>cluster/src\<close>): the replay ring, the admission of peer envelopes and one epoch of a feed.

  \<^item> Ingest (\<open>ingest/src\<close>, \<open>wire/src/limits.rs\<close>, \<open>projection.rs\<close>). \<open>Ingest_Rules\<close>: the verdict on one draft.
    \<open>Ingest_Registry\<close>: the server record and registration. \<open>Ingest_Service\<close>: admission, validation,
    commit, hints, \<open>submit\<close> and \<open>preflight\<close>. \<open>Ingest_System\<close>: the service as a state machine over its
    store and its invariant. \<open>Ingest_Writes\<close>: what a submission may write, that it settles once, that
    the dry run agrees with it, that the hint ring of a running service holds committed rows only,
    and what hints disclose. \<open>Ingest_Samples\<close>: a small deployment for
    witnesses.

  \<^item> Client (\<open>client/src\<close>). \<open>Client_Wal\<close> (\<open>wal.rs\<close>): the log over an ordered tree, refining a list of
    entries. \<open>Client_Drain\<close> (\<open>drain.rs\<close>, \<open>wire/src/corrections.rs\<close>): triage and draining over the locale
    \<open>ingest_remote\<close>, interpreted on the ingest service behind a link that may lose requests and
    answers while other requests run. \<open>Ops_Preflight\<close> (\<open>ops/src/preflight.rs\<close>): the local pass and its
    agreement with the service.

  \<^item> Adapter SDK (\<open>adapter-sdk/src\<close>). \<open>Draft_Components\<close> and \<open>Adapter_Split\<close> (\<open>split.rs\<close>): union-find over
    the edges of a unit and packing its components into batches. \<open>Adapter_Manifest\<close> (\<open>manifest.rs\<close> here
    and in \<open>wire\<close>, \<open>validation_manifest\<close> of the service): the rulebook as data gives the verdicts of the
    service. \<open>Adapter_Session\<close> (\<open>lib.rs\<close>): connecting, preparing and submitting a window with bounded
    retries, the durable cursor; the locale \<open>adapter_remote\<close> extends \<open>ingest_remote\<close>.

  This theory holds the properties of whole runs of the backend: the invariant, append-only histories,
  exactly-once commits, fencing of deposed owners, single acceptance, and the stability of as-of reads.

  Bounds and fuel. Sequence numbers are naturals, equal to the code below 2 to the 64; row counts of
  a session and the accounting of the log saturate there as the code does. Counts in
  acknowledgements, kind numbers and versions are words. The index of a split wraps at 2 to the 32.
  Frames of the log are below 4 GiB by hypothesis, the largest its length field can say.
  \<open>storage_retry\<close> makes six attempts and \<open>submit_attempts\<close> the configured number, both by
  recursion that ends; \<open>prepare_from\<close> ends because its budget falls once it is at least 64. The walks
  of \<open>Draft_Components\<close> are partial functions, proved to return on every forest. \<open>drain_all\<close> is
  a partial function too, since with a service that keeps refusing transiently the loop of the code
  does not end: it returns as soon as a pass leaves nothing pending, and its property is about any
  number of passes, whether or not the loop returns.
  The mutation gate of the backend makes every operation one step; the publication after the
  gate is released is part of that step.

  Parameters. Hashes, MAC, protobuf and JSON encoders, the LRU maps, the ordered tree of the log,
  the file system, URI and header parsing, chrono's range of instants, Unicode lower case, regular
  expressions, the embedder with its cosine, drawn ids and clocks are arguments; what is assumed of
  them is a named predicate (\<open>lru_laws\<close>, \<open>tree_laws\<close>, \<open>json_laws\<close>, \<open>file_laws\<close>, \<open>link_laws\<close>), and a
  witness instantiates each.

  Not modelled: the FalkorDB backend, whose behaviour is the Cypher text it sends; the scheduler and
  the scoring of dreams, and the reasoning engine and cache, which compute with floating-point
  scores over the reads of the store; the source adapters, the HTTP and MCP handlers, supervision
  and telemetry, which are I/O around the modelled operations; the re-embedding of the graph, the
  delivery loop of effects and the streaming wrapper of the ingest service; the jitter of delays;
  the data of the distributed packs; repository automation.
\<close>

section \<open>Properties of every run\<close>

text \<open>
  C1: Whatever operations run, in whatever order and with whatever arguments, from an empty
  backend, the store stays consistent: histories, index and feed of the graph agree, delivery
  generations are unshared, held leases carry the current epoch, no id is both a discovery and a
  proposal, and every journal sits under its lease key.\<close>

theorem store_invariant:
  assumes "(store_step h digest json)\<^sup>*\<^sup>* (build onto recognized) st"
  shows "store_ok st"
  using assms by (intro backend.reach_ok [of "build onto recognized"]) (auto simp: initial_def)

lemma initial_store: "store_ok (new_store onto)"
  unfolding new_store_def by (intro initial_ok) (auto simp: initial_def)

lemma sample_store_whole: "store_ok sample_store"
proof -
  have "keeps (new_store sample_ontology) sample_store"
    unfolding sample_store_def by (rule keeps_tables) simp
  with initial_store [of sample_ontology] sample_store_ok show ?thesis by (simp add: store_ok_def keeps_def)
qed

theorem store_invariant_witness:
  "store_ok (snd (restore_fenced 3 empty_restore sample_old_lease (snd (upsert_memory 1 sample_mention (build sample_ontology [])))))"
proof -
  let ?a = "snd (upsert_memory 1 sample_mention (build sample_ontology []))"
  have "store_step id id (\<lambda>_. Inr []) (build sample_ontology []) ?a" by (intro ss_write ws_upsert_memory)
  moreover have "store_step id id (\<lambda>_. Inr []) ?a (snd (restore_fenced 3 empty_restore sample_old_lease ?a))" by (rule ss_restore)
  ultimately have "(store_step id id (\<lambda>_. Inr []))\<^sup>*\<^sup>* (build sample_ontology [])
      (snd (restore_fenced 3 empty_restore sample_old_lease ?a))"
    by (meson converse_rtranclp_into_rtranclp rtranclp.rtrancl_refl)
  then show ?thesis by (rule store_invariant)
qed

text \<open>
  C2: The graph is append-only.  Along any run of operations other than the rollback of a
  maintenance cycle, no version of a memory or relationship is rewritten or removed, no index
  entry, feed message or audit row is lost, and the sequence number does not fall.\<close>

theorem history_append_only:
  assumes "store_ok st" "(write_step h digest json)\<^sup>*\<^sup>* st st'"
  shows "prefix (memory_history st i) (memory_history st' i) \<and>
    prefix (relationship_history st j) (relationship_history st' j) \<and>
    prefix (s_feed st) (s_feed st') \<and> prefix (s_audits st) (s_audits st') \<and> last_lsn st \<le> last_lsn st'"
  using appends.run_kept [OF assms(2,1)]
  by (simp add: grows_def memory_history_hist relationship_history_hist last_lsn_def)

theorem history_append_only_witness:
  "prefix (memory_history sample_store (MemoryId [1])) (memory_history (snd (delete_memory 4 (MemoryId [1]) sample_store)) (MemoryId [1]))"
proof -
  have "(write_step id id (\<lambda>_. Inr []))\<^sup>*\<^sup>* sample_store (snd (delete_memory 4 (MemoryId [1]) sample_store))"
    by (intro r_into_rtranclp ws_delete_memory)
  from history_append_only [OF sample_store_whole this] show ?thesis by blast
qed

text \<open>
  C22: The past is stable.  Along any run of operations other than a rollback, if every version
  the run adds is recorded after an instant, then the as-of read of every memory at that instant
  answers as before, and the snapshot at that instant counts the same memories and relationships
  (its log position is the present one).  A version recorded with an earlier date does change the
  past, which is why the hypothesis is on the recording dates.\<close>

theorem as_of_stable:
  assumes "store_ok st" "(write_step h digest json)\<^sup>*\<^sup>* st st'"
    and "\<And>i v. v \<in> set (drop (length (memory_history st i)) (memory_history st' i)) \<Longrightarrow> t < m_recorded_at v"
    and "\<And>j v. v \<in> set (drop (length (relationship_history st j)) (relationship_history st' j)) \<Longrightarrow> t < r_recorded_at v"
  shows "valid_at i t st' = valid_at i t st \<and>
    gs_memory_count (get_state_at t st') = gs_memory_count (get_state_at t st) \<and>
    gs_relationship_count (get_state_at t st') = gs_relationship_count (get_state_at t st)"
proof -
  from appends.run_kept [OF assms(2,1)]
  have pre: "prefix (memory_history st i) (memory_history st' i)" "prefix (relationship_history st j) (relationship_history st' j)" for i j
    by (simp_all add: grows_def memory_history_hist relationship_history_hist)
  have m: "valid_at i t st' = valid_at i t st" for i
    using pre(1) [of i] assms(3) [of _ i] by (auto simp: prefix_def intro: valid_at_later)
  have "known_relationship t (relationship_history st' j) = known_relationship t (relationship_history st j)" for j
    using pre(2) [of j] assms(4) [of _ j] by (auto simp: prefix_def known_relationship_later)
  then have r: "spans_at t j st' = spans_at t j st" for j by (simp add: spans_at_def)
  have "graph_ok st" "graph_ok st'"
    using assms(1) appends.run_ok [OF assms(2,1)] by (simp_all add: store_ok_def)
  with m r show ?thesis by (simp add: snapshot_counts)
qed

theorem as_of_stable_witness:
  "valid_at (MemoryId [1]) 3 (snd (delete_memory 4 (MemoryId [1]) sample_store)) = valid_at (MemoryId [1]) 3 sample_store"
proof -
  let ?st = "snd (delete_memory 4 (MemoryId [1]) sample_store)"
  have run: "(write_step id id (\<lambda>_. Inr []))\<^sup>*\<^sup>* sample_store ?st" by (intro r_into_rtranclp ws_delete_memory)
  have new: "\<exists>new. memory_history ?st i = memory_history sample_store i @ new \<and> (\<forall>v\<in>set new. m_recorded_at v = 4)" for i
    by (auto simp: delete_memory_def delete_memory_locked_def next_lsn_def send_def memory_history_hist close_memory_def Let_def
      split: option.splits)
  have m: "3 < m_recorded_at v" if "v \<in> set (drop (length (memory_history sample_store i)) (memory_history ?st i))" for i v
  proof -
    obtain new where "memory_history ?st i = memory_history sample_store i @ new" "\<forall>v\<in>set new. m_recorded_at v = 4"
      using new by blast
    with that show ?thesis by simp
  qed
  have r: "relationship_history ?st j = relationship_history sample_store j" for j
    by (auto simp: delete_memory_def delete_memory_locked_def next_lsn_def send_def relationship_history_hist Let_def
      split: option.splits)
  from as_of_stable [OF sample_store_whole run, of 3 "MemoryId [1]"] m r show ?thesis by simp
qed

text \<open>
  C4: Ingest is exactly once across any run.  Once a batch key has committed, through the plain
  commit or through the commit with an effect that the service uses, every later commit of either
  kind under that key, after any operations in between and with any rows, answers with the
  settlement of the first and changes nothing.\<close>

theorem ingest_exactly_once:
  assumes "store_ok st"
    and "commit_ingest_batch h now key ms rs accepted st = (Inr (Committed recs s), st1) \<or>
      commit_ingest_batch_with_effect h now key ms rs accepted effect0 st = (Inr (Committed recs s), st1)"
    and "(store_step h digest json)\<^sup>*\<^sup>* st1 st2"
  shows "commit_ingest_batch h now' key ms' rs' accepted' st2 = (Inr (Duplicate s), st2) \<and>
    (\<not> s_fail_next_ingest_commit st2 \<longrightarrow>
      commit_ingest_batch_with_effect h now' key ms' rs' accepted' effect st2 = (Inr (Duplicate s), st2))"
proof -
  obtain e where run: "commit_published h now key ms rs accepted e st = (Inr (Committed recs s), st1)"
    using assms(2) by (auto simp: commit_ingest_batch_eq commit_ingest_batch_with_effect_def commit_published_def split: if_splits)
  have "store_step h digest json st st1"
    using assms(2) ss_write ws_commit [of h digest json st now key ms rs accepted]
      ws_commit_effect [of h digest json st now key ms rs accepted effect0] by auto
  then have ok1: "store_ok st1" using backend.step_ok [OF assms(1)] by blast
  have "hm_get (s_settled_ingest st1) key = Some s"
    using run by (auto simp: commit_published_eq split: option.splits prod.splits sum.splits)
  with backend.run_kept [OF assms(3) ok1] have "hm_get (s_settled_ingest st2) key = Some s" by (simp add: kept_def)
  then show ?thesis by (simp add: commit_ingest_batch_eq commit_with_effect_eq commit_published_eq)
qed

theorem ingest_exactly_once_witness:
  "\<exists>recs s st1. commit_ingest_batch_with_effect id 0 sample_key [] [sample_link] 1 sample_effect sample_store =
       (Inr (Committed recs s), st1) \<and>
     commit_ingest_batch id 5 sample_key sample_memory_pair [] 7 (snd (delete_memory 4 (MemoryId [1]) st1)) =
       (Inr (Duplicate s), snd (delete_memory 4 (MemoryId [1]) st1))"
proof -
  obtain recs s st1 where run: "commit_ingest_batch_with_effect id 0 sample_key [] [sample_link] 1 sample_effect sample_store =
      (Inr (Committed recs s), st1)"
    by (simp add: commit_with_effect_eq commit_published_eq sample_batch effect_conflict_def)
  have "(store_step id id (\<lambda>_. Inr []))\<^sup>*\<^sup>* st1 (snd (delete_memory 4 (MemoryId [1]) st1))"
    by (intro r_into_rtranclp ss_write ws_delete_memory)
  from ingest_exactly_once [OF sample_store_whole disjI2 [OF run] this] run show ?thesis by blast
qed

text \<open>
  C5: A deposed owner stays fenced.  When a lease has been granted again on the same key, then
  after any further operations every operation that checks the lease (the fenced batch, the
  journaled batch, closing a journal, restoring, storing a discovery, deleting a memory, settling a
  cycle and asking whether a cycle succeeded) refuses the earlier lease with the fence error of its
  epoch and leaves the store as it is; a settlement whose own records have no digest is refused
  with that error instead.  Renewing the earlier lease fails and releasing it changes nothing.\<close>

theorem deposed_owner_fenced:
  assumes ok: "store_ok st" and first: "acquire_lease now key ttl st = (Inr old, st1)"
    and run1: "(store_step h digest json)\<^sup>*\<^sup>* st1 st2" and second: "acquire_lease now' key ttl' st2 = (Inr new, st3)"
    and run2: "(store_step h digest json)\<^sup>*\<^sup>* st3 st4"
  shows "ol_epoch old < ol_epoch new \<and>
    upsert_batch_fenced h t ms rs old st4 = (Inl (FencedWriteRejected (ol_epoch old)), st4) \<and>
    upsert_batch_fenced_journaled h t ms rs prepared cycle_id old st4 = (Inl (FencedWriteRejected (ol_epoch old)), st4) \<and>
    complete_cycle_journal_fenced t cycle_id old st4 = (Inl (FencedWriteRejected (ol_epoch old)), st4) \<and>
    restore_fenced t r old st4 = (Inl (FencedWriteRejected (ol_epoch old)), st4) \<and>
    store_discovery_fenced t d old st4 = (Inl (FencedWriteRejected (ol_epoch old)), st4) \<and>
    delete_memory_fenced t i old st4 = (Inl (FencedWriteRejected (ol_epoch old)), st4) \<and>
    settle_dreams_cycle_fenced digest json t cycle_id records old st4 =
      (case dreams_settlement_effect_digest digest json records of
         Inl e \<Rightarrow> (Inl e, st4) | Inr _ \<Rightarrow> (Inl (FencedWriteRejected (ol_epoch old)), st4)) \<and>
    cycle_succeeded_fenced t cycle_id old st4 = Inl (FencedWriteRejected (ol_epoch old)) \<and>
    (\<exists>err. renew_lease t old st4 = (Inl err, st4)) \<and> release_lease old st4 = (Inr (), st4)"
proof -
  have acq: "ol_key l = k \<and> ol_fencing_token l = lease_token (ol_epoch l) \<and>
      ol_epoch l = current_epoch k s + 1 \<and> current_epoch k s' = ol_epoch l" if "acquire_lease n k tt s = (Inr l, s')" for l k s s' n tt
    using that by (auto simp: acquire_lease_def next_epoch_def current_epoch_def Let_def split: if_splits option.splits)
  have step: "store_ok s'" if "acquire_lease n k tt s = (Inr l, s')" "store_ok s" for n k tt s l s'
    using backend.step_ok [OF that(2) ss_write [OF ws_acquire]] that(1) by (metis snd_conv)
  have ok1: "store_ok st1" using step [OF first ok] .
  have ok2: "store_ok st2" using backend.run_ok [OF run1 ok1] .
  have ok3: "store_ok st3" using step [OF second ok2] .
  have ok4: "store_ok st4" using backend.run_ok [OF run2 ok3] .
  have old: "ol_epoch old \<le> current_epoch key st2"
    using backend.run_kept [OF run1 ok1] acq [OF first] by (simp add: kept_def) metis
  then have lt: "ol_epoch old < ol_epoch new" using acq [OF second] by simp
  have "ol_epoch new \<le> current_epoch key st4"
    using backend.run_kept [OF run2 ok3] acq [OF second] by (simp add: kept_def) metis
  with stale_lease_rejected [of st2 now' key ttl' new st3 st4 old "ol_epoch old" t] second old acq [OF first] ok2 ok4
  have "check_lease_current t old st4 = Inl (FencedWriteRejected (ol_epoch old)) \<and>
      (\<exists>err. renew_lease t old st4 = (Inl err, st4)) \<and> release_lease old st4 = (Inr (), st4)"
    by (simp add: store_ok_def tables_ok_def)
  with lt show ?thesis
    by (simp add: upsert_batch_fenced_def upsert_batch_fenced_journaled_def complete_cycle_journal_fenced_def
        restore_fenced_def store_discovery_fenced_def delete_memory_fenced_def settle_dreams_cycle_fenced_def
        cycle_succeeded_fenced_def split: sum.split)
qed

theorem deposed_owner_fenced_witness:
  "\<exists>old new st1 st3. acquire_lease 0 sample_lease_key 10 sample_store = (Inr old, st1) \<and>
     acquire_lease 20 sample_lease_key 10 st1 = (Inr new, st3) \<and>
     upsert_batch_fenced id 21 [] [sample_link] old st3 = (Inl (FencedWriteRejected 1), st3)"
proof -
  have first: "acquire_lease 0 sample_lease_key 10 sample_store = (Inr sample_old_lease, sample_leased)" by (rule sample_acquire)
  obtain new st3 where second: "acquire_lease 20 sample_lease_key 10 sample_leased = (Inr new, st3)"
    using sample_leased_get by (simp add: acquire_lease_def Let_def)
  from deposed_owner_fenced [OF sample_store_whole first rtranclp.rtrancl_refl second rtranclp.rtrancl_refl, of id 21]
  have "upsert_batch_fenced id 21 [] [sample_link] sample_old_lease st3 =
      (Inl (FencedWriteRejected (ol_epoch sample_old_lease)), st3)" by blast
  moreover have "ol_epoch sample_old_lease = 1" by (simp add: sample_old_lease_def)
  ultimately show ?thesis using first second by fastforce
qed

text \<open>
  C16: A discovery is accepted at most once across any run: after one acceptance, whatever runs
  in between, every acceptance with that id is refused and changes nothing, and the id is neither
  proposed nor stored again.\<close>

theorem acceptance_once_for_all:
  assumes "store_ok st" "accept_discovery h now acc st = (Inr rec, st1)"
    and "(store_step h digest json)\<^sup>*\<^sup>* st1 st2" and "da_discovery_id acc' = da_discovery_id acc"
  shows "accept_discovery h now' acc' st2 = (Inl ProposalNotFound, st2) \<and>
    get_discovery_proposal (da_discovery_id acc) st2 = None \<and> get_discovery (da_discovery_id acc) st2 = None"
proof -
  obtain p where p: "hm_get (s_proposals st1) (da_discovery_id acc) = Some p" "sp_consumed p"
    using assms(2) by (auto simp: accept_discovery_eq split: option.splits if_splits)
  have "store_step h digest json st (snd (accept_discovery h now acc st))" by (intro ss_write ws_accept)
  then have ok1: "store_ok st1" using backend.step_ok [OF assms(1)] assms(2) by (metis snd_conv)
  from backend.run_kept [OF assms(3) this] p obtain q
    where q: "hm_get (s_proposals st2) (da_discovery_id acc) = Some q" "sp_consumed q" unfolding kept_def by blast
  have "discoveries_ok st2" using backend.run_ok [OF assms(3) ok1] by (simp add: store_ok_def tables_ok_def)
  with q have "hm_get (s_discoveries st2) (da_discovery_id acc) = None" unfolding discoveries_ok_def by blast
  with q assms(4) show ?thesis by (simp add: accept_discovery_eq get_discovery_proposal_def get_discovery_def)
qed

theorem acceptance_once_for_all_witness:
  "\<exists>rec st1. accept_discovery id 0 sample_acceptance sample_proposed = (Inr rec, st1) \<and>
     accept_discovery id 9 sample_acceptance (snd (delete_memory 4 (MemoryId [1]) st1)) =
       (Inl ProposalNotFound, snd (delete_memory 4 (MemoryId [1]) st1))"
proof -
  have step: "store_ok t" if "store_ok s" "store_step id id (\<lambda>_. Inr []) s t" for s t using backend.step_ok that .
  have ok: "store_ok sample_proposed"
    unfolding sample_proposed_def
    by (rule step [OF step [OF sample_store_whole ss_write [OF ws_store]] ss_write [OF ws_create]])
  obtain rec st1 where run: "accept_discovery id 0 sample_acceptance sample_proposed = (Inr rec, st1)"
    using sample_accepted by blast
  have "(store_step id id (\<lambda>_. Inr []))\<^sup>*\<^sup>* st1 (snd (delete_memory 4 (MemoryId [1]) st1))"
    by (intro r_into_rtranclp ss_write ws_delete_memory)
  from acceptance_once_for_all [OF ok run this refl] run show ?thesis by blast
qed

end
